(* ===== verification/Prelude.thy ===== *)
theory Prelude
  imports Main "HOL-Library.Word" "HOL-Library.FSet" "HOL-Library.Finite_Map"
    "HOL-Library.List_Lexorder" "HOL-Library.Sublist" "HOL-Library.Monad_Syntax"
begin

text \<open>
  Shared vocabulary of the development.

  The theory fixes how Rust's data is read in HOL: bytes are \<open>8 word\<close>, byte vectors and
  arrays are lists of bytes (a fixed-size array \<open>[u8; n]\<close> is a list whose length the
  well-formedness predicates state), unsigned integers that only take part in saturating
  arithmetic are \<open>nat\<close> with the saturation bound written out, hash maps and hash sets are
  finite maps and finite sets. It holds the big-endian integer encodings, the cursor reads
  every wire decoder of the crate is written with, the UTF-8 check of
  \<open>String::from_utf8\<close>, and the codec interface that the wire messages implement.
\<close>

section \<open>Types and rule collections\<close>

type_synonym u8 = "8 word"
type_synonym u16 = "16 word"
type_synonym u32 = "32 word"
type_synonym u64 = "64 word"
type_synonym bytes = "u8 list"
type_synonym bytes32 = "u8 list"
type_synonym peer_id = "bytes32"

named_theorems cursor_simps \<open>evaluation of cursor reads on encoded data\<close>
named_theorems wire_defs \<open>definitions of wire encoders and decoders\<close>

section \<open>Rust integer arithmetic\<close>

definition u32_max :: nat where
  "u32_max = 2 ^ 32 - 1"

definition u64_max :: nat where
  "u64_max = 2 ^ 64 - 1"

definition sat_add32 :: "nat \<Rightarrow> nat \<Rightarrow> nat" where
  "sat_add32 a b = min (a + b) u32_max"

definition sat_add64 :: "nat \<Rightarrow> nat \<Rightarrow> nat" where
  "sat_add64 a b = min (a + b) u64_max"

definition sat_mul64 :: "nat \<Rightarrow> nat \<Rightarrow> nat" where
  "sat_mul64 a b = min (a * b) u64_max"

lemma sat_add32_le: "sat_add32 a b \<le> u32_max"
  by (simp add: sat_add32_def)

lemma sat_add64_le: "sat_add64 a b \<le> u64_max"
  by (simp add: sat_add64_def)

lemma sat_add32_ge: "a \<le> u32_max \<Longrightarrow> a \<le> sat_add32 a b"
  by (simp add: sat_add32_def)

lemma sat_add64_ge: "a \<le> u64_max \<Longrightarrow> a \<le> sat_add64 a b"
  by (simp add: sat_add64_def)

lemma sat_add64_exact: "a + b \<le> u64_max \<Longrightarrow> sat_add64 a b = a + b"
  by (simp add: sat_add64_def)

lemma unat_bound: "unat (w :: 'a::len word) < 2 ^ LENGTH('a)"
  by (rule unsigned_less)

section \<open>Big-endian encodings\<close>

primrec be_of_nat :: "nat \<Rightarrow> nat \<Rightarrow> bytes" where
  "be_of_nat 0 n = []"
| "be_of_nat (Suc k) n = be_of_nat k (n div 256) @ [of_nat (n mod 256)]"

definition nat_of_be :: "bytes \<Rightarrow> nat" where
  "nat_of_be bs = foldl (\<lambda>a b. a * 256 + unat b) 0 bs"

lemma length_be_of_nat [simp]: "length (be_of_nat k n) = k"
  by (induction k arbitrary: n) auto

lemma nat_of_be_Nil [simp]: "nat_of_be [] = 0"
  by (simp add: nat_of_be_def)

lemma nat_of_be_snoc [simp]: "nat_of_be (bs @ [b]) = nat_of_be bs * 256 + unat b"
  by (simp add: nat_of_be_def)

lemma unat_of_nat_mod256: "unat (of_nat (n mod 256) :: u8) = n mod 256"
  by (simp add: unat_of_nat)

lemma nat_of_be_be_of_nat: "nat_of_be (be_of_nat k n) = n mod 256 ^ k"
proof (induction k arbitrary: n)
  case 0
  then show ?case by simp
next
  case (Suc k)
  have "nat_of_be (be_of_nat (Suc k) n) = (n div 256 mod 256 ^ k) * 256 + n mod 256"
    by (simp add: Suc.IH unat_of_nat_mod256)
  also have "\<dots> = n mod 256 ^ Suc k"
    by (simp add: mod_mult2_eq)
  finally show ?case .
qed

lemma nat_of_be_less: "nat_of_be bs < 256 ^ length bs"
proof (induction bs rule: rev_induct)
  case Nil
  then show ?case by simp
next
  case (snoc b bs)
  have "unat b < 256" using unat_bound [of b] by simp
  with snoc.IH have "nat_of_be bs * 256 + unat b < (nat_of_be bs + 1) * 256" by simp
  also have "\<dots> \<le> 256 ^ length bs * 256"
    using snoc.IH by (intro mult_right_mono) auto
  finally show ?case by (simp add: mult.commute)
qed

lemma be_of_nat_nat_of_be: "be_of_nat (length bs) (nat_of_be bs) = bs"
proof (induction bs rule: rev_induct)
  case Nil
  then show ?case by simp
next
  case (snoc b bs)
  have b: "unat b < 256" using unat_bound [of b] by simp
  then show ?case using snoc.IH by simp
qed

definition be16 :: "u16 \<Rightarrow> bytes" where
  "be16 w = be_of_nat 2 (unat w)"

definition be32 :: "u32 \<Rightarrow> bytes" where
  "be32 w = be_of_nat 4 (unat w)"

definition be64 :: "u64 \<Rightarrow> bytes" where
  "be64 w = be_of_nat 8 (unat w)"

lemma length_be [simp]: "length (be16 w) = 2" "length (be32 x) = 4" "length (be64 y) = 8"
  by (simp_all add: be16_def be32_def be64_def)

lemma of_be16 [simp]: "of_nat (nat_of_be (be16 w)) = w"
  using unat_bound [of w] by (simp add: be16_def nat_of_be_be_of_nat)

lemma of_be32 [simp]: "of_nat (nat_of_be (be32 w)) = w"
  using unat_bound [of w] by (simp add: be32_def nat_of_be_be_of_nat)

lemma of_be64 [simp]: "of_nat (nat_of_be (be64 w)) = w"
  using unat_bound [of w] by (simp add: be64_def nat_of_be_be_of_nat)

lemma be_inject [simp]:
  "be16 a = be16 b \<longleftrightarrow> a = b" "be32 c = be32 d \<longleftrightarrow> c = d" "be64 e = be64 f \<longleftrightarrow> e = f"
  by (metis of_be16, metis of_be32, metis of_be64)

lemma nat_of_be_unat:
  "length bs = 2 \<Longrightarrow> unat (of_nat (nat_of_be bs) :: u16) = nat_of_be bs"
  "length bs = 4 \<Longrightarrow> unat (of_nat (nat_of_be bs) :: u32) = nat_of_be bs"
  "length bs = 8 \<Longrightarrow> unat (of_nat (nat_of_be bs) :: u64) = nat_of_be bs"
  using nat_of_be_less [of bs] by (simp_all add: unat_of_nat)

lemma be16_of_be: "length bs = 2 \<Longrightarrow> be16 (of_nat (nat_of_be bs)) = bs"
  using be_of_nat_nat_of_be [of bs] by (simp add: be16_def nat_of_be_unat)

lemma be32_of_be: "length bs = 4 \<Longrightarrow> be32 (of_nat (nat_of_be bs)) = bs"
  using be_of_nat_nat_of_be [of bs] by (simp add: be32_def nat_of_be_unat)

lemma be64_of_be: "length bs = 8 \<Longrightarrow> be64 (of_nat (nat_of_be bs)) = bs"
  using be_of_nat_nat_of_be [of bs] by (simp add: be64_def nat_of_be_unat)

section \<open>Cursor reads\<close>

text \<open>
  Every variable-length decoder of the crate walks the frame with a position: it takes
  \<open>bytes.get(pos..pos + n)\<close>, fails when the range is out of bounds, and advances the
  position. \<open>holds bs pos xs\<close> says that the frame has the bytes \<open>xs\<close> at \<open>pos\<close>; a
  reader is described by the encoding it recognises there.
\<close>

definition holds :: "bytes \<Rightarrow> nat \<Rightarrow> bytes \<Rightarrow> bool" where
  "holds bs pos xs \<longleftrightarrow> pos + length xs \<le> length bs \<and> take (length xs) (drop pos bs) = xs"

lemma take_drop_split:
  "take (m + n) (drop pos bs) = take m (drop pos bs) @ take n (drop (pos + m) bs)"
  by (simp add: take_add add.commute)

lemma holds_append [cursor_simps]:
  "holds bs pos (xs @ ys) \<longleftrightarrow> holds bs pos xs \<and> holds bs (pos + length xs) ys"
proof
  assume a: "holds bs pos (xs @ ys)"
  then have t: "take (length xs) (drop pos bs) @ take (length ys) (drop (pos + length xs) bs) = xs @ ys"
    by (simp add: holds_def take_drop_split)
  moreover have "length (take (length xs) (drop pos bs)) = length xs"
    using a by (auto simp: holds_def)
  ultimately show "holds bs pos xs \<and> holds bs (pos + length xs) ys"
    using a by (simp add: holds_def)
next
  assume "holds bs pos xs \<and> holds bs (pos + length xs) ys"
  then show "holds bs pos (xs @ ys)"
    by (simp add: holds_def take_drop_split)
qed

lemma holds_Nil [simp]: "holds bs pos [] \<longleftrightarrow> pos \<le> length bs"
  by (simp add: holds_def)

lemma holds_Cons [cursor_simps]:
  "holds bs pos (x # xs) \<longleftrightarrow> holds bs pos [x] \<and> holds bs (Suc pos) xs"
  using holds_append [of bs pos "[x]" xs] by simp

lemma holds_single: "holds bs pos [x] \<longleftrightarrow> pos < length bs \<and> bs ! pos = x"
  by (auto simp: holds_def take_Suc_conv_app_nth hd_drop_conv_nth take_Suc)

lemma holds_whole: "holds bs 0 xs \<and> length xs = length bs \<longleftrightarrow> xs = bs"
  by (auto simp: holds_def)

lemma holds_le: "holds bs pos xs \<Longrightarrow> pos + length xs \<le> length bs"
  by (simp add: holds_def)

definition take_n :: "nat \<Rightarrow> bytes \<Rightarrow> nat \<Rightarrow> (bytes \<times> nat) option" where
  "take_n n bs pos =
     (if pos + n \<le> length bs then Some (take n (drop pos bs), pos + n) else None)"

lemma take_n_iff [cursor_simps]:
  "take_n n bs pos = Some (x, p) \<longleftrightarrow> length x = n \<and> holds bs pos x \<and> p = pos + n"
  by (auto simp: take_n_def holds_def)

primrec take_list ::
  "(bytes \<Rightarrow> nat \<Rightarrow> ('a \<times> nat) option) \<Rightarrow> nat \<Rightarrow> bytes \<Rightarrow> nat \<Rightarrow> ('a list \<times> nat) option" where
  "take_list rd 0 bs pos = Some ([], pos)"
| "take_list rd (Suc n) bs pos =
     do { (x, pos) \<leftarrow> rd bs pos;
          (xs, pos) \<leftarrow> take_list rd n bs pos;
          Some (x # xs, pos) }"

lemma take_list_Suc_iff:
  "take_list rd (Suc n) bs pos = Some (zs, p) \<longleftrightarrow>
     (\<exists>x xs q. zs = x # xs \<and> rd bs pos = Some (x, q) \<and> take_list rd n bs q = Some (xs, p))"
  by (auto simp: bind_eq_Some_conv)

declare take_list.simps(2) [simp del]

text \<open>
  The interface of a reader: it recognises exactly the encodings \<open>enc x\<close> of well-formed
  values at the cursor. From the one law follow the same law for a counted sequence.
\<close>

locale wire_reader =
  fixes enc :: "'a \<Rightarrow> bytes"
    and rd :: "bytes \<Rightarrow> nat \<Rightarrow> ('a \<times> nat) option"
    and wf :: "'a \<Rightarrow> bool"
  assumes read_iff:
    "rd bs pos = Some (x, p) \<longleftrightarrow> wf x \<and> holds bs pos (enc x) \<and> p = pos + length (enc x)"
begin

lemma read_list_iff:
  assumes "pos \<le> length bs"
  shows "take_list rd n bs pos = Some (xs, p) \<longleftrightarrow>
     length xs = n \<and> (\<forall>x \<in> set xs. wf x) \<and> holds bs pos (concat (map enc xs))
     \<and> p = pos + length (concat (map enc xs))"
  using assms
proof (induction n arbitrary: pos xs)
  case 0
  then show ?case by auto
next
  case (Suc n)
  have "take_list rd (Suc n) bs pos = Some (xs, p) \<longleftrightarrow>
      (\<exists>y ys. xs = y # ys \<and> wf y \<and> holds bs pos (enc y)
        \<and> take_list rd n bs (pos + length (enc y)) = Some (ys, p))"
    by (auto simp: take_list_Suc_iff read_iff)
  also have "\<dots> \<longleftrightarrow> (\<exists>y ys. xs = y # ys \<and> wf y \<and> holds bs pos (enc y)
        \<and> length ys = n \<and> (\<forall>x \<in> set ys. wf x)
        \<and> holds bs (pos + length (enc y)) (concat (map enc ys))
        \<and> p = pos + length (enc y) + length (concat (map enc ys)))"
    using Suc.IH holds_le by blast
  also have "\<dots> \<longleftrightarrow> length xs = Suc n \<and> (\<forall>x \<in> set xs. wf x)
        \<and> holds bs pos (concat (map enc xs)) \<and> p = pos + length (concat (map enc xs))"
    by (cases xs) (auto simp: holds_append)
  finally show ?case .
qed

lemma read_enc: "wf x \<Longrightarrow> rd (enc x @ rest) 0 = Some (x, length (enc x))"
  by (simp add: read_iff holds_def)

text \<open>A sequence of self-delimiting encodings is itself uniquely readable, without a count.\<close>

lemma concat_enc_inj:
  assumes "\<And>x. enc x \<noteq> []" "\<forall>x \<in> set xs. wf x" "\<forall>y \<in> set ys. wf y"
    and "concat (map enc xs) = concat (map enc ys)"
  shows "xs = ys"
  using assms(2-)
proof (induction xs arbitrary: ys)
  case Nil
  then show ?case using assms(1) by (cases ys) auto
next
  case (Cons x xs)
  show ?case
  proof (cases ys)
    case Nil
    then show ?thesis using Cons.prems(3) assms(1) by simp
  next
    case (Cons y ys')
    let ?bs = "concat (map enc (x # xs))"
    have "rd ?bs 0 = Some (x, length (enc x))" using Cons.prems(1) read_enc by simp
    moreover have "rd ?bs 0 = Some (y, length (enc y))"
      using Cons.prems(2,3) Cons read_enc [of y] by simp
    ultimately have "x = y" by simp
    then show ?thesis using Cons.IH [of ys'] Cons.prems Cons by simp
  qed
qed

end

definition take_u16 :: "bytes \<Rightarrow> nat \<Rightarrow> (u16 \<times> nat) option" where
  "take_u16 bs pos = map_option (\<lambda>(v, p). (of_nat (nat_of_be v), p)) (take_n 2 bs pos)"

definition take_u64 :: "bytes \<Rightarrow> nat \<Rightarrow> (u64 \<times> nat) option" where
  "take_u64 bs pos = map_option (\<lambda>(v, p). (of_nat (nat_of_be v), p)) (take_n 8 bs pos)"

definition take_32 :: "bytes \<Rightarrow> nat \<Rightarrow> (bytes32 \<times> nat) option" where
  "take_32 bs pos = take_n 32 bs pos"

lemma take_32_iff [cursor_simps]:
  "take_32 bs pos = Some (x, p) \<longleftrightarrow> length x = 32 \<and> holds bs pos x \<and> p = pos + 32"
  by (simp add: take_32_def take_n_iff)

lemma take_u16_iff [cursor_simps]:
  "take_u16 bs pos = Some (w, p) \<longleftrightarrow> holds bs pos (be16 w) \<and> p = pos + 2"
proof -
  have "\<exists>v. take_n 2 bs pos = Some (v, p) \<and> w = of_nat (nat_of_be v)"
    if "holds bs pos (be16 w)" "p = pos + 2"
    using that by (auto simp: take_n_iff intro!: exI [of _ "be16 w"])
  then show ?thesis
    by (auto simp: take_u16_def take_n_iff be16_of_be)
qed

lemma take_u64_iff [cursor_simps]:
  "take_u64 bs pos = Some (w, p) \<longleftrightarrow> holds bs pos (be64 w) \<and> p = pos + 8"
proof -
  have "\<exists>v. take_n 8 bs pos = Some (v, p) \<and> w = of_nat (nat_of_be v)"
    if "holds bs pos (be64 w)" "p = pos + 8"
    using that by (auto simp: take_n_iff intro!: exI [of _ "be64 w"])
  then show ?thesis
    by (auto simp: take_u64_def take_n_iff be64_of_be)
qed

text \<open>Length-prefixed byte strings: \<open>put_bytes\<close> and \<open>take_bytes\<close> of the wire modules.\<close>

definition put_bytes :: "bytes \<Rightarrow> bytes" where
  "put_bytes bs = be16 (of_nat (length bs)) @ bs"

definition take_bytes :: "bytes \<Rightarrow> nat \<Rightarrow> (bytes \<times> nat) option" where
  "take_bytes bs pos = do { (len, pos) \<leftarrow> take_u16 bs pos; take_n (unat len) bs pos }"

lemma take_bytes_iff [cursor_simps]:
  "take_bytes bs pos = Some (x, p) \<longleftrightarrow>
     length x < 2 ^ 16 \<and> holds bs pos (put_bytes x) \<and> p = pos + length (put_bytes x)"
proof
  assume "take_bytes bs pos = Some (x, p)"
  then obtain len where l: "holds bs pos (be16 len)" "length x = unat len" "holds bs (pos + 2) x"
      "p = pos + 2 + unat len"
    by (auto simp: take_bytes_def bind_eq_Some_conv take_u16_iff take_n_iff)
  moreover have "unat len < 2 ^ 16" using unat_bound [of len] by simp
  ultimately show "length x < 2 ^ 16 \<and> holds bs pos (put_bytes x) \<and> p = pos + length (put_bytes x)"
    by (simp add: put_bytes_def holds_append)
next
  assume a: "length x < 2 ^ 16 \<and> holds bs pos (put_bytes x) \<and> p = pos + length (put_bytes x)"
  then have "unat (of_nat (length x) :: u16) = length x" by (simp add: unat_of_nat)
  moreover have "take_u16 bs pos = Some (of_nat (length x), pos + 2)"
    using a by (simp add: take_u16_iff put_bytes_def holds_append)
  ultimately show "take_bytes bs pos = Some (x, p)"
    using a by (simp add: take_bytes_def take_n_iff put_bytes_def holds_append)
qed

section \<open>Wire codecs\<close>

text \<open>
  The contract of a wire message. A \<open>weak_codec\<close> decodes whatever it encodes; a
  \<open>strict_codec\<close> also accepts nothing else, so a value has one wire form and one wire form
  has one value (the decoders that reject trailing bytes, wrong lengths and bad versions).
\<close>

locale weak_codec =
  fixes encode :: "'a \<Rightarrow> bytes"
    and decode :: "bytes \<Rightarrow> 'a option"
    and wf :: "'a \<Rightarrow> bool"
  assumes decode_encode: "wf a \<Longrightarrow> decode (encode a) = Some a"
begin

lemma encode_inj:
  assumes "wf a" "wf b" "encode a = encode b"
  shows "a = b"
proof -
  have "Some a = decode (encode b)" using decode_encode [OF assms(1)] by (simp only: assms(3))
  then show ?thesis using decode_encode [OF assms(2)] by simp
qed

end

locale strict_codec =
  fixes encode :: "'a \<Rightarrow> bytes"
    and decode :: "bytes \<Rightarrow> 'a option"
    and wf :: "'a \<Rightarrow> bool"
  assumes decode_iff: "decode bs = Some a \<longleftrightarrow> wf a \<and> encode a = bs"
begin

lemma accepted_canonical: "decode bs = Some a \<Longrightarrow> encode a = bs"
  by (simp add: decode_iff)

lemma accepted_wf: "decode bs = Some a \<Longrightarrow> wf a"
  by (simp add: decode_iff)

lemma decode_inj:
  assumes "decode bs = Some a" "decode cs = Some a"
  shows "bs = cs"
  using assms by (simp add: decode_iff)

lemma rejects_iff: "decode bs = None \<longleftrightarrow> (\<forall>a. wf a \<longrightarrow> encode a \<noteq> bs)"
  using decode_iff [of bs] by (cases "decode bs") auto

end

sublocale strict_codec \<subseteq> weak_codec
  by unfold_locales (simp add: decode_iff)

section \<open>UTF-8\<close>

text \<open>
  The check \<open>String::from_utf8\<close> makes: the byte table of RFC 3629 section 4, which excludes
  overlong forms, surrogates and code points above \<open>U+10FFFF\<close>.
\<close>

definition utf8_tail :: "u8 \<Rightarrow> bool" where
  "utf8_tail b \<longleftrightarrow> 0x80 \<le> b \<and> b \<le> 0xBF"

fun utf8_valid :: "bytes \<Rightarrow> bool" where
  "utf8_valid [] \<longleftrightarrow> True"
| "utf8_valid (a # rest) \<longleftrightarrow>
     (if a \<le> 0x7F then utf8_valid rest
      else if 0xC2 \<le> a \<and> a \<le> 0xDF then
        (case rest of b # r \<Rightarrow> utf8_tail b \<and> utf8_valid r | _ \<Rightarrow> False)
      else if 0xE0 \<le> a \<and> a \<le> 0xEF then
        (case rest of
           b # c # r \<Rightarrow>
             (if a = 0xE0 then 0xA0 \<le> b \<and> b \<le> 0xBF
              else if a = 0xED then 0x80 \<le> b \<and> b \<le> 0x9F
              else utf8_tail b)
             \<and> utf8_tail c \<and> utf8_valid r
         | _ \<Rightarrow> False)
      else if 0xF0 \<le> a \<and> a \<le> 0xF4 then
        (case rest of
           b # c # d # r \<Rightarrow>
             (if a = 0xF0 then 0x90 \<le> b \<and> b \<le> 0xBF
              else if a = 0xF4 then 0x80 \<le> b \<and> b \<le> 0x8F
              else utf8_tail b)
             \<and> utf8_tail c \<and> utf8_tail d \<and> utf8_valid r
         | _ \<Rightarrow> False)
      else False)"

lemma utf8_valid_ascii: "(\<forall>b \<in> set bs. b \<le> 0x7F) \<Longrightarrow> utf8_valid bs"
  by (induction bs) auto

section \<open>Slices and byte strings\<close>

text \<open>
  \<open>bytes[i..j]\<close> of a frame whose length was checked first, and the bytes of a string
  literal. \<open>append_split_iff\<close> takes a fixed-layout frame apart field by field.
\<close>

definition slice_of :: "bytes \<Rightarrow> nat \<Rightarrow> nat \<Rightarrow> bytes" where
  "slice_of bs i j = take (j - i) (drop i bs)"

lemma length_slice_of [simp]: "i \<le> j \<Longrightarrow> j \<le> length bs \<Longrightarrow> length (slice_of bs i j) = j - i"
  by (simp add: slice_of_def)

lemma slice_of_join:
  "i \<le> j \<Longrightarrow> j \<le> k \<Longrightarrow> slice_of bs i j @ slice_of bs j k = slice_of bs i k"
  using take_drop_split [of "j - i" "k - j" i bs] by (simp add: slice_of_def)

lemma slice_of_all: "slice_of bs 0 (length bs) = bs"
  by (simp add: slice_of_def)

lemma slice_of_append_left: "slice_of (xs @ ys) 0 (length xs) = xs"
  by (simp add: slice_of_def)

lemma slice_of_append_right:
  "length xs \<le> i \<Longrightarrow> slice_of (xs @ ys) i j = slice_of ys (i - length xs) (j - length xs)"
  by (simp add: slice_of_def)

definition ascii :: "string \<Rightarrow> bytes" where
  "ascii s = map of_char s"

section \<open>Iterator minima and maxima\<close>

text \<open>
  \<open>Iterator::min_by_key\<close> yields the first of several minimal elements,
  \<open>Iterator::max_by_key\<close> the last of several maximal ones.
\<close>

primrec min_by_key :: "('a \<Rightarrow> 'k::linorder) \<Rightarrow> 'a list \<Rightarrow> 'a option" where
  "min_by_key k [] = None"
| "min_by_key k (x # xs) =
     (case min_by_key k xs of None \<Rightarrow> Some x | Some r \<Rightarrow> Some (if k r < k x then r else x))"

primrec max_by_key :: "('a \<Rightarrow> 'k::linorder) \<Rightarrow> 'a list \<Rightarrow> 'a option" where
  "max_by_key k [] = None"
| "max_by_key k (x # xs) =
     (case max_by_key k xs of None \<Rightarrow> Some x | Some r \<Rightarrow> Some (if k x \<le> k r then r else x))"

lemma min_by_key_None [simp]: "min_by_key k xs = None \<longleftrightarrow> xs = []"
  by (cases xs) (simp_all split: option.splits)

lemma max_by_key_None [simp]: "max_by_key k xs = None \<longleftrightarrow> xs = []"
  by (cases xs) (simp_all split: option.splits)

lemma min_by_key_SomeD:
  "min_by_key k xs = Some m \<Longrightarrow> m \<in> set xs \<and> (\<forall>x \<in> set xs. k m \<le> k x)"
  by (induction xs arbitrary: m) (fastforce split: option.splits if_splits)+

lemma max_by_key_SomeD:
  "max_by_key k xs = Some m \<Longrightarrow> m \<in> set xs \<and> (\<forall>x \<in> set xs. k x \<le> k m)"
  by (induction xs arbitrary: m) (fastforce split: option.splits if_splits)+

text \<open>
  Scanning a list sorted by a key for the first element that satisfies a predicate finds the
  least such element, the earliest of them in the original list.
\<close>

lemma insort_key_Cons:
  "insort_key k x ys =
     (case ys of [] \<Rightarrow> [x] | y # r \<Rightarrow> if k x \<le> k y then x # ys else y # insort_key k x r)"
  by (cases ys) auto

lemma min_by_key_sort: "min_by_key k xs = (case sort_key k xs of [] \<Rightarrow> None | y # r \<Rightarrow> Some y)"
proof (induction xs)
  case (Cons x xs)
  then show ?case
    by (cases "sort_key k xs") auto
qed simp

lemma find_filter: "List.find P xs = (case filter P xs of [] \<Rightarrow> None | y # r \<Rightarrow> Some y)"
  by (induction xs) auto

lemma find_sort_key: "List.find P (sort_key k xs) = min_by_key k (filter P xs)"
  by (simp add: find_filter filter_sort min_by_key_sort)

end
