(* ===== verification/Dig_Message.thy ===== *)
theory Dig_Message
  imports Prelude
begin

text \<open>
  The opcode-220 transport seam (\<open>service/dig_message.rs\<close>): framing of opaque envelopes,
  the stream frames that ride inside them, and the bounded reassembler that restores the order
  of a stream's chunks.

  \<open>DigMessage\<close> belongs to the \<open>dig-peer-protocol\<close> crate; the record has the three
  fields the code reads and writes. Sequence numbers are \<open>nat\<close> below \<open>2 ^ 64\<close>, with the
  wrap of \<open>next_seq += 1\<close> written out.
\<close>

section \<open>Framing\<close>

record DigMessage =
  msg_type :: u8
  msg_id :: "u16 option"
  data :: bytes

definition DIG_MESSAGE :: u8 where
  "DIG_MESSAGE = 220"

definition is_dig_message :: "u8 \<Rightarrow> bool" where
  "is_dig_message ty \<longleftrightarrow> ty = DIG_MESSAGE"

definition dig_message_payload :: "DigMessage \<Rightarrow> bytes option" where
  "dig_message_payload msg = (if is_dig_message (msg_type msg) then Some (data msg) else None)"

definition frame_envelope :: "bytes \<Rightarrow> u16 option \<Rightarrow> DigMessage" where
  "frame_envelope envelope correlation_id =
     \<lparr>msg_type = DIG_MESSAGE, msg_id = correlation_id, data = envelope\<rparr>"

definition frame_dig_message :: "u8 \<Rightarrow> bytes \<Rightarrow> DigMessage" where
  "frame_dig_message ty body = \<lparr>msg_type = ty, msg_id = None, data = body\<rparr>"

text \<open>
  The interface every broadcast message of the 220 band offers: a strict codec, a builder that
  puts the encoding under the message's opcode with no correlation id, and a lift that decodes
  only frames of that opcode.
\<close>

locale framed_message = strict_codec encode decode wf
  for encode :: "'a \<Rightarrow> bytes" and decode :: "bytes \<Rightarrow> 'a option" and wf :: "'a \<Rightarrow> bool" +
  fixes opcode :: u8
    and frame :: "'a \<Rightarrow> DigMessage"
    and lift :: "DigMessage \<Rightarrow> 'a option"
  assumes frame_eq: "frame a = \<lparr>msg_type = opcode, msg_id = None, data = encode a\<rparr>"
    and lift_eq: "lift msg = (if msg_type msg = opcode then decode (data msg) else None)"
begin

lemma lift_iff: "lift msg = Some a \<longleftrightarrow> msg_type msg = opcode \<and> wf a \<and> data msg = encode a"
  by (auto simp: lift_eq decode_iff)

lemma lift_frame: "wf a \<Longrightarrow> lift (frame a) = Some a"
  by (simp add: lift_iff frame_eq)

lemma lift_other: "msg_type msg \<noteq> opcode \<Longrightarrow> lift msg = None"
  by (simp add: lift_eq)

end

section \<open>Stream frames\<close>

datatype StreamFrame =
    Open u64
  | is_Data: Data u64 u64 bytes
  | Close u64

definition stream_kind_OPEN :: u8 where "stream_kind_OPEN = 0"
definition stream_kind_DATA :: u8 where "stream_kind_DATA = 1"
definition stream_kind_CLOSE :: u8 where "stream_kind_CLOSE = 2"

lemmas stream_kind_defs = stream_kind_OPEN_def stream_kind_DATA_def stream_kind_CLOSE_def

fun StreamFrame_encode :: "StreamFrame \<Rightarrow> bytes" where
  "StreamFrame_encode (Open sid) = stream_kind_OPEN # be64 sid"
| "StreamFrame_encode (Close sid) = stream_kind_CLOSE # be64 sid"
| "StreamFrame_encode (Data sid sq pl) = stream_kind_DATA # be64 sid @ be64 sq @ pl"

definition read_u64 :: "bytes \<Rightarrow> u64 option" where
  "read_u64 bs = (if 8 \<le> length bs then Some (of_nat (nat_of_be (take 8 bs))) else None)"

fun StreamFrame_decode :: "bytes \<Rightarrow> StreamFrame option" where
  "StreamFrame_decode [] = None"
| "StreamFrame_decode (kind # rest) =
     (if kind = stream_kind_OPEN then map_option Open (read_u64 rest)
      else if kind = stream_kind_CLOSE then map_option Close (read_u64 rest)
      else if kind = stream_kind_DATA then
        (if length rest < 8 then None
         else case read_u64 (take 8 rest) of
                None \<Rightarrow> None
              | Some sid \<Rightarrow>
                  (if length rest < 16 then None
                   else case read_u64 (take 8 (drop 8 rest)) of
                          None \<Rightarrow> None
                        | Some sq \<Rightarrow> Some (Data sid sq (drop 16 rest))))
      else None)"

lemma read_u64_be64 [simp]: "read_u64 (be64 w @ rest) = Some w"
  by (simp add: read_u64_def)

lemma read_u64_be64_exact [simp]: "read_u64 (be64 w) = Some w"
  using read_u64_be64 [of w "[]"] by simp

lemma stream_decode_encode: "StreamFrame_decode (StreamFrame_encode f) = Some f"
  by (cases f) (simp_all add: stream_kind_defs)

interpretation stream_codec: weak_codec StreamFrame_encode StreamFrame_decode "\<lambda>_. True"
  by unfold_locales (rule stream_decode_encode)

lemma read_u64_SomeD: "read_u64 bs = Some w \<Longrightarrow> bs = be64 w @ drop 8 bs"
proof -
  assume "read_u64 bs = Some w"
  then have "8 \<le> length bs" and w: "w = of_nat (nat_of_be (take 8 bs))"
    by (auto simp: read_u64_def split: if_splits)
  then have "be64 w = take 8 bs" by (simp add: be64_of_be)
  then show ?thesis by simp
qed

text \<open>
  What the decoder accepts, exactly: the encoding of the frame, with trailing bytes tolerated
  after \<open>Open\<close> and \<open>Close\<close> and none possible after \<open>Data\<close>.
\<close>

lemma stream_decode_SomeD:
  assumes "StreamFrame_decode bs = Some f"
  shows "\<exists>trail. bs = StreamFrame_encode f @ trail \<and> (\<forall>sid sq pl. f = Data sid sq pl \<longrightarrow> trail = [])"
proof (cases bs)
  case Nil
  with assms show ?thesis by simp
next
  case (Cons kind rest)
  show ?thesis
  proof (cases "kind = stream_kind_DATA")
    case True
    then obtain sid sq where s: "read_u64 (take 8 rest) = Some sid"
        "read_u64 (take 8 (drop 8 rest)) = Some sq" and f: "f = Data sid sq (drop 16 rest)"
      using assms Cons by (auto simp: stream_kind_defs split: if_splits option.splits)
    have "take 8 rest = be64 sid" "take 8 (drop 8 rest) = be64 sq"
      using read_u64_SomeD [OF s(1)] read_u64_SomeD [OF s(2)] by auto
    moreover have "rest = take 8 rest @ take 8 (drop 8 rest) @ drop 16 rest"
      using append_take_drop_id [of 8 rest] append_take_drop_id [of 8 "drop 8 rest"] by simp
    ultimately show ?thesis using f Cons True by simp
  next
    case False
    then obtain sid where "read_u64 rest = Some sid"
      and "f = Open sid \<and> kind = stream_kind_OPEN \<or> f = Close sid \<and> kind = stream_kind_CLOSE"
      using assms Cons by (auto split: if_splits)
    then show ?thesis using Cons read_u64_SomeD [of rest sid] by auto
  qed
qed

section \<open>The stream reassembler\<close>

definition MAX_BUFFERED_CHUNKS :: nat where
  "MAX_BUFFERED_CHUNKS = 256"

definition MAX_BUFFERED_BYTES :: nat where
  "MAX_BUFFERED_BYTES = 4 * 1024 * 1024"

datatype ReassembleError = TooManyChunks nat | TooManyBytes nat

record StreamReassembler =
  next_seq :: nat
  buffered :: "(nat, bytes) fmap"
  buffered_bytes :: nat
  max_chunks :: nat
  max_bytes :: nat

definition with_caps :: "nat \<Rightarrow> nat \<Rightarrow> StreamReassembler" where
  "with_caps mc mb =
     \<lparr>next_seq = 0, buffered = fmempty, buffered_bytes = 0, max_chunks = mc, max_bytes = mb\<rparr>"

definition StreamReassembler_new :: StreamReassembler where
  "StreamReassembler_new = with_caps MAX_BUFFERED_CHUNKS MAX_BUFFERED_BYTES"

definition pending :: "StreamReassembler \<Rightarrow> nat" where
  "pending r = fcard (fmdom (buffered r))"

definition next_u64 :: "nat \<Rightarrow> nat" where
  "next_u64 n = (n + 1) mod 2 ^ 64"

text \<open>The \<open>while let Some(chunk) = self.buffered.remove(&self.next_seq)\<close> loop.\<close>

function drain :: "StreamReassembler \<Rightarrow> bytes list \<Rightarrow> bytes list \<times> StreamReassembler" where
  "drain r ready =
     (case fmlookup (buffered r) (next_seq r) of
        None \<Rightarrow> (ready, r)
      | Some chunk \<Rightarrow>
          drain (r\<lparr>buffered := fmdrop (next_seq r) (buffered r),
                   buffered_bytes := buffered_bytes r - length chunk,
                   next_seq := next_u64 (next_seq r)\<rparr>)
                (ready @ [chunk]))"
  by pat_completeness auto
termination
proof (relation "measure (\<lambda>(r, _). fcard (fmdom (buffered r)))")
  show "wf (measure (\<lambda>(r, _ :: bytes list). fcard (fmdom (buffered r))))" by simp
next
  fix r :: StreamReassembler and ready :: "bytes list" and chunk
  assume "fmlookup (buffered r) (next_seq r) = Some chunk"
  then have "next_seq r |\<in>| fmdom (buffered r)" by (rule fmdomI)
  then have "fcard (fmdom (buffered r) |-| {|next_seq r|}) < fcard (fmdom (buffered r))"
    by (rule fcard_fminus1_less)
  then show "((r\<lparr>buffered := fmdrop (next_seq r) (buffered r),
                   buffered_bytes := buffered_bytes r - length chunk,
                   next_seq := next_u64 (next_seq r)\<rparr>, ready @ [chunk]), r, ready)
      \<in> measure (\<lambda>(r, _). fcard (fmdom (buffered r)))"
    by simp
qed

declare drain.simps [simp del]

definition accept ::
  "StreamReassembler \<Rightarrow> nat \<Rightarrow> bytes \<Rightarrow> (ReassembleError + bytes list) \<times> StreamReassembler" where
  "accept r sq pl =
     (if sq < next_seq r then (Inr [], r)
      else if sq |\<in>| fmdom (buffered r) then (Inr [], r)
      else if next_seq r < sq \<and> max_chunks r \<le> pending r then
        (Inl (TooManyChunks (max_chunks r)), r)
      else if next_seq r < sq \<and> max_bytes r < sat_add64 (buffered_bytes r) (length pl) then
        (Inl (TooManyBytes (max_bytes r)), r)
      else
        let (ready, r') =
          drain (r\<lparr>buffered_bytes := buffered_bytes r + length pl,
                   buffered := fmupd sq pl (buffered r)\<rparr>) []
        in (Inr ready, r'))"

subsection \<open>Byte accounting\<close>

definition total_bytes :: "(nat, bytes) fmap \<Rightarrow> nat" where
  "total_bytes m = (\<Sum>k \<in> fset (fmdom m). length (the (fmlookup m k)))"

lemma total_bytes_empty [simp]: "total_bytes fmempty = 0"
  by (simp add: total_bytes_def)

lemma total_bytes_upd:
  assumes "k |\<notin>| fmdom m"
  shows "total_bytes (fmupd k v m) = total_bytes m + length v"
proof -
  have "(\<Sum>x \<in> fset (fmdom m). length (the (fmlookup (fmupd k v m) x)))
      = (\<Sum>x \<in> fset (fmdom m). length (the (fmlookup m x)))"
    using assms by (intro sum.cong) auto
  then show ?thesis
    using assms by (simp add: total_bytes_def)
qed

lemma total_bytes_drop:
  assumes "fmlookup m k = Some v"
  shows "total_bytes m = total_bytes (fmdrop k m) + length v"
proof -
  have "fmupd k v (fmdrop k m) = m"
    using assms by (intro fmap_ext) auto
  moreover have "total_bytes (fmupd k v (fmdrop k m)) = total_bytes (fmdrop k m) + length v"
    by (rule total_bytes_upd) auto
  ultimately show ?thesis by simp
qed

subsection \<open>The buffer invariant\<close>

text \<open>
  Between calls every buffered sequence lies strictly ahead of \<open>next_seq\<close>, the running
  byte total is the sum of the buffered payload lengths, and both caps hold. Inside the loop
  the first clause is weaker: \<open>next_seq\<close> itself may be buffered.
\<close>

definition draining :: "StreamReassembler \<Rightarrow> bool" where
  "draining r \<longleftrightarrow> next_seq r < 2 ^ 64
     \<and> fBall (fmdom (buffered r)) (\<lambda>k. next_seq r \<le> k \<and> k < 2 ^ 64)
     \<and> buffered_bytes r = total_bytes (buffered r)"

definition wf_reassembler :: "StreamReassembler \<Rightarrow> bool" where
  "wf_reassembler r \<longleftrightarrow> next_seq r < 2 ^ 64
     \<and> fBall (fmdom (buffered r)) (\<lambda>k. next_seq r < k \<and> k < 2 ^ 64)
     \<and> buffered_bytes r = total_bytes (buffered r)
     \<and> pending r \<le> max_chunks r \<and> buffered_bytes r \<le> max_bytes r"

lemma drain_step_draining:
  assumes "draining r" "fmlookup (buffered r) (next_seq r) = Some chunk"
  shows "draining (r\<lparr>buffered := fmdrop (next_seq r) (buffered r),
                   buffered_bytes := buffered_bytes r - length chunk,
                   next_seq := next_u64 (next_seq r)\<rparr>)" (is "draining ?r")
proof -
  have keys: "next_u64 (next_seq r) \<le> k \<and> k < 2 ^ 64"
    if "k |\<in>| fmdom (buffered ?r)" for k
  proof -
    from that have "k |\<in>| fmdom (buffered r)" "k \<noteq> next_seq r" by auto
    then have "next_seq r < k" "k < 2 ^ 64" using assms(1) by (fastforce simp: draining_def)+
    then show ?thesis by (simp add: next_u64_def)
  qed
  have "next_u64 (next_seq r) < 2 ^ 64" by (simp add: next_u64_def)
  moreover have "total_bytes (buffered r) = total_bytes (buffered ?r) + length chunk"
    using total_bytes_drop [OF assms(2)] by simp
  ultimately show ?thesis
    using keys assms(1) by (auto simp: draining_def)
qed

lemma drain_inv:
  assumes "draining r" "drain r ready = (out, r')"
  shows "draining r' \<and> next_seq r' |\<notin>| fmdom (buffered r')
    \<and> fmdom (buffered r') |\<subseteq>| fmdom (buffered r) \<and> buffered_bytes r' \<le> buffered_bytes r
    \<and> max_chunks r' = max_chunks r \<and> max_bytes r' = max_bytes r"
  using assms
proof (induction r ready rule: drain.induct)
  case (1 r ready)
  show ?case
  proof (cases "fmlookup (buffered r) (next_seq r)")
    case None
    then show ?thesis using 1 by (simp add: drain.simps [of r] fmdom_notI)
  next
    case (Some chunk)
    let ?r = "r\<lparr>buffered := fmdrop (next_seq r) (buffered r),
                buffered_bytes := buffered_bytes r - length chunk,
                next_seq := next_u64 (next_seq r)\<rparr>"
    have "drain ?r (ready @ [chunk]) = (out, r')"
      using 1 Some by (simp add: drain.simps [of r])
    then show ?thesis
      using "1.IH" [OF Some drain_step_draining [OF "1.prems"(1) Some]] by auto
  qed
qed

lemma drain_none [simp]:
  "next_seq r |\<notin>| fmdom (buffered r) \<Longrightarrow> drain r ready = (ready, r)"
  by (simp add: drain.simps [of r] fmdom_notD)

lemma wf_reassembler_next_free: "wf_reassembler r \<Longrightarrow> next_seq r |\<notin>| fmdom (buffered r)"
  by (auto simp: wf_reassembler_def)

text \<open>The four ways a call can go on a well-formed state.\<close>

lemma accept_duplicate:
  "sq < next_seq r \<or> sq |\<in>| fmdom (buffered r) \<Longrightarrow> accept r sq pl = (Inr [], r)"
  by (auto simp: accept_def)

lemma accept_in_order:
  assumes "wf_reassembler r"
  shows "accept r (next_seq r) pl =
    (let (ready, r') = drain (r\<lparr>next_seq := next_u64 (next_seq r)\<rparr>) [pl] in (Inr ready, r'))"
proof -
  have "fmdrop (next_seq r) (fmupd (next_seq r) pl (buffered r)) = buffered r"
    using wf_reassembler_next_free [OF assms] by (intro fmap_ext) (auto simp: fmdom_notD)
  then show ?thesis
    using wf_reassembler_next_free [OF assms]
    by (simp add: accept_def drain.simps [where r = "r\<lparr>buffered_bytes := _, buffered := _\<rparr>"])
qed

lemma accept_ahead:
  assumes "wf_reassembler r" "next_seq r < sq" "sq |\<notin>| fmdom (buffered r)"
  shows "accept r sq pl =
    (if max_chunks r \<le> pending r then (Inl (TooManyChunks (max_chunks r)), r)
     else if max_bytes r < sat_add64 (buffered_bytes r) (length pl)
       then (Inl (TooManyBytes (max_bytes r)), r)
     else (Inr [], r\<lparr>buffered_bytes := buffered_bytes r + length pl,
                     buffered := fmupd sq pl (buffered r)\<rparr>))"
  using assms wf_reassembler_next_free [OF assms(1)] by (simp add: accept_def)

lemma accept_error_unchanged: "accept r sq pl = (Inl e, r') \<Longrightarrow> r' = r"
  by (auto simp: accept_def Let_def split: if_splits prod.splits)

lemma wf_with_caps: "wf_reassembler (with_caps mc mb)"
  by (simp add: wf_reassembler_def with_caps_def pending_def fcard_fempty)

lemma wf_next_draining:
  assumes "wf_reassembler r"
  shows "draining (r\<lparr>next_seq := next_u64 (next_seq r)\<rparr>)"
proof -
  have "next_u64 (next_seq r) \<le> k" if "next_seq r < k" "k < 2 ^ 64" for k
    using that by (simp add: next_u64_def)
  moreover have "next_u64 (next_seq r) < 2 ^ 64" by (simp add: next_u64_def)
  ultimately show ?thesis
    using assms by (auto simp: wf_reassembler_def draining_def)
qed

lemma draining_wf:
  assumes "draining r" "next_seq r |\<notin>| fmdom (buffered r)"
    "pending r \<le> max_chunks r" "buffered_bytes r \<le> max_bytes r"
  shows "wf_reassembler r"
proof -
  have "next_seq r < k \<and> k < 2 ^ 64" if "k |\<in>| fmdom (buffered r)" for k
    using that assms(1,2) by (cases "k = next_seq r") (fastforce simp: draining_def)+
  then show ?thesis using assms by (auto simp: wf_reassembler_def draining_def)
qed

lemma accept_preserves_wf:
  assumes "wf_reassembler r" "sq < 2 ^ 64" "max_bytes r < u64_max" "accept r sq pl = (res, r')"
  shows "wf_reassembler r' \<and> max_bytes r' = max_bytes r \<and> max_chunks r' = max_chunks r"
proof -
  consider (dup) "sq < next_seq r \<or> sq |\<in>| fmdom (buffered r)" | (gap) "sq = next_seq r"
    | (ahead) "next_seq r < sq" "sq |\<notin>| fmdom (buffered r)" by linarith
  then show ?thesis
  proof cases
    case dup
    then show ?thesis using assms accept_duplicate [OF dup] by simp
  next
    case gap
    obtain ready where d: "drain (r\<lparr>next_seq := next_u64 (next_seq r)\<rparr>) [pl] = (ready, r')"
      using assms(4) accept_in_order [OF assms(1), of pl] gap by (auto split: prod.splits)
    note inv = drain_inv [OF wf_next_draining [OF assms(1)] d]
    then have "pending r' \<le> pending r"
      by (auto simp: pending_def intro: fcard_mono)
    with inv assms(1) have "pending r' \<le> max_chunks r'" "buffered_bytes r' \<le> max_bytes r'"
      by (auto simp: wf_reassembler_def)
    with inv show ?thesis by (auto intro: draining_wf)
  next
    case ahead
    note acc = accept_ahead [OF assms(1) ahead, of pl]
    show ?thesis
    proof (cases "max_chunks r \<le> pending r \<or> max_bytes r < sat_add64 (buffered_bytes r) (length pl)")
      case True
      then show ?thesis using acc assms by (auto split: if_splits)
    next
      case False
      then have "buffered_bytes r + length pl \<le> max_bytes r"
        using assms(3) by (auto simp: sat_add64_def)
      moreover have "pending r' \<le> max_chunks r'"
        using False acc assms(4) ahead by (auto simp: pending_def fcard_finsert_disjoint)
      ultimately show ?thesis
        using False acc assms ahead by (auto simp: wf_reassembler_def total_bytes_upd)
    qed
  qed
qed

subsection \<open>In-order delivery\<close>

text \<open>
  The promise of the component: whatever order and multiplicity the chunks of a stream
  \<open>cs\<close> arrive in, what has been delivered is a prefix of \<open>cs\<close>. \<open>accept_all\<close> feeds
  a sequence of arrivals and concatenates what each call releases.
\<close>

fun accept_all :: "StreamReassembler \<Rightarrow> (nat \<times> bytes) list \<Rightarrow> bytes list \<times> StreamReassembler" where
  "accept_all r [] = ([], r)"
| "accept_all r ((sq, pl) # evs) =
     (case accept r sq pl of
        (Inl _, r') \<Rightarrow> accept_all r' evs
      | (Inr ready, r') \<Rightarrow> (let (out, r'') = accept_all r' evs in (ready @ out, r'')))"

definition follows :: "bytes list \<Rightarrow> StreamReassembler \<Rightarrow> bool" where
  "follows cs r \<longleftrightarrow> next_seq r \<le> length cs
     \<and> (\<forall>k v. fmlookup (buffered r) k = Some v \<longrightarrow> k < length cs \<and> v = cs ! k)"

definition chunk_of :: "bytes list \<Rightarrow> nat \<times> bytes \<Rightarrow> bool" where
  "chunk_of cs e \<longleftrightarrow> fst e < length cs \<and> snd e = cs ! fst e"

definition received :: "StreamReassembler \<Rightarrow> nat \<Rightarrow> bool" where
  "received r k \<longleftrightarrow> k < next_seq r \<or> k |\<in>| fmdom (buffered r)"

lemma map_nth_upt_Suc:
  "i < n \<Longrightarrow> map (nth cs) [i..<n] = cs ! i # map (nth cs) [Suc i..<n]"
  by (simp add: upt_conv_Cons)

lemma map_nth_upt_join:
  assumes "i \<le> j" "j \<le> k"
  shows "map (nth cs) [i..<j] @ map (nth cs) [j..<k] = map (nth cs) [i..<k]"
  using upt_add_eq_append [of i j "k - j"] assms by simp

lemma drain_follows:
  assumes "length cs < 2 ^ 64" "follows cs r" "drain r ready = (out, r')"
  shows "follows cs r' \<and> next_seq r \<le> next_seq r'
    \<and> out = ready @ map (nth cs) [next_seq r..<next_seq r']
    \<and> (\<forall>k. received r k \<longrightarrow> received r' k)"
  using assms
proof (induction r ready rule: drain.induct)
  case (1 r ready)
  show ?case
  proof (cases "fmlookup (buffered r) (next_seq r)")
    case None
    then show ?thesis using "1.prems" by (simp add: drain.simps [of r])
  next
    case (Some chunk)
    let ?r = "r\<lparr>buffered := fmdrop (next_seq r) (buffered r),
                buffered_bytes := buffered_bytes r - length chunk,
                next_seq := next_u64 (next_seq r)\<rparr>"
    from "1.prems"(2) Some have n: "next_seq r < length cs" and c: "chunk = cs ! next_seq r"
      by (auto simp: follows_def)
    then have nx: "next_u64 (next_seq r) = Suc (next_seq r)"
      using "1.prems"(1) by (simp add: next_u64_def)
    have d: "drain ?r (ready @ [chunk]) = (out, r')"
      using "1.prems"(3) Some by (simp add: drain.simps [of r])
    have f: "follows cs ?r"
      using "1.prems"(2) n nx by (auto simp: follows_def split: if_splits)
    have rec: "received ?r k" if "received r k" for k
      using that nx by (auto simp: received_def)
    note IH = "1.IH" [OF Some "1.prems"(1) f d]
    then have "out = ready @ map (nth cs) [next_seq r..<next_seq r']"
      using nx c map_nth_upt_Suc [of "next_seq r" "next_seq r'" cs] by simp
    then show ?thesis using IH rec nx by auto
  qed
qed

lemma accept_follows:
  assumes len: "length cs < 2 ^ 64" and wf: "wf_reassembler r" and f: "follows cs r"
    and e: "chunk_of cs (sq, pl)" and acc: "accept r sq pl = (res, r')"
  shows "follows cs r' \<and> next_seq r \<le> next_seq r'
    \<and> (\<forall>ready. res = Inr ready \<longrightarrow> ready = map (nth cs) [next_seq r..<next_seq r'])
    \<and> (\<forall>err. res = Inl err \<longrightarrow> r' = r)
    \<and> (\<forall>k. received r k \<longrightarrow> received r' k) \<and> (\<forall>ready. res = Inr ready \<longrightarrow> received r' sq)"
proof -
  let ?ins = "r\<lparr>buffered_bytes := buffered_bytes r + length pl, buffered := fmupd sq pl (buffered r)\<rparr>"
  consider (same) "r' = r" "res = Inr []" "received r sq" | (err) e where "r' = r" "res = Inl e"
    | (ins) ready where "drain ?ins [] = (ready, r')" "res = Inr ready"
        "\<not> received r sq"
    using acc by (auto simp: accept_def received_def Let_def split: if_splits prod.splits)
  then show ?thesis
  proof cases
    case ins
    have fi: "follows cs ?ins"
      using f e by (auto simp: follows_def chunk_of_def split: if_splits)
    have "received ?ins k" if "received r k \<or> k = sq" for k
      using that by (auto simp: received_def)
    then show ?thesis
      using drain_follows [OF len fi ins(1)] ins(2) by auto
  qed (use f in auto)
qed

definition tracks :: "bytes list \<Rightarrow> StreamReassembler \<Rightarrow> bool" where
  "tracks cs r \<longleftrightarrow> length cs < 2 ^ 64 \<and> max_bytes r < u64_max \<and> wf_reassembler r \<and> follows cs r"

lemma tracks_with_caps: "length cs < 2 ^ 64 \<Longrightarrow> mb < u64_max \<Longrightarrow> tracks cs (with_caps mc mb)"
  using wf_with_caps [of mc mb] by (simp add: tracks_def follows_def with_caps_def)

lemma accept_tracks:
  assumes "tracks cs r" "chunk_of cs (sq, pl)" "accept r sq pl = (res, r')"
  shows "tracks cs r' \<and> max_bytes r' = max_bytes r \<and> max_chunks r' = max_chunks r"
proof -
  have "sq < 2 ^ 64" using assms(1,2) by (auto simp: tracks_def chunk_of_def)
  then show ?thesis
    using assms accept_preserves_wf [of r sq pl res r'] accept_follows [of cs r sq pl res r']
    by (auto simp: tracks_def)
qed

lemma accept_all_follows:
  assumes "tracks cs r" "list_all (chunk_of cs) evs" "accept_all r evs = (out, r')"
  shows "tracks cs r' \<and> next_seq r \<le> next_seq r' \<and> out = map (nth cs) [next_seq r..<next_seq r']
    \<and> max_bytes r' = max_bytes r \<and> max_chunks r' = max_chunks r
    \<and> (\<forall>k. received r k \<longrightarrow> received r' k)"
  using assms
proof (induction r evs arbitrary: out rule: accept_all.induct)
  case (1 r)
  then show ?case by simp
next
  case (2 r sq pl evs)
  obtain res r1 where acc: "accept r sq pl = (res, r1)" by fastforce
  obtain out1 where all: "accept_all r1 evs = (out1, r')"
    and out: "out = (case res of Inl _ \<Rightarrow> out1 | Inr ready \<Rightarrow> ready @ out1)"
    using "2.prems"(3) acc by (cases res) (auto split: prod.splits)
  have e: "chunk_of cs (sq, pl)" and es: "list_all (chunk_of cs) evs" using "2.prems"(2) by auto
  note t = accept_tracks [OF "2.prems"(1) e acc]
  have st: "follows cs r1 \<and> next_seq r \<le> next_seq r1
    \<and> (\<forall>ready. res = Inr ready \<longrightarrow> ready = map (nth cs) [next_seq r..<next_seq r1])
    \<and> (\<forall>err. res = Inl err \<longrightarrow> r1 = r) \<and> (\<forall>k. received r k \<longrightarrow> received r1 k)"
    using accept_follows [of cs r sq pl res r1] "2.prems"(1) e acc by (auto simp: tracks_def)
  have IH: "tracks cs r' \<and> next_seq r1 \<le> next_seq r' \<and> out1 = map (nth cs) [next_seq r1..<next_seq r']
    \<and> max_bytes r' = max_bytes r1 \<and> max_chunks r' = max_chunks r1
    \<and> (\<forall>k. received r1 k \<longrightarrow> received r' k)"
    using "2.IH" acc t es all by (cases res) auto
  have "out = map (nth cs) [next_seq r..<next_seq r']"
    using out st IH map_nth_upt_join [of "next_seq r" "next_seq r1" "next_seq r'" cs]
    by (cases res) auto
  then show ?case using t st IH by auto
qed

lemma map_nth_prefix: "n \<le> length cs \<Longrightarrow> map (nth cs) [0..<n] = take n cs"
  by (simp add: list_eq_iff_nth_eq)

text \<open>
  Feed the chunks of any stream, in any order and with any repetitions, to a fresh
  reassembler with any caps. What has been released is the stream's prefix up to
  \<open>next_seq\<close>, in order and without gaps or duplicates, and the pending buffer never
  exceeds either cap, rejected arrivals included.
\<close>

theorem reassembler_delivers_prefix:
  assumes "length cs < 2 ^ 64" "mb < u64_max" "list_all (chunk_of cs) evs"
    and "accept_all (with_caps mc mb) evs = (out, r)"
  shows "out = take (next_seq r) cs \<and> next_seq r \<le> length cs
    \<and> pending r \<le> mc \<and> buffered_bytes r \<le> mb
    \<and> buffered_bytes r = total_bytes (buffered r)"
proof -
  note f = accept_all_follows [OF tracks_with_caps [OF assms(1,2)] assms(3,4)]
  then have n: "next_seq r \<le> length cs" by (simp add: tracks_def follows_def)
  have "out = take (next_seq r) cs"
    using f map_nth_prefix [OF n] by (simp add: with_caps_def)
  then show ?thesis
    using f n by (simp add: tracks_def wf_reassembler_def with_caps_def)
qed

theorem reassembler_delivers_prefix_witness:
  "fst (accept_all (with_caps 2 4) [(1, [7]), (0, [8]), (1, [7])]) = [[8], [7]]
   \<and> pending (snd (accept_all (with_caps 2 4) [(1, [7]), (0, [8]), (1, [7])])) \<le> 2"
proof -
  have run: "accept_all (with_caps 2 4) [(1, [7]), (0, [8]), (1, [7])] =
      ([[8], [7]], \<lparr>next_seq = 2, buffered = fmempty, buffered_bytes = 0, max_chunks = 2, max_bytes = 4\<rparr>)"
    by (simp add: accept_def with_caps_def drain.simps pending_def sat_add64_def u64_max_def
        next_u64_def fcard_fempty fmdrop_fmupd)
  show ?thesis
    unfolding run using reassembler_delivers_prefix [OF _ _ _ run, of "[[8], [7]]"]
    by (simp add: chunk_of_def u64_max_def)
qed

subsection \<open>Complete delivery\<close>

lemma total_bytes_follows:
  assumes "follows cs r"
  shows "total_bytes (buffered r) = (\<Sum>k \<in> fset (fmdom (buffered r)). length (cs ! k))"
  unfolding total_bytes_def
proof (rule sum.cong)
  fix k assume "k \<in> fset (fmdom (buffered r))"
  then obtain v where "fmlookup (buffered r) k = Some v" by (auto simp: fmdomE)
  then show "length (the (fmlookup (buffered r) k)) = length (cs ! k)"
    using assms by (simp add: follows_def)
qed simp

lemma sum_list_lengths: "sum_list (map length cs) = (\<Sum>k < length cs. length (cs ! k))"
  by (simp add: sum_list_sum_nth atLeast0LessThan)

lemma follows_dom: "follows cs r \<Longrightarrow> fset (fmdom (buffered r)) \<subseteq> {..<length cs}"
  by (auto simp: follows_def fmlookup_dom_iff)

lemma accept_fits:
  assumes t: "tracks cs r" and e: "chunk_of cs (sq, pl)"
    and caps: "length cs \<le> max_chunks r" "sum_list (map length cs) \<le> max_bytes r"
  shows "\<exists>ready r'. accept r sq pl = (Inr ready, r')"
proof (cases "next_seq r < sq \<and> sq |\<notin>| fmdom (buffered r)")
  case True
  let ?D = "fset (fmdom (buffered r))"
  have wf: "wf_reassembler r" and f: "follows cs r" using t by (auto simp: tracks_def)
  have sub: "insert sq ?D \<subseteq> {..<length cs}" using follows_dom [OF f] e by (auto simp: chunk_of_def)
  have "card (insert sq ?D) \<le> length cs" using card_mono [OF _ sub] by simp
  then have count: "pending r < max_chunks r"
    using True caps(1) by (simp add: pending_def fcard.rep_eq)
  have "(\<Sum>k \<in> insert sq ?D. length (cs ! k)) \<le> (\<Sum>k < length cs. length (cs ! k))"
    using sub by (intro sum_mono2) auto
  then have "buffered_bytes r + length pl \<le> max_bytes r"
    using True e caps(2) wf total_bytes_follows [OF f]
    by (simp add: wf_reassembler_def chunk_of_def sum_list_lengths)
  then have "\<not> max_bytes r < sat_add64 (buffered_bytes r) (length pl)"
    by (simp add: sat_add64_def)
  then show ?thesis
    using accept_ahead [OF wf, of sq pl] True count by simp
next
  case False
  then show ?thesis
    by (auto simp: accept_def Let_def split: prod.splits)
qed

lemma accept_all_receives:
  assumes "tracks cs r" "list_all (chunk_of cs) evs" "accept_all r evs = (out, r')"
    and "length cs \<le> max_chunks r" "sum_list (map length cs) \<le> max_bytes r"
    and "k \<in> fst ` set evs"
  shows "received r' k"
  using assms
proof (induction r evs arbitrary: out rule: accept_all.induct)
  case (1 r)
  then show ?case by simp
next
  case (2 r sq pl evs)
  have e: "chunk_of cs (sq, pl)" and es: "list_all (chunk_of cs) evs" using "2.prems"(2) by auto
  obtain ready r1 where acc: "accept r sq pl = (Inr ready, r1)"
    using accept_fits [OF "2.prems"(1) e "2.prems"(4,5)] by blast
  obtain out1 where all: "accept_all r1 evs = (out1, r')"
    using "2.prems"(3) acc by (auto split: prod.splits)
  note t = accept_tracks [OF "2.prems"(1) e acc]
  show ?case
  proof (cases "k = sq")
    case True
    have "received r1 sq"
      using accept_follows [of cs r sq pl "Inr ready" r1] "2.prems"(1) e acc by (auto simp: tracks_def)
    then show ?thesis using accept_all_follows [of cs r1 evs out1 r'] t es all True by auto
  next
    case False
    then have "k \<in> fst ` set evs" using "2.prems"(6) by auto
    then show ?thesis
      using "2.IH" acc t es all "2.prems"(4,5) by auto
  qed
qed

lemma received_all_complete:
  assumes "tracks cs r" "\<forall>k < length cs. received r k"
  shows "next_seq r = length cs \<and> buffered r = fmempty"
proof -
  have wf: "wf_reassembler r" and f: "follows cs r" using assms(1) by (auto simp: tracks_def)
  have n: "next_seq r = length cs"
  proof (rule ccontr)
    assume "next_seq r \<noteq> length cs"
    then have "next_seq r < length cs" using f by (auto simp: follows_def)
    then show False using assms(2) wf_reassembler_next_free [OF wf] by (auto simp: received_def)
  qed
  have "fmdom (buffered r) = {||}"
  proof (rule ccontr)
    assume "fmdom (buffered r) \<noteq> {||}"
    then obtain k where k: "k |\<in>| fmdom (buffered r)" by blast
    then have "k < length cs" using follows_dom [OF f] by auto
    moreover have "next_seq r < k" using k wf by (auto simp: wf_reassembler_def)
    ultimately show False using n by simp
  qed
  then have "buffered r = fmempty"
    by (metis fmrestrict_fset_dom fmrestrict_fset_null)
  then show ?thesis using n by simp
qed

lemma accept_all_complete:
  assumes "length cs < 2 ^ 64" "mb < u64_max" "list_all (chunk_of cs) evs"
    and "{..<length cs} \<subseteq> fst ` set evs"
    and "length cs \<le> mc" "sum_list (map length cs) \<le> mb"
  shows "\<exists>r. accept_all (with_caps mc mb) evs = (cs, r) \<and> buffered r = fmempty
    \<and> next_seq r = length cs"
proof -
  obtain out r where run: "accept_all (with_caps mc mb) evs = (out, r)" by fastforce
  note t = tracks_with_caps [OF assms(1,2), of mc]
  note f = accept_all_follows [OF t assms(3) run]
  have "received r k" if "k < length cs" for k
    using accept_all_receives [OF t assms(3) run, of k] that assms(4-6)
    by (simp add: with_caps_def subset_iff)
  then have c: "next_seq r = length cs \<and> buffered r = fmempty"
    using f received_all_complete by blast
  then have "out = cs"
    using f map_nth_prefix [of "length cs" cs] by (simp add: with_caps_def)
  then show ?thesis using run c by blast
qed

text \<open>
  C2: When the caps cover the stream, every arrival sequence in which each chunk occurs at
  least once, whatever the order and the repetitions, releases exactly the stream and leaves
  nothing buffered: the loop never stalls and no arrival is refused.
\<close>

theorem reassembler_delivers_all:
  assumes "length cs < 2 ^ 64" "mb < u64_max" "list_all (chunk_of cs) evs"
    and "{..<length cs} \<subseteq> fst ` set evs"
    and "length cs \<le> mc" "sum_list (map length cs) \<le> mb"
  shows "\<exists>r. accept_all (with_caps mc mb) evs = (cs, r) \<and> buffered r = fmempty
    \<and> next_seq r = length cs"
  using assms by (rule accept_all_complete)

theorem reassembler_delivers_all_witness:
  "\<exists>r. accept_all (with_caps 3 9) [(2, [3]), (0, [1]), (2, [3]), (1, [2])] = ([[1], [2], [3]], r)
     \<and> buffered r = fmempty \<and> next_seq r = 3"
proof -
  let ?evs = "[(2, [3]), (0, [1]), (2, [3]), (1, [2])] :: (nat \<times> bytes) list"
  let ?cs = "[[1], [2], [3]] :: bytes list"
  have all: "{..<length ?cs} \<subseteq> fst ` set ?evs" by (auto simp: numeral_3_eq_3 less_Suc_eq)
  have "\<exists>r. accept_all (with_caps 3 9) ?evs = (?cs, r) \<and> buffered r = fmempty
      \<and> next_seq r = length ?cs"
    by (rule reassembler_delivers_all [OF _ _ _ all]) (simp_all add: chunk_of_def u64_max_def)
  then show ?thesis by (simp add: numeral_3_eq_3 del: accept_all.simps)
qed

subsection \<open>Bounds against an adversary, and refusals\<close>

lemma accept_all_wf:
  assumes "wf_reassembler r" "max_bytes r < u64_max" "list_all (\<lambda>e. fst e < 2 ^ 64) evs"
    "accept_all r evs = (out, r')"
  shows "wf_reassembler r' \<and> max_bytes r' = max_bytes r \<and> max_chunks r' = max_chunks r"
  using assms
proof (induction r evs arbitrary: out rule: accept_all.induct)
  case (1 r)
  then show ?case by simp
next
  case (2 r sq pl evs)
  obtain res r1 where acc: "accept r sq pl = (res, r1)" by fastforce
  have w: "wf_reassembler r1 \<and> max_bytes r1 = max_bytes r \<and> max_chunks r1 = max_chunks r"
    using accept_preserves_wf [OF "2.prems"(1) _ "2.prems"(2) acc] "2.prems"(3) by simp
  obtain out1 where "accept_all r1 evs = (out1, r')"
    using "2.prems"(4) acc by (cases res) (auto split: prod.splits)
  then show ?case using "2.IH" acc w "2.prems"(2,3) by (cases res) auto
qed

text \<open>
  No sequence of arrivals, honest or not (conflicting payloads for a sequence number,
  withheld gaps, re-sends with larger payloads), makes the pending buffer exceed a cap or makes
  the byte counter drift from the payloads it counts.
\<close>

theorem reassembler_bounded:
  assumes "mb < u64_max" "list_all (\<lambda>e. fst e < 2 ^ 64) evs"
  shows "let r = snd (accept_all (with_caps mc mb) evs)
    in pending r \<le> mc \<and> buffered_bytes r \<le> mb \<and> buffered_bytes r = total_bytes (buffered r)
       \<and> fBall (fmdom (buffered r)) (\<lambda>k. next_seq r < k)"
proof -
  obtain out r where run: "accept_all (with_caps mc mb) evs = (out, r)" by fastforce
  have "wf_reassembler r \<and> max_bytes r = mb \<and> max_chunks r = mc"
    using accept_all_wf [OF wf_with_caps _ assms(2) run] assms(1) by (simp add: with_caps_def)
  then show ?thesis using run by (simp add: wf_reassembler_def)
qed

theorem reassembler_bounded_witness:
  "pending (snd (accept_all (with_caps 1 2) [(5, [1]), (5, [1, 2, 3]), (7, [])])) \<le> 1"
  using reassembler_bounded [of 2 "[(5, [1]), (5, [1, 2, 3]), (7, [])]" 1]
  by (simp add: u64_max_def Let_def del: accept_all.simps)

lemma drain_extends: "\<exists>more. fst (drain r ready) = ready @ more"
proof (induction r ready rule: drain.induct)
  case (1 r ready)
  show ?case
  proof (cases "fmlookup (buffered r) (next_seq r)")
    case None
    then show ?thesis by (simp add: drain.simps [of r])
  next
    case (Some chunk)
    then show ?thesis using "1.IH" [OF Some] by (auto simp: drain.simps [of r])
  qed
qed

text \<open>
  The refusals, exactly. A call is refused only for a new chunk ahead of \<open>next_seq\<close>
  that would break a cap, the chunk cap being reported first; a refusal leaves the state as it
  was. A chunk at \<open>next_seq\<close> is accepted even with a full buffer and is released first.
\<close>

theorem accept_refusals:
  assumes "wf_reassembler r"
  shows "(fst (accept r sq pl) = Inl e) =
      (next_seq r < sq \<and> sq |\<notin>| fmdom (buffered r)
       \<and> (if pending r = max_chunks r then e = TooManyChunks (max_chunks r)
          else max_bytes r < sat_add64 (buffered_bytes r) (length pl)
            \<and> e = TooManyBytes (max_bytes r)))
    \<and> (isl (fst (accept r sq pl)) \<longrightarrow> snd (accept r sq pl) = r)
    \<and> (\<exists>more. fst (accept r (next_seq r) pl) = Inr (pl # more))"
proof -
  have le: "(max_chunks r \<le> pending r) = (pending r = max_chunks r)"
    using assms by (auto simp: wf_reassembler_def)
  obtain ready r' where d: "drain (r\<lparr>next_seq := next_u64 (next_seq r)\<rparr>) [pl] = (ready, r')"
    by fastforce
  have gap: "\<exists>more. fst (accept r (next_seq r) pl) = Inr (pl # more)"
    using accept_in_order [OF assms, of pl] drain_extends [of "r\<lparr>next_seq := next_u64 (next_seq r)\<rparr>" "[pl]"]
    by (auto simp: d)
  have "(fst (accept r sq pl) = Inl e) =
      (next_seq r < sq \<and> sq |\<notin>| fmdom (buffered r)
       \<and> (if pending r = max_chunks r then e = TooManyChunks (max_chunks r)
          else max_bytes r < sat_add64 (buffered_bytes r) (length pl)
            \<and> e = TooManyBytes (max_bytes r)))"
    by (auto simp: accept_def le Let_def split: prod.splits)
  moreover have "isl (fst (accept r sq pl)) \<longrightarrow> snd (accept r sq pl) = r"
    by (cases "accept r sq pl") (auto dest: accept_error_unchanged simp: isl_def)
  ultimately show ?thesis using gap by blast
qed

theorem accept_refusals_witness:
  "fst (accept (with_caps 0 8) 3 [1]) = Inl (TooManyChunks 0)"
  using accept_refusals [OF wf_with_caps [of 0 8], of 3 "[1]" "TooManyChunks 0"]
  by (simp add: with_caps_def pending_def fcard_fempty)

text \<open>
  Stream frames. Decoding inverts encoding, and a decoded frame accounts for every byte
  read: a \<open>Data\<close> frame is exactly its encoding, an \<open>Open\<close> or \<open>Close\<close> frame is
  its encoding followed by bytes the decoder ignores. Nothing else is accepted.
\<close>

theorem stream_frame_decode_exact:
  "StreamFrame_decode bs = Some f \<longleftrightarrow>
     (if is_Data f then bs = StreamFrame_encode f else prefix (StreamFrame_encode f) bs)"
proof
  assume "StreamFrame_decode bs = Some f"
  then show "if is_Data f then bs = StreamFrame_encode f else prefix (StreamFrame_encode f) bs"
    using stream_decode_SomeD [of bs f] by (cases f) (auto simp: prefix_def)
next
  assume "if is_Data f then bs = StreamFrame_encode f else prefix (StreamFrame_encode f) bs"
  then show "StreamFrame_decode bs = Some f"
    by (cases f) (auto simp: prefix_def stream_kind_defs stream_decode_encode)
qed

end
