(* ===== verification/Plumtree.thy ===== *)
theory Plumtree
  imports Prelude
begin

text \<open>
  The dissemination state: the Plumtree neighbour sets and lazy timers
  (\<open>gossip/plumtree.rs\<close>), the seen set (\<open>gossip/seen_set.rs\<close>) and the message
  cache that answers GRAFT (\<open>gossip/message_cache.rs\<close>).

  The \<open>lru\<close> crate is a parameter: the record of its operations, with \<open>lru_laws\<close>
  stating their documented behaviour over a view of the contents, most recently used first. The
  clock is an argument of the operations that read it.
\<close>

section \<open>The LRU interface\<close>

record ('c, 'k, 'v) lru_ops =
  lru_new :: "nat \<Rightarrow> 'c"
  lru_cap :: "'c \<Rightarrow> nat"
  lru_len :: "'c \<Rightarrow> nat"
  lru_contains :: "'c \<Rightarrow> 'k \<Rightarrow> bool"
  lru_peek :: "'c \<Rightarrow> 'k \<Rightarrow> 'v option"
  lru_get :: "'c \<Rightarrow> 'k \<Rightarrow> 'v option \<times> 'c"
  lru_put :: "'c \<Rightarrow> 'k \<Rightarrow> 'v \<Rightarrow> 'c"
  lru_pop :: "'c \<Rightarrow> 'k \<Rightarrow> 'c"

definition without :: "'k \<Rightarrow> ('k \<times> 'v) list \<Rightarrow> ('k \<times> 'v) list" where
  "without k xs = filter (\<lambda>e. fst e \<noteq> k) xs"

definition lru_laws :: "('c, 'k, 'v) lru_ops \<Rightarrow> ('c \<Rightarrow> ('k \<times> 'v) list) \<Rightarrow> bool" where
  "lru_laws ops view \<longleftrightarrow>
     (\<forall>n. view (lru_new ops n) = [] \<and> lru_cap ops (lru_new ops n) = n)
     \<and> (\<forall>c. lru_len ops c = length (view c))
     \<and> (\<forall>c k. lru_contains ops c k \<longleftrightarrow> k \<in> fst ` set (view c))
     \<and> (\<forall>c k. lru_peek ops c k = map_of (view c) k)
     \<and> (\<forall>c k. fst (lru_get ops c k) = map_of (view c) k
          \<and> view (snd (lru_get ops c k)) =
              (case map_of (view c) k of None \<Rightarrow> view c | Some v \<Rightarrow> (k, v) # without k (view c))
          \<and> lru_cap ops (snd (lru_get ops c k)) = lru_cap ops c)
     \<and> (\<forall>c k v. view (lru_put ops c k v) = take (lru_cap ops c) ((k, v) # without k (view c))
          \<and> lru_cap ops (lru_put ops c k v) = lru_cap ops c)
     \<and> (\<forall>c k. view (lru_pop ops c k) = without k (view c)
          \<and> lru_cap ops (lru_pop ops c k) = lru_cap ops c)"

text \<open>The laws are satisfiable: a list of entries with its capacity.\<close>

definition list_lru :: "(nat \<times> ('k \<times> 'v) list, 'k, 'v) lru_ops" where
  "list_lru =
     \<lparr>lru_new = (\<lambda>n. (n, [])), lru_cap = fst, lru_len = (\<lambda>c. length (snd c)),
      lru_contains = (\<lambda>c k. k \<in> fst ` set (snd c)), lru_peek = (\<lambda>c k. map_of (snd c) k),
      lru_get = (\<lambda>c k. (map_of (snd c) k,
                        case map_of (snd c) k of None \<Rightarrow> c
                        | Some v \<Rightarrow> (fst c, (k, v) # without k (snd c)))),
      lru_put = (\<lambda>c k v. (fst c, take (fst c) ((k, v) # without k (snd c)))),
      lru_pop = (\<lambda>c k. (fst c, without k (snd c)))\<rparr>"

lemma list_lru_laws: "lru_laws list_lru snd"
  by (auto simp: lru_laws_def list_lru_def split: option.splits)

lemma lru_law:
  assumes "lru_laws ops view"
  shows lru_new_view: "view (lru_new ops n) = []" "lru_cap ops (lru_new ops n) = n"
    and lru_len_view: "lru_len ops c = length (view c)"
    and lru_contains_view: "lru_contains ops c k \<longleftrightarrow> k \<in> fst ` set (view c)"
    and lru_peek_view: "lru_peek ops c k = map_of (view c) k"
    and lru_get_view: "fst (lru_get ops c k) = map_of (view c) k"
    and lru_put_view: "view (lru_put ops c k v) = take (lru_cap ops c) ((k, v) # without k (view c))"
        "lru_cap ops (lru_put ops c k v) = lru_cap ops c"
    and lru_pop_view: "view (lru_pop ops c k) = without k (view c)"
        "lru_cap ops (lru_pop ops c k) = lru_cap ops c"
  using assms by (auto simp: lru_laws_def)

section \<open>The seen set\<close>

definition DEFAULT_MAX_SEEN_MESSAGES :: nat where
  "DEFAULT_MAX_SEEN_MESSAGES = 100000"

definition seen_with_capacity :: "('c, bytes32, unit) lru_ops \<Rightarrow> nat \<Rightarrow> 'c" where
  "seen_with_capacity ops capacity = lru_new ops (max capacity 1)"

definition SeenSet_new :: "('c, bytes32, unit) lru_ops \<Rightarrow> 'c" where
  "SeenSet_new ops = seen_with_capacity ops DEFAULT_MAX_SEEN_MESSAGES"

definition compute_hash :: "(bytes \<Rightarrow> bytes32) \<Rightarrow> u8 \<Rightarrow> bytes \<Rightarrow> bytes32" where
  "compute_hash sha ty dat = sha (ty # dat)"

definition seen_contains :: "('c, bytes32, unit) lru_ops \<Rightarrow> 'c \<Rightarrow> bytes32 \<Rightarrow> bool" where
  "seen_contains ops s hash = lru_contains ops s hash"

definition seen_insert :: "('c, bytes32, unit) lru_ops \<Rightarrow> 'c \<Rightarrow> bytes32 \<Rightarrow> bool \<times> 'c" where
  "seen_insert ops s hash =
     (if lru_contains ops s hash then (False, s) else (True, lru_put ops s hash ()))"

text \<open>The hashes accepted as new over a sequence of insertions.\<close>

fun seen_run :: "('c, bytes32, unit) lru_ops \<Rightarrow> 'c \<Rightarrow> bytes32 list \<Rightarrow> bytes32 list \<times> 'c" where
  "seen_run ops s [] = ([], s)"
| "seen_run ops s (h # hs) =
     (case seen_insert ops s h of
        (new, s') \<Rightarrow> (let (acc, s'') = seen_run ops s' hs in (if new then h # acc else acc, s'')))"

lemma seen_insert_view:
  assumes "lru_laws ops view"
  shows "fst (seen_insert ops s h) = (h \<notin> fst ` set (view s))"
    and "map fst (view (snd (seen_insert ops s h))) =
      (if h \<in> fst ` set (view s) then map fst (view s)
       else take (lru_cap ops s) (h # map fst (view s)))"
    and "lru_cap ops (snd (seen_insert ops s h)) = lru_cap ops s"
proof -
  have "without h (view s) = view s" if "h \<notin> fst ` set (view s)"
    using that by (auto simp: without_def filter_id_conv)
  then show "fst (seen_insert ops s h) = (h \<notin> fst ` set (view s))"
    "map fst (view (snd (seen_insert ops s h))) =
      (if h \<in> fst ` set (view s) then map fst (view s)
       else take (lru_cap ops s) (h # map fst (view s)))"
    "lru_cap ops (snd (seen_insert ops s h)) = lru_cap ops s"
    using lru_law [OF assms] by (auto simp: seen_insert_def simp flip: take_map)
qed

text \<open>The contents are always the most recent distinct window of the accepted hashes.\<close>

lemma seen_run_window:
  assumes "lru_laws ops view" "map fst (view s) = take (lru_cap ops s) (rev past)"
    and "seen_run ops s hs = (acc, s')"
  shows "map fst (view s') = take (lru_cap ops s) (rev (past @ acc))
    \<and> (\<forall>j < length acc. acc ! j \<notin> set (take (lru_cap ops s) (rev (past @ take j acc))))
    \<and> set hs \<subseteq> set past \<union> set acc"
  using assms(2,3)
proof (induction hs arbitrary: s past acc)
  case Nil
  then show ?case by simp
next
  case (Cons h hs)
  let ?n = "lru_cap ops s"
  obtain new s1 where ins: "seen_insert ops s h = (new, s1)" by fastforce
  obtain acc1 where run: "seen_run ops s1 hs = (acc1, s')"
    and acc: "acc = (if new then h # acc1 else acc1)"
    using Cons.prems(2) ins by (auto split: prod.splits)
  note v = seen_insert_view [OF assms(1), of s h]
  have keys: "fst ` set (view s) = set (take ?n (rev past))"
    using Cons.prems(1) by (metis list.set_map)
  have cap: "lru_cap ops s1 = ?n" using v(3) ins by simp
  show ?case
  proof (cases new)
    case False
    then have old: "h \<in> set (take ?n (rev past))" using v(1) keys ins by simp
    then have "map fst (view s1) = take (lru_cap ops s1) (rev past)"
      using v(2) keys ins cap Cons.prems(1) by simp
    note IH = Cons.IH [OF this run]
    moreover have "h \<in> set past" using old by (metis in_set_takeD set_rev)
    ultimately show ?thesis using acc False cap by auto
  next
    case True
    then have fresh: "h \<notin> set (take ?n (rev past))" using v(1) keys ins by simp
    then have "map fst (view s1) = take (lru_cap ops s1) (rev (past @ [h]))"
      using v(2) keys ins cap Cons.prems(1) by (simp add: take_Cons' min_def)
    note IH = Cons.IH [OF this run]
    have "acc ! j \<notin> set (take ?n (rev (past @ take j acc)))" if "j < length acc" for j
      using that fresh IH acc True cap by (cases j) auto
    then show ?thesis using IH acc True cap by auto
  qed
qed

text \<open>
  C32: Deduplication. Insert any sequence of message hashes into a fresh seen set of capacity
  \<open>n\<close>. Every hash is accepted at least once, and a hash is never accepted again within the
  next \<open>n\<close> accepted hashes, for any cache that behaves as the LRU crate documents: a
  repeat can only be treated as new after \<open>n\<close> other new messages.
\<close>

theorem seen_set_dedup:
  assumes "lru_laws ops view" "seen_run ops (seen_with_capacity ops n) hs = (acc, s)"
  shows "set acc = set hs
    \<and> (\<forall>i j. i < j \<longrightarrow> j < length acc \<longrightarrow> j \<le> i + max n 1 \<longrightarrow> acc ! i \<noteq> acc ! j)
    \<and> map fst (view s) = take (max n 1) (rev acc)"
proof -
  let ?n = "max n 1"
  have fresh: "map fst (view (seen_with_capacity ops n)) =
      take (lru_cap ops (seen_with_capacity ops n)) (rev [])"
    using lru_new_view [OF assms(1)] by (simp add: seen_with_capacity_def)
  have cap: "lru_cap ops (seen_with_capacity ops n) = ?n"
    using lru_new_view [OF assms(1)] by (simp add: seen_with_capacity_def)
  note w = seen_run_window [OF assms(1) fresh assms(2), unfolded cap]
  have sub: "set acc \<subseteq> set hs" if "seen_run ops t hs = (acc, s)" for t
    using that by (induction hs arbitrary: t acc) (fastforce split: prod.splits if_splits)+
  have "acc ! i \<noteq> acc ! j" if ij: "i < j" "j < length acc" "j \<le> i + ?n" for i j
  proof -
    have "rev (take j acc) ! (j - 1 - i) = acc ! i"
      using ij by (simp add: rev_nth)
    moreover have "j - 1 - i < length (take ?n (rev (take j acc)))" using ij by auto
    ultimately have "acc ! i \<in> set (take ?n (rev (take j acc)))"
      by (metis nth_mem nth_take length_take min_less_iff_conj)
    then show ?thesis using w ij(2) by auto
  qed
  then show ?thesis using w sub [OF assms(2)] by auto
qed

theorem seen_set_dedup_witness:
  "fst (seen_run list_lru (seen_with_capacity list_lru 1) [[1], [1], [2], [1]]) = [[1], [2], [1]]
   \<and> set (fst (seen_run list_lru (seen_with_capacity list_lru 1) [[1], [1], [2], [1]])) = {[1], [2]}"
proof -
  let ?run = "seen_run list_lru (seen_with_capacity list_lru 1) [[1], [1], [2], [1]]"
  have "set (fst ?run) = set [[1], [1], [2], [1]]"
    using seen_set_dedup [OF list_lru_laws, of 1 "[[1], [1], [2], [1]]" "fst ?run" "snd ?run"] by simp
  moreover have "fst ?run = [[1], [2], [1]]"
    by (simp add: seen_insert_def seen_with_capacity_def list_lru_def without_def)
  ultimately show ?thesis by auto
qed

section \<open>The message cache\<close>

record CacheEntry =
  ce_data :: bytes
  ce_msg_type :: u8
  inserted_at :: nat

record 'c MessageCache =
  mc_cache :: 'c
  ttl_secs :: nat

definition cache_with_config :: "('c, bytes32, CacheEntry) lru_ops \<Rightarrow> nat \<Rightarrow> nat \<Rightarrow> 'c MessageCache" where
  "cache_with_config ops capacity ttl = \<lparr>mc_cache = lru_new ops (max capacity 1), ttl_secs = ttl\<rparr>"

definition MessageCache_new :: "('c, bytes32, CacheEntry) lru_ops \<Rightarrow> 'c MessageCache" where
  "MessageCache_new ops = cache_with_config ops 1000 60"

definition cache_insert ::
  "('c, bytes32, CacheEntry) lru_ops \<Rightarrow> nat \<Rightarrow> bytes32 \<Rightarrow> u8 \<Rightarrow> bytes \<Rightarrow> 'c MessageCache \<Rightarrow> 'c MessageCache" where
  "cache_insert ops now hash ty dat m =
     m\<lparr>mc_cache := lru_put ops (mc_cache m) hash
         \<lparr>ce_data = dat, ce_msg_type = ty, inserted_at = now\<rparr>\<rparr>"

definition cache_get ::
  "('c, bytes32, CacheEntry) lru_ops \<Rightarrow> nat \<Rightarrow> bytes32 \<Rightarrow> 'c MessageCache
     \<Rightarrow> CacheEntry option \<times> 'c MessageCache" where
  "cache_get ops now hash m =
     (let expired = (case lru_peek ops (mc_cache m) hash of
                       None \<Rightarrow> True | Some e \<Rightarrow> ttl_secs m < now - inserted_at e)
      in if expired then (None, m\<lparr>mc_cache := lru_pop ops (mc_cache m) hash\<rparr>)
         else let (r, c) = lru_get ops (mc_cache m) hash in (r, m\<lparr>mc_cache := c\<rparr>))"

text \<open>
  The cache serves a GRAFT with the message last stored under its hash, exactly while it is
  no older than the time to live; a stale entry is not returned and is dropped, whatever other
  entries are present.
\<close>

theorem message_cache_ttl:
  assumes "lru_laws ops view" "0 < lru_cap ops (mc_cache m)"
    and "m' = cache_insert ops stored hash ty dat m"
  shows "fst (cache_get ops now hash m') =
      (if now - stored \<le> ttl_secs m
       then Some \<lparr>ce_data = dat, ce_msg_type = ty, inserted_at = stored\<rparr> else None)
    \<and> (ttl_secs m < now - stored \<longrightarrow>
        hash \<notin> fst ` set (view (mc_cache (snd (cache_get ops now hash m')))))
    \<and> lru_len ops (mc_cache m') \<le> lru_cap ops (mc_cache m)"
proof -
  let ?e = "\<lparr>ce_data = dat, ce_msg_type = ty, inserted_at = stored\<rparr>"
  have v: "view (mc_cache m') = take (lru_cap ops (mc_cache m)) ((hash, ?e) # without hash (view (mc_cache m)))"
    using lru_put_view [OF assms(1)] by (simp add: assms(3) cache_insert_def)
  then have look: "map_of (view (mc_cache m')) hash = Some ?e"
    using assms(2) by (cases "lru_cap ops (mc_cache m)") auto
  have ttl: "ttl_secs m' = ttl_secs m" by (simp add: assms(3) cache_insert_def)
  have "hash \<notin> fst ` set (view (lru_pop ops (mc_cache m') hash))"
    using lru_pop_view [OF assms(1)] by (auto simp: without_def)
  then show ?thesis
    using look ttl v lru_peek_view [OF assms(1)] lru_get_view [OF assms(1)] lru_len_view [OF assms(1)]
    by (auto simp: cache_get_def Let_def split: prod.splits) (metis fst_conv)
qed

theorem message_cache_ttl_witness:
  "fst (cache_get list_lru 70 [1] (cache_insert list_lru 10 [1] 2 [3] (MessageCache_new list_lru)))
     = Some \<lparr>ce_data = [3], ce_msg_type = 2, inserted_at = 10\<rparr>"
  using message_cache_ttl [OF list_lru_laws, of "MessageCache_new list_lru" _ 10 "[1]" 2 "[3]" 70]
  by (simp add: MessageCache_new_def cache_with_config_def list_lru_def)

section \<open>Neighbour sets and lazy timers\<close>

definition PLUMTREE_LAZY_TIMEOUT_MS :: nat where
  "PLUMTREE_LAZY_TIMEOUT_MS = 500"

record PlumtreeState =
  eager_peers :: "peer_id fset"
  lazy_peers :: "peer_id fset"
  lazy_queue :: "(bytes32, (peer_id \<times> nat) list) fmap"
  lazy_timeout_ms :: nat

definition with_lazy_timeout :: "nat \<Rightarrow> PlumtreeState" where
  "with_lazy_timeout t =
     \<lparr>eager_peers = {||}, lazy_peers = {||}, lazy_queue = fmempty, lazy_timeout_ms = t\<rparr>"

definition PlumtreeState_new :: PlumtreeState where
  "PlumtreeState_new = with_lazy_timeout PLUMTREE_LAZY_TIMEOUT_MS"

definition add_peer :: "peer_id \<Rightarrow> PlumtreeState \<Rightarrow> PlumtreeState" where
  "add_peer p st = st\<lparr>eager_peers := finsert p (eager_peers st)\<rparr>"

definition remove_peer :: "peer_id \<Rightarrow> PlumtreeState \<Rightarrow> PlumtreeState" where
  "remove_peer p st =
     st\<lparr>eager_peers := eager_peers st |-| {|p|}, lazy_peers := lazy_peers st |-| {|p|}\<rparr>"

definition demote_to_lazy :: "peer_id \<Rightarrow> PlumtreeState \<Rightarrow> PlumtreeState" where
  "demote_to_lazy p st =
     st\<lparr>eager_peers := eager_peers st |-| {|p|}, lazy_peers := finsert p (lazy_peers st)\<rparr>"

definition promote_to_eager :: "peer_id \<Rightarrow> PlumtreeState \<Rightarrow> PlumtreeState" where
  "promote_to_eager p st =
     st\<lparr>lazy_peers := lazy_peers st |-| {|p|}, eager_peers := finsert p (eager_peers st)\<rparr>"

text \<open>The clock in milliseconds is the whole-second clock times 1000.\<close>

definition clock_ms :: "nat \<Rightarrow> nat" where
  "clock_ms now_secs = now_secs * 1000 mod 2 ^ 64"

definition record_lazy_announce :: "nat \<Rightarrow> bytes32 \<Rightarrow> peer_id \<Rightarrow> PlumtreeState \<Rightarrow> PlumtreeState" where
  "record_lazy_announce now_secs hash announcer st =
     st\<lparr>lazy_queue := fmupd hash
          ((case fmlookup (lazy_queue st) hash of None \<Rightarrow> [] | Some xs \<Rightarrow> xs)
           @ [(announcer, clock_ms now_secs)]) (lazy_queue st)\<rparr>"

definition cancel_lazy_timer :: "bytes32 \<Rightarrow> PlumtreeState \<Rightarrow> PlumtreeState" where
  "cancel_lazy_timer hash st = st\<lparr>lazy_queue := fmdrop hash (lazy_queue st)\<rparr>"

definition first_timed_out :: "nat \<Rightarrow> PlumtreeState \<Rightarrow> bytes32 \<Rightarrow> peer_id option" where
  "first_timed_out now_secs st hash =
     (case fmlookup (lazy_queue st) hash of
        None \<Rightarrow> None
      | Some announcers \<Rightarrow>
          map_option fst
            (find (\<lambda>(p, at). lazy_timeout_ms st \<le> clock_ms now_secs - at) announcers))"

definition get_timed_out_lazy :: "nat \<Rightarrow> PlumtreeState \<Rightarrow> (bytes32 \<times> peer_id) fset" where
  "get_timed_out_lazy now_secs st =
     (\<lambda>h. (h, the (first_timed_out now_secs st h)))
       |`| ffilter (\<lambda>h. first_timed_out now_secs st h \<noteq> None) (fmdom (lazy_queue st))"

definition is_eager :: "PlumtreeState \<Rightarrow> peer_id \<Rightarrow> bool" where
  "is_eager st p \<longleftrightarrow> p |\<in>| eager_peers st"

definition is_lazy :: "PlumtreeState \<Rightarrow> peer_id \<Rightarrow> bool" where
  "is_lazy st p \<longleftrightarrow> p |\<in>| lazy_peers st"

definition peer_count :: "PlumtreeState \<Rightarrow> nat" where
  "peer_count st = fcard (eager_peers st) + fcard (lazy_peers st)"

text \<open>
  The life of the neighbour sets: a peer connects while it is not tracked, and while connected
  it may be pruned and grafted in any order; announcements and cancellations interleave freely.
  The first component is the set of connected peers.
\<close>

inductive plum_reachable :: "peer_id fset \<Rightarrow> PlumtreeState \<Rightarrow> bool" where
  plum_init: "plum_reachable {||} (with_lazy_timeout t)"
| plum_connect: "plum_reachable C st \<Longrightarrow> p |\<notin>| C \<Longrightarrow> plum_reachable (finsert p C) (add_peer p st)"
| plum_disconnect: "plum_reachable C st \<Longrightarrow> plum_reachable (C |-| {|p|}) (remove_peer p st)"
| plum_prune: "plum_reachable C st \<Longrightarrow> p |\<in>| C \<Longrightarrow> plum_reachable C (demote_to_lazy p st)"
| plum_graft: "plum_reachable C st \<Longrightarrow> p |\<in>| C \<Longrightarrow> plum_reachable C (promote_to_eager p st)"
| plum_announce: "plum_reachable C st \<Longrightarrow> plum_reachable C (record_lazy_announce now h p st)"
| plum_cancel: "plum_reachable C st \<Longrightarrow> plum_reachable C (cancel_lazy_timer h st)"

lemmas plum_ops = add_peer_def remove_peer_def demote_to_lazy_def promote_to_eager_def
  record_lazy_announce_def cancel_lazy_timer_def with_lazy_timeout_def

lemma plum_partition:
  assumes "plum_reachable C st"
  shows "eager_peers st |\<union>| lazy_peers st = C \<and> eager_peers st |\<inter>| lazy_peers st = {||}"
  using assms
proof induction
  case (plum_connect C st p)
  then show ?case by (auto simp: plum_ops)
qed (auto simp: plum_ops)

text \<open>
  Tree membership. In every reachable state each connected peer is either eager or lazy and
  never both, no disconnected peer is tracked, and the peer count is the number of connected
  peers; a newly connected peer is eager.
\<close>

theorem plumtree_partition:
  assumes "plum_reachable C st"
  shows "(p |\<in>| C) = (is_eager st p \<noteq> is_lazy st p)
    \<and> \<not> (is_eager st p \<and> is_lazy st p) \<and> peer_count st = fcard C
    \<and> is_eager (add_peer p st) p"
proof -
  note part = plum_partition [OF assms]
  then have "fcard C = fcard (eager_peers st) + fcard (lazy_peers st)"
    using fcard_funion_disjoint [of "eager_peers st" "lazy_peers st"] by simp
  then show ?thesis
    using part by (auto simp: is_eager_def is_lazy_def peer_count_def plum_ops)
qed

theorem plumtree_partition_witness:
  "is_lazy (demote_to_lazy [1] (add_peer [1] PlumtreeState_new)) [1]
   \<and> peer_count (demote_to_lazy [1] (add_peer [1] PlumtreeState_new)) = 1"
proof -
  have "plum_reachable {|[1]|} (add_peer [1] PlumtreeState_new)"
    unfolding PlumtreeState_new_def by (rule plum_connect [OF plum_init]) simp
  then have "plum_reachable {|[1]|} (demote_to_lazy [1] (add_peer [1] PlumtreeState_new))"
    by (rule plum_prune) simp
  from plumtree_partition [OF this, of "[1]"] show ?thesis
    by (simp add: is_lazy_def plum_ops fcard_finsert_disjoint fcard_fempty)
qed

lemma timed_out_iff:
  "(h, p) |\<in>| get_timed_out_lazy now st \<longleftrightarrow> first_timed_out now st h = Some p"
  by (auto simp: get_timed_out_lazy_def first_timed_out_def fmlookup_dom_iff image_iff
      split: option.splits)

text \<open>
  The lazy timer. A hash announced once is reported as timed out exactly when the clock's
  whole second has changed, for every timeout from 1 to 1000 ms: the 500 ms default is not
  measured, because the clock is read in seconds. A cancelled timer never fires, and at most one
  announcer is asked per hash.
\<close>

theorem lazy_timer_whole_seconds:
  assumes "fmlookup (lazy_queue st) h = None" "0 < lazy_timeout_ms st" "lazy_timeout_ms st \<le> 1000"
    and "announced \<le> now" "now * 1000 < 2 ^ 64"
  shows "((h, p) |\<in>| get_timed_out_lazy now (record_lazy_announce announced h p st)) = (announced < now)
    \<and> (h, q) |\<notin>| get_timed_out_lazy now (cancel_lazy_timer h (record_lazy_announce announced h p st))
    \<and> ((h, q) |\<in>| get_timed_out_lazy now st2 \<longrightarrow> (h, q') |\<in>| get_timed_out_lazy now st2 \<longrightarrow> q = q')"
proof -
  have small: "announced * 1000 < 2 ^ 64" using assms(4,5) by simp
  have "lazy_timeout_ms st \<le> now * 1000 - announced * 1000 \<longleftrightarrow> announced < now"
    using assms(2,3,4) by auto
  then show ?thesis
    using assms small
    by (auto simp: timed_out_iff first_timed_out_def plum_ops clock_ms_def)
qed

theorem lazy_timer_whole_seconds_witness:
  "(([7], [1]) |\<in>| get_timed_out_lazy 5 (record_lazy_announce 5 [7] [1] PlumtreeState_new)) = False
   \<and> ([7], [1]) |\<in>| get_timed_out_lazy 6 (record_lazy_announce 5 [7] [1] PlumtreeState_new)"
  using lazy_timer_whole_seconds [of PlumtreeState_new "[7]" 5 5 "[1]"]
    lazy_timer_whole_seconds [of PlumtreeState_new "[7]" 5 6 "[1]"]
  by (simp add: PlumtreeState_new_def with_lazy_timeout_def PLUMTREE_LAZY_TIMEOUT_MS_def)

end
