(* ===== verification/Fan_Out.thy ===== *)
theory Fan_Out
  imports Dig_Message Plumtree
begin

text \<open>
  The broadcast path of the service: \<open>GossipHandle::broadcast\<close>, \<open>broadcast_local\<close>,
  the shared \<open>fan_out\<close> and \<open>unreachable_peer_count\<close>
  (\<open>service/gossip_handle.rs\<close>), with the traffic counters it updates
  (\<open>types/peer.rs\<close>, \<open>service/state.rs\<close>).

  The peer map is the list of its entries in the order one iteration visits them. The record
  \<open>fan_env\<close> holds what the call depends on outside the crate: SHA-256, the serialised
  length of a message, the clock, whether a link accepts a message, and whether a session
  owner's sink accepts an offer. Every lock can be poisoned. Each operation also returns the
  peers the message was handed to, in order.
\<close>

section \<open>State\<close>

record PeerConnectionWireMetrics =
  creation_time :: nat
  bytes_read :: nat
  bytes_written :: nat
  wm_messages_sent :: nat
  wm_messages_received :: nat
  last_message_time :: nat

definition wire_metrics_new :: "nat \<Rightarrow> PeerConnectionWireMetrics" where
  "wire_metrics_new now =
     \<lparr>creation_time = now, bytes_read = 0, bytes_written = 0, wm_messages_sent = 0,
      wm_messages_received = 0, last_message_time = now\<rparr>"

definition record_message_sent :: "nat \<Rightarrow> PeerConnectionWireMetrics \<Rightarrow> PeerConnectionWireMetrics" where
  "record_message_sent wire_len m =
     m\<lparr>bytes_written := sat_add64 (bytes_written m) wire_len,
       wm_messages_sent := sat_add64 (wm_messages_sent m) 1\<rparr>"

definition record_message_received ::
  "nat \<Rightarrow> nat \<Rightarrow> PeerConnectionWireMetrics \<Rightarrow> PeerConnectionWireMetrics" where
  "record_message_received wire_len now m =
     m\<lparr>bytes_read := sat_add64 (bytes_read m) wire_len,
       wm_messages_received := sat_add64 (wm_messages_received m) 1, last_message_time := now\<rparr>"

datatype PeerSlot = SlotStub | SlotLive PeerConnectionWireMetrics | SlotNat (has_sink: bool)

datatype lock = SeenLock | CacheLock | PeersLock | PlumtreeLock

datatype MessageOrigin = Local | Forwarded

datatype GossipError = ServiceNotStarted | ChannelClosed | LinkError

record UnreachablePeers =
  un_nat :: nat
  un_lazy :: nat

definition unreachable_total :: "UnreachablePeers \<Rightarrow> nat" where
  "unreachable_total u = un_nat u + un_lazy u"

record ('s, 'c) gossip_state =
  running :: bool
  poisoned :: "lock set"
  gs_seen :: 's
  gs_cache :: "'c MessageCache"
  gs_peers :: "(peer_id \<times> PeerSlot) list"
  gs_plumtree :: PlumtreeState
  gs_messages_sent :: nat
  gs_bytes_sent :: nat

record fan_env =
  env_sha :: "bytes \<Rightarrow> bytes32"
  env_wire_len :: "DigMessage \<Rightarrow> nat"
  env_now :: nat
  env_send :: "peer_id \<Rightarrow> DigMessage \<Rightarrow> bool"
  env_offer :: "peer_id \<Rightarrow> DigMessage \<Rightarrow> bool"

section \<open>Fan-out\<close>

definition record_live_peer_outbound_bytes ::
  "peer_id \<Rightarrow> nat \<Rightarrow> ('s, 'c) gossip_state \<Rightarrow> ('s, 'c) gossip_state" where
  "record_live_peer_outbound_bytes pid wire_len st =
     (if PeersLock \<in> poisoned st then st
      else st\<lparr>gs_peers :=
        map (\<lambda>(p, slot). (p, case slot of
               SlotLive m \<Rightarrow> (if p = pid then SlotLive (record_message_sent wire_len m) else slot)
             | _ \<Rightarrow> slot)) (gs_peers st)\<rparr>)"

definition fan_targets :: "peer_id option \<Rightarrow> ('s, 'c) gossip_state \<Rightarrow> (peer_id \<times> PeerSlot) list" where
  "fan_targets exclude st = filter (\<lambda>(p, _). exclude \<noteq> Some p) (gs_peers st)"

definition stub_count :: "(peer_id \<times> PeerSlot) list \<Rightarrow> nat" where
  "stub_count ts = length (filter (\<lambda>(_, slot). slot = SlotStub) ts)"

definition eager_jobs :: "PlumtreeState \<Rightarrow> (peer_id \<times> PeerSlot) list \<Rightarrow> peer_id list" where
  "eager_jobs pt ts =
     map fst (filter (\<lambda>(p, slot). (case slot of SlotLive _ \<Rightarrow> is_eager pt p | _ \<Rightarrow> False)) ts)"

definition nat_jobs :: "(peer_id \<times> PeerSlot) list \<Rightarrow> peer_id list" where
  "nat_jobs ts = map fst (filter (\<lambda>(_, slot). slot = SlotNat True) ts)"

definition fan_unreachable :: "PlumtreeState \<Rightarrow> (peer_id \<times> PeerSlot) list \<Rightarrow> UnreachablePeers" where
  "fan_unreachable pt ts =
     \<lparr>un_nat = length (filter (\<lambda>(_, slot). slot = SlotNat False) ts),
      un_lazy = length (filter (\<lambda>(p, slot). (case slot of SlotLive _ \<Rightarrow> \<not> is_eager pt p | _ \<Rightarrow> False)) ts)\<rparr>"

text \<open>The eager loop stops at the first link that fails (the \<open>?\<close> on \<open>send_message\<close>).\<close>

fun send_eager ::
  "fan_env \<Rightarrow> DigMessage \<Rightarrow> peer_id list \<Rightarrow> ('s, 'c) gossip_state
     \<Rightarrow> bool \<times> peer_id list \<times> ('s, 'c) gossip_state" where
  "send_eager env msg [] st = (True, [], st)"
| "send_eager env msg (p # ps) st =
     (if env_send env p msg then
        (let (ok, sent, st') =
           send_eager env msg ps (record_live_peer_outbound_bytes p (env_wire_len env msg) st)
         in (ok, p # sent, st'))
      else (False, [], st))"

fun offer_nat ::
  "fan_env \<Rightarrow> DigMessage \<Rightarrow> peer_id list \<Rightarrow> ('s, 'c) gossip_state
     \<Rightarrow> peer_id list \<times> ('s, 'c) gossip_state" where
  "offer_nat env msg [] st = ([], st)"
| "offer_nat env msg (p # ps) st =
     (if env_offer env p msg then
        (let (sent, st') =
           offer_nat env msg ps (record_live_peer_outbound_bytes p (env_wire_len env msg) st)
         in (p # sent, st'))
      else offer_nat env msg ps st)"

definition count_sent :: "nat \<Rightarrow> nat \<Rightarrow> ('s, 'c) gossip_state \<Rightarrow> ('s, 'c) gossip_state" where
  "count_sent wire_len n st =
     st\<lparr>gs_messages_sent := (gs_messages_sent st + n) mod 2 ^ 64,
        gs_bytes_sent := (gs_bytes_sent st + sat_mul64 wire_len n) mod 2 ^ 64\<rparr>"

definition deliver ::
  "fan_env \<Rightarrow> DigMessage \<Rightarrow> peer_id option \<Rightarrow> ('s, 'c) gossip_state
     \<Rightarrow> (GossipError + nat) \<times> peer_id list \<times> ('s, 'c) gossip_state" where
  "deliver env msg exclude st =
     (let wire_len = env_wire_len env msg;
          ts = fan_targets exclude st;
          stubs = map fst (filter (\<lambda>(_, slot). slot = SlotStub) ts);
          eager = eager_jobs (gs_plumtree st) ts;
          st1 = count_sent wire_len (stub_count ts) st;
          (ok, eager_sent, st2) = send_eager env msg eager st1
      in if \<not> ok then (Inl LinkError, stubs @ eager_sent, st2)
         else let (nat_sent, st3) = offer_nat env msg (nat_jobs ts) st2;
                  st4 = count_sent wire_len (length nat_sent) st3
              in (Inr (stub_count ts + length eager + length nat_sent),
                  stubs @ eager_sent @ nat_sent, st4))"

definition fan_out ::
  "fan_env \<Rightarrow> ('s, bytes32, unit) lru_ops \<Rightarrow> ('c, bytes32, CacheEntry) lru_ops \<Rightarrow> DigMessage
     \<Rightarrow> peer_id option \<Rightarrow> MessageOrigin \<Rightarrow> ('s, 'c) gossip_state
     \<Rightarrow> (GossipError + nat) \<times> peer_id list \<times> ('s, 'c) gossip_state" where
  "fan_out env seen_ops cache_ops msg exclude origin st =
     (if \<not> running st then (Inl ServiceNotStarted, [], st)
      else let hash = compute_hash (env_sha env) (msg_type msg) (data msg)
      in if SeenLock \<in> poisoned st then (Inl ChannelClosed, [], st)
      else if origin = Forwarded \<and> seen_contains seen_ops (gs_seen st) hash then (Inr 0, [], st)
      else let st1 = st\<lparr>gs_seen := lru_put seen_ops (gs_seen st) hash ()\<rparr>
      in if CacheLock \<in> poisoned st then (Inl ChannelClosed, [], st1)
      else let st2 = st1\<lparr>gs_cache :=
                 cache_insert cache_ops (env_now env) hash (msg_type msg) (data msg) (gs_cache st1)\<rparr>
      in if PeersLock \<in> poisoned st \<or> PlumtreeLock \<in> poisoned st then (Inl ChannelClosed, [], st2)
      else deliver env msg exclude st2)"

definition broadcast where
  "broadcast env seen_ops cache_ops msg exclude st =
     fan_out env seen_ops cache_ops msg exclude Forwarded st"

definition broadcast_local where
  "broadcast_local env seen_ops cache_ops msg exclude st =
     fan_out env seen_ops cache_ops msg exclude Local st"

definition unreachable_peer_count :: "('s, 'c) gossip_state \<Rightarrow> nat" where
  "unreachable_peer_count st =
     (if PeersLock \<in> poisoned st \<or> PlumtreeLock \<in> poisoned st then 0
      else length (filter (\<lambda>(p, slot). (case slot of
             SlotNat _ \<Rightarrow> True
           | SlotLive _ \<Rightarrow> \<not> is_eager (gs_plumtree st) p
           | SlotStub \<Rightarrow> False)) (gs_peers st)))"

section \<open>What the loops do\<close>

text \<open>The parts of the state the delivery loops leave alone.\<close>

definition same_routing :: "('s, 'c) gossip_state \<Rightarrow> ('s, 'c) gossip_state \<Rightarrow> bool" where
  "same_routing st st' \<longleftrightarrow> running st' = running st \<and> poisoned st' = poisoned st
     \<and> gs_seen st' = gs_seen st \<and> gs_cache st' = gs_cache st \<and> gs_plumtree st' = gs_plumtree st
     \<and> map fst (gs_peers st') = map fst (gs_peers st)"

lemma same_routing_refl: "same_routing st st"
  by (simp add: same_routing_def)

lemma same_routing_trans: "same_routing a b \<Longrightarrow> same_routing b c \<Longrightarrow> same_routing a c"
  by (simp add: same_routing_def)

lemma same_routing_record: "same_routing st (record_live_peer_outbound_bytes p n st)"
  by (simp add: same_routing_def record_live_peer_outbound_bytes_def split_beta comp_def)

lemma same_routing_count: "same_routing st (count_sent n k st)"
  by (simp add: same_routing_def count_sent_def)

lemma send_eager_spec:
  "send_eager env msg ps st = (ok, sent, st') \<Longrightarrow>
     ok = list_all (\<lambda>p. env_send env p msg) ps \<and> sent = takeWhile (\<lambda>p. env_send env p msg) ps
     \<and> same_routing st st'"
proof (induction ps arbitrary: st sent)
  case Nil
  then show ?case by (auto simp: same_routing_refl)
next
  case (Cons p ps)
  show ?case
  proof (cases "env_send env p msg")
    case True
    obtain sent1 where run: "send_eager env msg ps
        (record_live_peer_outbound_bytes p (env_wire_len env msg) st) = (ok, sent1, st')"
      and "sent = p # sent1"
      using Cons.prems True by (auto split: prod.splits)
    then show ?thesis
      using Cons.IH [OF run] True same_routing_trans [OF same_routing_record] by auto
  next
    case False
    then show ?thesis using Cons.prems by (auto simp: same_routing_refl)
  qed
qed

lemma offer_nat_spec:
  "offer_nat env msg ps st = (sent, st') \<Longrightarrow>
     sent = filter (\<lambda>p. env_offer env p msg) ps \<and> same_routing st st'"
proof (induction ps arbitrary: st sent)
  case Nil
  then show ?case by (auto simp: same_routing_refl)
next
  case (Cons p ps)
  show ?case
  proof (cases "env_offer env p msg")
    case True
    obtain sent1 where run: "offer_nat env msg ps
        (record_live_peer_outbound_bytes p (env_wire_len env msg) st) = (sent1, st')"
      and "sent = p # sent1"
      using Cons.prems True by (auto split: prod.splits)
    then show ?thesis
      using Cons.IH [OF run] True same_routing_trans [OF same_routing_record] by auto
  next
    case False
    then show ?thesis using Cons by auto
  qed
qed

definition stub_peers :: "(peer_id \<times> PeerSlot) list \<Rightarrow> peer_id list" where
  "stub_peers ts = map fst (filter (\<lambda>(_, slot). slot = SlotStub) ts)"

lemma deliver_spec:
  fixes env msg exclude and st :: "('s, 'c) gossip_state"
  defines "ts \<equiv> fan_targets exclude st"
  defines "eager \<equiv> eager_jobs (gs_plumtree st) ts"
  assumes "deliver env msg exclude st = (res, rs, st')"
  shows "same_routing st st'
    \<and> (if list_all (\<lambda>p. env_send env p msg) eager
       then rs = stub_peers ts @ eager @ filter (\<lambda>p. env_offer env p msg) (nat_jobs ts)
         \<and> res = Inr (length rs)
       else rs = stub_peers ts @ takeWhile (\<lambda>p. env_send env p msg) eager \<and> res = Inl LinkError)"
proof -
  let ?st1 = "count_sent (env_wire_len env msg) (stub_count ts) st"
  obtain ok sent st2 where e: "send_eager env msg eager ?st1 = (ok, sent, st2)"
    by (metis prod_cases3)
  obtain nats st3 where n: "offer_nat env msg (nat_jobs ts) st2 = (nats, st3)" by fastforce
  note se = send_eager_spec [OF e] and on = offer_nat_spec [OF n]
  have d: "deliver env msg exclude st =
      (if \<not> ok then (Inl LinkError, stub_peers ts @ sent, st2)
       else (Inr (stub_count ts + length eager + length nats), stub_peers ts @ sent @ nats,
             count_sent (env_wire_len env msg) (length nats) st3))"
    using e n by (simp add: deliver_def Let_def ts_def eager_def stub_peers_def)
  have sr: "same_routing st st2" using se same_routing_trans [OF same_routing_count] by blast
  then have sr': "same_routing st (count_sent (env_wire_len env msg) (length nats) st3)"
    using on same_routing_trans same_routing_count by blast
  have len: "length (stub_peers ts) = stub_count ts"
    by (simp add: stub_peers_def stub_count_def)
  show ?thesis
  proof (cases ok)
    case True
    then have all: "list_all (\<lambda>p. env_send env p msg) eager" using se by simp
    then have "sent = eager" using se by (simp add: list_all_iff)
    then have "(res, rs, st') = (Inr (length rs), stub_peers ts @ eager @ nats, st')"
      and "st' = count_sent (env_wire_len env msg) (length nats) st3"
      using assms(3) d True len by auto
    then show ?thesis using all on sr' by simp
  next
    case False
    then show ?thesis using assms(3) d se sr by auto
  qed
qed

section \<open>Properties of a broadcast\<close>

definition reaches :: "fan_env \<Rightarrow> DigMessage \<Rightarrow> PlumtreeState \<Rightarrow> peer_id \<times> PeerSlot \<Rightarrow> bool" where
  "reaches env msg pt t =
     (case snd t of SlotStub \<Rightarrow> True | SlotLive _ \<Rightarrow> is_eager pt (fst t)
      | SlotNat sink \<Rightarrow> sink \<and> env_offer env (fst t) msg)"

lemma fan_sets:
  "set (stub_peers ts) = fst ` {t \<in> set ts. snd t = SlotStub}"
  "set (eager_jobs pt ts) = fst ` {t \<in> set ts. case snd t of SlotLive _ \<Rightarrow> is_eager pt (fst t) | _ \<Rightarrow> False}"
  "set (nat_jobs ts) = fst ` {t \<in> set ts. snd t = SlotNat True}"
  by (auto simp: stub_peers_def eager_jobs_def nat_jobs_def split_beta)

lemma fan_lists_distinct:
  assumes "distinct (map fst (gs_peers st))"
  shows "distinct (stub_peers (fan_targets exclude st) @ eager_jobs pt (fan_targets exclude st)
    @ filter (\<lambda>p. env_offer env p msg) (nat_jobs (fan_targets exclude st)))"
proof -
  let ?ts = "fan_targets exclude st"
  have dist: "distinct (map fst ?ts)"
    using assms by (auto simp: fan_targets_def distinct_map intro: inj_on_subset)
  then have inj: "inj_on fst (set ?ts)" by (simp add: distinct_map)
  have disj: "fst ` A \<inter> fst ` B = {}" if "A \<subseteq> set ?ts" "B \<subseteq> set ?ts" "A \<inter> B = {}" for A B
    using inj_on_image_Int [OF inj that(1,2)] that(3) by simp
  have "distinct (stub_peers ?ts)" "distinct (eager_jobs pt ?ts)" "distinct (nat_jobs ?ts)"
    using dist
    by (auto simp: stub_peers_def eager_jobs_def nat_jobs_def distinct_map intro!: distinct_filter intro: inj_on_subset)
  moreover have "set (stub_peers ?ts) \<inter> set (eager_jobs pt ?ts) = {}"
    unfolding fan_sets by (rule disj) (auto split: PeerSlot.splits)
  moreover have "set (stub_peers ?ts) \<inter> set (nat_jobs ?ts) = {}"
    unfolding fan_sets by (rule disj) auto
  moreover have "set (eager_jobs pt ?ts) \<inter> set (nat_jobs ?ts) = {}"
    unfolding fan_sets by (rule disj) (auto split: PeerSlot.splits)
  ultimately show ?thesis by auto
qed

lemma fan_reached:
  "set (stub_peers (fan_targets exclude st) @ eager_jobs pt (fan_targets exclude st)
      @ filter (\<lambda>p. env_offer env p msg) (nat_jobs (fan_targets exclude st)))
    = fst ` {t \<in> set (gs_peers st). exclude \<noteq> Some (fst t) \<and> reaches env msg pt t}"
proof -
  let ?ts = "fan_targets exclude st"
  let ?A = "{t \<in> set ?ts. snd t = SlotStub}"
    and ?B = "{t \<in> set ?ts. case snd t of SlotLive _ \<Rightarrow> is_eager pt (fst t) | _ \<Rightarrow> False}"
    and ?C = "{t \<in> set ?ts. snd t = SlotNat True \<and> env_offer env (fst t) msg}"
  have "set (filter (\<lambda>p. env_offer env p msg) (nat_jobs ?ts)) = fst ` ?C"
    by (auto simp: fan_sets)
  then have "set (stub_peers ?ts @ eager_jobs pt ?ts @ filter (\<lambda>p. env_offer env p msg) (nat_jobs ?ts))
      = fst ` (?A \<union> ?B \<union> ?C)"
    unfolding set_append fan_sets(1,2) by (simp only: image_Un Un_assoc)
  moreover have "?A \<union> ?B \<union> ?C = {t \<in> set (gs_peers st). exclude \<noteq> Some (fst t) \<and> reaches env msg pt t}"
    by (rule set_eqI) (auto simp: reaches_def fan_targets_def split: PeerSlot.splits)
  ultimately show ?thesis by simp
qed

text \<open>
  C3: Delivery. A broadcast that is not suppressed, on a running service, hands the message at most
  once to each peer. When every eager link takes it, it reaches every connected peer other than the
  excluded one that is a stub, an eager live peer, or a mux peer whose sink takes the offer, and
  nobody else, and the count returned is the number of those peers. When an eager link fails, the
  link error is returned, and the message has reached the stubs and the eager peers visited before
  the broken link, but no later eager peer and no mux peer.
\<close>

theorem fan_out_delivers:
  assumes "running st" "poisoned st = {}" "distinct (map fst (gs_peers st))"
    and "origin = Local \<or>
      \<not> seen_contains seen_ops (gs_seen st) (compute_hash (env_sha env) (msg_type msg) (data msg))"
  shows "\<exists>res rs st'. fan_out env seen_ops cache_ops msg exclude origin st = (res, rs, st') \<and> distinct rs
    \<and> (if \<forall>p m. (p, SlotLive m) \<in> set (gs_peers st) \<and> exclude \<noteq> Some p \<and> is_eager (gs_plumtree st) p
             \<longrightarrow> env_send env p msg
       then res = Inr (length rs)
         \<and> set rs = fst ` {t \<in> set (gs_peers st). exclude \<noteq> Some (fst t) \<and> reaches env msg (gs_plumtree st) t}
       else res = Inl LinkError
         \<and> rs = stub_peers (fan_targets exclude st)
             @ takeWhile (\<lambda>p. env_send env p msg) (eager_jobs (gs_plumtree st) (fan_targets exclude st)))"
proof -
  let ?h = "compute_hash (env_sha env) (msg_type msg) (data msg)"
  let ?st = "st\<lparr>gs_seen := lru_put seen_ops (gs_seen st) ?h (),
    gs_cache := cache_insert cache_ops (env_now env) ?h (msg_type msg) (data msg) (gs_cache st)\<rparr>"
  let ?ts = "fan_targets exclude st" and ?pt = "gs_plumtree st"
  let ?eager = "eager_jobs ?pt ?ts" and ?nat = "filter (\<lambda>p. env_offer env p msg) (nat_jobs ?ts)"
  obtain res rs st' where d: "deliver env msg exclude ?st = (res, rs, st')"
    by (rule prod_cases3)
  have run: "fan_out env seen_ops cache_ops msg exclude origin st = (res, rs, st')"
    using assms(1,2,4) d by (auto simp: fan_out_def Let_def)
  have ts: "fan_targets exclude ?st = ?ts"
    by (simp add: fan_targets_def)
  have takes: "list_all (\<lambda>p. env_send env p msg) ?eager \<longleftrightarrow>
      (\<forall>p m. (p, SlotLive m) \<in> set (gs_peers st) \<and> exclude \<noteq> Some p \<and> is_eager ?pt p \<longrightarrow> env_send env p msg)"
    unfolding list_all_iff fan_sets by (fastforce simp: fan_targets_def split: PeerSlot.splits)
  note spec = deliver_spec [OF d, unfolded ts, simplified, unfolded takes]
  note whole = fan_lists_distinct [OF assms(3), of exclude ?pt env msg]
  have "distinct (stub_peers ?ts @ takeWhile (\<lambda>p. env_send env p msg) ?eager)"
    using whole set_takeWhileD by (fastforce simp: distinct_takeWhile)
  then show ?thesis
    using run spec whole fan_reached [of exclude st ?pt env msg] by (auto split: if_splits)
qed

text \<open>A concrete service: one eager live peer, one lazy live peer, one mux peer with a sink.\<close>

definition demo_env :: fan_env where
  "demo_env = \<lparr>env_sha = (\<lambda>b. b), env_wire_len = (\<lambda>m. length (data m)), env_now = 0,
     env_send = (\<lambda>_ _. True), env_offer = (\<lambda>_ _. True)\<rparr>"

definition demo_state ::
  "(nat \<times> (bytes32 \<times> unit) list, nat \<times> (bytes32 \<times> CacheEntry) list) gossip_state" where
  "demo_state =
     \<lparr>running = True, poisoned = {}, gs_seen = seen_with_capacity list_lru 10,
      gs_cache = MessageCache_new list_lru,
      gs_peers = [([1], SlotLive (wire_metrics_new 0)), ([2], SlotLive (wire_metrics_new 0)),
                  ([3], SlotNat True)],
      gs_plumtree = demote_to_lazy [2] (add_peer [2] (add_peer [1] PlumtreeState_new)),
      gs_messages_sent = 0, gs_bytes_sent = 0\<rparr>"

lemmas demo_defs = demo_env_def demo_state_def seen_with_capacity_def list_lru_def plum_ops
  PlumtreeState_new_def MessageCache_new_def cache_with_config_def wire_metrics_new_def

theorem fan_out_delivers_witness:
  "\<exists>rs st'. fan_out demo_env list_lru list_lru (frame_envelope [9] None) None Local demo_state
     = (Inr (length rs), rs, st') \<and> set rs = {[1], [3]}"
proof -
  let ?msg = "frame_envelope [9] None"
  obtain res rs st' where run: "fan_out demo_env list_lru list_lru ?msg None Local demo_state = (res, rs, st')"
    by (rule prod_cases3)
  have takes: "env_send demo_env p m" for p m
    by (simp add: demo_env_def)
  have "res = Inr (length rs)
    \<and> set rs = fst ` {t \<in> set (gs_peers demo_state). reaches demo_env ?msg (gs_plumtree demo_state) t}"
    using fan_out_delivers [of demo_state Local list_lru demo_env ?msg list_lru None] run takes
    by (simp add: demo_state_def)
  moreover have "fst ` {t \<in> set (gs_peers demo_state). reaches demo_env ?msg (gs_plumtree demo_state) t} = {[1], [3]}"
    by (auto simp: demo_defs reaches_def is_eager_def image_iff)
  ultimately show ?thesis using run by auto
qed

lemma fan_out_records:
  assumes "lru_laws seen_ops view" "0 < lru_cap seen_ops (gs_seen st)" "running st" "poisoned st = {}"
    and "fan_out env seen_ops cache_ops msg exclude origin st = (res, rs, st')"
  shows "seen_contains seen_ops (gs_seen st') (compute_hash (env_sha env) (msg_type msg) (data msg))
    \<and> running st' \<and> poisoned st' = {}"
proof -
  let ?h = "compute_hash (env_sha env) (msg_type msg) (data msg)"
  have put: "seen_contains seen_ops (lru_put seen_ops (gs_seen st) ?h ()) ?h"
    using lru_put_view [OF assms(1)] lru_contains_view [OF assms(1)] assms(2)
    by (cases "lru_cap seen_ops (gs_seen st)") (auto simp: seen_contains_def)
  let ?st = "st\<lparr>gs_seen := lru_put seen_ops (gs_seen st) ?h (),
    gs_cache := cache_insert cache_ops (env_now env) ?h (msg_type msg) (data msg) (gs_cache st)\<rparr>"
  show ?thesis
  proof (cases "origin = Forwarded \<and> seen_contains seen_ops (gs_seen st) ?h")
    case True
    then show ?thesis using assms(3-5) by (auto simp: fan_out_def Let_def)
  next
    case False
    then have "deliver env msg exclude ?st = (res, rs, st')"
      using assms(3-5) by (auto simp: fan_out_def Let_def)
    then have "same_routing ?st st'" using deliver_spec by blast
    then show ?thesis using put assms(3,4) by (simp add: same_routing_def)
  qed
qed

text \<open>
  Loop suppression. Once a message has been through the fan-out of a running service,
  forwarded or originated here, successfully or not, forwarding the same bytes again reaches
  nobody, returns zero and changes nothing.
\<close>

theorem rebroadcast_suppressed:
  assumes "lru_laws seen_ops view" "0 < lru_cap seen_ops (gs_seen st)" "running st" "poisoned st = {}"
    and "fan_out env seen_ops cache_ops msg exclude origin st = (res, rs, st')"
    and "env_sha env' = env_sha env"
  shows "broadcast env' seen_ops cache_ops (msg\<lparr>msg_id := i\<rparr>) exclude' st' = (Inr 0, [], st')"
  using fan_out_records [OF assms(1-5)] assms(6)
  by (simp add: broadcast_def fan_out_def Let_def)

theorem rebroadcast_suppressed_witness:
  "let (res, rs, st') = fan_out demo_env list_lru list_lru (frame_envelope [9] None) None Local demo_state
   in broadcast demo_env list_lru list_lru (frame_envelope [9] (Some 4)) None st' = (Inr 0, [], st')"
proof -
  obtain res rs st' where run:
    "fan_out demo_env list_lru list_lru (frame_envelope [9] None) None Local demo_state = (res, rs, st')"
    by (metis prod_cases3)
  have "broadcast demo_env list_lru list_lru ((frame_envelope [9] None)\<lparr>msg_id := Some 4\<rparr>) None st'
      = (Inr 0, [], st')"
    by (rule rebroadcast_suppressed [OF list_lru_laws _ _ _ run]) (simp_all add: demo_defs)
  then show ?thesis using run by (simp add: frame_envelope_def)
qed

text \<open>
  One broken link ends a broadcast. When an eager link fails, the call returns the link
  error, the message has reached only the stubs and the eager peers visited before the broken
  one, no mux peer has been offered it, and forwarding it again reaches nobody, because the
  message is already in the seen set.
\<close>

theorem broken_link_ends_broadcast:
  assumes "lru_laws seen_ops view" "0 < lru_cap seen_ops (gs_seen st)" "running st" "poisoned st = {}"
    and "\<not> seen_contains seen_ops (gs_seen st) (compute_hash (env_sha env) (msg_type msg) (data msg))"
    and "eager_jobs (gs_plumtree st) (fan_targets exclude st) = before @ broken # after"
    and "list_all (\<lambda>p. env_send env p msg) before" "\<not> env_send env broken msg"
  shows "\<exists>st'. broadcast env seen_ops cache_ops msg exclude st =
      (Inl LinkError, stub_peers (fan_targets exclude st) @ before, st')
    \<and> broadcast env seen_ops cache_ops msg exclude st' = (Inr 0, [], st')"
proof -
  let ?h = "compute_hash (env_sha env) (msg_type msg) (data msg)"
  let ?st = "st\<lparr>gs_seen := lru_put seen_ops (gs_seen st) ?h (),
    gs_cache := cache_insert cache_ops (env_now env) ?h (msg_type msg) (data msg) (gs_cache st)\<rparr>"
  obtain res rs st' where run: "broadcast env seen_ops cache_ops msg exclude st = (res, rs, st')"
    by (metis prod_cases3)
  have d: "deliver env msg exclude ?st = (res, rs, st')"
    using run assms(3-5) by (auto simp: broadcast_def fan_out_def Let_def)
  have "takeWhile (\<lambda>p. env_send env p msg) (before @ broken # after) = before"
    using assms(7,8) by (simp add: list_all_iff takeWhile_append)
  then have "rs = stub_peers (fan_targets exclude st) @ before \<and> res = Inl LinkError"
    using deliver_spec [OF d] assms(6,8) by (simp add: fan_targets_def)
  moreover have "broadcast env seen_ops cache_ops msg exclude st' = (Inr 0, [], st')"
    using fan_out_records [OF assms(1-4) run [unfolded broadcast_def]]
    by (simp add: broadcast_def fan_out_def Let_def)
  ultimately show ?thesis using run by blast
qed

theorem broken_link_ends_broadcast_witness:
  "\<exists>st'. broadcast (demo_env\<lparr>env_send := (\<lambda>p _. p \<noteq> [1])\<rparr>) list_lru list_lru
      (frame_envelope [9] None) None demo_state = (Inl LinkError, [], st')"
proof -
  let ?env = "demo_env\<lparr>env_send := (\<lambda>p _. p \<noteq> [1])\<rparr>"
  have "\<exists>st'. broadcast ?env list_lru list_lru (frame_envelope [9] None) None demo_state =
      (Inl LinkError, stub_peers (fan_targets None demo_state) @ [], st')
    \<and> broadcast ?env list_lru list_lru (frame_envelope [9] None) None st' = (Inr 0, [], st')"
    by (rule broken_link_ends_broadcast [OF list_lru_laws, where broken = "[1]" and after = "[]"])
      (simp_all add: demo_defs seen_contains_def eager_jobs_def fan_targets_def is_eager_def)
  then show ?thesis by (auto simp: stub_peers_def fan_targets_def demo_state_def)
qed

lemma slot_count:
  "length (stub_peers ts) + length (eager_jobs pt ts)
     + length (filter (\<lambda>(p, slot). (case slot of SlotNat _ \<Rightarrow> True
          | SlotLive _ \<Rightarrow> \<not> is_eager pt p | SlotStub \<Rightarrow> False)) ts) = length ts"
  by (induction ts) (auto simp: stub_peers_def eager_jobs_def split: PeerSlot.splits)

text \<open>
  \<open>unreachable_peer_count\<close> disagrees with the broadcast it describes. When every link and
  sink accepts, the peers a broadcast reaches and the peers reported unreachable together exceed
  the connected peers by exactly the number of mux peers with a sink, each of which is counted as
  unreachable although the broadcast delivers to it.
\<close>

theorem unreachable_overcounts:
  assumes "running st" "poisoned st = {}"
    and "\<And>p. env_send env p msg" "\<And>p. env_offer env p msg"
    and "fan_out env seen_ops cache_ops msg None Local st = (Inr n, rs, st')"
  shows "n + unreachable_peer_count st = length (gs_peers st) + length (nat_jobs (gs_peers st))"
proof -
  let ?ts = "gs_peers st" and ?pt = "gs_plumtree st"
  let ?h = "compute_hash (env_sha env) (msg_type msg) (data msg)"
  let ?st = "st\<lparr>gs_seen := lru_put seen_ops (gs_seen st) ?h (),
    gs_cache := cache_insert cache_ops (env_now env) ?h (msg_type msg) (data msg) (gs_cache st)\<rparr>"
  have d: "deliver env msg None ?st = (Inr n, rs, st')"
    using assms(1,2,5) by (auto simp: fan_out_def Let_def)
  have "n = length (stub_peers ?ts) + length (eager_jobs ?pt ?ts) + length (nat_jobs ?ts)"
    using deliver_spec [OF d] assms(3,4) by (simp add: list_all_iff fan_targets_def)
  moreover have "length (stub_peers ?ts) + length (eager_jobs ?pt ?ts) + unreachable_peer_count st
      = length ?ts"
    using slot_count [of ?ts ?pt] assms(2) by (simp only: unreachable_peer_count_def empty_iff simp_thms if_False)
  ultimately show ?thesis by linarith
qed

theorem unreachable_overcounts_witness:
  "\<exists>n rs st'. fan_out demo_env list_lru list_lru (frame_envelope [9] None) None Local demo_state
      = (Inr n, rs, st') \<and> n + unreachable_peer_count demo_state = 4 \<and> length (gs_peers demo_state) = 3"
proof -
  obtain n rs st' where run:
    "fan_out demo_env list_lru list_lru (frame_envelope [9] None) None Local demo_state = (Inr n, rs, st')"
    by (simp add: fan_out_def deliver_def demo_defs Let_def eager_jobs_def fan_targets_def is_eager_def
        nat_jobs_def split_beta)
  have "n + unreachable_peer_count demo_state
      = length (gs_peers demo_state) + length (nat_jobs (gs_peers demo_state))"
    by (rule unreachable_overcounts [OF _ _ _ _ run]) (simp_all add: demo_defs)
  then show ?thesis using run by (auto simp: demo_state_def nat_jobs_def)
qed

end
