(* ===== verification/Peer_Info.thy ===== *)
theory Peer_Info
  imports Prelude
begin

text \<open>
  Peer addresses and address-manager rows (\<open>types/peer.rs\<close>): network groups and bucket
  keys of a host and port, the staleness rules, and the bucket arithmetic of the tried and new
  tables.

  \<open>net_env\<close> holds the two functions the arithmetic rests on: the standard library's
  \<open>str::parse::<IpAddr>\<close> and SHA-256. The bounds below hold for every such pair.
\<close>

section \<open>Addresses\<close>

datatype IpAddr = V4 (octets: bytes) | V6 (octets: bytes)

record net_env =
  parse_ip :: "bytes \<Rightarrow> IpAddr option"
  sha256 :: "bytes \<Rightarrow> bytes"

record PeerInfo =
  pi_host :: bytes
  pi_port :: u16

text \<open>\<open>Ipv6Addr::to_ipv4\<close>: the addresses \<open>::a.b.c.d\<close> and \<open>::ffff:a.b.c.d\<close>.\<close>

definition v6_to_ipv4 :: "bytes \<Rightarrow> bytes option" where
  "v6_to_ipv4 v6 =
     (if take 10 v6 = replicate 10 0
         \<and> (slice_of v6 10 12 = [0, 0] \<or> slice_of v6 10 12 = [0xff, 0xff])
      then Some (slice_of v6 12 16) else None)"

fun normalize_ip :: "IpAddr \<Rightarrow> IpAddr" where
  "normalize_ip (V6 v6) = (case v6_to_ipv4 v6 of Some v4 \<Rightarrow> V4 v4 | None \<Rightarrow> V6 v6)"
| "normalize_ip (V4 v4) = V4 v4"

fun group_bytes_for_ip :: "IpAddr \<Rightarrow> bytes" where
  "group_bytes_for_ip (V4 v4) = take 2 v4"
| "group_bytes_for_ip (V6 v6) = take 4 v6"

definition key_bytes_for_ip :: "IpAddr \<Rightarrow> u16 \<Rightarrow> bytes" where
  "key_bytes_for_ip ip p = octets ip @ be16 p"

definition hostname_group_bytes :: "net_env \<Rightarrow> bytes \<Rightarrow> bytes" where
  "hostname_group_bytes env h = take 4 (sha256 env h)"

definition hostname_key_bytes :: "net_env \<Rightarrow> bytes \<Rightarrow> u16 \<Rightarrow> bytes" where
  "hostname_key_bytes env h p = sha256 env h @ be16 p"

definition get_group :: "net_env \<Rightarrow> PeerInfo \<Rightarrow> bytes" where
  "get_group env p =
     (case parse_ip env (pi_host p) of
        Some ip \<Rightarrow> group_bytes_for_ip (normalize_ip ip)
      | None \<Rightarrow> hostname_group_bytes env (pi_host p))"

definition get_key :: "net_env \<Rightarrow> PeerInfo \<Rightarrow> bytes" where
  "get_key env p =
     (case parse_ip env (pi_host p) of
        Some ip \<Rightarrow> key_bytes_for_ip (normalize_ip ip) (pi_port p)
      | None \<Rightarrow> hostname_key_bytes env (pi_host p) (pi_port p))"

section \<open>Rows\<close>

record ExtendedPeerInfo =
  peer_info :: PeerInfo
  ep_timestamp :: nat
  ep_src :: PeerInfo
  ep_random_pos :: "nat option"
  is_tried :: bool
  ref_count :: nat
  last_success :: nat
  last_try :: nat
  num_attempts :: nat
  last_count_attempt :: nat

definition HORIZON_DAYS :: nat where "HORIZON_DAYS = 30"
definition MAX_RETRIES :: nat where "MAX_RETRIES = 3"
definition MIN_FAIL_DAYS :: nat where "MIN_FAIL_DAYS = 7"
definition MAX_FAILURES :: nat where "MAX_FAILURES = 10"
definition TRIED_BUCKETS_PER_GROUP :: nat where "TRIED_BUCKETS_PER_GROUP = 8"
definition NEW_BUCKETS_PER_SOURCE_GROUP :: nat where "NEW_BUCKETS_PER_SOURCE_GROUP = 64"
definition TRIED_BUCKET_COUNT :: nat where "TRIED_BUCKET_COUNT = 256"
definition NEW_BUCKET_COUNT :: nat where "NEW_BUCKET_COUNT = 1024"
definition BUCKET_SIZE :: nat where "BUCKET_SIZE = 64"

lemmas bucket_consts = TRIED_BUCKETS_PER_GROUP_def NEW_BUCKETS_PER_SOURCE_GROUP_def
  TRIED_BUCKET_COUNT_def NEW_BUCKET_COUNT_def BUCKET_SIZE_def

definition is_terrible :: "nat \<Rightarrow> ExtendedPeerInfo \<Rightarrow> bool" where
  "is_terrible now r \<longleftrightarrow>
     (if 0 < last_try r \<and> now - 60 \<le> last_try r then False
      else if sat_add64 now (10 * 60) < ep_timestamp r then True
      else if ep_timestamp r = 0 \<or> HORIZON_DAYS * 24 * 60 * 60 < now - ep_timestamp r then True
      else if last_success r = 0 \<and> MAX_RETRIES \<le> num_attempts r then True
      else if MIN_FAIL_DAYS * 24 * 60 * 60 < now - last_success r \<and> MAX_FAILURES \<le> num_attempts r
        then True
      else False)"

section \<open>Buckets\<close>

definition chia_std_hash_u64_prefix :: "net_env \<Rightarrow> bytes \<Rightarrow> nat" where
  "chia_std_hash_u64_prefix env dat = nat_of_be (take 8 (sha256 env dat))"

definition tried_bucket_index :: "net_env \<Rightarrow> bytes32 \<Rightarrow> PeerInfo \<Rightarrow> nat" where
  "tried_bucket_index env key peer =
     (let hash1 = chia_std_hash_u64_prefix env (key @ get_key env peer) mod TRIED_BUCKETS_PER_GROUP
      in chia_std_hash_u64_prefix env (key @ get_group env peer @ [of_nat hash1])
           mod TRIED_BUCKET_COUNT)"

definition new_bucket_index :: "net_env \<Rightarrow> bytes32 \<Rightarrow> PeerInfo \<Rightarrow> PeerInfo \<Rightarrow> nat" where
  "new_bucket_index env key peer src_peer =
     (let hash1 = chia_std_hash_u64_prefix env (key @ get_group env peer @ get_group env src_peer)
                    mod NEW_BUCKETS_PER_SOURCE_GROUP
      in chia_std_hash_u64_prefix env (key @ get_group env src_peer @ [of_nat hash1])
           mod NEW_BUCKET_COUNT)"

definition bucket_position :: "net_env \<Rightarrow> bytes32 \<Rightarrow> bool \<Rightarrow> nat \<Rightarrow> PeerInfo \<Rightarrow> nat" where
  "bucket_position env key is_new n_bucket peer =
     chia_std_hash_u64_prefix env
       (key @ (if is_new then of_char (CHR ''N'') else of_char (CHR ''K''))
          # of_nat (n_bucket div 2 ^ 16 mod 256) # of_nat (n_bucket div 2 ^ 8 mod 256)
          # of_nat (n_bucket mod 256) # get_key env peer)
     mod BUCKET_SIZE"

lemma tried_bucket_less [simp]: "tried_bucket_index env key p < TRIED_BUCKET_COUNT"
  by (simp add: tried_bucket_index_def Let_def bucket_consts)

lemma new_bucket_less [simp]: "new_bucket_index env key p s < NEW_BUCKET_COUNT"
  by (simp add: new_bucket_index_def Let_def bucket_consts)

lemma bucket_position_less [simp]: "bucket_position env key n b p < BUCKET_SIZE"
  by (simp add: bucket_position_def bucket_consts)

lemma card_image_below: "S \<subseteq> f ` {..<n} \<Longrightarrow> card S \<le> n" for n :: nat
  using surj_card_le [of "{..<n}" S f] by simp

text \<open>
  Eclipse resistance. Whatever addresses are announced, the peers of one source group can
  place entries in at most 64 of the 1024 new buckets, and the addresses of one network group
  can occupy at most 8 of the 256 tried buckets; every computed slot exists.
\<close>

theorem group_bucket_limits:
  "card {new_bucket_index env key p s | p s. get_group env s = g} \<le> NEW_BUCKETS_PER_SOURCE_GROUP
   \<and> card {tried_bucket_index env key p | p. get_group env p = g} \<le> TRIED_BUCKETS_PER_GROUP
   \<and> {new_bucket_index env key p s | p s. get_group env s = g} \<subseteq> {..<NEW_BUCKET_COUNT}
   \<and> {tried_bucket_index env key p | p. get_group env p = g} \<subseteq> {..<TRIED_BUCKET_COUNT}
   \<and> bucket_position env key is_new b p < BUCKET_SIZE"
proof -
  let ?h = "\<lambda>m h. chia_std_hash_u64_prefix env (key @ g @ [of_nat h]) mod m"
  have "{new_bucket_index env key p s | p s. get_group env s = g}
      \<subseteq> ?h NEW_BUCKET_COUNT ` {..<NEW_BUCKETS_PER_SOURCE_GROUP}"
    by (auto simp: new_bucket_index_def Let_def bucket_consts)
  moreover have "{tried_bucket_index env key p | p. get_group env p = g}
      \<subseteq> ?h TRIED_BUCKET_COUNT ` {..<TRIED_BUCKETS_PER_GROUP}"
    by (auto simp: tried_bucket_index_def Let_def bucket_consts)
  ultimately show ?thesis
    using card_image_below by auto
qed

end
