(* ===== verification/Reputation.thy ===== *)
theory Reputation
  imports Prelude
begin

text \<open>
  Peer reputation (\<open>types/reputation.rs\<close>): penalty points, the timed ban, the window of
  round-trip samples and the score. Counters are \<open>nat\<close> with the saturation of
  \<open>saturating_add\<close> written out; the sum of the samples wraps at \<open>2 ^ 64\<close>. The
  \<open>f64\<close> score is the exact rational the formula denotes, without rounding.
\<close>

definition PENALTY_BAN_THRESHOLD :: nat where "PENALTY_BAN_THRESHOLD = 100"
definition BAN_DURATION_SECS :: nat where "BAN_DURATION_SECS = 3600"
definition RTT_WINDOW_SIZE :: nat where "RTT_WINDOW_SIZE = 10"

lemmas reputation_consts = PENALTY_BAN_THRESHOLD_def BAN_DURATION_SECS_def RTT_WINDOW_SIZE_def

datatype PenaltyReason =
    InvalidBlock
  | InvalidAttestation
  | MalformedMessage
  | Spam
  | ConnectionIssue
  | ProtocolViolation
  | RateLimitExceeded
  | ConsensusError

fun reason_points :: "PenaltyReason \<Rightarrow> nat" where
  "reason_points InvalidBlock = 100"
| "reason_points InvalidAttestation = 50"
| "reason_points MalformedMessage = 20"
| "reason_points Spam = 25"
| "reason_points ConnectionIssue = 10"
| "reason_points ProtocolViolation = 50"
| "reason_points RateLimitExceeded = 15"
| "reason_points ConsensusError = 100"

record PeerReputation =
  penalty_points :: nat
  is_banned :: bool
  ban_until :: "nat option"
  last_penalty_reason :: "PenaltyReason option"
  avg_rtt_ms :: "nat option"
  rtt_history :: "nat list"
  score :: rat
  as_number :: "nat option"

definition reputation_default :: PeerReputation where
  "reputation_default =
     \<lparr>penalty_points = 0, is_banned = False, ban_until = None, last_penalty_reason = None,
      avg_rtt_ms = None, rtt_history = [], score = 0, as_number = None\<rparr>"

definition recompute_rtt_average :: "PeerReputation \<Rightarrow> PeerReputation" where
  "recompute_rtt_average r =
     (if rtt_history r = [] then r\<lparr>avg_rtt_ms := None\<rparr>
      else let sum = sum_list (rtt_history r) mod 2 ^ 64;
               n = length (rtt_history r)
           in r\<lparr>avg_rtt_ms := Some (sum div max n 1)\<rparr>)"

definition trust :: "nat \<Rightarrow> rat" where
  "trust points = max (1 - min (of_nat points / of_nat PENALTY_BAN_THRESHOLD) 1) 0"

definition recompute_score :: "PeerReputation \<Rightarrow> PeerReputation" where
  "recompute_score r =
     (case avg_rtt_ms r of
        None \<Rightarrow> r\<lparr>score := 0\<rparr>
      | Some avg \<Rightarrow>
          (if avg = 0 then r\<lparr>score := 0\<rparr>
           else r\<lparr>score := trust (penalty_points r) * (1 / of_nat avg)\<rparr>))"

definition apply_penalty :: "PenaltyReason \<Rightarrow> nat \<Rightarrow> PeerReputation \<Rightarrow> bool \<times> PeerReputation" where
  "apply_penalty reason now r =
     (let r = r\<lparr>penalty_points := sat_add32 (penalty_points r) (reason_points reason),
                last_penalty_reason := Some reason\<rparr>
      in if PENALTY_BAN_THRESHOLD \<le> penalty_points r then
           (if \<not> is_banned r then
              (True, recompute_score (r\<lparr>is_banned := True,
                                        ban_until := Some (sat_add64 now BAN_DURATION_SECS)\<rparr>))
            else (False, recompute_score r))
         else (False, recompute_score r))"

definition refresh_ban_status :: "nat \<Rightarrow> PeerReputation \<Rightarrow> PeerReputation" where
  "refresh_ban_status now r =
     (case ban_until r of
        None \<Rightarrow> r
      | Some until \<Rightarrow>
          (if is_banned r \<and> until \<le> now
           then recompute_score (r\<lparr>is_banned := False, ban_until := None, penalty_points := 0\<rparr>)
           else r))"

definition check_unban :: "nat \<Rightarrow> PeerReputation \<Rightarrow> bool \<times> PeerReputation" where
  "check_unban now r =
     (let r' = refresh_ban_status now r in (is_banned r \<and> \<not> is_banned r', r'))"

definition record_rtt_ms :: "nat \<Rightarrow> PeerReputation \<Rightarrow> PeerReputation" where
  "record_rtt_ms rtt r =
     (let hist = (if length (rtt_history r) = RTT_WINDOW_SIZE then tl (rtt_history r)
                  else rtt_history r)
      in recompute_score (recompute_rtt_average (r\<lparr>rtt_history := hist @ [rtt]\<rparr>)))"

section \<open>Steps\<close>

text \<open>Every way the service changes a peer's reputation.\<close>

datatype rep_event = Penalty PenaltyReason nat | Refresh nat | Rtt nat

fun rep_step :: "rep_event \<Rightarrow> PeerReputation \<Rightarrow> PeerReputation" where
  "rep_step (Penalty reason now) r = snd (apply_penalty reason now r)"
| "rep_step (Refresh now) r = refresh_ban_status now r"
| "rep_step (Rtt ms) r = record_rtt_ms ms r"

inductive rep_reachable :: "PeerReputation \<Rightarrow> bool" where
  rep_init: "rep_reachable reputation_default"
| rep_next: "rep_reachable r \<Longrightarrow> rep_reachable (rep_step e r)"

definition expected_score :: "nat option \<Rightarrow> nat \<Rightarrow> rat" where
  "expected_score avg points =
     (case avg of None \<Rightarrow> 0 | Some a \<Rightarrow> (if a = 0 then 0 else trust points * (1 / of_nat a)))"

definition rep_inv :: "PeerReputation \<Rightarrow> bool" where
  "rep_inv r \<longleftrightarrow> (is_banned r \<longleftrightarrow> PENALTY_BAN_THRESHOLD \<le> penalty_points r)
     \<and> (is_banned r \<longleftrightarrow> ban_until r \<noteq> None)
     \<and> penalty_points r \<le> u32_max
     \<and> length (rtt_history r) \<le> RTT_WINDOW_SIZE
     \<and> avg_rtt_ms r = (if rtt_history r = [] then None
          else Some (sum_list (rtt_history r) mod 2 ^ 64 div length (rtt_history r)))
     \<and> score r = expected_score (avg_rtt_ms r) (penalty_points r)"

lemma recompute_score_fields [simp]:
  "penalty_points (recompute_score r) = penalty_points r"
  "is_banned (recompute_score r) = is_banned r"
  "ban_until (recompute_score r) = ban_until r"
  "last_penalty_reason (recompute_score r) = last_penalty_reason r"
  "avg_rtt_ms (recompute_score r) = avg_rtt_ms r"
  "rtt_history (recompute_score r) = rtt_history r"
  "as_number (recompute_score r) = as_number r"
  "score (recompute_score r) = expected_score (avg_rtt_ms r) (penalty_points r)"
  by (auto simp: recompute_score_def expected_score_def split: option.splits)

lemma recompute_rtt_average_fields [simp]:
  "penalty_points (recompute_rtt_average r) = penalty_points r"
  "is_banned (recompute_rtt_average r) = is_banned r"
  "ban_until (recompute_rtt_average r) = ban_until r"
  "rtt_history (recompute_rtt_average r) = rtt_history r"
  "avg_rtt_ms (recompute_rtt_average r) = (if rtt_history r = [] then None
     else Some (sum_list (rtt_history r) mod 2 ^ 64 div length (rtt_history r)))"
  by (cases "rtt_history r"; simp add: recompute_rtt_average_def Let_def)+

lemma trust_bounds: "0 \<le> trust n" "trust n \<le> 1"
  by (auto simp: trust_def reputation_consts)

lemma trust_zero_iff: "trust n = 0 \<longleftrightarrow> PENALTY_BAN_THRESHOLD \<le> n"
  by (auto simp: trust_def reputation_consts max_def min_def field_simps)

lemma trust_antimono: "m \<le> n \<Longrightarrow> trust n \<le> trust m"
  by (auto simp: trust_def reputation_consts max_def min_def field_simps)

lemma rep_inv_default: "rep_inv reputation_default"
  by (simp add: rep_inv_def reputation_default_def expected_score_def reputation_consts)

lemma rep_inv_penalty: "rep_inv r \<Longrightarrow> rep_inv (snd (apply_penalty reason now r))"
  by (auto simp: rep_inv_def apply_penalty_def Let_def sat_add32_def)

lemma rep_inv_refresh: "rep_inv r \<Longrightarrow> rep_inv (refresh_ban_status now r)"
  by (auto simp: rep_inv_def refresh_ban_status_def reputation_consts split: option.splits)

lemma rep_inv_rtt: "rep_inv r \<Longrightarrow> rep_inv (record_rtt_ms ms r)"
  by (auto simp: rep_inv_def record_rtt_ms_def Let_def reputation_consts)

lemma rep_inv_step: "rep_inv r \<Longrightarrow> rep_inv (rep_step e r)"
  by (cases e) (simp_all add: rep_inv_penalty rep_inv_refresh rep_inv_rtt)

text \<open>
  The reputation invariant holds in every reachable state, whatever the order of penalties,
  ban refreshes and samples: a peer is banned exactly when its points are at the threshold and
  exactly when an expiry is set, the points never exceed \<open>u32::MAX\<close>, the window holds at
  most ten samples, the average is the mean of the window, and the score lies between 0 and 1
  and is 0 for a banned peer.
\<close>

theorem reputation_invariant:
  assumes "rep_reachable r"
  shows "(is_banned r \<longleftrightarrow> PENALTY_BAN_THRESHOLD \<le> penalty_points r)
     \<and> (is_banned r \<longleftrightarrow> ban_until r \<noteq> None)
     \<and> penalty_points r \<le> u32_max
     \<and> length (rtt_history r) \<le> RTT_WINDOW_SIZE
     \<and> avg_rtt_ms r = (if rtt_history r = [] then None
          else Some (sum_list (rtt_history r) mod 2 ^ 64 div length (rtt_history r)))
     \<and> 0 \<le> score r \<and> score r \<le> 1 \<and> (is_banned r \<longrightarrow> score r = 0)"
proof -
  have inv: "rep_inv r"
    using assms by induction (auto intro: rep_inv_default rep_inv_step)
  have "trust p * (1 / of_nat a) \<le> 1" if "a \<noteq> 0" for p a
  proof -
    have "(1 :: rat) / of_nat a \<le> 1" using that by (simp add: field_simps Suc_le_eq)
    then show ?thesis using mult_mono [of "trust p" 1 "1 / of_nat a" 1] trust_bounds [of p] by simp
  qed
  then have "0 \<le> expected_score v p \<and> expected_score v p \<le> 1" for v p
    using trust_bounds by (auto simp: expected_score_def split: option.splits)
  moreover have "expected_score v p = 0" if "PENALTY_BAN_THRESHOLD \<le> p" for v p
    using that trust_zero_iff [of p] by (auto simp: expected_score_def split: option.splits)
  ultimately show ?thesis using inv by (auto simp: rep_inv_def)
qed

theorem reputation_invariant_witness:
  "is_banned (rep_step (Penalty InvalidBlock 5) (rep_step (Rtt 7) reputation_default))"
  using reputation_invariant [OF rep_next [OF rep_next [OF rep_init]], of "Penalty InvalidBlock 5" "Rtt 7"]
  by (simp add: apply_penalty_def Let_def reputation_default_def record_rtt_ms_def reputation_consts
      sat_add32_def u32_max_def)

section \<open>The ban lifecycle\<close>

lemma refresh_before_expiry:
  assumes "ban_until r = Some t" "now < t"
  shows "refresh_ban_status now r = r"
  using assms by (simp add: refresh_ban_status_def)

lemma banned_step:
  assumes "rep_inv r" "is_banned r" "ban_until r = Some t" "\<And>now. e = Refresh now \<Longrightarrow> now < t"
  shows "is_banned (rep_step e r) \<and> ban_until (rep_step e r) = Some t"
  using assms
  by (cases e) (auto simp: apply_penalty_def record_rtt_ms_def Let_def refresh_before_expiry)

fun refreshes_before :: "nat \<Rightarrow> rep_event \<Rightarrow> bool" where
  "refreshes_before t (Refresh now) \<longleftrightarrow> now < t"
| "refreshes_before t _ \<longleftrightarrow> True"

lemma banned_run:
  assumes "rep_inv r" "is_banned r" "ban_until r = Some t" "list_all (refreshes_before t) es"
  shows "rep_inv (fold rep_step es r) \<and> is_banned (fold rep_step es r)
    \<and> ban_until (fold rep_step es r) = Some t"
  using assms
proof (induction es arbitrary: r)
  case Nil
  then show ?case by simp
next
  case (Cons e es)
  have "is_banned (rep_step e r) \<and> ban_until (rep_step e r) = Some t"
    using Cons.prems by (intro banned_step) auto
  then show ?case using Cons.IH [of "rep_step e r"] Cons.prems rep_inv_step by simp
qed

text \<open>
  C10: The ban lifecycle. The call that imposes a ban reports it once and schedules the expiry
  one hour later (saturating). From then on no sequence of further penalties, samples and early
  refreshes moves the expiry, lifts the ban or reports a second ban; the first refresh at or
  after the expiry lifts it, clears the points and is reported by \<open>check_unban\<close>.
\<close>

theorem ban_lifecycle:
  assumes "rep_reachable r" "apply_penalty reason now r = (True, r')"
    and "list_all (refreshes_before (sat_add64 now BAN_DURATION_SECS)) es"
    and "r'' = fold rep_step es r'"
  shows "\<not> is_banned r \<and> is_banned r'' \<and> ban_until r'' = Some (sat_add64 now BAN_DURATION_SECS)
    \<and> \<not> fst (apply_penalty reason2 now2 r'')
    \<and> (sat_add64 now BAN_DURATION_SECS \<le> later \<longrightarrow>
        fst (check_unban later r'') \<and> \<not> is_banned (snd (check_unban later r''))
        \<and> penalty_points (snd (check_unban later r'')) = 0)"
proof -
  have inv: "rep_inv r"
    using assms(1) by induction (auto intro: rep_inv_default rep_inv_step)
  have new: "\<not> is_banned r" "is_banned r'" "ban_until r' = Some (sat_add64 now BAN_DURATION_SECS)"
    using assms(2) by (auto simp: apply_penalty_def Let_def split: if_splits)
  have "rep_inv r'" using rep_inv_penalty [OF inv, of reason now] assms(2) by simp
  then have run: "is_banned r''" "ban_until r'' = Some (sat_add64 now BAN_DURATION_SECS)"
    using banned_run [OF _ new(2,3) assms(3)] assms(4) by auto
  moreover have "\<not> fst (apply_penalty reason2 now2 r'')"
    using run(1) by (simp add: apply_penalty_def Let_def)
  ultimately show ?thesis
    using new(1) by (simp add: check_unban_def refresh_ban_status_def Let_def)
qed

theorem ban_lifecycle_witness:
  "is_banned (rep_step (Refresh 3000) (snd (apply_penalty InvalidBlock 5 reputation_default)))"
proof -
  have imposed: "apply_penalty InvalidBlock 5 reputation_default
      = (True, snd (apply_penalty InvalidBlock 5 reputation_default))"
    by (simp add: apply_penalty_def Let_def reputation_default_def reputation_consts sat_add32_def
        u32_max_def)
  have early: "list_all (refreshes_before (sat_add64 5 BAN_DURATION_SECS)) [Refresh 3000]"
    by (simp add: sat_add64_def reputation_consts u64_max_def)
  have "is_banned (fold rep_step [Refresh 3000] (snd (apply_penalty InvalidBlock 5 reputation_default)))"
    using ban_lifecycle [OF rep_init imposed early refl] by blast
  then show ?thesis by simp
qed

lemma apply_penalty_points:
  "penalty_points (snd (apply_penalty reason now r)) = min (penalty_points r + reason_points reason) u32_max"
  by (simp add: apply_penalty_def Let_def sat_add32_def)

lemma penalties_sum:
  assumes "penalty_points r0 \<le> u32_max"
  shows "penalty_points (fold (\<lambda>reason r. snd (apply_penalty reason now r)) rs r0)
     = min (penalty_points r0 + sum_list (map reason_points rs)) u32_max"
  using assms
proof (induction rs arbitrary: r0)
  case Nil
  then show ?case by simp
next
  case (Cons p rs)
  have "penalty_points (fold (\<lambda>reason r. snd (apply_penalty reason now r)) (p # rs) r0)
      = min (min (penalty_points r0 + reason_points p) u32_max + sum_list (map reason_points rs)) u32_max"
    using Cons.IH [of "snd (apply_penalty p now r0)"] by (simp add: apply_penalty_points)
  also have "\<dots> = min (penalty_points r0 + sum_list (map reason_points (p # rs))) u32_max"
    by (simp add: min_def)
  finally show ?case .
qed

text \<open>
  Accumulation. A fresh peer that collects penalties, with no refresh in between, is banned
  exactly when the weights add up to the threshold: nothing wraps and nothing is lost, however
  many penalties arrive.
\<close>

theorem penalties_accumulate:
  "is_banned (fold (\<lambda>reason r. snd (apply_penalty reason now r)) rs reputation_default)
     = (PENALTY_BAN_THRESHOLD \<le> sum_list (map reason_points rs))"
proof -
  let ?r = "fold (\<lambda>reason r. snd (apply_penalty reason now r)) rs reputation_default"
  have "rep_inv (fold (\<lambda>reason r. snd (apply_penalty reason now r)) rs r0)" if "rep_inv r0" for r0
    using that by (induction rs arbitrary: r0) (simp_all add: rep_inv_penalty)
  then have "rep_inv ?r" using rep_inv_default by blast
  then have "is_banned ?r \<longleftrightarrow> PENALTY_BAN_THRESHOLD \<le> penalty_points ?r"
    by (simp add: rep_inv_def)
  moreover have "penalty_points ?r = min (sum_list (map reason_points rs)) u32_max"
    using penalties_sum [of reputation_default now rs]
    by (simp add: reputation_default_def)
  ultimately show ?thesis by (simp add: reputation_consts u32_max_def)
qed

end
