(* ===== verification/Ip_Group.thy ===== *)
theory Ip_Group
  imports Peer_Info Reputation "HOL-Library.Product_Lexorder"
begin

unbundle bit_operations_syntax

text \<open>
  IP grouping (\<open>util/ip_address.rs\<close>), AS lookup (\<open>util/as_lookup.rs\<close>) and the
  latency comparisons (\<open>util/latency.rs\<close>).

  \<open>SocketAddr\<close> is the standard library's pair of an address and a port; the flow label and
  the scope of an IPv6 socket address are not kept. The order on \<open>IpAddr\<close> is Rust's derived
  one, IPv4 first and then by octets. \<open>order_by_local_stack\<close> takes the two functions of the
  \<open>dig_ip\<close> crate it calls, the families of the local stack and the family of an address, as
  arguments.
\<close>

section \<open>Addresses and their order\<close>

datatype SocketAddr = SocketAddr (sa_ip: IpAddr) (sa_port: u16)

instantiation IpAddr :: linorder
begin

fun less_eq_IpAddr :: "IpAddr \<Rightarrow> IpAddr \<Rightarrow> bool" where
  "V4 a \<le> V4 b \<longleftrightarrow> a \<le> b"
| "V6 a \<le> V6 b \<longleftrightarrow> a \<le> b"
| "V4 a \<le> V6 b \<longleftrightarrow> True"
| "V6 a \<le> V4 b \<longleftrightarrow> False"

definition less_IpAddr :: "IpAddr \<Rightarrow> IpAddr \<Rightarrow> bool" where
  "a < b \<longleftrightarrow> a \<le> b \<and> \<not> b \<le> (a :: IpAddr)"

instance
proof
  fix a b c :: IpAddr
  show "a < b \<longleftrightarrow> a \<le> b \<and> \<not> b \<le> a"
    by (simp add: less_IpAddr_def)
  show "a \<le> a"
    by (cases a) simp_all
  show "a \<le> c" if "a \<le> b" "b \<le> c"
    using that by (cases a; cases b; cases c) auto
  show "a = b" if "a \<le> b" "b \<le> a"
    using that by (cases a; cases b) auto
  show "a \<le> b \<or> b \<le> a"
    by (cases a; cases b) auto
qed

end

fun wf_ip :: "IpAddr \<Rightarrow> bool" where
  "wf_ip (V4 o4) \<longleftrightarrow> length o4 = 4"
| "wf_ip (V6 o6) \<longleftrightarrow> length o6 = 16"

section \<open>Canonical addresses and groups\<close>

definition v6_to_ipv4_mapped :: "bytes \<Rightarrow> bytes option" where
  "v6_to_ipv4_mapped v6 =
     (if take 10 v6 = replicate 10 0 \<and> slice_of v6 10 12 = [0xff, 0xff]
      then Some (slice_of v6 12 16) else None)"

fun canonical_ip :: "IpAddr \<Rightarrow> IpAddr" where
  "canonical_ip (V6 v6) = (case v6_to_ipv4_mapped v6 of Some v4 \<Rightarrow> V4 v4 | None \<Rightarrow> V6 v6)"
| "canonical_ip (V4 v4) = V4 v4"

definition subnet_group :: "IpAddr \<Rightarrow> u32" where
  "subnet_group ip =
     (case canonical_ip ip of
        V4 b \<Rightarrow> push_bit 8 (ucast (b ! 0)) OR ucast (b ! 1)
      | V6 b \<Rightarrow> push_bit 24 (ucast (b ! 0)) OR push_bit 16 (ucast (b ! 1))
                  OR push_bit 8 (ucast (b ! 2)) OR ucast (b ! 3))"

datatype InboundSourceGroup = V4Slash16 u32 | V6Slash48 u64

definition inbound_source_group :: "IpAddr \<Rightarrow> InboundSourceGroup" where
  "inbound_source_group ip =
     (case canonical_ip ip of
        V4 b \<Rightarrow> V4Slash16 (push_bit 8 (ucast (b ! 0)) OR ucast (b ! 1))
      | V6 b \<Rightarrow> V6Slash48 (foldl (\<lambda>key byte. push_bit 8 key OR ucast byte) 0 (take 6 b)))"

text \<open>The mapped form of an IPv4 address.\<close>

definition mapped :: "bytes \<Rightarrow> IpAddr" where
  "mapped v4 = V6 (replicate 10 0 @ [0xff, 0xff] @ v4)"

lemma canonical_mapped: "length v4 = 4 \<Longrightarrow> canonical_ip (mapped v4) = V4 v4"
  by (simp add: mapped_def v6_to_ipv4_mapped_def slice_of_def)

lemma wf_canonical: "wf_ip ip \<Longrightarrow> wf_ip (canonical_ip ip)"
  by (cases ip) (auto simp: v6_to_ipv4_mapped_def slice_of_def)

lemma canonical_idem [simp]: "canonical_ip (canonical_ip ip) = canonical_ip ip"
  by (cases ip) (auto split: option.splits)

text \<open>Joining bytes by shifts and ors is the big-endian number they spell.\<close>

lemma push_or_byte:
  "push_bit 8 (of_nat n) OR ucast (b :: u8) = (of_nat (n * 256 + unat b) :: 'a::len word)"
proof -
  have "push_bit 8 (of_nat n) AND ucast b = (0 :: 'a word)"
    by (intro bit_word_eqI) (auto simp: bit_simps dest: bit_imp_le_length)
  then have "push_bit 8 (of_nat n) OR ucast b = (push_bit 8 (of_nat n) + ucast b :: 'a word)"
    by (simp add: disjunctive_add_eq_or)
  then show ?thesis
    by (simp add: push_bit_eq_mult mult.commute)
qed

lemma join_bytes:
  "foldl (\<lambda>key byte. push_bit 8 key OR ucast byte) 0 bs = (of_nat (nat_of_be bs) :: 'a::len word)"
  by (induction bs rule: rev_induct) (simp_all add: push_or_byte del: of_nat_add of_nat_mult)

lemma nat_of_be_inject: "length xs = length ys \<Longrightarrow> nat_of_be xs = nat_of_be ys \<longleftrightarrow> xs = ys"
  by (metis be_of_nat_nat_of_be)

lemma of_nat_of_be_inject:
  assumes "length xs = length ys" "8 * length xs \<le> LENGTH('a::len)"
  shows "(of_nat (nat_of_be xs) :: 'a word) = of_nat (nat_of_be ys) \<longleftrightarrow> xs = ys"
proof -
  have "nat_of_be zs < 2 ^ LENGTH('a)" if "length zs = length xs" for zs
  proof -
    have "(256 :: nat) ^ length zs = 2 ^ (8 * length zs)"
      by (simp add: power_mult)
    also have "\<dots> \<le> 2 ^ LENGTH('a)"
      using assms(2) that by (intro power_increasing) auto
    finally show ?thesis
      using nat_of_be_less [of zs] by simp
  qed
  then have "(of_nat (nat_of_be xs) :: 'a word) = of_nat (nat_of_be ys) \<longleftrightarrow> nat_of_be xs = nat_of_be ys"
    using assms(1) by (simp add: word_of_nat_eq_iff take_bit_nat_eq_self)
  then show ?thesis
    using assms(1) by (simp add: nat_of_be_inject)
qed

lemma join16: "push_bit 8 (ucast (a :: u8)) OR ucast (b :: u8) = (of_nat (nat_of_be [a, b]) :: 'a::len word)"
  using join_bytes [of "[a, b]", where ?'a = 'a] by simp

text \<open>Two addresses share a source group when their canonical forms agree on the first
  two (IPv4) or six (IPv6) octets.\<close>

fun source_prefix :: "IpAddr \<Rightarrow> IpAddr" where
  "source_prefix (V4 b) = V4 (take 2 b)"
| "source_prefix (V6 b) = V6 (take 6 b)"

lemma take_2_nth: "length b = 4 \<Longrightarrow> take 2 b = [b ! 0, b ! 1]"
  by (cases b; cases "tl b") auto

lemma source_group_exact:
  assumes "wf_ip a" "wf_ip b"
  shows "inbound_source_group a = inbound_source_group b
           \<longleftrightarrow> source_prefix (canonical_ip a) = source_prefix (canonical_ip b)"
  using wf_canonical [OF assms(1)] wf_canonical [OF assms(2)]
  by (cases "canonical_ip a"; cases "canonical_ip b")
    (simp_all add: inbound_source_group_def join16 take_2_nth join_bytes of_nat_of_be_inject)

section \<open>Outbound groups against the address-manager groups\<close>

text \<open>
  \<open>subnet_group\<close> groups like the bucket groups of \<open>PeerInfo::get_group\<close> except on the
  deprecated IPv4-compatible form \<open>::a.b.c.d\<close>, which \<open>get_group\<close> folds to IPv4 and
  \<open>canonical_ip\<close> keeps.
\<close>

definition v4_compatible :: "IpAddr \<Rightarrow> bool" where
  "v4_compatible ip \<longleftrightarrow>
     (case ip of V4 _ \<Rightarrow> False
      | V6 b \<Rightarrow> take 10 b = replicate 10 0 \<and> slice_of b 10 12 = [0, 0])"

lemma normalize_canonical: "\<not> v4_compatible ip \<Longrightarrow> normalize_ip ip = canonical_ip ip"
  by (cases ip) (auto simp: v4_compatible_def v6_to_ipv4_def v6_to_ipv4_mapped_def)

lemma subnet_group_as_get_group_v4:
  assumes "wf_ip a" "wf_ip b" "\<not> v4_compatible a" "\<not> v4_compatible b"
    and "canonical_ip a = V4 x" "canonical_ip b = V4 y"
  shows "subnet_group a = subnet_group b
           \<longleftrightarrow> group_bytes_for_ip (normalize_ip a) = group_bytes_for_ip (normalize_ip b)"
  using wf_canonical [OF assms(1)] wf_canonical [OF assms(2)] assms(5,6)
  by (simp add: subnet_group_def join16 take_2_nth of_nat_of_be_inject
      normalize_canonical [OF assms(3)] normalize_canonical [OF assms(4)])

lemma subnet_group_differs_on_compatible:
  defines "a \<equiv> V6 (replicate 12 0 @ [1, 2, 3, 4])" and "b \<equiv> V4 [1, 2, 9, 9]"
  shows "group_bytes_for_ip (normalize_ip a) = group_bytes_for_ip (normalize_ip b)"
    and "subnet_group a \<noteq> subnet_group b"
  unfolding a_def b_def by code_simp+

section \<open>Dialing order\<close>

definition order_by_local_stack ::
    "'f list \<Rightarrow> (SocketAddr \<Rightarrow> 'f) \<Rightarrow> SocketAddr list \<Rightarrow> SocketAddr list" where
  "order_by_local_stack families family_of candidates =
     concat (map (\<lambda>family. filter (\<lambda>addr. family_of addr = family) candidates) families)"

text \<open>With distinct local families the result keeps exactly the candidates of a local family, as
  often as they occur, in their given order within a family.\<close>

lemma order_by_local_stack_within:
  "distinct families \<Longrightarrow>
     filter (\<lambda>a. family_of a = f) (order_by_local_stack families family_of candidates)
       = (if f \<in> set families then filter (\<lambda>a. family_of a = f) candidates else [])"
  by (induction families) (auto simp: order_by_local_stack_def filter_empty_conv)

lemma order_by_local_stack_members:
  "set (order_by_local_stack families family_of candidates)
     = {a \<in> set candidates. family_of a \<in> set families}"
  by (auto simp: order_by_local_stack_def)

section \<open>AS lookup\<close>

type_synonym AsNumber = u32
type_synonym as_entry = "IpAddr \<times> u8 \<times> AsNumber"

fun ip_in_prefix :: "IpAddr \<Rightarrow> IpAddr \<Rightarrow> u8 \<Rightarrow> bool" where
  "ip_in_prefix (V4 ip4) (V4 net4) prefix_len =
     (if 32 < prefix_len then False
      else if prefix_len = 0 then True
      else let mask = push_bit (unat (32 - prefix_len)) (- 1) :: u32
           in (of_nat (nat_of_be ip4) AND mask) = (of_nat (nat_of_be net4) AND mask))"
| "ip_in_prefix (V6 ip6) (V6 net6) prefix_len =
     (if 128 < prefix_len then False
      else if prefix_len = 0 then True
      else let mask = push_bit (unat (128 - prefix_len)) (- 1) :: 128 word
           in (of_nat (nat_of_be ip6) AND mask) = (of_nat (nat_of_be net6) AND mask))"
| "ip_in_prefix _ _ prefix_len = False"

record AsLookupTable =
  as_entries :: "as_entry list"

definition as_table_empty :: AsLookupTable where
  "as_table_empty = \<lparr>as_entries = []\<rparr>"

definition from_entries :: "as_entry list \<Rightarrow> AsLookupTable" where
  "from_entries entries =
     \<lparr>as_entries = sort_key (\<lambda>(network, prefix_len, asn). (- int (unat prefix_len), network)) entries\<rparr>"

definition as_table_len :: "AsLookupTable \<Rightarrow> nat" where
  "as_table_len t = length (as_entries t)"

definition as_table_is_empty :: "AsLookupTable \<Rightarrow> bool" where
  "as_table_is_empty t \<longleftrightarrow> as_entries t = []"

definition as_lookup :: "AsLookupTable \<Rightarrow> IpAddr \<Rightarrow> AsNumber option" where
  "as_lookup t ip =
     (case List.find (\<lambda>(network, prefix_len, asn). ip_in_prefix (canonical_ip ip) network prefix_len)
             (as_entries t) of
        Some (network, prefix_len, asn) \<Rightarrow> Some asn
      | None \<Rightarrow> None)"

text \<open>
  The reference: an address lies in a prefix when both are of one family and their numbers
  agree after dropping the host part, and the longest match is found by one pass that keeps the
  better of the matches, the longer prefix or, at equal length, the smaller network.
\<close>

fun in_cidr :: "IpAddr \<Rightarrow> IpAddr \<Rightarrow> nat \<Rightarrow> bool" where
  "in_cidr (V4 a) (V4 n) p \<longleftrightarrow> p \<le> 32 \<and> nat_of_be a div 2 ^ (32 - p) = nat_of_be n div 2 ^ (32 - p)"
| "in_cidr (V6 a) (V6 n) p \<longleftrightarrow> p \<le> 128 \<and> nat_of_be a div 2 ^ (128 - p) = nat_of_be n div 2 ^ (128 - p)"
| "in_cidr _ _ p \<longleftrightarrow> False"

fun longest_match :: "IpAddr \<Rightarrow> as_entry list \<Rightarrow> as_entry option" where
  "longest_match ip [] = None"
| "longest_match ip ((n, p, asn) # es) =
     (if in_cidr ip n (unat p)
      then (case longest_match ip es of
              None \<Rightarrow> Some (n, p, asn)
            | Some (n', p', asn') \<Rightarrow>
                if unat p < unat p' \<or> unat p = unat p' \<and> n' < n then Some (n', p', asn')
                else Some (n, p, asn))
      else longest_match ip es)"

lemma masked_eq_iff:
  fixes x y :: "'a::len word"
  assumes "k \<le> LENGTH('a)"
  shows "x AND push_bit k (- 1) = y AND push_bit k (- 1) \<longleftrightarrow> unat x div 2 ^ k = unat y div 2 ^ k"
proof -
  have "x AND push_bit k (- 1) = push_bit k (drop_bit k x)" for x :: "'a word"
    by (intro bit_word_eqI) (auto simp: bit_simps)
  moreover have "drop_bit k (push_bit k (drop_bit k x)) = drop_bit k x" for x :: "'a word"
    by (intro bit_word_eqI) (auto simp: bit_simps dest: bit_imp_le_length)
  ultimately have "x AND push_bit k (- 1) = y AND push_bit k (- 1) \<longleftrightarrow> drop_bit k x = drop_bit k y"
    by metis
  also have "\<dots> \<longleftrightarrow> unat (drop_bit k x) = unat (drop_bit k y)"
    by (simp add: word_unat_eq_iff)
  finally show ?thesis
    unfolding unat_drop_bit_eq by (simp only: drop_bit_eq_div)
qed

lemma be32_masked: "length a = 4 \<Longrightarrow> unat (of_nat (nat_of_be a) :: u32) = nat_of_be a"
  using nat_of_be_less [of a] by (simp add: unat_of_nat take_bit_nat_eq_self unsigned_of_nat)

lemma be128_masked: "length a = 16 \<Longrightarrow> unat (of_nat (nat_of_be a) :: 128 word) = nat_of_be a"
  using nat_of_be_less [of a] by (simp add: unat_of_nat take_bit_nat_eq_self unsigned_of_nat)

lemma div_whole: "length a = k \<Longrightarrow> nat_of_be a div 2 ^ (8 * k) = 0"
  using nat_of_be_less [of a] by (simp add: power_mult)

lemma unat_sub_u8: "p \<le> q \<Longrightarrow> unat (q - p :: u8) = unat q - unat p"
  by (rule unat_sub)

lemma ip_in_prefix_cidr:
  assumes "wf_ip ip" "wf_ip n"
  shows "ip_in_prefix ip n p \<longleftrightarrow> in_cidr ip n (unat p)"
proof (cases ip; cases n)
  fix a b assume [simp]: "ip = V4 a" "n = V4 b"
  have len: "length a = 4" "length b = 4"
    using assms by auto
  show ?thesis
  proof (cases "p \<le> 32 \<and> p \<noteq> 0")
    case True
    then have p: "unat p \<le> 32" "unat (32 - p) = 32 - unat p"
      using unat_sub_u8 [of p 32] by (simp_all add: word_le_nat_alt)
    then show ?thesis
      using True len masked_eq_iff [of "32 - unat p" "of_nat (nat_of_be a) :: u32" "of_nat (nat_of_be b)"]
      by (simp add: be32_masked Let_def leD)
  next
    case False
    then show ?thesis
      using div_whole [of a 4] div_whole [of b 4] len
      by (auto simp: word_le_nat_alt word_less_nat_alt not_le)
  qed
next
  fix a b assume [simp]: "ip = V6 a" "n = V6 b"
  have len: "length a = 16" "length b = 16"
    using assms by auto
  show ?thesis
  proof (cases "p \<le> 128 \<and> p \<noteq> 0")
    case True
    then have p: "unat p \<le> 128" "unat (128 - p) = 128 - unat p"
      using unat_sub_u8 [of p 128] by (simp_all add: word_le_nat_alt)
    then show ?thesis
      using True len masked_eq_iff [of "128 - unat p" "of_nat (nat_of_be a) :: 128 word" "of_nat (nat_of_be b)"]
      by (simp add: be128_masked Let_def leD)
  next
    case False
    then show ?thesis
      using div_whole [of a 16] div_whole [of b 16] len
      by (auto simp: word_le_nat_alt word_less_nat_alt not_le)
  qed
qed auto

lemma longest_match_min_by_key:
  "longest_match ip es =
     min_by_key (\<lambda>(n, p, asn). (- int (unat p), n)) (filter (\<lambda>(n, p, asn). in_cidr ip n (unat p)) es)"
proof (induction es)
  case (Cons e es)
  have key: "(- int (unat p'), n') < (- int (unat p), n)
      \<longleftrightarrow> unat p < unat p' \<or> unat p = unat p' \<and> n' < n" for p p' :: u8 and n n' :: IpAddr
    by (simp only: less_prod_def fst_conv snd_conv neg_less_iff_less neg_le_iff_le of_nat_less_iff
        of_nat_le_iff) linarith
  obtain n p asn where e: "e = (n, p, asn)"
    by (cases e)
  show ?case
    unfolding e longest_match.simps Cons.IH
    by (simp only: filter.simps min_by_key.simps prod.case key split: option.split prod.split if_split)
      auto
qed simp

lemma found_as:
  "(case e of Some (network, prefix_len, asn) \<Rightarrow> Some asn | None \<Rightarrow> None)
     = map_option (\<lambda>(n, p, asn). asn) e"
  by (auto split: option.split)

text \<open>
  C30: a lookup is the longest-prefix match. For well-formed addresses and any entries, in any
  order and with any prefix lengths, scanning the sorted table gives the AS of the entry that
  a single pass over the unsorted entries finds best, the longest prefix that holds the canonical
  address; an address no entry covers has no AS.
\<close>

theorem as_lookup_longest_prefix:
  assumes "wf_ip ip" "\<forall>(n, p, asn) \<in> set es. wf_ip n"
  shows "as_lookup (from_entries es) ip = map_option (\<lambda>(n, p, asn). asn) (longest_match (canonical_ip ip) es)"
proof -
  have "filter (\<lambda>(n, p, asn). ip_in_prefix (canonical_ip ip) n p) es
      = filter (\<lambda>(n, p, asn). in_cidr (canonical_ip ip) n (unat p)) es"
    using assms wf_canonical [OF assms(1)] by (intro filter_cong) (auto simp: ip_in_prefix_cidr)
  then show ?thesis
    unfolding as_lookup_def from_entries_def AsLookupTable.select_convs find_sort_key
      longest_match_min_by_key
    by (simp only: found_as)
qed

theorem as_lookup_longest_prefix_witness:
  "as_lookup (from_entries [(V4 [10, 0, 0, 0], 8, 1), (V4 [10, 1, 0, 0], 16, 2)]) (mapped [10, 1, 2, 3])
     = Some 2"
proof -
  have "longest_match (canonical_ip (mapped [10, 1, 2, 3]))
      [(V4 [10, 0, 0, 0], 8, 1), (V4 [10, 1, 0, 0], 16, 2)] = Some (V4 [10, 1, 0, 0], 16, 2)"
    by (simp add: canonical_mapped nat_of_be_def)
  moreover have "wf_ip (mapped [10, 1, 2, 3])"
    by (simp add: mapped_def)
  moreover have "\<forall>(n, p, asn) \<in> set [(V4 [10, 0, 0, 0], 8 :: u8, 1 :: AsNumber), (V4 [10, 1, 0, 0], 16, 2)]. wf_ip n"
    by simp
  ultimately show ?thesis
    by (simp only: as_lookup_longest_prefix option.map prod.case)
qed

lemma as_lookup_mapped:
  "length v4 = 4 \<Longrightarrow> as_lookup t (mapped v4) = as_lookup t (V4 v4)"
  by (simp add: as_lookup_def canonical_mapped)

lemma as_lookup_empty: "as_lookup as_table_empty ip = None"
  by (simp add: as_lookup_def as_table_empty_def)

section \<open>Latency\<close>

definition prefer_by_score :: "peer_id \<times> PeerReputation \<Rightarrow> peer_id \<times> PeerReputation \<Rightarrow> peer_id" where
  "prefer_by_score a b = (if score (snd a) < score (snd b) then fst b else fst a)"

definition worst_rtt_peer :: "(peer_id \<times> PeerReputation) list \<Rightarrow> peer_id option" where
  "worst_rtt_peer peers =
     map_option fst
       (max_by_key (\<lambda>(_, rep). case avg_rtt_ms rep of Some v \<Rightarrow> v | None \<Rightarrow> 0)
         (filter (\<lambda>(_, rep). avg_rtt_ms rep \<noteq> None) peers))"

definition best_rtt_peer :: "(peer_id \<times> PeerReputation) list \<Rightarrow> peer_id option" where
  "best_rtt_peer peers =
     map_option fst
       (min_by_key (\<lambda>(_, rep). case avg_rtt_ms rep of Some v \<Rightarrow> v | None \<Rightarrow> u64_max)
         (filter (\<lambda>(_, rep). avg_rtt_ms rep \<noteq> None
                     \<and> 0 < (case avg_rtt_ms rep of Some v \<Rightarrow> v | None \<Rightarrow> 0)) peers))"

definition should_swap_for_latency :: "nat option \<Rightarrow> nat option \<Rightarrow> bool" where
  "should_swap_for_latency worst_eager_rtt best_lazy_rtt =
     (case (worst_eager_rtt, best_lazy_rtt) of
        (Some eager, Some lazy) \<Rightarrow> lazy < eager
      | _ \<Rightarrow> False)"

lemma best_rtt_peer_best:
  assumes "best_rtt_peer peers = Some pid"
  shows "\<exists>rep v. (pid, rep) \<in> set peers \<and> avg_rtt_ms rep = Some v \<and> 0 < v
    \<and> (\<forall>(q, r) \<in> set peers. \<forall>w. avg_rtt_ms r = Some w \<longrightarrow> 0 < w \<longrightarrow> v \<le> w)"
proof -
  obtain rep where "min_by_key (\<lambda>(_, rep). case avg_rtt_ms rep of Some v \<Rightarrow> v | None \<Rightarrow> u64_max)
         (filter (\<lambda>(_, rep). avg_rtt_ms rep \<noteq> None
                     \<and> 0 < (case avg_rtt_ms rep of Some v \<Rightarrow> v | None \<Rightarrow> 0)) peers) = Some (pid, rep)"
    using assms unfolding best_rtt_peer_def by auto
  from min_by_key_SomeD [OF this] show ?thesis
    by (intro exI [of _ rep] exI [of _ "the (avg_rtt_ms rep)"]) fastforce
qed

lemma worst_rtt_peer_worst:
  assumes "worst_rtt_peer peers = Some pid"
  shows "\<exists>rep v. (pid, rep) \<in> set peers \<and> avg_rtt_ms rep = Some v
    \<and> (\<forall>(q, r) \<in> set peers. \<forall>w. avg_rtt_ms r = Some w \<longrightarrow> w \<le> v)"
proof -
  obtain rep where "max_by_key (\<lambda>(_, rep). case avg_rtt_ms rep of Some v \<Rightarrow> v | None \<Rightarrow> 0)
         (filter (\<lambda>(_, rep). avg_rtt_ms rep \<noteq> None) peers) = Some (pid, rep)"
    using assms unfolding worst_rtt_peer_def by auto
  from max_by_key_SomeD [OF this] show ?thesis
    by (intro exI [of _ rep] exI [of _ "the (avg_rtt_ms rep)"]) fastforce
qed

end
