(* ===== verification/Peer_Pool.thy ===== *)
theory Peer_Pool
  imports Ip_Group
begin

text \<open>
  The connected-peer pool (\<open>service/peer_pool.rs\<close>, \<open>PeerPoolConfig::normalized\<close> of
  \<open>types/config.rs\<close>): the pure planners of a maintenance pass and of a displacement, the
  dial backoff, the inbound budgets, the bookkeeping behind \<open>PoolState\<close>'s locks and the
  maintenance pass itself.

  \<open>usize\<close>, \<open>u32\<close> and \<open>u64\<close> counters are \<open>nat\<close> with the saturation of the
  source written out. \<open>PoolState\<close> is a record: its mutexes are never poisoned, the event
  channel is the list of the events sent once it is wired. The dialer, and whatever other tasks
  do to the pool while a dial is awaited, is one argument: a function on a world and the pool.
\<close>

section \<open>Configuration\<close>

record PeerPoolConfig =
  target_peers :: nat
  min_peers :: nat
  max_peers :: nat
  maintenance_interval_secs :: nat
  dial_backoff_base_secs :: nat
  max_dial_backoff_secs :: nat
  max_dial_failures :: nat
  min_idle_secs :: nat
  min_established_secs :: nat
  displacement_interval_secs :: nat

definition DEFAULT_POOL_TARGET_PEERS :: nat where "DEFAULT_POOL_TARGET_PEERS = 8"
definition DEFAULT_POOL_MIN_PEERS :: nat where "DEFAULT_POOL_MIN_PEERS = 4"
definition DEFAULT_POOL_MAX_PEERS :: nat where "DEFAULT_POOL_MAX_PEERS = 16"
definition DEFAULT_POOL_MAINTENANCE_INTERVAL_SECS :: nat where
  "DEFAULT_POOL_MAINTENANCE_INTERVAL_SECS = 15"
definition DEFAULT_POOL_DIAL_BACKOFF_BASE_SECS :: nat where
  "DEFAULT_POOL_DIAL_BACKOFF_BASE_SECS = 5"
definition DEFAULT_POOL_MAX_DIAL_BACKOFF_SECS :: nat where
  "DEFAULT_POOL_MAX_DIAL_BACKOFF_SECS = 300"
definition DEFAULT_POOL_MIN_IDLE_SECS :: nat where "DEFAULT_POOL_MIN_IDLE_SECS = 300"
definition DEFAULT_POOL_MIN_ESTABLISHED_SECS :: nat where
  "DEFAULT_POOL_MIN_ESTABLISHED_SECS = 600"
definition DEFAULT_POOL_DISPLACEMENT_INTERVAL_SECS :: nat where
  "DEFAULT_POOL_DISPLACEMENT_INTERVAL_SECS = 600"
definition MIN_POOL_DISPLACEMENT_INTERVAL_SECS :: nat where
  "MIN_POOL_DISPLACEMENT_INTERVAL_SECS = DEFAULT_POOL_DISPLACEMENT_INTERVAL_SECS"
definition DEFAULT_POOL_MAX_DIAL_FAILURES :: nat where "DEFAULT_POOL_MAX_DIAL_FAILURES = 5"

lemmas pool_consts = DEFAULT_POOL_TARGET_PEERS_def DEFAULT_POOL_MIN_PEERS_def
  DEFAULT_POOL_MAX_PEERS_def DEFAULT_POOL_MAINTENANCE_INTERVAL_SECS_def
  DEFAULT_POOL_DIAL_BACKOFF_BASE_SECS_def DEFAULT_POOL_MAX_DIAL_BACKOFF_SECS_def
  DEFAULT_POOL_MIN_IDLE_SECS_def DEFAULT_POOL_MIN_ESTABLISHED_SECS_def
  DEFAULT_POOL_DISPLACEMENT_INTERVAL_SECS_def MIN_POOL_DISPLACEMENT_INTERVAL_SECS_def
  DEFAULT_POOL_MAX_DIAL_FAILURES_def

definition pool_config_default :: PeerPoolConfig where
  "pool_config_default =
     \<lparr>target_peers = DEFAULT_POOL_TARGET_PEERS, min_peers = DEFAULT_POOL_MIN_PEERS,
      max_peers = DEFAULT_POOL_MAX_PEERS,
      maintenance_interval_secs = DEFAULT_POOL_MAINTENANCE_INTERVAL_SECS,
      dial_backoff_base_secs = DEFAULT_POOL_DIAL_BACKOFF_BASE_SECS,
      max_dial_backoff_secs = DEFAULT_POOL_MAX_DIAL_BACKOFF_SECS,
      max_dial_failures = DEFAULT_POOL_MAX_DIAL_FAILURES,
      min_idle_secs = DEFAULT_POOL_MIN_IDLE_SECS,
      min_established_secs = DEFAULT_POOL_MIN_ESTABLISHED_SECS,
      displacement_interval_secs = DEFAULT_POOL_DISPLACEMENT_INTERVAL_SECS\<rparr>"

definition normalized :: "PeerPoolConfig \<Rightarrow> PeerPoolConfig" where
  "normalized c =
     (let maxp = max (max_peers c) 1;
          target = min (max (target_peers c) 1) maxp;
          minp = min (min_peers c) target
      in c\<lparr>target_peers := target, min_peers := minp, max_peers := maxp,
           min_established_secs := max (min_established_secs c) (min_idle_secs c),
           displacement_interval_secs :=
             max (displacement_interval_secs c) MIN_POOL_DISPLACEMENT_INTERVAL_SECS\<rparr>)"

definition coherent :: "PeerPoolConfig \<Rightarrow> bool" where
  "coherent c \<longleftrightarrow> min_peers c \<le> target_peers c \<and> 1 \<le> target_peers c \<and> target_peers c \<le> max_peers c
     \<and> min_idle_secs c \<le> min_established_secs c
     \<and> MIN_POOL_DISPLACEMENT_INTERVAL_SECS \<le> displacement_interval_secs c"

lemma coherent_normalized: "coherent (normalized c)"
  by (auto simp: coherent_def normalized_def Let_def max_def min_def)

lemma normalized_coherent: "coherent c \<Longrightarrow> normalized c = c"
  by (simp add: coherent_def normalized_def Let_def max_def min_def)

lemma normalized_idem [simp]: "normalized (normalized c) = normalized c"
  by (rule normalized_coherent) (rule coherent_normalized)

lemma normalized_fields [simp]:
  "max_dial_failures (normalized c) = max_dial_failures c"
  "dial_backoff_base_secs (normalized c) = dial_backoff_base_secs c"
  "max_dial_backoff_secs (normalized c) = max_dial_backoff_secs c"
  "min_idle_secs (normalized c) = min_idle_secs c"
  by (simp_all add: normalized_def Let_def)

lemma coherent_default: "coherent pool_config_default"
  by (simp add: coherent_def pool_config_default_def pool_consts)

lemma normalized_default: "normalized pool_config_default = pool_config_default"
  by (rule normalized_coherent) (rule coherent_default)

lemma default_fields [simp]:
  "target_peers pool_config_default = 8" "min_peers pool_config_default = 4"
  "max_peers pool_config_default = 16" "max_dial_failures pool_config_default = 5"
  "min_idle_secs pool_config_default = 300" "min_established_secs pool_config_default = 600"
  "displacement_interval_secs pool_config_default = 600"
  by (simp_all add: pool_config_default_def pool_consts)

section \<open>Candidates and backoff\<close>

datatype CandidateKey = Id_key peer_id | Addr_key SocketAddr

record PoolCandidate =
  cand_peer_id :: "peer_id option"
  cand_addr :: "SocketAddr option"

definition candidate_from_addr :: "SocketAddr \<Rightarrow> PoolCandidate" where
  "candidate_from_addr a = \<lparr>cand_peer_id = None, cand_addr = Some a\<rparr>"

definition candidate_with_id :: "peer_id \<Rightarrow> SocketAddr \<Rightarrow> PoolCandidate" where
  "candidate_with_id p a = \<lparr>cand_peer_id = Some p, cand_addr = Some a\<rparr>"

definition dedup_key :: "PoolCandidate \<Rightarrow> CandidateKey" where
  "dedup_key c =
     (case (cand_peer_id c, cand_addr c) of
        (Some p, _) \<Rightarrow> Id_key p
      | (None, Some a) \<Rightarrow> Addr_key a
      | (None, None) \<Rightarrow> Addr_key (SocketAddr (V4 [0, 0, 0, 0]) 0))"

definition identity_keys :: "PoolCandidate \<Rightarrow> CandidateKey list" where
  "identity_keys c =
     (case cand_peer_id c of Some p \<Rightarrow> [Id_key p] | None \<Rightarrow> [])
     @ (case cand_addr c of Some a \<Rightarrow> [Addr_key a] | None \<Rightarrow> [])"

record DialBackoff =
  failures :: nat
  next_retry_at :: nat

definition DialBackoff_new :: DialBackoff where
  "DialBackoff_new = \<lparr>failures = 0, next_retry_at = 0\<rparr>"

definition is_ready :: "DialBackoff \<Rightarrow> nat \<Rightarrow> bool" where
  "is_ready b now \<longleftrightarrow> next_retry_at b \<le> now"

definition is_dead :: "DialBackoff \<Rightarrow> nat \<Rightarrow> bool" where
  "is_dead b max_failures \<longleftrightarrow> max_failures \<le> failures b"

definition backoff_delay :: "nat \<Rightarrow> nat \<Rightarrow> nat \<Rightarrow> nat" where
  "backoff_delay n base_secs max_secs =
     min (sat_mul64 base_secs (2 ^ min (n - 1) 16)) (max max_secs base_secs)"

definition backoff_failure :: "DialBackoff \<Rightarrow> nat \<Rightarrow> nat \<Rightarrow> nat \<Rightarrow> DialBackoff" where
  "backoff_failure b now base_secs max_secs =
     (let n = sat_add32 (failures b) 1
      in \<lparr>failures = n, next_retry_at = sat_add64 now (backoff_delay n base_secs max_secs)\<rparr>)"

lemma backoff_delay_mono: "n \<le> m \<Longrightarrow> backoff_delay n b x \<le> backoff_delay m b x"
  unfolding backoff_delay_def sat_mul64_def
  by (intro min.mono mult_le_mono order_refl power_increasing diff_le_mono) auto

lemma backoff_delay_bounds:
  "b \<le> u64_max \<Longrightarrow> b \<le> backoff_delay n b x" "backoff_delay n b x \<le> max x b"
  by (auto simp: backoff_delay_def sat_mul64_def)

section \<open>The maintenance plan\<close>

record PoolPlan =
  to_dial :: "PoolCandidate list"
  free_slots :: nat

record PoolSnapshot =
  snap_connected :: nat
  snap_direct_connected :: nat
  snap_in_flight :: nat
  snap_connected_keys :: "CandidateKey list"
  snap_candidates :: "PoolCandidate list"
  snap_backoff :: "(CandidateKey, DialBackoff) fmap"
  snap_now :: nat

definition free_slot_budget :: "nat \<Rightarrow> nat \<Rightarrow> PeerPoolConfig \<Rightarrow> nat" where
  "free_slot_budget connected in_flight cfg =
     (let cfg = normalized cfg;
          current = sat_add64 connected in_flight;
          want_to_target = target_peers cfg - current;
          room_to_max = max_peers cfg - current
      in min want_to_target room_to_max)"

definition min_direct_peers :: "PeerPoolConfig \<Rightarrow> nat" where
  "min_direct_peers cfg = max (target_peers cfg div 4) 1"

definition free_slot_budget_with_direct_floor ::
    "nat \<Rightarrow> nat \<Rightarrow> nat \<Rightarrow> PeerPoolConfig \<Rightarrow> nat" where
  "free_slot_budget_with_direct_floor direct_connected relay_reachable in_flight cfg =
     (let cfg = normalized cfg;
          relay_aware = free_slot_budget (sat_add64 direct_connected relay_reachable) in_flight cfg;
          direct_current = sat_add64 direct_connected in_flight;
          floor_budget = min_direct_peers cfg - direct_current;
          room_to_max = max_peers cfg - direct_current
      in min (max relay_aware floor_budget) room_to_max)"

fun plan_loop ::
    "nat \<Rightarrow> CandidateKey list \<Rightarrow> PoolSnapshot \<Rightarrow> PeerPoolConfig \<Rightarrow> CandidateKey fset
      \<Rightarrow> PoolCandidate list \<Rightarrow> PoolCandidate list \<Rightarrow> PoolCandidate list" where
  "plan_loop slots connected snap cfg chosen acc [] = acc"
| "plan_loop slots connected snap cfg chosen acc (cand # cands) =
     (if slots \<le> length acc then acc
      else let key = dedup_key cand in
        if list_ex (\<lambda>k. k \<in> set connected) (identity_keys cand)
          then plan_loop slots connected snap cfg chosen acc cands
        else if key |\<in>| chosen
          then plan_loop slots connected snap cfg chosen acc cands
        else if (case fmlookup (snap_backoff snap) key of
                   Some b \<Rightarrow> is_dead b (max_dial_failures cfg) \<or> \<not> is_ready b (snap_now snap)
                 | None \<Rightarrow> False)
          then plan_loop slots connected snap cfg chosen acc cands
        else plan_loop slots connected snap cfg (finsert key chosen) (acc @ [cand]) cands)"

definition plan_pass :: "PoolSnapshot \<Rightarrow> PeerPoolConfig \<Rightarrow> PoolPlan" where
  "plan_pass snap cfg =
     (let cfg = normalized cfg;
          relay_reachable = snap_connected snap - snap_direct_connected snap;
          slots = free_slot_budget_with_direct_floor (snap_direct_connected snap) relay_reachable
                    (snap_in_flight snap) cfg
      in if slots = 0 then \<lparr>to_dial = [], free_slots = 0\<rparr>
         else \<lparr>to_dial = plan_loop slots (snap_connected_keys snap) snap cfg {||} []
                           (snap_candidates snap),
               free_slots = slots\<rparr>)"

subsection \<open>The plan is the greedy selection\<close>

definition eligible :: "PoolSnapshot \<Rightarrow> PeerPoolConfig \<Rightarrow> PoolCandidate \<Rightarrow> bool" where
  "eligible snap cfg c \<longleftrightarrow>
     set (identity_keys c) \<inter> set (snap_connected_keys snap) = {}
     \<and> (\<forall>b. fmlookup (snap_backoff snap) (dedup_key c) = Some b
          \<longrightarrow> failures b < max_dial_failures cfg \<and> next_retry_at b \<le> snap_now snap)"

fun first_by :: "('a \<Rightarrow> 'k) \<Rightarrow> 'a list \<Rightarrow> 'a list" where
  "first_by key [] = []"
| "first_by key (x # xs) = x # filter (\<lambda>y. key y \<noteq> key x) (first_by key xs)"

lemma set_first_by: "set (first_by key xs) \<subseteq> set xs"
  by (induction xs) auto

lemma first_by_keys: "key ` set (first_by key xs) = key ` set xs"
proof (induction xs)
  case (Cons x xs)
  have "key ` {y \<in> S. key y \<noteq> key x} = key ` S - {key x}" for S
    by auto
  then show ?case
    using Cons by simp
qed simp

lemma distinct_first_by: "distinct (map key (first_by key xs))"
  by (induction xs) (auto simp: distinct_map inj_on_def)

lemma subseq_first_by: "subseq (first_by key xs) xs"
proof (induction xs)
  case (Cons x xs)
  then show ?case
    by (auto intro: subseq_order.trans [OF subseq_filter_left])
qed simp

lemma plan_loop_step:
  "plan_loop slots (snap_connected_keys snap) snap cfg chosen acc (c # cs) =
     (if slots \<le> length acc then acc
      else if \<not> eligible snap cfg c \<or> dedup_key c |\<in>| chosen
        then plan_loop slots (snap_connected_keys snap) snap cfg chosen acc cs
      else plan_loop slots (snap_connected_keys snap) snap cfg (finsert (dedup_key c) chosen)
             (acc @ [c]) cs)"
  by (auto simp: eligible_def list_ex_iff is_dead_def is_ready_def Let_def split: option.split)

declare plan_loop.simps(2) [simp del]

lemma plan_loop_greedy:
  "length acc \<le> slots \<Longrightarrow>
     plan_loop slots (snap_connected_keys snap) snap cfg chosen acc cands =
       acc @ take (slots - length acc)
         (filter (\<lambda>c. dedup_key c |\<notin>| chosen) (first_by dedup_key (filter (eligible snap cfg) cands)))"
proof (induction cands arbitrary: chosen acc)
  case (Cons c cs)
  let ?rest = "first_by dedup_key (filter (eligible snap cfg) cs)"
  consider (full) "slots = length acc"
    | (no) "length acc < slots" "\<not> eligible snap cfg c"
    | (dup) "length acc < slots" "eligible snap cfg c" "dedup_key c |\<in>| chosen"
    | (take) "length acc < slots" "eligible snap cfg c" "dedup_key c |\<notin>| chosen"
    using Cons.prems by linarith
  then show ?case
  proof cases
    case full
    then show ?thesis by (simp add: plan_loop_step)
  next
    case no
    then show ?thesis
      using Cons.IH [OF Cons.prems] by (simp add: plan_loop_step)
  next
    case dup
    have "filter (\<lambda>x. dedup_key x \<noteq> dedup_key c \<and> dedup_key x |\<notin>| chosen) ?rest
        = filter (\<lambda>x. dedup_key x |\<notin>| chosen) ?rest"
      using dup(3) by (auto intro!: filter_cong)
    then show ?thesis
      using dup Cons.IH [OF Cons.prems] by (simp add: plan_loop_step conj_commute)
  next
    case take
    moreover have "slots - length acc = Suc (slots - length (acc @ [c]))"
      using take(1) by simp
    ultimately show ?thesis
      using Cons.IH [of "acc @ [c]" "finsert (dedup_key c) chosen"]
      by (simp add: plan_loop_step conj_commute)
  qed
qed simp

text \<open>The slots a pass plans for.\<close>

definition planned_slots :: "PoolSnapshot \<Rightarrow> PeerPoolConfig \<Rightarrow> nat" where
  "planned_slots snap cfg =
     free_slot_budget_with_direct_floor (snap_direct_connected snap)
       (snap_connected snap - snap_direct_connected snap) (snap_in_flight snap) (normalized cfg)"

lemma plan_pass_eq:
  "plan_pass snap cfg =
     \<lparr>to_dial = take (planned_slots snap cfg)
        (first_by dedup_key (filter (eligible snap cfg) (snap_candidates snap))),
      free_slots = planned_slots snap cfg\<rparr>"
proof -
  have "eligible snap (normalized cfg) = eligible snap cfg"
    by (simp add: eligible_def fun_eq_iff)
  then show ?thesis
    using plan_loop_greedy [of "[]" "planned_slots snap cfg" snap "normalized cfg" "{||}"
        "snap_candidates snap"]
    by (auto simp: plan_pass_def planned_slots_def Let_def)
qed

text \<open>
  C21: one pass dials exactly the greedy selection. The plan is the list of the eligible
  candidates in their order, each peer once, cut at the free slots: no candidate with a connected
  id or address, none that is backed off or dead, and nothing eligible is left out while a slot
  is free.
\<close>

theorem plan_pass_greedy:
  "plan_pass snap cfg =
     \<lparr>to_dial = take (planned_slots snap cfg)
        (first_by dedup_key (filter (eligible snap cfg) (snap_candidates snap))),
      free_slots = planned_slots snap cfg\<rparr>"
  by (rule plan_pass_eq)

lemma plan_pass_dials:
  assumes "c \<in> set (to_dial (plan_pass snap cfg))"
  shows "c \<in> set (snap_candidates snap)" "eligible snap cfg c"
  using assms set_first_by [of dedup_key "filter (eligible snap cfg) (snap_candidates snap)"]
  by (auto simp: plan_pass_eq dest!: in_set_takeD)

lemma plan_pass_len: "length (to_dial (plan_pass snap cfg)) \<le> free_slots (plan_pass snap cfg)"
  by (simp add: plan_pass_eq)

lemma plan_pass_distinct: "distinct (map dedup_key (to_dial (plan_pass snap cfg)))"
  by (simp add: plan_pass_eq distinct_first_by flip: take_map)

text \<open>
  The budget of a pass. Added to the direct connections and the dials in flight it
  never exceeds the hard cap; the direct connections it leads to are never below a quarter of the
  target (at least one), however many peers a relay advertises; and without relayed peers it is
  exactly what is missing to the target.
\<close>

theorem pool_budget:
  assumes "direct + in_flight \<le> u64_max" "direct \<le> connected"
    and "snap_connected snap = connected" "snap_direct_connected snap = direct"
    and "snap_in_flight snap = in_flight"
  shows "planned_slots snap cfg \<le> max_peers (normalized cfg) - (direct + in_flight)"
    and "min_direct_peers (normalized cfg) \<le> direct + in_flight + planned_slots snap cfg"
    and "connected = direct \<Longrightarrow>
           planned_slots snap cfg = target_peers (normalized cfg) - (direct + in_flight)"
proof -
  have c: "coherent (normalized cfg)"
    by (rule coherent_normalized)
  then have quarter: "min_direct_peers (normalized cfg) \<le> target_peers (normalized cfg)"
    by (auto simp: min_direct_peers_def coherent_def)
  have current: "sat_add64 direct in_flight = direct + in_flight"
    using assms(1) by (rule sat_add64_exact)
  show "planned_slots snap cfg \<le> max_peers (normalized cfg) - (direct + in_flight)"
    by (simp add: planned_slots_def free_slot_budget_with_direct_floor_def Let_def assms(3-5) current)
  show "min_direct_peers (normalized cfg) \<le> direct + in_flight + planned_slots snap cfg"
    using c quarter
    by (auto simp: planned_slots_def free_slot_budget_with_direct_floor_def Let_def assms(3-5) current
        coherent_def)
  assume "connected = direct"
  moreover have "sat_add64 (sat_add64 direct 0) in_flight = direct + in_flight"
    using assms(1) by (simp add: sat_add64_def)
  ultimately show "planned_slots snap cfg = target_peers (normalized cfg) - (direct + in_flight)"
    using c quarter
    by (auto simp: planned_slots_def free_slot_budget_with_direct_floor_def free_slot_budget_def
        Let_def assms(3-5) current coherent_def)
qed

theorem pool_budget_witness:
  "planned_slots \<lparr>snap_connected = 2, snap_direct_connected = 2, snap_in_flight = 1,
      snap_connected_keys = [], snap_candidates = [], snap_backoff = fmempty, snap_now = 0\<rparr>
      pool_config_default = 5"
  using pool_budget(3) [of 2 1 2 "\<lparr>snap_connected = 2, snap_direct_connected = 2,
      snap_in_flight = 1, snap_connected_keys = [], snap_candidates = [], snap_backoff = fmempty,
      snap_now = 0\<rparr>" pool_config_default]
  by (simp add: normalized_default u64_max_def)

section \<open>The inbound budgets\<close>

definition reserving_a_quarter :: "nat \<Rightarrow> nat" where
  "reserving_a_quarter n = n - max (n div 4) 1"

definition a_reserved_share_of :: "nat \<Rightarrow> nat" where
  "a_reserved_share_of inbound_budget = min (max (reserving_a_quarter inbound_budget) 1) inbound_budget"

definition max_relayed_outbound :: "nat \<Rightarrow> nat" where
  "max_relayed_outbound target_outbound_count = reserving_a_quarter target_outbound_count"

definition max_inbound_total :: "nat \<Rightarrow> nat" where
  "max_inbound_total max_connections = reserving_a_quarter max_connections"

definition max_relayed_inbound :: "nat \<Rightarrow> nat" where
  "max_relayed_inbound max_connections = a_reserved_share_of (max_inbound_total max_connections)"

definition max_direct_inbound :: "nat \<Rightarrow> nat" where
  "max_direct_inbound max_connections = a_reserved_share_of (max_inbound_total max_connections)"

definition max_direct_inbound_per_group :: "nat \<Rightarrow> nat" where
  "max_direct_inbound_per_group max_connections =
     max ((max_direct_inbound max_connections + 3) div 4) 2"

lemmas inbound_caps = reserving_a_quarter_def a_reserved_share_of_def max_inbound_total_def
  max_relayed_inbound_def max_direct_inbound_def max_direct_inbound_per_group_def

lemma reserved_share:
  "a_reserved_share_of b \<le> b" "2 \<le> b \<longleftrightarrow> a_reserved_share_of b < b"
  "0 < b \<longleftrightarrow> 0 < a_reserved_share_of b" "b \<le> 2 * a_reserved_share_of b"
  "4 \<le> b \<longleftrightarrow> 3 \<le> a_reserved_share_of b"
  by (auto simp: a_reserved_share_of_def reserving_a_quarter_def max_def min_def)

lemma reserved_quarter:
  "reserving_a_quarter n \<le> n - 1" "k < 6 \<Longrightarrow> k + 1 \<le> n \<longleftrightarrow> k \<le> reserving_a_quarter n \<and> 0 < n"
  by (auto simp: reserving_a_quarter_def max_def)

lemma quarter_up: "3 \<le> d \<longleftrightarrow> max ((d + 3) div 4) 2 < (d :: nat)"
  by (auto simp: max_def)

text \<open>
  The accepted tiers draw from one budget that never is the whole pool. For every pool
  size the aggregate leaves a slot for the peers this node reaches; neither tier may take the
  whole aggregate once it has two slots, neither is closed while it has one, both caps together
  cover it, and one source group never takes the whole direct tier of a pool of five or more.
\<close>

theorem inbound_budgets_compose:
  shows "max_inbound_total n \<le> n - 1"
    and "max_direct_inbound n = max_relayed_inbound n" "max_direct_inbound n \<le> max_inbound_total n"
    and "2 \<le> max_inbound_total n \<longleftrightarrow> max_direct_inbound n < max_inbound_total n"
    and "0 < max_inbound_total n \<longleftrightarrow> 0 < max_direct_inbound n"
    and "max_inbound_total n \<le> max_direct_inbound n + max_relayed_inbound n"
    and "5 \<le> n \<longleftrightarrow> max_direct_inbound_per_group n < max_direct_inbound n"
proof -
  note caps = max_inbound_total_def max_direct_inbound_def max_relayed_inbound_def
    max_direct_inbound_per_group_def
  show "max_inbound_total n \<le> n - 1"
    using reserved_quarter(1) by (simp only: caps)
  show "max_direct_inbound n = max_relayed_inbound n" "max_direct_inbound n \<le> max_inbound_total n"
    "2 \<le> max_inbound_total n \<longleftrightarrow> max_direct_inbound n < max_inbound_total n"
    "0 < max_inbound_total n \<longleftrightarrow> 0 < max_direct_inbound n"
    using reserved_share by (simp_all only: caps)
  show "max_inbound_total n \<le> max_direct_inbound n + max_relayed_inbound n"
    using reserved_share(4) by (simp only: caps mult_2)
  have "5 \<le> n \<longleftrightarrow> 4 \<le> reserving_a_quarter n"
    using reserved_quarter(2) [of 4 n] reserved_quarter(1) [of n] by auto
  then show "5 \<le> n \<longleftrightarrow> max_direct_inbound_per_group n < max_direct_inbound n"
    by (simp only: caps reserved_share(5) quarter_up)
qed

section \<open>Displacement\<close>

record PeerActivity =
  act_peer_id :: peer_id
  act_admitted_at :: nat
  act_last_active_at :: nat
  act_in_flight :: nat

definition is_displaceable :: "PeerActivity \<Rightarrow> nat \<Rightarrow> PeerPoolConfig \<Rightarrow> bool" where
  "is_displaceable p now cfg \<longleftrightarrow>
     act_in_flight p = 0 \<and> min_established_secs cfg \<le> now - act_admitted_at p
     \<and> min_idle_secs cfg \<le> now - act_last_active_at p"

record DisplacementRequest =
  req_connected :: nat
  req_capacity :: nat
  req_incumbents :: "PeerActivity list"
  req_last_displacement_at :: "nat option"
  req_now :: nat

datatype DisplacementRefusal =
    RateLimited (retry_after_secs: nat)
  | WouldBreachMinPeers
  | NoIdleIncumbent

datatype DisplacementDecision =
    RoomAlready
  | Displace peer_id
  | Refused DisplacementRefusal

definition idlest_key :: "PeerActivity \<Rightarrow> nat \<times> nat \<times> peer_id" where
  "idlest_key p = (act_last_active_at p, act_admitted_at p, act_peer_id p)"

definition plan_displacement :: "DisplacementRequest \<Rightarrow> PeerPoolConfig \<Rightarrow> DisplacementDecision" where
  "plan_displacement req cfg =
     (let cfg = normalized cfg in
      if req_connected req < req_capacity req then RoomAlready
      else if req_connected req \<le> min_peers cfg then Refused WouldBreachMinPeers
      else
        let victim =
          (case min_by_key idlest_key
                  (filter (\<lambda>peer. is_displaceable peer (req_now req) cfg) (req_incumbents req)) of
             None \<Rightarrow> Refused NoIdleIncumbent
           | Some victim \<Rightarrow> Displace (act_peer_id victim))
        in (case req_last_displacement_at req of
              Some prev \<Rightarrow>
                (let next_allowed = sat_add64 prev (displacement_interval_secs cfg)
                 in if req_now req < next_allowed
                    then Refused (RateLimited (next_allowed - req_now req))
                    else victim)
            | None \<Rightarrow> victim))"

text \<open>
  A displacement is charged, rare and takes the idlest. A peer is displaced only from a
  full pool above its minimum, at least the configured interval (never less than ten minutes) after the last displacement, with nothing in
  flight over it, held and unused for the configured times; every other displaceable incumbent was
  used no longer ago. With a full pool and an elapsed interval someone is displaced whenever
  anyone may be.
\<close>

theorem displacement_exact:
  assumes "plan_displacement req cfg = Displace v"
  shows "req_capacity req \<le> req_connected req" "min_peers (normalized cfg) < req_connected req"
    and "req_last_displacement_at req = Some prev \<Longrightarrow>
      sat_add64 prev (max (displacement_interval_secs cfg) 600) \<le> req_now req"
    and "\<exists>p \<in> set (req_incumbents req). act_peer_id p = v
           \<and> is_displaceable p (req_now req) (normalized cfg)
           \<and> (\<forall>q \<in> set (req_incumbents req). is_displaceable q (req_now req) (normalized cfg)
                \<longrightarrow> act_last_active_at p \<le> act_last_active_at q)"
proof -
  let ?cfg = "normalized cfg"
  let ?idle = "filter (\<lambda>peer. is_displaceable peer (req_now req) ?cfg) (req_incumbents req)"
  have charged: "sat_add64 prev (displacement_interval_secs ?cfg) \<le> req_now req"
    if "req_last_displacement_at req = Some prev" for prev
    using assms that by (auto simp: plan_displacement_def Let_def split: if_splits)
  obtain p where p: "min_by_key idlest_key ?idle = Some p" "v = act_peer_id p"
    using assms by (auto simp: plan_displacement_def Let_def split: if_splits option.splits)
  show "req_capacity req \<le> req_connected req" "min_peers ?cfg < req_connected req"
    using assms by (auto simp: plan_displacement_def Let_def split: if_splits)
  show "sat_add64 prev (max (displacement_interval_secs cfg) 600) \<le> req_now req"
    if "req_last_displacement_at req = Some prev"
    using charged [OF that] by (simp add: normalized_def Let_def pool_consts)
  have "p \<in> set ?idle" "\<forall>q \<in> set ?idle. idlest_key p \<le> idlest_key q"
    using min_by_key_SomeD [OF p(1)] by auto
  then show "\<exists>p \<in> set (req_incumbents req). act_peer_id p = v
      \<and> is_displaceable p (req_now req) ?cfg
      \<and> (\<forall>q \<in> set (req_incumbents req). is_displaceable q (req_now req) ?cfg
            \<longrightarrow> act_last_active_at p \<le> act_last_active_at q)"
    using p(2) by (intro bexI [of _ p]) (auto simp: idlest_key_def)
qed

definition idle_peer :: "u8 \<Rightarrow> nat \<Rightarrow> PeerActivity" where
  "idle_peer b t = \<lparr>act_peer_id = [b], act_admitted_at = 0, act_last_active_at = t, act_in_flight = 0\<rparr>"

definition full_request :: DisplacementRequest where
  "full_request = \<lparr>req_connected = 8, req_capacity = 8,
     req_incumbents = [idle_peer 1 50, idle_peer 2 20], req_last_displacement_at = Some 100,
     req_now = 1000\<rparr>"

lemma full_request_displaces: "plan_displacement full_request pool_config_default = Displace [2]"
  by (simp add: plan_displacement_def normalized_default full_request_def idle_peer_def
      is_displaceable_def idlest_key_def sat_add64_def u64_max_def Let_def)

theorem displacement_exact_witness: "sat_add64 100 600 \<le> req_now full_request"
  using displacement_exact(3) [OF full_request_displaces, of 100] by (simp add: full_request_def)

text \<open>The choice does not depend on the order in which the incumbents are enumerated.\<close>

lemma idlest_key_inject: "distinct (map act_peer_id ps) \<Longrightarrow> p \<in> set ps \<Longrightarrow> q \<in> set ps \<Longrightarrow>
    idlest_key p = idlest_key q \<Longrightarrow> p = q"
  by (auto simp: idlest_key_def distinct_map inj_on_def)

lemma idlest_order_irrelevant:
  assumes "distinct (map act_peer_id ps)" "set qs = set ps"
  shows "min_by_key idlest_key (filter P qs) = min_by_key idlest_key (filter P ps)"
proof (cases "min_by_key idlest_key (filter P ps)")
  case None
  then show ?thesis
    using assms(2) by (simp add: filter_empty_conv)
next
  case (Some p)
  then obtain q where q: "min_by_key idlest_key (filter P qs) = Some q"
    using assms(2) by (cases "min_by_key idlest_key (filter P qs)") (auto simp: filter_empty_conv)
  have "p \<in> set ps" "q \<in> set ps" "idlest_key p = idlest_key q"
    using min_by_key_SomeD [OF Some] min_by_key_SomeD [OF q] assms(2) by (auto intro: antisym)
  then show ?thesis
    using idlest_key_inject [OF assms(1)] Some q by simp
qed

lemma displaces_if_it_may:
  assumes "req_capacity req \<le> req_connected req" "min_peers (normalized cfg) < req_connected req"
    and "\<forall>prev. req_last_displacement_at req = Some prev \<longrightarrow>
           sat_add64 prev (displacement_interval_secs (normalized cfg)) \<le> req_now req"
    and "p \<in> set (req_incumbents req)" "is_displaceable p (req_now req) (normalized cfg)"
  shows "\<exists>v. plan_displacement req cfg = Displace v"
proof (cases "min_by_key idlest_key
    (filter (\<lambda>peer. is_displaceable peer (req_now req) (normalized cfg)) (req_incumbents req))")
  case None
  then show ?thesis
    using assms(4,5) by (auto simp: filter_empty_conv)
next
  case (Some q)
  then show ?thesis
    using assms(1-3) by (auto simp: plan_displacement_def Let_def not_less split: option.split)
qed

section \<open>Pool bookkeeping\<close>

datatype PoolRemovalReason = Disconnected | Dead | Banned | Reaped | Displaced

datatype PoolEvent =
    PeerAdded peer_id SocketAddr
  | PeerRemoved peer_id PoolRemovalReason

record ActivityRecord =
  rec_admitted_at :: nat
  rec_last_active_at :: nat
  rec_in_flight :: nat

record PoolState =
  pool_backoff :: "(CandidateKey, DialBackoff) fmap"
  pool_in_flight :: "CandidateKey fset"
  pool_events :: "PoolEvent list option"
  pool_activity :: "(peer_id, ActivityRecord) fmap"
  pool_last_displacement_at :: "nat option"

definition PoolState_new :: PoolState where
  "PoolState_new = \<lparr>pool_backoff = fmempty, pool_in_flight = {||}, pool_events = None,
     pool_activity = fmempty, pool_last_displacement_at = None\<rparr>"

definition record_admission :: "peer_id \<Rightarrow> nat \<Rightarrow> PoolState \<Rightarrow> PoolState" where
  "record_admission p now s =
     s\<lparr>pool_activity := fmupd p
         (case fmlookup (pool_activity s) p of
            Some r \<Rightarrow> r\<lparr>rec_admitted_at := now, rec_last_active_at := now\<rparr>
          | None \<Rightarrow> \<lparr>rec_admitted_at = now, rec_last_active_at = now, rec_in_flight = 0\<rparr>)
         (pool_activity s)\<rparr>"

definition record_departure :: "peer_id \<Rightarrow> PoolState \<Rightarrow> PoolState" where
  "record_departure p s = s\<lparr>pool_activity := fmdrop p (pool_activity s)\<rparr>"

definition retain_admitted :: "peer_id fset \<Rightarrow> PoolState \<Rightarrow> PoolState" where
  "retain_admitted held s = s\<lparr>pool_activity := fmfilter (\<lambda>p. p |\<in>| held) (pool_activity s)\<rparr>"

definition begin_activity :: "peer_id \<Rightarrow> nat \<Rightarrow> PoolState \<Rightarrow> bool \<times> PoolState" where
  "begin_activity p now s =
     (case fmlookup (pool_activity s) p of
        Some r \<Rightarrow>
          (True, s\<lparr>pool_activity := fmupd p
             (r\<lparr>rec_in_flight := sat_add64 (rec_in_flight r) 1, rec_last_active_at := now\<rparr>)
             (pool_activity s)\<rparr>)
      | None \<Rightarrow> (False, s))"

definition end_activity :: "peer_id \<Rightarrow> nat \<Rightarrow> PoolState \<Rightarrow> PoolState" where
  "end_activity p now s =
     (case fmlookup (pool_activity s) p of
        Some r \<Rightarrow>
          s\<lparr>pool_activity := fmupd p
             (r\<lparr>rec_in_flight := rec_in_flight r - 1, rec_last_active_at := now\<rparr>)
             (pool_activity s)\<rparr>
      | None \<Rightarrow> s)"

text \<open>\<open>eligible_ids\<close> is the hash set in the order it is iterated.\<close>

definition activity_of :: "peer_id list \<Rightarrow> PoolState \<Rightarrow> PeerActivity list" where
  "activity_of eligible_ids s =
     List.map_filter
       (\<lambda>p. map_option
          (\<lambda>r. \<lparr>act_peer_id = p, act_admitted_at = rec_admitted_at r,
                act_last_active_at = rec_last_active_at r, act_in_flight = rec_in_flight r\<rparr>)
          (fmlookup (pool_activity s) p))
       eligible_ids"

definition record_displacement :: "nat \<Rightarrow> PoolState \<Rightarrow> PoolState" where
  "record_displacement now s = s\<lparr>pool_last_displacement_at := Some now\<rparr>"

definition tracked_peer_count :: "PoolState \<Rightarrow> nat" where
  "tracked_peer_count s = fcard (fmdom (pool_activity s))"

definition publish :: "PoolEvent \<Rightarrow> nat \<Rightarrow> PoolState \<Rightarrow> PoolState" where
  "publish ev now s =
     (let s = (case ev of PeerAdded p _ \<Rightarrow> record_admission p now s | PeerRemoved _ _ \<Rightarrow> s)
      in (case pool_events s of Some sent \<Rightarrow> s\<lparr>pool_events := Some (sent @ [ev])\<rparr> | None \<Rightarrow> s))"

definition reserve :: "CandidateKey \<Rightarrow> PoolState \<Rightarrow> bool \<times> PoolState" where
  "reserve key s =
     (key |\<notin>| pool_in_flight s, s\<lparr>pool_in_flight := finsert key (pool_in_flight s)\<rparr>)"

definition release :: "CandidateKey \<Rightarrow> PoolState \<Rightarrow> PoolState" where
  "release key s = s\<lparr>pool_in_flight := pool_in_flight s |-| {|key|}\<rparr>"

definition in_flight_count :: "PoolState \<Rightarrow> nat" where
  "in_flight_count s = fcard (pool_in_flight s)"

definition record_success :: "CandidateKey \<Rightarrow> PoolState \<Rightarrow> PoolState" where
  "record_success key s = s\<lparr>pool_backoff := fmdrop key (pool_backoff s)\<rparr>"

definition record_failure :: "CandidateKey \<Rightarrow> nat \<Rightarrow> PeerPoolConfig \<Rightarrow> PoolState \<Rightarrow> PoolState" where
  "record_failure key now cfg s =
     (let entry = (case fmlookup (pool_backoff s) key of Some b \<Rightarrow> b | None \<Rightarrow> DialBackoff_new)
      in s\<lparr>pool_backoff := fmupd key
             (backoff_failure entry now (dial_backoff_base_secs cfg) (max_dial_backoff_secs cfg))
             (pool_backoff s)\<rparr>)"

record PoolStats =
  stats_connected :: nat
  stats_in_flight :: nat
  stats_target :: nat
  stats_min :: nat
  stats_max :: nat
  stats_backed_off :: nat

definition is_under_connected :: "PoolStats \<Rightarrow> bool" where
  "is_under_connected st \<longleftrightarrow> stats_connected st < stats_min st"

definition is_at_target :: "PoolStats \<Rightarrow> bool" where
  "is_at_target st \<longleftrightarrow> stats_target st \<le> stats_connected st"

lemma activity_of_ids: "set (map act_peer_id (activity_of e s)) \<subseteq> set e \<inter> fset (fmdom (pool_activity s))"
  by (auto simp: activity_of_def List.map_filter_def fmlookup_dom_iff)

subsection \<open>A guard protects its peer\<close>

text \<open>
  The bookkeeping of the guards of \<open>PeerActivityGuard\<close>. Of each peer the state counts the live
  guards of the session its record is about, the live guards left over from earlier sessions, and
  the leftover guards dropped since the record was made. A guard names the peer only, so the drop of
  a leftover one ends an activity of the current record. The record of a peer goes with its
  departure, and with \<open>retain_admitted\<close> when the peer is not held.
\<close>

record guard_state =
  gd_pool :: PoolState
  gd_live :: "peer_id \<Rightarrow> nat"
  gd_left :: "peer_id \<Rightarrow> nat"
  gd_dropped :: "peer_id \<Rightarrow> nat"

definition guards_start :: guard_state where
  "guards_start = \<lparr>gd_pool = PoolState_new, gd_live = (\<lambda>_. 0), gd_left = (\<lambda>_. 0), gd_dropped = (\<lambda>_. 0)\<rparr>"

definition strand :: "peer_id set \<Rightarrow> guard_state \<Rightarrow> guard_state" where
  "strand P x = x\<lparr>gd_left := (\<lambda>p. gd_left x p + (if p \<in> P then gd_live x p else 0)),
     gd_live := (\<lambda>p. if p \<in> P then 0 else gd_live x p), gd_dropped := (\<lambda>p. if p \<in> P then 0 else gd_dropped x p)\<rparr>"

inductive act_step :: "guard_state \<Rightarrow> guard_state \<Rightarrow> bool" where
  admit: "act_step x (x\<lparr>gd_pool := record_admission p now (gd_pool x)\<rparr>)"
| depart: "act_step x ((strand {p} x)\<lparr>gd_pool := record_departure p (gd_pool x)\<rparr>)"
| retain: "act_step x ((strand {p. p |\<notin>| held} x)\<lparr>gd_pool := retain_admitted held (gd_pool x)\<rparr>)"
| work: "\<lbrakk>begin_activity p now (gd_pool x) = (True, s); gd_live x p < u64_max\<rbrakk> \<Longrightarrow>
    act_step x (x\<lparr>gd_pool := s, gd_live := (gd_live x)(p := gd_live x p + 1)\<rparr>)"
| refuse: "begin_activity p now (gd_pool x) = (False, s) \<Longrightarrow> act_step x (x\<lparr>gd_pool := s\<rparr>)"
| finish: "0 < gd_live x p \<Longrightarrow>
    act_step x (x\<lparr>gd_pool := end_activity p now (gd_pool x), gd_live := (gd_live x)(p := gd_live x p - 1)\<rparr>)"
| finish_left: "0 < gd_left x p \<Longrightarrow>
    act_step x (x\<lparr>gd_pool := end_activity p now (gd_pool x), gd_left := (gd_left x)(p := gd_left x p - 1),
      gd_dropped := (gd_dropped x)(p := gd_dropped x p + 1)\<rparr>)"

inductive act_reach :: "guard_state \<Rightarrow> bool" where
  start: "act_reach guards_start"
| step: "act_reach x \<Longrightarrow> act_step x y \<Longrightarrow> act_reach y"

text \<open>The recorded \<open>in_flight\<close> is at most the number of live guards, and it misses at most as many
  as leftover guards were dropped.\<close>

fun counted :: "ActivityRecord option \<Rightarrow> nat \<Rightarrow> nat \<Rightarrow> bool" where
  "counted (Some r) n d \<longleftrightarrow> rec_in_flight r \<le> n \<and> n \<le> rec_in_flight r + d"
| "counted None n d \<longleftrightarrow> n = 0"

definition counts_guards :: "guard_state \<Rightarrow> bool" where
  "counts_guards x \<longleftrightarrow> (\<forall>p. counted (fmlookup (pool_activity (gd_pool x)) p) (gd_live x p) (gd_dropped x p))"

lemma counts_guards_step: "act_step x y \<Longrightarrow> counts_guards x \<Longrightarrow> counts_guards y"
proof -
  assume "act_step x y" "counts_guards x"
  then have "counted (fmlookup (pool_activity (gd_pool y)) q) (gd_live y q) (gd_dropped y q)" for q
  proof (induction rule: act_step.induct)
    case (admit x p now)
    then show ?case
      by (cases "fmlookup (pool_activity (gd_pool x)) p"; cases "q = p")
        (auto simp: counts_guards_def record_admission_def dest: spec [of _ p])
  next
    case (depart x p)
    then show ?case
      by (cases "q = p") (auto simp: counts_guards_def record_departure_def strand_def)
  next
    case (retain x held)
    then show ?case
      by (cases "q |\<in>| held") (auto simp: counts_guards_def retain_admitted_def strand_def)
  next
    case (work p now x s)
    then obtain r where r: "fmlookup (pool_activity (gd_pool x)) p = Some r"
      by (auto simp: begin_activity_def split: option.splits)
    have "rec_in_flight r \<le> gd_live x p \<and> gd_live x p \<le> rec_in_flight r + gd_dropped x p"
      using work.prems r unfolding counts_guards_def by (metis counted.simps(1))
    then show ?case
      using work r by (cases "q = p") (auto simp: counts_guards_def begin_activity_def sat_add64_exact)
  next
    case (refuse p now x s)
    then show ?case
      by (auto simp: counts_guards_def begin_activity_def split: option.splits)
  next
    case (finish x p now)
    show ?case
      using finish spec [OF finish.prems [unfolded counts_guards_def], of p]
      by (cases "fmlookup (pool_activity (gd_pool x)) p"; cases "q = p")
        (auto simp: counts_guards_def end_activity_def)
  next
    case (finish_left x p now)
    show ?case
      using finish_left spec [OF finish_left.prems [unfolded counts_guards_def], of p]
      by (cases "fmlookup (pool_activity (gd_pool x)) p"; cases "q = p")
        (auto simp: counts_guards_def end_activity_def)
  qed
  then show ?thesis
    by (simp add: counts_guards_def)
qed

lemma counts_guards_reach: "act_reach x \<Longrightarrow> counts_guards x"
  by (induction rule: act_reach.induct)
    (auto simp: counts_guards_step, simp add: counts_guards_def guards_start_def PoolState_new_def)


definition one_idle_peer :: PoolState where
  "one_idle_peer = record_admission [7] 0 PoolState_new"

definition one_idle_request :: DisplacementRequest where
  "one_idle_request = \<lparr>req_connected = 8, req_capacity = 8, req_incumbents = activity_of [[7]] one_idle_peer,
     req_last_displacement_at = None, req_now = 1000\<rparr>"


text \<open>
  A stale guard exposes a working peer. When a peer departs while a guard over it lives
  and is admitted again, the record starts afresh at zero; the old guard's drop then
  takes the place of the drop of a guard of the new session, and the peer counts as idle while
  that guard lives: ten minutes later it is displaced in the middle of its request.
\<close>

theorem stale_guard_exposes_peer:
  fixes p :: peer_id and s0 :: PoolState and t :: nat
  defines "old \<equiv> snd (begin_activity p t (record_admission p t s0))"
  defines "new \<equiv> snd (begin_activity p t (record_admission p t (record_departure p old)))"
  assumes "fmlookup (pool_activity s0) p = None"
  shows "fst (begin_activity p t (record_admission p t (record_departure p old)))"
    and "fmlookup (pool_activity (end_activity p t new)) p
           = Some \<lparr>rec_admitted_at = t, rec_last_active_at = t, rec_in_flight = 0\<rparr>"
    and "plan_displacement
           \<lparr>req_connected = 8, req_capacity = 8, req_incumbents = activity_of [p] (end_activity p t new),
            req_last_displacement_at = None, req_now = t + 600\<rparr> pool_config_default = Displace p"
proof -
  show "fst (begin_activity p t (record_admission p t (record_departure p old)))"
    by (simp add: begin_activity_def record_admission_def)
  show look: "fmlookup (pool_activity (end_activity p t new)) p
      = Some \<lparr>rec_admitted_at = t, rec_last_active_at = t, rec_in_flight = 0\<rparr>"
    by (simp add: new_def end_activity_def begin_activity_def record_admission_def
        record_departure_def sat_add64_def u64_max_def)
  show "plan_displacement
      \<lparr>req_connected = 8, req_capacity = 8, req_incumbents = activity_of [p] (end_activity p t new),
       req_last_displacement_at = None, req_now = t + 600\<rparr> pool_config_default = Displace p"
    by (simp add: plan_displacement_def normalized_default activity_of_def List.map_filter_def look
        is_displaceable_def Let_def)
qed

theorem stale_guard_exposes_peer_witness:
  "fmlookup (pool_activity (end_activity [7] 5 (snd (begin_activity [7] 5 (record_admission [7] 5
     (record_departure [7] (snd (begin_activity [7] 5 (record_admission [7] 5 PoolState_new))))))))) [7]
     = Some \<lparr>rec_admitted_at = 5, rec_last_active_at = 5, rec_in_flight = 0\<rparr>"
  by (rule stale_guard_exposes_peer(2)) (simp add: PoolState_new_def)

section \<open>The maintenance pass\<close>

type_synonym 'w dialer = "PoolCandidate \<Rightarrow> 'w \<times> PoolState \<Rightarrow> (string + peer_id) \<times> 'w \<times> PoolState"

text \<open>\<open>clock\<close> is the wall clock \<open>publish\<close> reads.\<close>

definition settle_dial ::
    "('w \<Rightarrow> nat) \<Rightarrow> PeerPoolConfig \<Rightarrow> nat \<Rightarrow> PoolCandidate \<Rightarrow> (string + peer_id) \<Rightarrow> 'w
      \<Rightarrow> nat \<times> PoolState \<Rightarrow> nat \<times> PoolState" where
  "settle_dial clock cfg now cand res w = (\<lambda>(added, pool).
     (case res of
        Inr p \<Rightarrow>
          (let pool = record_success (dedup_key cand) (record_success (Id_key p) pool);
               pool = (case cand_addr cand of
                         Some addr \<Rightarrow> publish (PeerAdded p addr) (clock w) pool
                       | None \<Rightarrow> pool)
           in (added + 1, pool))
      | Inl reason \<Rightarrow> (added, record_failure (dedup_key cand) now cfg pool)))"

fun run_dials ::
    "'w dialer \<Rightarrow> ('w \<Rightarrow> nat) \<Rightarrow> PeerPoolConfig \<Rightarrow> nat \<Rightarrow> PoolCandidate list \<Rightarrow> nat
      \<Rightarrow> 'w \<times> PoolState \<Rightarrow> nat \<times> 'w \<times> PoolState" where
  "run_dials dial clock cfg now [] added (w, pool) = (added, w, pool)"
| "run_dials dial clock cfg now (cand # cands) added (w, pool) =
     (case reserve (dedup_key cand) pool of
        (False, pool) \<Rightarrow> run_dials dial clock cfg now cands added (w, pool)
      | (True, pool) \<Rightarrow>
          (case dial cand (w, pool) of
             (res, w, pool) \<Rightarrow>
               (case settle_dial clock cfg now cand res w (added, release (dedup_key cand) pool) of
                  (added, pool) \<Rightarrow> run_dials dial clock cfg now cands added (w, pool))))"

definition run_maintenance_pass ::
    "'w dialer \<Rightarrow> ('w \<Rightarrow> nat) \<Rightarrow> PeerPoolConfig \<Rightarrow> nat \<Rightarrow> nat \<Rightarrow> CandidateKey list
      \<Rightarrow> PoolCandidate list \<Rightarrow> nat \<Rightarrow> 'w \<times> PoolState \<Rightarrow> nat \<times> 'w \<times> PoolState" where
  "run_maintenance_pass dial clock cfg connected direct_connected connected_keys candidates now = (\<lambda>(w, pool).
     (let snap = \<lparr>snap_connected = connected, snap_direct_connected = direct_connected,
            snap_in_flight = in_flight_count pool, snap_connected_keys = connected_keys,
            snap_candidates = candidates, snap_backoff = pool_backoff pool, snap_now = now\<rparr>
      in run_dials dial clock cfg now (to_dial (plan_pass snap cfg)) 0 (w, pool)))"

text \<open>
  A dialer that leaves the reservations and the backoff table alone, and a dialer that also
  notes each dial with its outcome.
\<close>

definition frames :: "'w dialer \<Rightarrow> bool" where
  "frames dial \<longleftrightarrow> (\<forall>c w pool. pool_in_flight (snd (snd (dial c (w, pool)))) = pool_in_flight pool
     \<and> pool_backoff (snd (snd (dial c (w, pool)))) = pool_backoff pool)"

definition logged :: "'w dialer \<Rightarrow> ('w \<times> (PoolCandidate \<times> (string + peer_id)) list) dialer" where
  "logged dial = (\<lambda>c ((w, log), pool).
     (case dial c (w, pool) of (res, w', pool') \<Rightarrow> (res, (w', log @ [(c, res)]), pool')))"

definition settle_backoff ::
    "PeerPoolConfig \<Rightarrow> nat \<Rightarrow> (CandidateKey, DialBackoff) fmap \<Rightarrow> PoolCandidate \<times> (string + peer_id)
      \<Rightarrow> (CandidateKey, DialBackoff) fmap" where
  "settle_backoff cfg now b = (\<lambda>(c, res).
     (case res of
        Inr p \<Rightarrow> fmdrop (dedup_key c) (fmdrop (Id_key p) b)
      | Inl _ \<Rightarrow> fmupd (dedup_key c)
          (backoff_failure (case fmlookup b (dedup_key c) of Some e \<Rightarrow> e | None \<Rightarrow> DialBackoff_new)
             now (dial_backoff_base_secs cfg) (max_dial_backoff_secs cfg)) b))"

definition succeeded :: "PoolCandidate \<times> (string + peer_id) \<Rightarrow> bool" where
  "succeeded d \<longleftrightarrow> (case snd d of Inr _ \<Rightarrow> True | Inl _ \<Rightarrow> False)"

lemma publish_frame [simp]:
  "pool_in_flight (publish ev now s) = pool_in_flight s"
  "pool_backoff (publish ev now s) = pool_backoff s"
  "pool_last_displacement_at (publish ev now s) = pool_last_displacement_at s"
  by (simp_all add: publish_def record_admission_def Let_def split: PoolEvent.split option.split)

lemma settle_dial_effect:
  assumes "settle_dial clock cfg now c res w (n, pool) = (n', pool')"
  shows "pool_in_flight pool' = pool_in_flight pool"
    and "pool_backoff pool' = settle_backoff cfg now (pool_backoff pool) (c, res)"
    and "n' = n + (if succeeded (c, res) then 1 else 0)"
  using assms
  by (auto simp: settle_dial_def settle_backoff_def succeeded_def record_success_def
      record_failure_def Let_def split: sum.splits option.splits)

lemma run_dials_effect:
  assumes "frames dial" "run_dials (logged dial) clock cfg now cands n ((w, log), pool)
      = (n', (w', log'), pool')"
  shows "\<exists>ds. log' = log @ ds
     \<and> map fst ds = filter (\<lambda>c. dedup_key c |\<notin>| pool_in_flight pool) cands
     \<and> pool_in_flight pool' = pool_in_flight pool
     \<and> pool_backoff pool' = foldl (settle_backoff cfg now) (pool_backoff pool) ds
     \<and> n' = n + length (filter succeeded ds)"
  using assms(2)
proof (induction cands arbitrary: n w log pool)
  case Nil
  then show ?case by simp
next
  case (Cons c cs)
  show ?case
  proof (cases "dedup_key c |\<in>| pool_in_flight pool")
    case True
    then have "reserve (dedup_key c) pool = (False, pool)"
      by (simp add: reserve_def finsert_absorb)
    then show ?thesis
      using Cons.prems Cons.IH [of n w log pool] True by simp
  next
    case False
    define held where "held = pool\<lparr>pool_in_flight := finsert (dedup_key c) (pool_in_flight pool)\<rparr>"
    obtain res w1 pool1 where dial: "dial c (w, held) = (res, w1, pool1)"
      by (metis prod_cases3)
    have "pool_in_flight pool1 = pool_in_flight held" "pool_backoff pool1 = pool_backoff held"
      using assms(1) dial unfolding frames_def by (metis snd_conv)+
    then have released: "pool_in_flight (release (dedup_key c) pool1) = pool_in_flight pool"
      "pool_backoff (release (dedup_key c) pool1) = pool_backoff pool"
      using False by (auto simp: release_def held_def)
    obtain n2 pool2 where settle: "settle_dial clock cfg now c res (w1, log @ [(c, res)])
        (n, release (dedup_key c) pool1) = (n2, pool2)"
      by (metis surj_pair)
    have run: "run_dials (logged dial) clock cfg now cs n2 ((w1, log @ [(c, res)]), pool2)
        = (n', (w', log'), pool')"
      using Cons.prems False settle dial by (simp add: reserve_def held_def logged_def)
    note eff = settle_dial_effect [OF settle]
    obtain ds where ds: "log' = (log @ [(c, res)]) @ ds"
      "map fst ds = filter (\<lambda>c. dedup_key c |\<notin>| pool_in_flight pool2) cs"
      "pool_in_flight pool' = pool_in_flight pool2"
      "pool_backoff pool' = foldl (settle_backoff cfg now) (pool_backoff pool2) ds"
      "n' = n2 + length (filter succeeded ds)"
      using Cons.IH [OF run] by blast
    show ?thesis
      using ds eff released False by (intro exI [of _ "(c, res) # ds"]) auto
  qed
qed

text \<open>
  What a maintenance pass does. It dials each planned candidate that no other dial
  holds, once and in the planned order; afterwards the reservations are as before, the backoff
  table has been settled by exactly the outcomes, and the number returned is that of
  the successes, at most the free slots.
\<close>

theorem maintenance_pass_exact:
  assumes "frames dial"
    and "run_maintenance_pass (logged dial) clock cfg connected direct keys cands now ((w, []), pool)
      = (n, (w', ds), pool')"
    and "plan = plan_pass \<lparr>snap_connected = connected, snap_direct_connected = direct,
            snap_in_flight = in_flight_count pool, snap_connected_keys = keys,
            snap_candidates = cands, snap_backoff = pool_backoff pool, snap_now = now\<rparr> cfg"
  shows "map fst ds = filter (\<lambda>c. dedup_key c |\<notin>| pool_in_flight pool) (to_dial plan)
    \<and> pool_in_flight pool' = pool_in_flight pool
    \<and> pool_backoff pool' = foldl (settle_backoff cfg now) (pool_backoff pool) ds
    \<and> n = length (filter succeeded ds)
    \<and> n \<le> free_slots plan"
proof (intro conjI)
  have "run_dials (logged dial) clock cfg now (to_dial plan) 0 ((w, []), pool) = (n, (w', ds), pool')"
    using assms(2) by (simp add: run_maintenance_pass_def assms(3))
  from run_dials_effect [OF assms(1) this]
  show mid: "map fst ds = filter (\<lambda>c. dedup_key c |\<notin>| pool_in_flight pool) (to_dial plan)"
    "pool_in_flight pool' = pool_in_flight pool"
    "pool_backoff pool' = foldl (settle_backoff cfg now) (pool_backoff pool) ds"
    "n = length (filter succeeded ds)"
    by auto
  have "length ds \<le> length (to_dial plan)"
    using mid(1) by (metis length_filter_le length_map)
  then show "n \<le> free_slots plan"
    using mid(4) plan_pass_len assms(3) by (metis (no_types, lifting) le_trans length_filter_le)
qed

definition refuse_all :: "unit dialer" where
  "refuse_all c = (\<lambda>(w, pool). (Inl ''refused'', w, pool))"

definition one_candidate :: PoolCandidate where
  "one_candidate = candidate_with_id [7] (SocketAddr (V4 [1, 2, 3, 4]) 1)"

definition one_snapshot :: PoolSnapshot where
  "one_snapshot = \<lparr>snap_connected = 0, snap_direct_connected = 0,
     snap_in_flight = in_flight_count PoolState_new, snap_connected_keys = [],
     snap_candidates = [one_candidate], snap_backoff = pool_backoff PoolState_new, snap_now = 9\<rparr>"

lemma one_snapshot_plan: "to_dial (plan_pass one_snapshot pool_config_default) = [one_candidate]"
proof -
  have "planned_slots one_snapshot pool_config_default = 8"
    by (simp add: planned_slots_def free_slot_budget_with_direct_floor_def free_slot_budget_def
        min_direct_peers_def normalized_default sat_add64_def u64_max_def one_snapshot_def
        in_flight_count_def PoolState_new_def fcard_fempty)
  moreover have "eligible one_snapshot pool_config_default one_candidate"
    by (simp add: eligible_def one_snapshot_def PoolState_new_def)
  ultimately show ?thesis
    by (simp add: plan_pass_eq) (simp add: one_snapshot_def)
qed

theorem maintenance_pass_exact_witness:
  "map fst [(one_candidate, Inl ''refused'' :: string + peer_id)]
     = filter (\<lambda>c. dedup_key c |\<notin>| pool_in_flight PoolState_new)
         (to_dial (plan_pass one_snapshot pool_config_default))"
proof (rule maintenance_pass_exact [of refuse_all, THEN conjunct1])
  show "frames refuse_all"
    by (simp add: frames_def refuse_all_def)
  have "run_dials (logged refuse_all) (\<lambda>_. 0) pool_config_default 9 [one_candidate] 0
      (((), []), PoolState_new) = (0, ((), [(one_candidate, Inl ''refused'')]),
        record_failure (dedup_key one_candidate) 9 pool_config_default
          (PoolState_new\<lparr>pool_in_flight := {||}\<rparr>))"
    by (simp add: reserve_def release_def logged_def refuse_all_def settle_dial_def PoolState_new_def)
  then show "run_maintenance_pass (logged refuse_all) (\<lambda>_. 0) pool_config_default 0 0 []
      [one_candidate] 9 (((), []), PoolState_new) = (0, ((), [(one_candidate, Inl ''refused'')]),
        record_failure (dedup_key one_candidate) 9 pool_config_default
          (PoolState_new\<lparr>pool_in_flight := {||}\<rparr>))"
    using one_snapshot_plan by (simp add: run_maintenance_pass_def one_snapshot_def)
qed (simp add: one_snapshot_def)

text \<open>A peer that failed often enough is not planned again, whatever the time.\<close>

lemma dead_never_planned:
  assumes "fmlookup (snap_backoff snap) (dedup_key c) = Some b" "max_dial_failures cfg \<le> failures b"
  shows "c \<notin> set (to_dial (plan_pass snap cfg))"
  using plan_pass_dials(2) [of c snap cfg] assms by (auto simp: eligible_def)

end
