(* ===== verification/Service_State.thy ===== *)
theory Service_State
  imports Peer_Pool Plumtree
begin

text \<open>
  The shared state of the service (\<open>service/state.rs\<close>) and the operations that end a
  connection or a ban: the peer map and its slots, the timed bans with their mirror in the Chia
  client state, the penalties, the keepalive failure (\<open>connection/keepalive.rs\<close>), the reaper,
  \<open>disconnect\<close>, \<open>ban_peer\<close> and \<open>penalize_peer\<close> (\<open>service/gossip_handle.rs\<close>).

  The record keeps the fields these operations read or write; no lock is poisoned. A live slot
  keeps what decisions depend on and is named by its generation where the code holds a link and a
  task handle. The traversal tier of \<open>dig_nat\<close> enters only as the test for
  \<open>Relayed\<close>, and a transport is a session number whose closed flag is an argument. The calls
  to the Chia client state, the observed sessions' notices and the closed links are recorded
  in order.
\<close>

section \<open>Slots\<close>

record StubPeer =
  sp_remote :: SocketAddr
  sp_is_outbound :: bool

record LiveSlot =
  live_meta :: StubPeer
  live_reputation :: PeerReputation
  live_generation :: nat

datatype NatTransport = Owned (session: nat) | Observed (session: nat)

record NatSlot =
  nat_conn :: NatTransport
  nat_sink :: "nat option"
  nat_remote :: SocketAddr
  nat_is_outbound :: bool
  nat_relayed :: bool

datatype MapSlot = StubRow StubPeer | LiveRow LiveSlot | NatRow NatSlot

datatype Via = ViaRelay | ViaDirect

definition nat_via :: "NatSlot \<Rightarrow> Via" where
  "nat_via n = (if nat_relayed n then ViaRelay else ViaDirect)"

fun slot_remote :: "MapSlot \<Rightarrow> SocketAddr" where
  "slot_remote (StubRow p) = sp_remote p"
| "slot_remote (LiveRow l) = sp_remote (live_meta l)"
| "slot_remote (NatRow n) = nat_remote n"

fun slot_is_outbound :: "MapSlot \<Rightarrow> bool" where
  "slot_is_outbound (StubRow p) = sp_is_outbound p"
| "slot_is_outbound (LiveRow l) = sp_is_outbound (live_meta l)"
| "slot_is_outbound (NatRow n) = nat_is_outbound n"

fun is_relayed :: "MapSlot \<Rightarrow> bool" where
  "is_relayed (NatRow n) = nat_relayed n"
| "is_relayed _ = False"

fun is_accepted_inbound :: "MapSlot \<Rightarrow> bool" where
  "is_accepted_inbound (NatRow n) = (\<not> nat_is_outbound n)"
| "is_accepted_inbound _ = False"

definition is_accepted_direct :: "MapSlot \<Rightarrow> bool" where
  "is_accepted_direct slot \<longleftrightarrow> is_accepted_inbound slot \<and> \<not> is_relayed slot"

definition dial_addr :: "MapSlot \<Rightarrow> SocketAddr option" where
  "dial_addr slot =
     (if is_relayed slot then None
      else if (case slot of NatRow n \<Rightarrow> \<not> nat_is_outbound n | _ \<Rightarrow> False) then None
      else Some (slot_remote slot))"

definition slot_is_departed :: "(nat \<Rightarrow> bool) \<Rightarrow> MapSlot \<Rightarrow> bool" where
  "slot_is_departed closed slot =
     (case slot of NatRow n \<Rightarrow> closed (session (nat_conn n)) | _ \<Rightarrow> False)"

definition subnet_group_of :: "MapSlot \<Rightarrow> u32" where
  "subnet_group_of slot = subnet_group (sa_ip (slot_remote slot))"

type_synonym peer_map = "(peer_id, MapSlot) fmap"

definition slot_holds :: "(peer_id \<Rightarrow> MapSlot \<Rightarrow> bool) \<Rightarrow> peer_map \<Rightarrow> peer_id \<Rightarrow> bool" where
  "slot_holds P m p \<longleftrightarrow> (case fmlookup m p of Some s \<Rightarrow> P p s | None \<Rightarrow> False)"

definition count_slots :: "(peer_id \<Rightarrow> MapSlot \<Rightarrow> bool) \<Rightarrow> peer_map \<Rightarrow> nat" where
  "count_slots P m = fcard (ffilter (slot_holds P m) (fmdom m))"

definition map_len :: "peer_map \<Rightarrow> nat" where
  "map_len m = fcard (fmdom m)"

definition any_slot :: "(peer_id \<Rightarrow> MapSlot \<Rightarrow> bool) \<Rightarrow> peer_map \<Rightarrow> bool" where
  "any_slot P m \<longleftrightarrow> fBex (fmdom m) (slot_holds P m)"

datatype OutboundDiversityConflict = Subnet | As

definition outbound_diversity_conflict ::
    "peer_map \<Rightarrow> AsLookupTable \<Rightarrow> peer_id \<Rightarrow> IpAddr \<Rightarrow> bool \<Rightarrow> OutboundDiversityConflict option" where
  "outbound_diversity_conflict peers table new_peer_id candidate_ip candidate_is_relayed =
     (if candidate_is_relayed then None
      else
        let candidate_group = subnet_group candidate_ip;
            occupies = (\<lambda>pid slot. pid \<noteq> new_peer_id \<and> slot_is_outbound slot \<and> \<not> is_relayed slot)
        in if any_slot (\<lambda>pid slot. occupies pid slot \<and> subnet_group_of slot = candidate_group) peers
           then Some Subnet
           else (case as_lookup table candidate_ip of
                   Some candidate_asn \<Rightarrow>
                     (if any_slot (\<lambda>pid slot. occupies pid slot
                            \<and> as_lookup table (sa_ip (slot_remote slot)) = Some candidate_asn) peers
                      then Some As else None)
                 | None \<Rightarrow> None))"

section \<open>State\<close>

record DigBanEntry =
  ban_entry_until :: nat
  ban_entry_ip :: IpAddr

datatype ChiaCall = ChiaBan IpAddr | ChiaUnban IpAddr

record ServiceConfig =
  cfg_peer_id :: peer_id
  cfg_max_connections :: nat
  cfg_target_outbound_count :: nat
  cfg_peer_pool :: "PeerPoolConfig option"
  cfg_as_table :: AsLookupTable
  cfg_listen_addr :: SocketAddr

record ServiceState =
  svc_running :: bool
  svc_peers :: peer_map
  svc_banned :: "(peer_id, DigBanEntry) fmap"
  svc_chia_calls :: "ChiaCall list"
  svc_penalties :: "(peer_id, nat) fmap"
  svc_pool :: PoolState
  svc_plumtree :: PlumtreeState
  svc_total_connections :: nat
  svc_peer_generation :: nat
  svc_relay_reachable :: "bytes fset"
  svc_listen_bound_addr :: "SocketAddr option"
  svc_notices :: "nat list"
  svc_closed_links :: "nat list"

definition service_new :: ServiceState where
  "service_new = \<lparr>svc_running = False, svc_peers = fmempty, svc_banned = fmempty, svc_chia_calls = [],
     svc_penalties = fmempty, svc_pool = PoolState_new, svc_plumtree = PlumtreeState_new,
     svc_total_connections = 0, svc_peer_generation = 0, svc_relay_reachable = {||},
     svc_listen_bound_addr = None, svc_notices = [], svc_closed_links = []\<rparr>"

definition next_peer_generation :: "ServiceState \<Rightarrow> nat \<times> ServiceState" where
  "next_peer_generation st =
     (svc_peer_generation st,
      st\<lparr>svc_peer_generation := (svc_peer_generation st + 1) mod 2 ^ 64\<rparr>)"

definition dial_targets_local_listen :: "ServiceConfig \<Rightarrow> SocketAddr \<Rightarrow> ServiceState \<Rightarrow> bool" where
  "dial_targets_local_listen cfg addr st \<longleftrightarrow>
     addr = cfg_listen_addr cfg \<or> svc_listen_bound_addr st = Some addr"

fun close_live :: "MapSlot option \<Rightarrow> ServiceState \<Rightarrow> ServiceState" where
  "close_live (Some (LiveRow l)) st = st\<lparr>svc_closed_links := svc_closed_links st @ [live_generation l]\<rparr>"
| "close_live _ st = st"

fun retire_slot :: "MapSlot \<Rightarrow> ServiceState \<Rightarrow> ServiceState" where
  "retire_slot (LiveRow stale) st =
     st\<lparr>svc_closed_links := svc_closed_links st @ [live_generation stale]\<rparr>"
| "retire_slot (NatRow n) st =
     (case nat_conn n of
        Observed s \<Rightarrow> st\<lparr>svc_notices := svc_notices st @ [s]\<rparr>
      | Owned _ \<Rightarrow> st)"
| "retire_slot (StubRow _) st = st"

section \<open>Timed bans\<close>

definition ip_is_unspecified :: "IpAddr \<Rightarrow> bool" where
  "ip_is_unspecified ip \<longleftrightarrow> (\<forall>b \<in> set (octets ip). b = 0)"

definition prune_one :: "peer_id \<Rightarrow> IpAddr \<Rightarrow> ServiceState \<Rightarrow> ServiceState" where
  "prune_one p ip st =
     (let st = (if ip_is_unspecified ip then st
                else st\<lparr>svc_chia_calls := svc_chia_calls st @ [ChiaUnban ip]\<rparr>)
      in st\<lparr>svc_penalties := fmdrop p (svc_penalties st)\<rparr>)"

text \<open>\<open>order\<close> is the order in which \<open>retain\<close> visits the map.\<close>

definition expired_bans :: "peer_id list \<Rightarrow> nat \<Rightarrow> ServiceState \<Rightarrow> (peer_id \<times> IpAddr) list" where
  "expired_bans order now st =
     List.map_filter
       (\<lambda>p. case fmlookup (svc_banned st) p of
              Some e \<Rightarrow> (if ban_entry_until e \<le> now then Some (p, ban_entry_ip e) else None)
            | None \<Rightarrow> None) order"

definition prune_expired_dig_bans :: "peer_id list \<Rightarrow> nat \<Rightarrow> ServiceState \<Rightarrow> ServiceState" where
  "prune_expired_dig_bans order now st =
     (let expired = expired_bans order now st;
          st' = st\<lparr>svc_banned := fmfilter
             (\<lambda>p. case fmlookup (svc_banned st) p of Some e \<Rightarrow> now < ban_entry_until e | None \<Rightarrow> False)
             (svc_banned st)\<rparr>
      in fold (\<lambda>(p, ip). prune_one p ip) expired st')"

definition is_peer_id_banned_at :: "peer_id list \<Rightarrow> peer_id \<Rightarrow> nat \<Rightarrow> ServiceState \<Rightarrow> bool \<times> ServiceState" where
  "is_peer_id_banned_at order p now st =
     (let st = prune_expired_dig_bans order now st
      in (fmlookup (svc_banned st) p \<noteq> None, st))"

definition execute_dig_timed_ban :: "peer_id \<Rightarrow> IpAddr \<Rightarrow> nat \<Rightarrow> ServiceState \<Rightarrow> ServiceState" where
  "execute_dig_timed_ban p remote_ip now st =
     (let st = st\<lparr>svc_banned := fmupd p
                 \<lparr>ban_entry_until = sat_add64 now BAN_DURATION_SECS, ban_entry_ip = remote_ip\<rparr>
                 (svc_banned st)\<rparr>
      in if ip_is_unspecified remote_ip then st
         else st\<lparr>svc_chia_calls := svc_chia_calls st @ [ChiaBan remote_ip]\<rparr>)"

definition enforce_timed_ban_and_disconnect ::
    "peer_id list \<Rightarrow> peer_id \<Rightarrow> nat \<Rightarrow> nat option \<Rightarrow> ServiceState \<Rightarrow> ServiceState" where
  "enforce_timed_ban_and_disconnect order p now caller_generation st =
     (let st = prune_expired_dig_bans order now st;
          held = fmlookup (svc_peers st) p;
          mine = (case caller_generation of
                    Some gen \<Rightarrow> (case held of Some (LiveRow l) \<Rightarrow> live_generation l = gen | _ \<Rightarrow> False)
                  | None \<Rightarrow> True)
      in if \<not> mine then st
         else
           let st = st\<lparr>svc_peers := fmdrop p (svc_peers st)\<rparr>;
               ip = (case held of Some s \<Rightarrow> sa_ip (slot_remote s) | None \<Rightarrow> V4 [0, 0, 0, 0]);
               st = close_live held st
           in execute_dig_timed_ban p ip now st)"

definition ban_peer :: "peer_id list \<Rightarrow> peer_id \<Rightarrow> nat \<Rightarrow> ServiceState \<Rightarrow> bool \<times> ServiceState" where
  "ban_peer order p now st =
     (if \<not> svc_running st then (False, st)
      else (True, enforce_timed_ban_and_disconnect order p now None st))"

definition set_reputation :: "peer_id \<Rightarrow> LiveSlot \<Rightarrow> PeerReputation \<Rightarrow> ServiceState \<Rightarrow> ServiceState" where
  "set_reputation p l r st =
     st\<lparr>svc_peers := fmupd p (LiveRow (l\<lparr>live_reputation := r\<rparr>)) (svc_peers st)\<rparr>"

definition add_penalty :: "peer_id \<Rightarrow> PenaltyReason \<Rightarrow> ServiceState \<Rightarrow> nat \<times> ServiceState" where
  "add_penalty p reason st =
     (let e = sat_add32 (case fmlookup (svc_penalties st) p of Some n \<Rightarrow> n | None \<Rightarrow> 0)
                (reason_points reason)
      in (e, st\<lparr>svc_penalties := fmupd p e (svc_penalties st)\<rparr>))"

definition charge_penalty :: "peer_id \<Rightarrow> PenaltyReason \<Rightarrow> nat \<Rightarrow> ServiceState \<Rightarrow> bool \<times> ServiceState" where
  "charge_penalty p reason now st =
     (case fmlookup (svc_peers st) p of
        Some (LiveRow live) \<Rightarrow>
          (let (crossed, r) = apply_penalty reason now (live_reputation live);
               st = set_reputation p live r st
           in (crossed, st\<lparr>svc_penalties := fmupd p (penalty_points r) (svc_penalties st)\<rparr>))
      | _ \<Rightarrow>
          (let (e, st) = add_penalty p reason st in (PENALTY_BAN_THRESHOLD \<le> e, st)))"

definition penalize_peer ::
    "peer_id list \<Rightarrow> peer_id \<Rightarrow> PenaltyReason \<Rightarrow> nat \<Rightarrow> ServiceState \<Rightarrow> bool \<times> ServiceState" where
  "penalize_peer order p reason now st =
     (if \<not> svc_running st then (False, st)
      else
        let st = prune_expired_dig_bans order now st;
            already_banned = fmlookup (svc_banned st) p \<noteq> None;
            (should_enforce, st) = charge_penalty p reason now st
        in (True, if should_enforce \<and> \<not> already_banned
                  then enforce_timed_ban_and_disconnect order p now None st else st))"

text \<open>The flag says that the ban of \<open>enforce_timed_ban_and_disconnect\<close> for this
  generation has been spawned.\<close>

definition apply_inbound_rate_limit_violation ::
    "peer_id \<Rightarrow> nat \<Rightarrow> nat \<Rightarrow> ServiceState \<Rightarrow> bool \<times> ServiceState" where
  "apply_inbound_rate_limit_violation p gen now st =
     (case fmlookup (svc_peers st) p of
        Some (LiveRow live) \<Rightarrow>
          (if live_generation live = gen
           then (let (triggered, r) = apply_penalty RateLimitExceeded now (live_reputation live)
                 in (triggered, set_reputation p live r st))
           else (False, st))
      | _ \<Rightarrow> (False, st))"

definition disconnect_after_keepalive_failure ::
    "peer_id \<Rightarrow> nat \<Rightarrow> nat \<Rightarrow> ServiceState \<Rightarrow> ServiceState" where
  "disconnect_after_keepalive_failure p gen now st =
     (case fmlookup (svc_peers st) p of
        Some (LiveRow live) \<Rightarrow>
          (if live_generation live = gen
           then (let st = st\<lparr>svc_peers := fmdrop p (svc_peers st)\<rparr>;
                     (triggered, r) = apply_penalty ConnectionIssue now (live_reputation live);
                     st = close_live (Some (LiveRow live)) st;
                     st = st\<lparr>svc_penalties := fmupd p (penalty_points r) (svc_penalties st)\<rparr>
                 in if triggered
                    then execute_dig_timed_ban p (sa_ip (sp_remote (live_meta live))) now st
                    else st)
           else st)
      | _ \<Rightarrow> st)"

section \<open>Departures\<close>

definition remove_from_plumtree_unless_reconnected :: "peer_id \<Rightarrow> ServiceState \<Rightarrow> ServiceState" where
  "remove_from_plumtree_unless_reconnected p st =
     (if fmlookup (svc_peers st) p \<noteq> None then st
      else st\<lparr>svc_plumtree := remove_peer p (svc_plumtree st)\<rparr>)"

definition disconnect :: "peer_id \<Rightarrow> nat \<Rightarrow> ServiceState \<Rightarrow> bool \<times> ServiceState" where
  "disconnect p now st =
     (if \<not> svc_running st then (False, st)
      else
        let removed = fmlookup (svc_peers st) p;
            st = st\<lparr>svc_peers := fmdrop p (svc_peers st)\<rparr>;
            st = (if removed \<noteq> None then st\<lparr>svc_pool := record_departure p (svc_pool st)\<rparr> else st);
            st = close_live removed st;
            st = (if removed \<noteq> None
                  then st\<lparr>svc_pool := publish (PeerRemoved p Disconnected) now (svc_pool st)\<rparr> else st)
        in (True, remove_from_plumtree_unless_reconnected p st))"

definition reap_announce :: "nat \<Rightarrow> peer_id \<Rightarrow> ServiceState \<Rightarrow> ServiceState" where
  "reap_announce now p st =
     remove_from_plumtree_unless_reconnected p
       (st\<lparr>svc_pool := publish (PeerRemoved p Reaped) now (svc_pool st)\<rparr>)"

definition departed_ids :: "(nat \<Rightarrow> bool) \<Rightarrow> peer_id list \<Rightarrow> ServiceState \<Rightarrow> peer_id list" where
  "departed_ids closed order st =
     filter (\<lambda>p. case fmlookup (svc_peers st) p of Some s \<Rightarrow> slot_is_departed closed s | None \<Rightarrow> False) order"

definition reap_departed_peers ::
    "(nat \<Rightarrow> bool) \<Rightarrow> peer_id list \<Rightarrow> nat \<Rightarrow> ServiceState \<Rightarrow> nat \<times> ServiceState" where
  "reap_departed_peers closed order now st =
     (let ids = departed_ids closed order st;
          st = st\<lparr>svc_peers := fmfilter
             (\<lambda>p. case fmlookup (svc_peers st) p of Some s \<Rightarrow> \<not> slot_is_departed closed s | None \<Rightarrow> True)
             (svc_peers st)\<rparr>;
          st = st\<lparr>svc_pool := fold record_departure ids (svc_pool st)\<rparr>
      in (length ids, fold (reap_announce now) ids st))"

section \<open>What the pool sees\<close>

definition connected_pool_keys :: "peer_id list \<Rightarrow> ServiceState \<Rightarrow> CandidateKey list" where
  "connected_pool_keys order st =
     concat (map (\<lambda>p. case fmlookup (svc_peers st) p of
                        Some slot \<Rightarrow> Id_key p # (case dial_addr slot of Some a \<Rightarrow> [Addr_key a] | None \<Rightarrow> [])
                      | None \<Rightarrow> []) order)"

definition relay_reachable_count :: "ServiceState \<Rightarrow> nat" where
  "relay_reachable_count st = fcard (svc_relay_reachable st)"

definition to_ascii_lowercase :: "u8 \<Rightarrow> u8" where
  "to_ascii_lowercase c = (if 65 \<le> c \<and> c \<le> 90 then c + 32 else c)"

definition strip_0x :: "bytes \<Rightarrow> bytes" where
  "strip_0x s = (if take 2 s = [0x30, 0x78] then drop 2 s else s)"

definition normalize_peer_id_hex :: "bytes \<Rightarrow> bytes" where
  "normalize_peer_id_hex s = map to_ascii_lowercase (strip_0x s)"

text \<open>\<open>PeerId\<close>'s textual form is a function of the \<open>chia_protocol\<close> crate.\<close>

definition relay_reachable_excluding_connected :: "(peer_id \<Rightarrow> bytes) \<Rightarrow> ServiceState \<Rightarrow> nat" where
  "relay_reachable_excluding_connected to_hex st =
     fcard (ffilter (\<lambda>s. s |\<notin>| to_hex |`| fmdom (svc_peers st)) (svc_relay_reachable st))"

definition set_relay_reachable :: "bytes list \<Rightarrow> bytes option \<Rightarrow> ServiceState \<Rightarrow> ServiceState" where
  "set_relay_reachable ids self_hex st =
     st\<lparr>svc_relay_reachable := fset_of_list
         (filter (\<lambda>s. map_option normalize_peer_id_hex self_hex \<noteq> Some (normalize_peer_id_hex s)) ids)\<rparr>"

section \<open>Counting slots\<close>

lemma slot_holds_upd [simp]:
  "slot_holds P (fmupd p s m) q = (if q = p then P p s else slot_holds P m q)"
  by (simp add: slot_holds_def)

lemma slot_holds_drop [simp]: "slot_holds P (fmdrop p m) q \<longleftrightarrow> q \<noteq> p \<and> slot_holds P m q"
  by (simp add: slot_holds_def)

lemma slot_holds_dom: "slot_holds P m p \<Longrightarrow> p |\<in>| fmdom m"
  by (auto simp: slot_holds_def fmlookup_dom_iff split: option.splits)

lemma any_slot_iff: "any_slot P m \<longleftrightarrow> (\<exists>p s. fmlookup m p = Some s \<and> P p s)"
proof -
  have "any_slot P m \<longleftrightarrow> (\<exists>p. slot_holds P m p)"
    using slot_holds_dom [of P m] by (auto simp: any_slot_def)
  then show ?thesis
    by (auto simp: slot_holds_def split: option.splits)
qed

lemma finite_holding [simp]: "finite {p. slot_holds P m p}"
  by (rule finite_subset [of _ "fset (fmdom m)"]) (auto dest: slot_holds_dom)

lemma count_slots_card: "count_slots P m = card {p. slot_holds P m p}"
proof -
  have "fset (ffilter (slot_holds P m) (fmdom m)) = {p. slot_holds P m p}"
    using slot_holds_dom [of P m] by auto
  then show ?thesis
    by (simp add: count_slots_def fcard.rep_eq)
qed

lemma count_slots_drop:
  "count_slots P (fmdrop p m) = count_slots P m - (if slot_holds P m p then 1 else 0)"
proof -
  have "{q. slot_holds P (fmdrop p m) q} = {q. slot_holds P m q} - {p}"
    by auto
  then show ?thesis
    by (simp add: count_slots_card)
qed

lemma count_slots_upd:
  "count_slots P (fmupd p s m) = (if P p s then 1 else 0) + count_slots P (fmdrop p m)"
proof -
  have "{q. slot_holds P (fmupd p s m) q}
      = (if P p s then insert p else id) {q. slot_holds P (fmdrop p m) q}"
    by auto
  moreover have "p \<notin> {q. slot_holds P (fmdrop p m) q}"
    by simp
  ultimately show ?thesis
    by (simp add: count_slots_card del: slot_holds_drop)
qed

lemma count_slots_pos: "slot_holds P m p \<Longrightarrow> 0 < count_slots P m"
  by (auto simp: count_slots_card card_gt_0_iff)

lemma count_slots_mono:
  "(\<And>p. slot_holds P m p \<Longrightarrow> slot_holds Q n p) \<Longrightarrow> count_slots P m \<le> count_slots Q n"
  unfolding count_slots_card by (rule card_mono) auto

lemma map_len_upd: "map_len (fmupd p s m) = map_len m + (if fmlookup m p = None then 1 else 0)"
  by (auto simp: map_len_def fcard_finsert_if fmlookup_dom_iff)

lemma map_len_drop: "map_len (fmdrop p m) \<le> map_len m"
  unfolding map_len_def by (rule fcard_mono) auto

section \<open>Bans\<close>

lemma prune_one_frame [simp]:
  "svc_peers (prune_one p ip st) = svc_peers st" "svc_banned (prune_one p ip st) = svc_banned st"
  "svc_pool (prune_one p ip st) = svc_pool st" "svc_plumtree (prune_one p ip st) = svc_plumtree st"
  "svc_running (prune_one p ip st) = svc_running st"
  "svc_closed_links (prune_one p ip st) = svc_closed_links st"
  "svc_notices (prune_one p ip st) = svc_notices st"
  "svc_peer_generation (prune_one p ip st) = svc_peer_generation st"
  by (simp_all add: prune_one_def Let_def)

lemma prune_fold_frame [simp]:
  "svc_peers (fold (\<lambda>(p, ip). prune_one p ip) es st) = svc_peers st"
  "svc_banned (fold (\<lambda>(p, ip). prune_one p ip) es st) = svc_banned st"
  "svc_pool (fold (\<lambda>(p, ip). prune_one p ip) es st) = svc_pool st"
  "svc_plumtree (fold (\<lambda>(p, ip). prune_one p ip) es st) = svc_plumtree st"
  "svc_running (fold (\<lambda>(p, ip). prune_one p ip) es st) = svc_running st"
  "svc_closed_links (fold (\<lambda>(p, ip). prune_one p ip) es st) = svc_closed_links st"
  "svc_notices (fold (\<lambda>(p, ip). prune_one p ip) es st) = svc_notices st"
  "svc_peer_generation (fold (\<lambda>(p, ip). prune_one p ip) es st) = svc_peer_generation st"
  by (induction es arbitrary: st) auto

lemma prune_frame [simp]:
  "svc_peers (prune_expired_dig_bans order now st) = svc_peers st"
  "svc_pool (prune_expired_dig_bans order now st) = svc_pool st"
  "svc_plumtree (prune_expired_dig_bans order now st) = svc_plumtree st"
  "svc_running (prune_expired_dig_bans order now st) = svc_running st"
  "svc_closed_links (prune_expired_dig_bans order now st) = svc_closed_links st"
  "svc_notices (prune_expired_dig_bans order now st) = svc_notices st"
  "svc_peer_generation (prune_expired_dig_bans order now st) = svc_peer_generation st"
  by (simp_all add: prune_expired_dig_bans_def Let_def)

lemma prune_banned:
  "fmlookup (svc_banned (prune_expired_dig_bans order now st)) p
     = (case fmlookup (svc_banned st) p of
          Some e \<Rightarrow> if now < ban_entry_until e then Some e else None | None \<Rightarrow> None)"
  by (simp add: prune_expired_dig_bans_def Let_def split: option.split)

lemma prune_fold_penalties:
  "fmlookup (svc_penalties (fold (\<lambda>(p, ip). prune_one p ip) es st)) p
     = (if p \<in> fst ` set es then None else fmlookup (svc_penalties st) p)"
  by (induction es arbitrary: st) (auto simp: prune_one_def Let_def)

lemma execute_frame [simp]:
  "svc_peers (execute_dig_timed_ban p ip now st) = svc_peers st"
  "svc_pool (execute_dig_timed_ban p ip now st) = svc_pool st"
  "svc_plumtree (execute_dig_timed_ban p ip now st) = svc_plumtree st"
  "svc_running (execute_dig_timed_ban p ip now st) = svc_running st"
  "svc_peer_generation (execute_dig_timed_ban p ip now st) = svc_peer_generation st"
  "svc_banned (execute_dig_timed_ban p ip now st)
     = fmupd p \<lparr>ban_entry_until = sat_add64 now BAN_DURATION_SECS, ban_entry_ip = ip\<rparr> (svc_banned st)"
  by (simp_all add: execute_dig_timed_ban_def Let_def)

lemma close_live_frame [simp]:
  "svc_peers (close_live s st) = svc_peers st"
  "svc_pool (close_live s st) = svc_pool st"
  "svc_plumtree (close_live s st) = svc_plumtree st"
  "svc_running (close_live s st) = svc_running st"
  "svc_banned (close_live s st) = svc_banned st"
  "svc_chia_calls (close_live s st) = svc_chia_calls st"
  "svc_penalties (close_live s st) = svc_penalties st"
  "svc_peer_generation (close_live s st) = svc_peer_generation st"
  by (cases "(s, st)" rule: close_live.cases; simp)+

lemma is_banned_iff:
  "fst (is_peer_id_banned_at order p now st)
     \<longleftrightarrow> (\<exists>e. fmlookup (svc_banned st) p = Some e \<and> now < ban_entry_until e)"
  by (auto simp: is_peer_id_banned_at_def prune_banned Let_def split: option.splits)

lemma enforce_None_peers:
  "svc_peers (enforce_timed_ban_and_disconnect order p now None st) = fmdrop p (svc_peers st)"
  by (simp add: enforce_timed_ban_and_disconnect_def Let_def)

lemma enforce_None_banned:
  "fmlookup (svc_banned (enforce_timed_ban_and_disconnect order p now None st)) p
     = Some \<lparr>ban_entry_until = sat_add64 now BAN_DURATION_SECS,
             ban_entry_ip = (case fmlookup (svc_peers st) p of
                Some s \<Rightarrow> sa_ip (slot_remote s) | None \<Rightarrow> V4 [0, 0, 0, 0])\<rparr>"
  by (simp add: enforce_timed_ban_and_disconnect_def Let_def)

text \<open>The last call made to the Chia client state for an address: whether it holds the address banned.\<close>

fun call_ip :: "ChiaCall \<Rightarrow> IpAddr" where
  "call_ip (ChiaBan ip) = ip"
| "call_ip (ChiaUnban ip) = ip"

definition last_call :: "IpAddr \<Rightarrow> ServiceState \<Rightarrow> ChiaCall option" where
  "last_call ip st = List.find (\<lambda>c. call_ip c = ip) (rev (svc_chia_calls st))"

lemma last_call_append:
  assumes "svc_chia_calls st' = svc_chia_calls st @ map ChiaUnban ips"
  shows "last_call ip st' = (if ip \<in> set ips then Some (ChiaUnban ip) else last_call ip st)"
  using assms
proof (induction ips arbitrary: st' rule: rev_induct)
  case Nil
  then show ?case by (simp add: last_call_def)
next
  case (snoc i ips)
  show ?case
    using snoc.IH [of "st'\<lparr>svc_chia_calls := svc_chia_calls st @ map ChiaUnban ips\<rparr>"] snoc.prems
    by (auto simp: last_call_def)
qed

lemma prune_fold_calls:
  "svc_chia_calls (fold (\<lambda>(p, ip). prune_one p ip) es st)
     = svc_chia_calls st @ map ChiaUnban (filter (\<lambda>ip. \<not> ip_is_unspecified ip) (map snd es))"
  by (induction es arbitrary: st) (auto simp: prune_one_def Let_def)

lemma prune_calls:
  "svc_chia_calls (prune_expired_dig_bans order now st) = svc_chia_calls st
     @ map ChiaUnban (filter (\<lambda>ip. \<not> ip_is_unspecified ip) (map snd (expired_bans order now st)))"
  by (simp add: prune_expired_dig_bans_def prune_fold_calls Let_def)

lemma expired_iff:
  "(p, ip) \<in> set (expired_bans order now st)
     \<longleftrightarrow> p \<in> set order \<and> (\<exists>e. fmlookup (svc_banned st) p = Some e \<and> ban_entry_until e \<le> now \<and> ban_entry_ip e = ip)"
  by (force simp: expired_bans_def List.map_filter_def split: option.splits)

lemma prune_last_call:
  "last_call ip (prune_expired_dig_bans order now st)
     = (if \<not> ip_is_unspecified ip \<and> ip \<in> snd ` set (expired_bans order now st)
        then Some (ChiaUnban ip) else last_call ip st)"
  by (subst last_call_append [OF prune_calls]) auto

text \<open>Ban checks of any peers, one after another: each prunes what has expired at its time.\<close>

definition run_checks :: "(peer_id list \<times> peer_id \<times> nat) list \<Rightarrow> ServiceState \<Rightarrow> ServiceState" where
  "run_checks checks = fold (\<lambda>(order, q, t) st. snd (is_peer_id_banned_at order q t st)) checks"

definition only_ban_of :: "IpAddr \<Rightarrow> peer_id \<Rightarrow> ServiceState \<Rightarrow> bool" where
  "only_ban_of ip p st \<longleftrightarrow> (\<forall>q e. fmlookup (svc_banned st) q = Some e \<and> ban_entry_ip e = ip \<longrightarrow> q = p)"

lemma run_checks_Cons:
  "run_checks ((order, q, u) # checks) st = run_checks checks (prune_expired_dig_bans order u st)"
  by (simp add: run_checks_def is_peer_id_banned_at_def Let_def)

lemma prune_keeps:
  assumes "fmlookup (svc_banned st) p = Some e" "u < ban_entry_until e"
  shows "fmlookup (svc_banned (prune_expired_dig_bans order u st)) p = Some e"
    and "only_ban_of ip p st \<Longrightarrow> only_ban_of ip p (prune_expired_dig_bans order u st)"
    and "only_ban_of (ban_entry_ip e) p st \<Longrightarrow>
      last_call (ban_entry_ip e) (prune_expired_dig_bans order u st) = last_call (ban_entry_ip e) st"
proof -
  show "fmlookup (svc_banned (prune_expired_dig_bans order u st)) p = Some e"
    using assms by (simp add: prune_banned)
  show "only_ban_of ip p st \<Longrightarrow> only_ban_of ip p (prune_expired_dig_bans order u st)"
    by (auto simp: only_ban_of_def prune_banned split: option.splits if_splits)
  assume "only_ban_of (ban_entry_ip e) p st"
  then have "ban_entry_ip e \<notin> snd ` set (expired_bans order u st)"
    using assms by (fastforce simp: only_ban_of_def expired_iff)
  then show "last_call (ban_entry_ip e) (prune_expired_dig_bans order u st) = last_call (ban_entry_ip e) st"
    by (simp add: prune_last_call)
qed

lemma run_checks_keep:
  assumes "fmlookup (svc_banned st) p = Some e" "\<forall>(order, q, u)\<in>set checks. u < ban_entry_until e"
  shows "fmlookup (svc_banned (run_checks checks st)) p = Some e"
    and "only_ban_of (ban_entry_ip e) p st \<Longrightarrow>
      last_call (ban_entry_ip e) (run_checks checks st) = last_call (ban_entry_ip e) st
      \<and> only_ban_of (ban_entry_ip e) p (run_checks checks st)"
  using assms
proof (induction checks arbitrary: st)
  case Nil
  {
    case 1
    then show ?case by (simp add: run_checks_def)
  next
    case 2
    then show ?case by (simp add: run_checks_def)
  }
next
  case (Cons c checks)
  obtain order q u where c: "c = (order, q, u)" by (cases c)
  {
    case 1
    then show ?case
      using Cons.IH(1) [of "prune_expired_dig_bans order u st"] prune_keeps(1) [of st p e u order]
      by (simp add: c run_checks_Cons)
  next
    case 2
    then show ?case
      using Cons.IH(2) [of "prune_expired_dig_bans order u st"] prune_keeps [of st p e u]
      by (simp add: c run_checks_Cons)
  }
qed

lemma enforce_None_entry:
  assumes "fmlookup (svc_peers st) p = Some slot" "now + BAN_DURATION_SECS \<le> u64_max"
  shows "fmlookup (svc_banned (enforce_timed_ban_and_disconnect order p now None st)) p
      = Some \<lparr>ban_entry_until = now + 3600, ban_entry_ip = sa_ip (slot_remote slot)\<rparr>"
    and "\<not> ip_is_unspecified (sa_ip (slot_remote slot)) \<Longrightarrow>
      last_call (sa_ip (slot_remote slot)) (enforce_timed_ban_and_disconnect order p now None st)
        = Some (ChiaBan (sa_ip (slot_remote slot)))"
  using assms
  by (simp_all add: enforce_None_banned sat_add64_exact reputation_consts)
    (simp add: enforce_timed_ban_and_disconnect_def execute_dig_timed_ban_def last_call_def Let_def)

text \<open>
  C26: a ban lasts exactly an hour. Banning a connected peer removes its slot and bans its address in
  the Chia client state. Whatever bans are checked within the hour, the peer is reported banned at
  every time before one hour after the ban and at no time from there on; the check that finds the
  hour over clears its penalties and unbans its address, and until then the address stays banned if
  no other ban is for the same address.
\<close>

theorem ban_window_exact:
  assumes "svc_running st" "now + BAN_DURATION_SECS \<le> u64_max"
    and "fmlookup (svc_peers st) p = Some slot" "ip = sa_ip (slot_remote slot)"
    and "ban_peer order p now st = (True, banned)"
    and "\<forall>(order, q, u)\<in>set checks. u < now + 3600"
    and "is_peer_id_banned_at order' p t (run_checks checks banned) = (b, after)" "p \<in> set order'"
  shows "fmlookup (svc_peers banned) p = None
    \<and> (b \<longleftrightarrow> t < now + 3600)
    \<and> (now + 3600 \<le> t \<longrightarrow> fmlookup (svc_penalties after) p = None
         \<and> (\<not> ip_is_unspecified ip \<longrightarrow> last_call ip after = Some (ChiaUnban ip)))
    \<and> (t < now + 3600 \<and> \<not> ip_is_unspecified ip
         \<and> only_ban_of ip p banned \<longrightarrow> last_call ip after = Some (ChiaBan ip))"
proof -
  let ?seen = "run_checks checks banned" and ?e = "\<lparr>ban_entry_until = now + 3600, ban_entry_ip = ip\<rparr>"
  have banned: "banned = enforce_timed_ban_and_disconnect order p now None st"
    using assms(1,5) by (simp add: ban_peer_def)
  note entry = enforce_None_entry [OF assms(3,2), where order = order, folded banned assms(4)]
  have checks: "\<forall>(order, q, u)\<in>set checks. u < ban_entry_until ?e"
    using assms(6) by simp
  note kept = run_checks_keep [OF entry(1) checks]
  have after: "after = prune_expired_dig_bans order' t ?seen" and b: "b \<longleftrightarrow> fmlookup (svc_banned after) p \<noteq> None"
    using assms(7) by (auto simp: is_peer_id_banned_at_def Let_def)
  have due: "(p, ip) \<in> set (expired_bans order' t ?seen)" if "now + 3600 \<le> t"
    using that kept(1) assms(8) by (simp add: expired_iff)
  have reported: "b \<longleftrightarrow> t < now + 3600"
    using kept(1) by (simp add: b after prune_banned)
  have cleared: "fmlookup (svc_penalties after) p = None" if "now + 3600 \<le> t"
    using due [OF that] by (force simp: after prune_expired_dig_bans_def prune_fold_penalties Let_def)
  have lifted: "last_call ip after = Some (ChiaUnban ip)" if "now + 3600 \<le> t" "\<not> ip_is_unspecified ip"
    using due [OF that(1)] that(2) by (force simp: after prune_last_call)
  have held: "last_call ip after = Some (ChiaBan ip)"
    if "t < now + 3600" "\<not> ip_is_unspecified ip" "only_ban_of ip p banned"
  proof -
    have seen: "last_call ip ?seen = Some (ChiaBan ip)" "only_ban_of ip p ?seen"
      using kept(2) entry(2) that by simp_all
    show ?thesis
      using prune_keeps(3) [OF kept(1), of t order'] that(1) seen by (simp add: after)
  qed
  show ?thesis
    using reported cleared lifted held by (simp add: banned enforce_None_peers)
qed

definition live_row :: "u8 \<Rightarrow> bool \<Rightarrow> nat \<Rightarrow> MapSlot" where
  "live_row b out gen = LiveRow \<lparr>live_meta = \<lparr>sp_remote = SocketAddr (V4 [b, b, 0, 1]) 9444,
     sp_is_outbound = out\<rparr>, live_reputation = reputation_default, live_generation = gen\<rparr>"

definition one_live :: ServiceState where
  "one_live = service_new\<lparr>svc_running := True, svc_peers := fmupd [7] (live_row 8 True 0) fmempty,
     svc_peer_generation := 1\<rparr>"

theorem ban_window_exact_witness:
  "\<not> fst (is_peer_id_banned_at [[7]] [7] 4600 (run_checks [([[7]], [9], 4599)] (snd (ban_peer [] [7] 1000 one_live))))
   \<and> last_call (V4 [8, 8, 0, 1]) (snd (is_peer_id_banned_at [[7]] [7] 4600
         (run_checks [([[7]], [9], 4599)] (snd (ban_peer [] [7] 1000 one_live))))) = Some (ChiaUnban (V4 [8, 8, 0, 1]))"
proof -
  have ban: "ban_peer [] [7] 1000 one_live = (True, snd (ban_peer [] [7] 1000 one_live))"
    by (simp add: ban_peer_def one_live_def)
  obtain b after where check: "is_peer_id_banned_at [[7]] [7] 4600
      (run_checks [([[7]], [9], 4599)] (snd (ban_peer [] [7] 1000 one_live))) = (b, after)"
    by fastforce
  have row: "fmlookup (svc_peers one_live) [7] = Some (live_row 8 True 0)"
    "V4 [8, 8, 0, 1] = sa_ip (slot_remote (live_row 8 True 0))"
    by (simp_all add: one_live_def live_row_def)
  from ban_window_exact [OF _ _ row ban _ check] check show ?thesis
    by (simp add: one_live_def reputation_consts u64_max_def ip_is_unspecified_def)
qed

lemma prune_unbans:
  assumes "\<And>q e. fmlookup (svc_banned st) q = Some e \<Longrightarrow> q = p" "distinct order"
  shows "expired_bans order now st =
    (case fmlookup (svc_banned st) p of
       Some e \<Rightarrow> if ban_entry_until e \<le> now \<and> p \<in> set order then [(p, ban_entry_ip e)] else []
     | None \<Rightarrow> [])"
  using assms(2)
proof (induction order)
  case Nil
  then show ?case
    by (simp add: expired_bans_def split: option.split)
next
  case (Cons q qs)
  have q: "fmlookup (svc_banned st) q \<noteq> None \<Longrightarrow> q = p"
    using assms(1) by auto
  show ?case
    using Cons q by (cases "q = p") (auto simp: expired_bans_def split: option.splits)
qed

text \<open>
  Banning a banned peer leaks its address ban. The first ban of a connected peer bans its
  address in the Chia client state. A second ban within the hour finds no slot, so it overwrites
  the recorded address with the unspecified one; when the ban expires the peer is welcome
  again, yet its address is never unbanned.
\<close>

theorem double_ban_leaks_address:
  assumes "svc_running st" "svc_banned st = fmempty" "fmlookup (svc_peers st) p = Some slot"
    and "\<not> ip_is_unspecified (sa_ip (slot_remote slot))"
    and "now' < now + 3600" "now' + 3600 \<le> u64_max" "now \<le> now'"
    and "distinct order" "p \<in> set order" "now' + 3600 \<le> t"
  defines "twice \<equiv> snd (ban_peer order p now' (snd (ban_peer order p now st)))"
  defines "after \<equiv> prune_expired_dig_bans order t twice"
  shows "svc_banned after = fmempty
    \<and> last_call (sa_ip (slot_remote slot)) after = Some (ChiaBan (sa_ip (slot_remote slot)))"
proof (intro conjI)
  let ?ip = "sa_ip (slot_remote slot)"
  define once where "once = snd (ban_peer order p now st)"
  have until: "sat_add64 now BAN_DURATION_SECS = now + 3600" "sat_add64 now' BAN_DURATION_SECS = now' + 3600"
    using assms(6,7) by (simp_all add: sat_add64_exact reputation_consts)
  have prune0: "prune_expired_dig_bans order now st = st\<lparr>svc_banned := fmempty\<rparr>"
    using assms(2) by (simp add: prune_expired_dig_bans_def expired_bans_def List.map_filter_def Let_def)
  have once: "svc_banned once = fmupd p \<lparr>ban_entry_until = now + 3600, ban_entry_ip = ?ip\<rparr> fmempty"
    "svc_chia_calls once = svc_chia_calls st @ [ChiaBan ?ip]" "svc_peers once = fmdrop p (svc_peers st)"
    "svc_running once"
    using assms(1,3,4) until
    by (simp_all add: once_def ban_peer_def enforce_timed_ban_and_disconnect_def prune0 Let_def
        execute_dig_timed_ban_def)
  have only1: "q = p" if "fmlookup (svc_banned once) q = Some e" for q e
    using that once(1) by (auto split: if_splits)
  have "expired_bans order now' once =
      (case fmlookup (svc_banned once) p of
         Some e \<Rightarrow> if ban_entry_until e \<le> now' \<and> p \<in> set order then [(p, ban_entry_ip e)] else []
       | None \<Rightarrow> [])"
    by (rule prune_unbans) (erule only1, rule assms(8))
  then have "expired_bans order now' once = []"
    using once(1) assms(5) by simp
  then have "svc_chia_calls (prune_expired_dig_bans order now' once) = svc_chia_calls once"
    by (simp add: prune_expired_dig_bans_def Let_def)
  moreover have twice_eq: "twice = enforce_timed_ban_and_disconnect order p now' None once"
    using once(4) unfolding twice_def once_def by (simp add: ban_peer_def)
  ultimately have twice: "fmlookup (svc_banned twice) p = Some \<lparr>ban_entry_until = now' + 3600, ban_entry_ip = V4 [0, 0, 0, 0]\<rparr>"
    "svc_chia_calls twice = svc_chia_calls st @ [ChiaBan ?ip]"
    using once until
    by (simp_all add: enforce_timed_ban_and_disconnect_def Let_def execute_dig_timed_ban_def
        ip_is_unspecified_def)
  have only: "q = p" if "fmlookup (svc_banned twice) q = Some e" for q e
    using that once(1)
    by (auto simp: twice_eq enforce_timed_ban_and_disconnect_def Let_def prune_banned
        split: if_splits option.splits)
  have "expired_bans order t twice =
      (case fmlookup (svc_banned twice) p of
         Some e \<Rightarrow> if ban_entry_until e \<le> t \<and> p \<in> set order then [(p, ban_entry_ip e)] else []
       | None \<Rightarrow> [])"
    by (rule prune_unbans) (erule only, rule assms(8))
  then have "expired_bans order t twice = [(p, V4 [0, 0, 0, 0])]"
    using twice(1) assms(9,10) by simp
  then have "svc_chia_calls after = svc_chia_calls twice"
    by (simp add: after_def prune_expired_dig_bans_def Let_def prune_one_def ip_is_unspecified_def)
  then show "last_call ?ip after = Some (ChiaBan ?ip)"
    by (simp add: last_call_def twice(2))
  show "svc_banned after = fmempty"
  proof (rule fmap_ext)
    fix q
    show "fmlookup (svc_banned after) q = fmlookup fmempty q"
      using twice(1) only [of q] assms(10)
      by (cases "fmlookup (svc_banned twice) q") (auto simp: after_def prune_banned)
  qed
qed

theorem double_ban_leaks_address_witness:
  "last_call (V4 [8, 8, 0, 1])
     (prune_expired_dig_bans [[7]] 9000 (snd (ban_peer [[7]] [7] 2000 (snd (ban_peer [[7]] [7] 1000 one_live)))))
     = Some (ChiaBan (V4 [8, 8, 0, 1]))"
  using double_ban_leaks_address [of one_live "[7]" "live_row 8 True 0" 2000 1000 "[[7]]" 9000]
  by (simp add: one_live_def service_new_def live_row_def ip_is_unspecified_def u64_max_def)

section \<open>Sessions and departures\<close>

text \<open>
  A superseded session harms nobody. When the slot of a peer is not the live slot
  of the given generation, a keepalive failure, a rate-limit violation and a per-session ban of
  that generation charge, ban and evict nothing.
\<close>

theorem stale_session_harmless:
  assumes "\<And>l. fmlookup (svc_peers st) p = Some (LiveRow l) \<Longrightarrow> live_generation l \<noteq> gen"
  shows "disconnect_after_keepalive_failure p gen now st = st"
    and "apply_inbound_rate_limit_violation p gen now st = (False, st)"
    and "enforce_timed_ban_and_disconnect order p now (Some gen) st = prune_expired_dig_bans order now st"
  using assms
  by (auto simp: disconnect_after_keepalive_failure_def apply_inbound_rate_limit_violation_def
      enforce_timed_ban_and_disconnect_def Let_def split: option.split MapSlot.split)

theorem stale_session_harmless_witness:
  "disconnect_after_keepalive_failure [7] 5 99 one_live = one_live"
  by (rule stale_session_harmless(1)) (simp add: one_live_def live_row_def)

lemma record_departure_fold:
  "pool_activity (fold record_departure ids s) = fmdrop_fset (fset_of_list ids) (pool_activity s)"
  by (induction ids arbitrary: s) (auto simp: record_departure_def intro!: fmap_ext)

lemma publish_removed [simp]:
  "pool_activity (publish (PeerRemoved p r) now s) = pool_activity s"
  by (simp add: publish_def Let_def split: option.split)

lemma plumtree_removal [simp]:
  "svc_peers (remove_from_plumtree_unless_reconnected p st) = svc_peers st"
  "svc_pool (remove_from_plumtree_unless_reconnected p st) = svc_pool st"
  by (simp_all add: remove_from_plumtree_unless_reconnected_def)

text \<open>
  A disconnect forgets the peer everywhere. Its slot, its usefulness record and its
  Plumtree membership are gone, every other slot is kept, and the departure is announced
  exactly when the peer was held.
\<close>

theorem disconnect_forgets:
  assumes "svc_running st" "disconnect p now st = (True, st')"
  shows "svc_peers st' = fmdrop p (svc_peers st)"
    and "\<not> is_eager (svc_plumtree st') p \<and> \<not> is_lazy (svc_plumtree st') p"
    and "fmlookup (svc_peers st) p \<noteq> None \<Longrightarrow> fmlookup (pool_activity (svc_pool st')) p = None"
    and "pool_events (svc_pool st') = (if fmlookup (svc_peers st) p = None then pool_events (svc_pool st)
           else map_option (\<lambda>sent. sent @ [PeerRemoved p Disconnected]) (pool_events (svc_pool st)))"
  using assms
  by (auto simp: disconnect_def Let_def remove_from_plumtree_unless_reconnected_def remove_peer_def
      is_eager_def is_lazy_def record_departure_def publish_def split: if_splits option.splits)

theorem disconnect_forgets_witness:
  "svc_peers (snd (disconnect [7] 5 one_live)) = fmdrop [7] (svc_peers one_live)"
proof (rule disconnect_forgets(1))
  show "svc_running one_live"
    by (simp add: one_live_def)
  then show "disconnect [7] 5 one_live = (True, snd (disconnect [7] 5 one_live))"
    by (simp add: disconnect_def Let_def)
qed

lemma reap_fold:
  assumes "\<forall>p \<in> set ids. fmlookup (svc_peers st) p = None"
  shows "svc_peers (fold (reap_announce now) ids st) = svc_peers st"
    and "pool_activity (svc_pool (fold (reap_announce now) ids st)) = pool_activity (svc_pool st)"
    and "pool_events (svc_pool (fold (reap_announce now) ids st))
           = map_option (\<lambda>sent. sent @ map (\<lambda>p. PeerRemoved p Reaped) ids) (pool_events (svc_pool st))"
    and "eager_peers (svc_plumtree (fold (reap_announce now) ids st))
           = eager_peers (svc_plumtree st) |-| fset_of_list ids"
    and "lazy_peers (svc_plumtree (fold (reap_announce now) ids st))
           = lazy_peers (svc_plumtree st) |-| fset_of_list ids"
  using assms
  by (induction ids arbitrary: st)
    (auto simp: reap_announce_def remove_from_plumtree_unless_reconnected_def remove_peer_def publish_def
      map_option.compositionality comp_def option.map_ident Let_def split: option.split)

text \<open>
  C24: the reaper evicts exactly the closed sessions. Every slot whose transport is closed
  goes, with its usefulness record and its Plumtree membership, and is announced; every other
  slot, record and membership is kept, and the number returned is that of the announcements.
\<close>

theorem reaper_exact:
  assumes "set order = fset (fmdom (svc_peers st))" "distinct order"
    and "reap_departed_peers closed order now st = (n, st')"
  defines "gone \<equiv> \<lambda>p. slot_holds (\<lambda>_. slot_is_departed closed) (svc_peers st) p"
  shows "fmlookup (svc_peers st') p = (if gone p then None else fmlookup (svc_peers st) p)
    \<and> fmlookup (pool_activity (svc_pool st')) p
           = (if gone p then None else fmlookup (pool_activity (svc_pool st)) p)
    \<and> (is_eager (svc_plumtree st') p \<longleftrightarrow> is_eager (svc_plumtree st) p \<and> \<not> gone p)
    \<and> (is_lazy (svc_plumtree st') p \<longleftrightarrow> is_lazy (svc_plumtree st) p \<and> \<not> gone p)
    \<and> n = card {p. gone p}
    \<and> pool_events (svc_pool st')
           = map_option (\<lambda>sent. sent @ map (\<lambda>p. PeerRemoved p Reaped) (filter gone order))
               (pool_events (svc_pool st))"
proof (intro conjI)
  define swept where "swept = st\<lparr>svc_peers := fmfilter
      (\<lambda>p. case fmlookup (svc_peers st) p of Some s \<Rightarrow> \<not> slot_is_departed closed s | None \<Rightarrow> True)
      (svc_peers st), svc_pool := fold record_departure (departed_ids closed order st) (svc_pool st)\<rparr>"
  have ids: "departed_ids closed order st = filter gone order"
    by (simp add: departed_ids_def gone_def slot_holds_def)
  have gone_dom: "gone p \<Longrightarrow> p \<in> set order" for p
    unfolding gone_def assms(1) by (rule slot_holds_dom)
  have mem: "p |\<in>| fset_of_list (filter gone order) \<longleftrightarrow> gone p" for p
    using gone_dom by (auto simp: fset_of_list_elem)
  have look: "fmlookup (svc_peers swept) p = (if gone p then None else fmlookup (svc_peers st) p)" for p
    by (auto simp: swept_def gone_def slot_holds_def split: option.split)
  have n: "n = length (filter gone order)" and
    st': "st' = fold (reap_announce now) (filter gone order) swept"
    using assms(3) by (simp_all add: reap_departed_peers_def Let_def ids swept_def)
  have none: "\<forall>p \<in> set (filter gone order). fmlookup (svc_peers swept) p = None"
    using look by simp
  note fold = reap_fold [OF none, of now]
  have ev: "pool_events (fold record_departure qs s) = pool_events s" for qs s
    by (induction qs arbitrary: s) (simp_all add: record_departure_def)
  show "fmlookup (svc_peers st') p = (if gone p then None else fmlookup (svc_peers st) p)"
    by (simp only: st' fold(1) look)
  show "fmlookup (pool_activity (svc_pool st')) p
      = (if gone p then None else fmlookup (pool_activity (svc_pool st)) p)"
    unfolding st' fold(2) using mem [of p] by (simp add: swept_def record_departure_fold ids)
  show "is_eager (svc_plumtree st') p \<longleftrightarrow> is_eager (svc_plumtree st) p \<and> \<not> gone p"
    "is_lazy (svc_plumtree st') p \<longleftrightarrow> is_lazy (svc_plumtree st) p \<and> \<not> gone p"
    unfolding st' is_eager_def is_lazy_def fold(4,5) using mem [of p] by (simp_all add: swept_def)
  show "pool_events (svc_pool st')
      = map_option (\<lambda>sent. sent @ map (\<lambda>p. PeerRemoved p Reaped) (filter gone order))
          (pool_events (svc_pool st))"
    unfolding st' fold(3) by (simp add: swept_def ev)
  have "set (filter gone order) = {p. gone p}"
    using gone_dom by auto
  then show "n = card {p. gone p}"
    unfolding n using assms(2) by (metis distinct_card distinct_filter)
qed

definition nat_row :: "u8 \<Rightarrow> bool \<Rightarrow> bool \<Rightarrow> nat \<Rightarrow> MapSlot" where
  "nat_row b out relayed s = NatRow \<lparr>nat_conn = Observed s, nat_sink = None,
     nat_remote = SocketAddr (V4 [b, b, 0, 1]) 9444, nat_is_outbound = out, nat_relayed = relayed\<rparr>"

theorem reaper_exact_witness:
  "fst (reap_departed_peers (\<lambda>s. s = 3) [[1], [2]] 5
     (service_new\<lparr>svc_peers := fmupd [1] (nat_row 1 True False 3) (fmupd [2] (nat_row 2 True False 4) fmempty)\<rparr>))
   = card {p. slot_holds (\<lambda>_. slot_is_departed (\<lambda>s. s = 3))
       (fmupd [1] (nat_row 1 True False 3) (fmupd [2] (nat_row 2 True False 4) fmempty)) p}"
proof -
  let ?st = "service_new\<lparr>svc_peers := fmupd [1] (nat_row 1 True False 3) (fmupd [2] (nat_row 2 True False 4) fmempty)\<rparr>"
  have "set [[1], [2]] = fset (fmdom (svc_peers ?st))" "distinct [[1 :: u8], [2]]"
    by auto
  from reaper_exact [OF this prod.collapse [symmetric], of "\<lambda>s. s = 3" 5] show ?thesis
    by simp
qed

text \<open>
  Bans and keepalive failures leave a departed peer behind. Unlike a disconnect and the
  reaper, banning a connected peer and giving up an unresponsive one remove the slot but
  announce nothing, keep the usefulness record and keep the Plumtree membership.
\<close>

theorem ban_leaves_membership:
  fixes order :: "peer_id list" and now :: nat
  assumes "fmlookup (svc_peers st) p = Some (LiveRow l)"
  defines "banned \<equiv> enforce_timed_ban_and_disconnect order p now None st"
  defines "failed \<equiv> disconnect_after_keepalive_failure p (live_generation l) now st"
  shows "fmlookup (svc_peers banned) p = None" "fmlookup (svc_peers failed) p = None"
    and "svc_plumtree banned = svc_plumtree st" "svc_plumtree failed = svc_plumtree st"
    and "svc_pool banned = svc_pool st" "svc_pool failed = svc_pool st"
proof -
  show "fmlookup (svc_peers banned) p = None" "svc_plumtree banned = svc_plumtree st"
    "svc_pool banned = svc_pool st"
    by (simp_all add: banned_def enforce_timed_ban_and_disconnect_def Let_def)
  show "fmlookup (svc_peers failed) p = None" "svc_plumtree failed = svc_plumtree st"
    "svc_pool failed = svc_pool st"
    using assms(1)
    by (simp_all add: failed_def disconnect_after_keepalive_failure_def Let_def split_beta)
qed

theorem ban_leaves_membership_witness:
  "svc_plumtree (enforce_timed_ban_and_disconnect [] [7] 5 None one_live) = svc_plumtree one_live"
  by (rule ban_leaves_membership(3) [of one_live "[7]"]) (simp add: one_live_def live_row_def)

section \<open>The pool never re-dials a held peer\<close>

text \<open>
  What the pool sees of the map keeps it from re-dialling. A pass planned from the keys of
  the connected peers dials no candidate that carries the id of a held peer, relayed or not, and
  none at an address a held peer can be dialled at.
\<close>

theorem held_peers_not_redialled:
  assumes "set order = fset (fmdom (svc_peers st))" "snap_connected_keys snap = connected_pool_keys order st"
    and "c \<in> set (to_dial (plan_pass snap cfg))" "fmlookup (svc_peers st) p = Some slot"
  shows "cand_peer_id c \<noteq> Some p
    \<and> (dial_addr slot = Some a \<longrightarrow> cand_addr c \<noteq> Some a)"
proof (intro conjI impI)
  have p: "p \<in> set order"
    using assms(1,4) by (simp add: fmlookup_dom_iff)
  have keys: "Id_key p \<in> set (snap_connected_keys snap)"
    "dial_addr slot = Some a \<Longrightarrow> Addr_key a \<in> set (snap_connected_keys snap)"
    unfolding assms(2) connected_pool_keys_def using p assms(4) by (auto intro!: bexI [of _ p])
  have "set (identity_keys c) \<inter> set (snap_connected_keys snap) = {}"
    using plan_pass_dials(2) [OF assms(3)] by (simp add: eligible_def)
  then show "cand_peer_id c \<noteq> Some p" "dial_addr slot = Some a \<Longrightarrow> cand_addr c \<noteq> Some a"
    using keys by (auto simp: identity_keys_def)
qed

theorem held_peers_not_redialled_witness: "cand_peer_id one_candidate \<noteq> Some [8]"
proof (rule held_peers_not_redialled [THEN conjunct1])
  let ?st = "service_new\<lparr>svc_peers := fmupd [8] (nat_row 8 True True 3) fmempty\<rparr>"
  show "set [[8]] = fset (fmdom (svc_peers ?st))" "fmlookup (svc_peers ?st) [8] = Some (nat_row 8 True True 3)"
    by simp_all
  have keys: "connected_pool_keys [[8]] ?st = [Id_key [8]]"
    by (simp add: connected_pool_keys_def nat_row_def dial_addr_def)
  show "snap_connected_keys (one_snapshot\<lparr>snap_connected_keys := [Id_key [8]]\<rparr>) = connected_pool_keys [[8]] ?st"
    by (simp add: keys)
  have "planned_slots (one_snapshot\<lparr>snap_connected_keys := [Id_key [8]]\<rparr>) pool_config_default = 8"
    by (simp add: planned_slots_def free_slot_budget_with_direct_floor_def free_slot_budget_def
        min_direct_peers_def normalized_default sat_add64_def u64_max_def one_snapshot_def
        in_flight_count_def PoolState_new_def fcard_fempty)
  moreover have "eligible (one_snapshot\<lparr>snap_connected_keys := [Id_key [8]]\<rparr>) pool_config_default one_candidate"
    by (simp add: eligible_def one_snapshot_def PoolState_new_def identity_keys_def one_candidate_def
        candidate_with_id_def)
  ultimately show "one_candidate
      \<in> set (to_dial (plan_pass (one_snapshot\<lparr>snap_connected_keys := [Id_key [8]]\<rparr>) pool_config_default))"
    by (simp add: plan_pass_eq) (simp add: one_snapshot_def)
qed

end
