(* ===== verification/Peer_View.thy ===== *)
theory Peer_View
  imports Fan_Out Service_State
begin

text \<open>
  The two views of the peer map. \<open>Service_State\<close> keeps of a slot what admission, bans and the
  reaper read, \<open>Fan_Out\<close> what the senders read; \<open>fan_view\<close> says that a state of the one is
  the state of the other.
\<close>

text \<open>One entry per slot, in any order, of the slot's kind, and the same Plumtree state.\<close>

fun same_kind :: "MapSlot \<Rightarrow> PeerSlot \<Rightarrow> bool" where
  "same_kind (StubRow _) slot = (slot = SlotStub)"
| "same_kind (LiveRow _) slot = (case slot of SlotLive _ \<Rightarrow> True | _ \<Rightarrow> False)"
| "same_kind (NatRow n) slot = (slot = SlotNat (nat_sink n \<noteq> None))"

definition fan_view :: "('s, 'c) gossip_state \<Rightarrow> ServiceState \<Rightarrow> bool" where
  "fan_view g st \<longleftrightarrow> gs_plumtree g = svc_plumtree st \<and> running g = svc_running st
     \<and> distinct (map fst (gs_peers g))
     \<and> set (map fst (gs_peers g)) = fset (fmdom (svc_peers st))
     \<and> list_all (\<lambda>(p, slot). rel_option same_kind (fmlookup (svc_peers st) p) (Some slot)) (gs_peers g)"

lemma fan_view_kind:
  assumes "fan_view g st" "(p, slot) \<in> set (gs_peers g)" "fmlookup (svc_peers st) p = Some s"
  shows "same_kind s slot"
  using assms by (auto simp: fan_view_def list_all_iff)

lemma fan_view_entry:
  assumes "fan_view g st" "fmlookup (svc_peers st) p = Some s"
  obtains slot where "(p, slot) \<in> set (gs_peers g)" "same_kind s slot"
proof -
  have "p \<in> set (map fst (gs_peers g))"
    using assms fmdomI [of "svc_peers st" p s] by (simp add: fan_view_def)
  then show ?thesis
    using that fan_view_kind [OF assms(1) _ assms(2)] by auto
qed

end
