(* ===== verification/Priority_Lanes.thy ===== *)
theory Priority_Lanes
  imports Dig_Message "HOL-Library.Multiset"
begin

text \<open>
  The per-connection outbound queue with three lanes (\<open>gossip/priority.rs\<close>) and the
  adaptive backpressure levels (\<open>gossip/backpressure.rs\<close>). The queue is generic in the
  message type, which the code never inspects here.
\<close>

section \<open>Lanes\<close>

datatype MessagePriority = Critical | Normal | Bulk

definition PRIORITY_STARVATION_RATIO :: nat where
  "PRIORITY_STARVATION_RATIO = 10"

record 'm PriorityOutbound =
  critical :: "'m list"
  normal :: "'m list"
  bulk :: "'m list"
  high_priority_since_last_bulk :: nat

definition PriorityOutbound_new :: "'m PriorityOutbound" where
  "PriorityOutbound_new =
     \<lparr>critical = [], normal = [], bulk = [], high_priority_since_last_bulk = 0\<rparr>"

fun enqueue :: "'m \<Rightarrow> MessagePriority \<Rightarrow> 'm PriorityOutbound \<Rightarrow> 'm PriorityOutbound" where
  "enqueue m Critical q = q\<lparr>critical := critical q @ [m]\<rparr>"
| "enqueue m Normal q = q\<lparr>normal := normal q @ [m]\<rparr>"
| "enqueue m Bulk q = q\<lparr>bulk := bulk q @ [m]\<rparr>"

definition drain_next :: "'m PriorityOutbound \<Rightarrow> 'm option \<times> 'm PriorityOutbound" where
  "drain_next q =
     (if PRIORITY_STARVATION_RATIO \<le> high_priority_since_last_bulk q \<and> bulk q \<noteq> [] then
        (Some (hd (bulk q)), q\<lparr>bulk := tl (bulk q), high_priority_since_last_bulk := 0\<rparr>)
      else case critical q of
        m # rest \<Rightarrow>
          (Some m, q\<lparr>critical := rest,
                     high_priority_since_last_bulk := high_priority_since_last_bulk q + 1\<rparr>)
      | [] \<Rightarrow>
          (case normal q of
             m # rest \<Rightarrow>
               (Some m, q\<lparr>normal := rest,
                          high_priority_since_last_bulk := high_priority_since_last_bulk q + 1\<rparr>)
           | [] \<Rightarrow>
               (case bulk q of
                  m # rest \<Rightarrow>
                    (Some m, q\<lparr>bulk := rest, high_priority_since_last_bulk := 0\<rparr>)
                | [] \<Rightarrow> (None, q))))"

definition total_len :: "'m PriorityOutbound \<Rightarrow> nat" where
  "total_len q = length (critical q) + length (normal q) + length (bulk q)"

definition lane_lengths :: "'m PriorityOutbound \<Rightarrow> nat \<times> nat \<times> nat" where
  "lane_lengths q = (length (critical q), length (normal q), length (bulk q))"

definition is_empty :: "'m PriorityOutbound \<Rightarrow> bool" where
  "is_empty q \<longleftrightarrow> critical q = [] \<and> normal q = [] \<and> bulk q = []"

fun lane :: "MessagePriority \<Rightarrow> 'm PriorityOutbound \<Rightarrow> 'm list" where
  "lane Critical q = critical q"
| "lane Normal q = normal q"
| "lane Bulk q = bulk q"

lemma lane_enqueue: "lane p (enqueue m p' q) = (if p = p' then lane p q @ [m] else lane p q)"
  by (cases p; cases p') auto

lemma since_enqueue [simp]:
  "high_priority_since_last_bulk (enqueue m p q) = high_priority_since_last_bulk q"
  by (cases p) auto

lemma all_priorities: "(\<forall>p. P p) \<longleftrightarrow> P Critical \<and> P Normal \<and> P Bulk"
  by (metis MessagePriority.exhaust)

text \<open>Which lane a call serves.\<close>

definition served :: "'m PriorityOutbound \<Rightarrow> MessagePriority option" where
  "served q =
     (if PRIORITY_STARVATION_RATIO \<le> high_priority_since_last_bulk q \<and> bulk q \<noteq> [] then Some Bulk
      else if critical q \<noteq> [] then Some Critical
      else if normal q \<noteq> [] then Some Normal
      else if bulk q \<noteq> [] then Some Bulk else None)"

lemma drain_next_served:
  "case served q of
     None \<Rightarrow> drain_next q = (None, q) \<and> is_empty q
   | Some p \<Rightarrow> lane p q \<noteq> [] \<and> fst (drain_next q) = Some (hd (lane p q))
       \<and> (\<forall>p'. lane p' (snd (drain_next q)) = (if p' = p then tl (lane p q) else lane p' q))
       \<and> high_priority_since_last_bulk (snd (drain_next q)) =
           (if p = Bulk then 0 else high_priority_since_last_bulk q + 1)"
  by (cases "critical q"; cases "normal q"; cases "bulk q")
    (auto simp: served_def drain_next_def is_empty_def all_priorities)

subsection \<open>Interleavings\<close>

text \<open>
  A connection enqueues and drains in any order. \<open>run_lanes\<close> plays such a sequence and
  records each drained message with the lane it came from.
\<close>

datatype 'm lane_event = Enq 'm MessagePriority | Drain

fun run_lanes ::
  "'m PriorityOutbound \<Rightarrow> 'm lane_event list \<Rightarrow> (MessagePriority \<times> 'm) list \<times> 'm PriorityOutbound" where
  "run_lanes q [] = ([], q)"
| "run_lanes q (Enq m p # es) = run_lanes (enqueue m p q) es"
| "run_lanes q (Drain # es) =
     (case drain_next q of
        (None, q') \<Rightarrow> run_lanes q' es
      | (Some m, q') \<Rightarrow>
          (let (out, q'') = run_lanes q' es in ((the (served q), m) # out, q'')))"

definition lane_out :: "MessagePriority \<Rightarrow> (MessagePriority \<times> 'm) list \<Rightarrow> 'm list" where
  "lane_out p out = map snd (filter (\<lambda>(p', _). p' = p) out)"

fun lane_in :: "MessagePriority \<Rightarrow> 'm lane_event list \<Rightarrow> 'm list" where
  "lane_in p [] = []"
| "lane_in p (Enq m p' # es) = (if p' = p then m # lane_in p es else lane_in p es)"
| "lane_in p (Drain # es) = lane_in p es"

lemma run_drain_cases:
  obtains (empty) "is_empty q" "run_lanes q (Drain # es) = run_lanes q es"
  | (serve) p m q' where "served q = Some p" "drain_next q = (Some m, q')"
      "lane p q = m # lane p q'" "\<And>p'. p' \<noteq> p \<Longrightarrow> lane p' q' = lane p' q"
      "high_priority_since_last_bulk q' =
         (if p = Bulk then 0 else high_priority_since_last_bulk q + 1)"
      "run_lanes q (Drain # es) = ((p, m) # fst (run_lanes q' es), snd (run_lanes q' es))"
proof (cases "served q")
  case None
  then show ?thesis using drain_next_served [of q] empty by simp
next
  case (Some p)
  then have s: "lane p q \<noteq> []" "fst (drain_next q) = Some (hd (lane p q))"
      "\<And>p'. lane p' (snd (drain_next q)) = (if p' = p then tl (lane p q) else lane p' q)"
      "high_priority_since_last_bulk (snd (drain_next q)) =
         (if p = Bulk then 0 else high_priority_since_last_bulk q + 1)"
    using drain_next_served [of q] by auto
  obtain q' where q': "drain_next q = (Some (hd (lane p q)), q')"
    using s(2) by (metis prod.collapse)
  have "lane p q = hd (lane p q) # lane p q'" using s(1,3) q' by simp
  moreover have "\<And>p'. p' \<noteq> p \<Longrightarrow> lane p' q' = lane p' q" using s(3) q' by simp
  moreover have "high_priority_since_last_bulk q' =
      (if p = Bulk then 0 else high_priority_since_last_bulk q + 1)" using s(4) q' by simp
  ultimately show ?thesis
    using serve [OF Some q'] Some q' by (simp add: case_prod_beta)
qed

lemma lane_out_Cons: "lane_out p ((p', m) # out) = (if p' = p then m # lane_out p out else lane_out p out)"
  by (simp add: lane_out_def)

lemma lanes_fifo_run:
  "lane p q @ lane_in p es = lane_out p (fst (run_lanes q es)) @ lane p (snd (run_lanes q es))"
proof (induction es arbitrary: q)
  case Nil
  then show ?case by (simp add: lane_out_def)
next
  case (Cons e es)
  show ?case
  proof (cases e)
    case (Enq m p')
    then show ?thesis using Cons.IH [of "enqueue m p' q"] by (auto simp: lane_enqueue)
  next
    case Drain
    show ?thesis
    proof (cases rule: run_drain_cases [of q es])
      case empty
      then show ?thesis using Drain Cons.IH [of q] by simp
    next
      case (serve p' m q')
      then show ?thesis using Drain Cons.IH [of q'] by (cases "p' = p") (simp_all add: lane_out_Cons)
    qed
  qed
qed

text \<open>
  C22: Nothing is lost, duplicated or reordered within a lane. Under any interleaving of
  enqueues and drains, in each lane what was queued plus what was enqueued is exactly what was
  drained followed by what is still queued, in that order; and a drain returns nothing only when
  every lane is empty.
\<close>

theorem lanes_fifo:
  "(\<forall>p. lane p q @ lane_in p es = lane_out p (fst (run_lanes q es)) @ lane p (snd (run_lanes q es)))
   \<and> (fst (drain_next q) = None) = is_empty q"
proof -
  have "(fst (drain_next q) = None) = is_empty q"
    using drain_next_served [of q]
    by (cases "served q") (auto simp: is_empty_def served_def split: if_splits)
  then show ?thesis using lanes_fifo_run by blast
qed

subsection \<open>Starvation freedom\<close>

fun drains :: "'m lane_event list \<Rightarrow> nat" where
  "drains [] = 0"
| "drains (Enq m p # es) = drains es"
| "drains (Drain # es) = Suc (drains es)"

lemma starvation_arith:
  "min n (((d + 1) + min c 10) div 11) \<le> 1 + min (n - 1) (d div 11)"
  for n d c :: nat
proof -
  have "((d + 1) + min c 10) div 11 \<le> (d + 11) div 11" by (intro div_le_mono) simp
  also have "(d + 11) div 11 = 1 + d div 11" by simp
  finally show ?thesis by simp
qed

lemma bulk_progress:
  "min (length (bulk q))
       ((drains es + min (high_priority_since_last_bulk q) PRIORITY_STARVATION_RATIO) div 11)
     \<le> length (lane_out Bulk (fst (run_lanes q es)))"
proof (induction es arbitrary: q)
  case Nil
  then show ?case by (simp add: PRIORITY_STARVATION_RATIO_def)
next
  case (Cons e es)
  show ?case
  proof (cases e)
    case (Enq m p)
    have "length (bulk q) \<le> length (bulk (enqueue m p q))" by (cases p) auto
    then show ?thesis using Enq Cons.IH [of "enqueue m p q"] by auto
  next
    case Drain
    show ?thesis
    proof (cases rule: run_drain_cases [of q es])
      case empty
      then show ?thesis by (simp add: is_empty_def)
    next
      case (serve p m q')
      show ?thesis
      proof (cases "p = Bulk")
        case True
        then have "length (bulk q) - 1 = length (bulk q')" using serve(3) by simp
        then show ?thesis
          using serve True Drain Cons.IH [of q']
            starvation_arith [of "length (bulk q)" "drains es" "high_priority_since_last_bulk q"]
          by (simp add: lane_out_Cons PRIORITY_STARVATION_RATIO_def)
      next
        case False
        then have b: "bulk q' = bulk q" using serve(4) [of Bulk] by simp
        have "bulk q = [] \<or> high_priority_since_last_bulk q < PRIORITY_STARVATION_RATIO"
          using serve(1) False by (auto simp: served_def split: if_splits)
        then show ?thesis
          using serve False Drain Cons.IH [of q'] b
          by (auto simp: lane_out_Cons PRIORITY_STARVATION_RATIO_def)
      qed
    qed
  qed
qed

text \<open>
  C11: Starvation freedom. Whatever is enqueued in between, the \<open>n\<close>-th message waiting in
  the bulk lane has been sent once \<open>11 * n\<close> messages have been asked for: a flood of
  critical and normal traffic delays bulk traffic by a factor of at most eleven.
\<close>

theorem bulk_not_starved:
  assumes "n \<le> length (bulk q)" "11 * n \<le> drains es"
  shows "take n (lane_out Bulk (fst (run_lanes q es))) = take n (bulk q)"
proof -
  have "n * 11 div 11 \<le> (drains es + min (high_priority_since_last_bulk q) PRIORITY_STARVATION_RATIO) div 11"
    using assms(2) by (intro div_le_mono) simp
  then have "n \<le> length (lane_out Bulk (fst (run_lanes q es)))"
    using bulk_progress [of q es] assms(1) by simp
  moreover
  have "bulk q @ lane_in Bulk es =
      lane_out Bulk (fst (run_lanes q es)) @ bulk (snd (run_lanes q es))"
    using lanes_fifo_run [of Bulk q es] by simp
  then have "take n (bulk q @ lane_in Bulk es) =
      take n (lane_out Bulk (fst (run_lanes q es)) @ bulk (snd (run_lanes q es)))" by simp
  ultimately show ?thesis using assms(1) by simp
qed

theorem bulk_not_starved_witness:
  "take 1 (lane_out Bulk (fst (run_lanes
      \<lparr>critical = replicate 20 (0 :: nat), normal = [], bulk = [7], high_priority_since_last_bulk = 0\<rparr>
      (replicate 11 Drain)))) = [7]"
proof -
  have "drains (replicate n (Drain :: nat lane_event)) = n" for n by (induction n) auto
  then show ?thesis
    using bulk_not_starved [of 1
      "\<lparr>critical = replicate 20 (0 :: nat), normal = [], bulk = [7], high_priority_since_last_bulk = 0\<rparr>"
      "replicate 11 Drain"] by simp
qed

section \<open>Backpressure\<close>

record BackpressureConfig =
  tx_dedup_threshold :: nat
  bulk_drop_threshold :: nat
  normal_delay_threshold :: nat

definition BackpressureConfig_default :: BackpressureConfig where
  "BackpressureConfig_default =
     \<lparr>tx_dedup_threshold = 25, bulk_drop_threshold = 50, normal_delay_threshold = 100\<rparr>"

datatype BackpressureLevel = LevelNormal | TxDedup | BulkDrop | NormalDelay

text \<open>The derived order of the enum: by position.\<close>

fun level_rank :: "BackpressureLevel \<Rightarrow> nat" where
  "level_rank LevelNormal = 0"
| "level_rank TxDedup = 1"
| "level_rank BulkDrop = 2"
| "level_rank NormalDelay = 3"

instantiation BackpressureLevel :: linorder
begin

definition less_eq_BackpressureLevel :: "BackpressureLevel \<Rightarrow> BackpressureLevel \<Rightarrow> bool" where
  "less_eq_BackpressureLevel a b \<longleftrightarrow> level_rank a \<le> level_rank b"

definition less_BackpressureLevel :: "BackpressureLevel \<Rightarrow> BackpressureLevel \<Rightarrow> bool" where
  "less_BackpressureLevel a b \<longleftrightarrow> level_rank a < level_rank b"

instance
proof
  fix x y :: BackpressureLevel
  show "x \<le> y \<Longrightarrow> y \<le> x \<Longrightarrow> x = y"
    by (cases x; cases y) (auto simp: less_eq_BackpressureLevel_def)
qed (auto simp: less_eq_BackpressureLevel_def less_BackpressureLevel_def)

end

definition from_depth :: "nat \<Rightarrow> BackpressureConfig \<Rightarrow> BackpressureLevel" where
  "from_depth depth config =
     (if normal_delay_threshold config \<le> depth then NormalDelay
      else if bulk_drop_threshold config \<le> depth then BulkDrop
      else if tx_dedup_threshold config \<le> depth then TxDedup
      else LevelNormal)"

record BackpressureState =
  bp_config :: BackpressureConfig
  seen_tx_ids :: "bytes32 fset"

definition BackpressureState_new :: "BackpressureConfig \<Rightarrow> BackpressureState" where
  "BackpressureState_new config = \<lparr>bp_config = config, seen_tx_ids = {||}\<rparr>"

definition bp_level :: "BackpressureState \<Rightarrow> nat \<Rightarrow> BackpressureLevel" where
  "bp_level s queue_depth = from_depth queue_depth (bp_config s)"

definition should_send_tx :: "bytes32 \<Rightarrow> nat \<Rightarrow> BackpressureState \<Rightarrow> bool \<times> BackpressureState" where
  "should_send_tx tx_id queue_depth s =
     (if bp_level s queue_depth < TxDedup then (True, s)
      else (tx_id |\<notin>| seen_tx_ids s, s\<lparr>seen_tx_ids := finsert tx_id (seen_tx_ids s)\<rparr>))"

definition should_drop_bulk :: "BackpressureState \<Rightarrow> nat \<Rightarrow> bool" where
  "should_drop_bulk s queue_depth \<longleftrightarrow> BulkDrop \<le> bp_level s queue_depth"

definition should_delay_normal :: "BackpressureState \<Rightarrow> nat \<Rightarrow> bool" where
  "should_delay_normal s queue_depth \<longleftrightarrow> NormalDelay \<le> bp_level s queue_depth"

definition reset_tx_dedup :: "BackpressureState \<Rightarrow> BackpressureState" where
  "reset_tx_dedup s = s\<lparr>seen_tx_ids := {||}\<rparr>"

lemmas level_order = less_eq_BackpressureLevel_def less_BackpressureLevel_def

definition ordered_thresholds :: "BackpressureConfig \<Rightarrow> bool" where
  "ordered_thresholds c \<longleftrightarrow> tx_dedup_threshold c \<le> bulk_drop_threshold c
     \<and> bulk_drop_threshold c \<le> normal_delay_threshold c"

text \<open>
  Backpressure escalates. For ordered thresholds (the defaults are) the level never falls
  as the queue grows, each measure sets in exactly at its threshold, and a harsher measure
  implies every milder one.
\<close>

theorem backpressure_escalates:
  assumes "ordered_thresholds (bp_config s)"
  shows "(d \<le> d' \<longrightarrow> bp_level s d \<le> bp_level s d')
    \<and> (should_delay_normal s d \<longleftrightarrow> normal_delay_threshold (bp_config s) \<le> d)
    \<and> (should_drop_bulk s d \<longleftrightarrow> bulk_drop_threshold (bp_config s) \<le> d)
    \<and> (TxDedup \<le> bp_level s d \<longleftrightarrow> tx_dedup_threshold (bp_config s) \<le> d)
    \<and> (should_delay_normal s d \<longrightarrow> should_drop_bulk s d)
    \<and> (should_drop_bulk s d \<longrightarrow> TxDedup \<le> bp_level s d)"
  using assms
  by (auto simp: ordered_thresholds_def bp_level_def from_depth_def should_delay_normal_def
      should_drop_bulk_def level_order)

theorem backpressure_escalates_witness:
  "should_drop_bulk (BackpressureState_new BackpressureConfig_default) 50
   \<and> \<not> should_delay_normal (BackpressureState_new BackpressureConfig_default) 50"
  using backpressure_escalates [of "BackpressureState_new BackpressureConfig_default" 50]
  by (simp add: BackpressureState_new_def BackpressureConfig_default_def ordered_thresholds_def)

text \<open>The transaction announcements a connection lets through, over a sequence of offers.\<close>

fun sent_txs :: "BackpressureState \<Rightarrow> (bytes32 \<times> nat) list \<Rightarrow> bytes32 list" where
  "sent_txs s [] = []"
| "sent_txs s ((tx, depth) # offers) =
     (case should_send_tx tx depth s of
        (True, s') \<Rightarrow> tx # sent_txs s' offers
      | (False, s') \<Rightarrow> sent_txs s' offers)"

lemma bp_config_should_send [simp]: "bp_config (snd (should_send_tx tx d s)) = bp_config s"
  by (simp add: should_send_tx_def)

lemma sent_txs_dedup:
  assumes "list_all (\<lambda>(tx, d). TxDedup \<le> bp_level s d) offers"
  shows "distinct (sent_txs s offers)
    \<and> set (sent_txs s offers) = fst ` set offers - fset (seen_tx_ids s)"
  using assms
proof (induction offers arbitrary: s)
  case Nil
  then show ?case by simp
next
  case (Cons o' offers)
  obtain tx d where o': "o' = (tx, d)" by fastforce
  let ?s = "s\<lparr>seen_tx_ids := finsert tx (seen_tx_ids s)\<rparr>"
  have send: "should_send_tx tx d s = (tx |\<notin>| seen_tx_ids s, ?s)"
    using Cons.prems o' by (auto simp: should_send_tx_def not_less)
  have "list_all (\<lambda>(tx, d). TxDedup \<le> bp_level ?s d) offers"
    using Cons.prems by (simp add: bp_level_def)
  note IH = Cons.IH [OF this]
  show ?case using IH o' send by (cases "tx |\<in>| seen_tx_ids s") auto
qed

text \<open>
  Duplicate suppression. While a connection is at or above the dedup threshold, the
  transaction announcements that pass are exactly the ids not announced before, each once and in
  the order offered first; nothing new is suppressed and nothing passes twice.
\<close>

theorem tx_dedup_exact:
  assumes "list_all (\<lambda>(tx, d). tx_dedup_threshold (bp_config s) \<le> d) offers"
    and "ordered_thresholds (bp_config s)"
  shows "distinct (sent_txs s offers)
    \<and> set (sent_txs s offers) = fst ` set offers - fset (seen_tx_ids s)
    \<and> subseq (sent_txs s offers) (map fst offers)"
proof -
  have "TxDedup \<le> bp_level s d" if "tx_dedup_threshold (bp_config s) \<le> d" for d
    using that assms(2)
    by (auto simp: bp_level_def from_depth_def ordered_thresholds_def level_order)
  then have "list_all (\<lambda>(tx, d). TxDedup \<le> bp_level s d) offers"
    using assms(1) by (auto simp: list_all_iff)
  moreover have "subseq (sent_txs s offers) (map fst offers)"
    by (induction s offers rule: sent_txs.induct) (auto split: prod.splits bool.splits)
  ultimately show ?thesis using sent_txs_dedup by blast
qed

theorem tx_dedup_exact_witness:
  "set (sent_txs (BackpressureState_new BackpressureConfig_default) [([1], 30), ([1], 40), ([2], 25)])
     = {[1], [2]}"
proof -
  have "set (sent_txs (BackpressureState_new BackpressureConfig_default) [([1], 30), ([1], 40), ([2], 25)])
     = fst ` set [([1], 30 :: nat), ([1], 40), ([2], 25)]
       - fset (seen_tx_ids (BackpressureState_new BackpressureConfig_default))"
    by (rule tx_dedup_exact [THEN conjunct2, THEN conjunct1])
      (simp_all add: BackpressureState_new_def BackpressureConfig_default_def ordered_thresholds_def)
  then show ?thesis
    by (simp add: BackpressureState_new_def del: sent_txs.simps)
qed

end
