(* ===== verification/Store_Melted.thy ===== *)
theory Store_Melted
  imports Dig_Message
begin

text \<open>
  The store-melted broadcast, opcode 221 (\<open>service/store_melted.rs\<close>): the fixed-length
  announcement, its signature preimage, and its framing. SHA-256 and the BLS primitives of
  \<open>dig_tls\<close> are parameters: \<open>sha\<close>, \<open>sign_message\<close> and \<open>verify_signature\<close>.
\<close>

definition STORE_MELTED :: u8 where
  "STORE_MELTED = 221"

definition STORE_MELTED_SIG_DOMAIN_TAG :: bytes where
  "STORE_MELTED_SIG_DOMAIN_TAG = ascii ''dig:store-melted:v1''"

definition STORE_MELTED_ENCODED_LEN :: nat where
  "STORE_MELTED_ENCODED_LEN = 32 + 4 + 32 + 96"

record StoreMeltedAnnounce =
  sm_store_id :: bytes32
  sm_melt_height :: u32
  sm_sender_peer_id :: bytes32
  sm_signature :: bytes

definition wf_store_melted :: "StoreMeltedAnnounce \<Rightarrow> bool" where
  "wf_store_melted a \<longleftrightarrow> length (sm_store_id a) = 32 \<and> length (sm_sender_peer_id a) = 32
     \<and> length (sm_signature a) = 96"

definition sig_preimage :: "(bytes \<Rightarrow> bytes32) \<Rightarrow> bytes32 \<Rightarrow> u32 \<Rightarrow> bytes32" where
  "sig_preimage sha store_id melt_height =
     sha (STORE_MELTED_SIG_DOMAIN_TAG @ store_id @ be32 melt_height)"

definition sign ::
  "(bytes \<Rightarrow> bytes32) \<Rightarrow> ('sk \<Rightarrow> bytes \<Rightarrow> bytes) \<Rightarrow> 'sk \<Rightarrow> bytes32 \<Rightarrow> u32 \<Rightarrow> bytes" where
  "sign sha sign_message sk store_id melt_height =
     sign_message sk (sig_preimage sha store_id melt_height)"

definition new_signed ::
  "(bytes \<Rightarrow> bytes32) \<Rightarrow> ('sk \<Rightarrow> bytes \<Rightarrow> bytes) \<Rightarrow> 'sk \<Rightarrow> bytes32 \<Rightarrow> u32 \<Rightarrow> bytes32
     \<Rightarrow> StoreMeltedAnnounce" where
  "new_signed sha sign_message sk store_id melt_height sender_peer_id =
     \<lparr>sm_store_id = store_id, sm_melt_height = melt_height, sm_sender_peer_id = sender_peer_id,
      sm_signature = sign sha sign_message sk store_id melt_height\<rparr>"

definition store_melted_verify ::
  "(bytes \<Rightarrow> bytes32) \<Rightarrow> ('pk \<Rightarrow> bytes \<Rightarrow> bytes \<Rightarrow> bool) \<Rightarrow> StoreMeltedAnnounce \<Rightarrow> 'pk \<Rightarrow> bool" where
  "store_melted_verify sha verify_signature a signer_pk =
     verify_signature signer_pk (sig_preimage sha (sm_store_id a) (sm_melt_height a)) (sm_signature a)"

definition store_melted_encode :: "StoreMeltedAnnounce \<Rightarrow> bytes" where
  "store_melted_encode a =
     sm_store_id a @ be32 (sm_melt_height a) @ sm_sender_peer_id a @ sm_signature a"

definition store_melted_decode :: "bytes \<Rightarrow> StoreMeltedAnnounce option" where
  "store_melted_decode bs =
     (if length bs \<noteq> STORE_MELTED_ENCODED_LEN then None
      else Some \<lparr>sm_store_id = slice_of bs 0 32,
                 sm_melt_height = of_nat (nat_of_be (slice_of bs 32 36)),
                 sm_sender_peer_id = slice_of bs 36 68,
                 sm_signature = slice_of bs 68 164\<rparr>)"

definition is_store_melted :: "u8 \<Rightarrow> bool" where
  "is_store_melted ty \<longleftrightarrow> ty = STORE_MELTED"

definition store_melted_payload :: "DigMessage \<Rightarrow> StoreMeltedAnnounce option" where
  "store_melted_payload msg =
     (if is_store_melted (msg_type msg) then store_melted_decode (data msg) else None)"

definition frame_store_melted :: "StoreMeltedAnnounce \<Rightarrow> DigMessage" where
  "frame_store_melted a =
     \<lparr>msg_type = STORE_MELTED, msg_id = None, data = store_melted_encode a\<rparr>"

lemma store_melted_decode_iff:
  "store_melted_decode bs = Some a \<longleftrightarrow> wf_store_melted a \<and> store_melted_encode a = bs"
proof
  assume d: "store_melted_decode bs = Some a"
  then have len: "length bs = 164"
    by (simp add: store_melted_decode_def STORE_MELTED_ENCODED_LEN_def split: if_splits)
  have "slice_of bs 0 32 @ slice_of bs 32 36 @ slice_of bs 36 68 @ slice_of bs 68 164 = bs"
    using slice_of_all [of bs] by (simp add: slice_of_join len)
  then show "wf_store_melted a \<and> store_melted_encode a = bs"
    using d len
    by (auto simp: store_melted_decode_def store_melted_encode_def wf_store_melted_def
        STORE_MELTED_ENCODED_LEN_def be32_of_be split: if_splits)
next
  assume "wf_store_melted a \<and> store_melted_encode a = bs"
  then have "wf_store_melted a" and bs: "bs = store_melted_encode a" by auto
  then show "store_melted_decode bs = Some a"
    by (simp add: store_melted_decode_def store_melted_encode_def wf_store_melted_def
        STORE_MELTED_ENCODED_LEN_def slice_of_def)
qed

interpretation store_melted: framed_message store_melted_encode store_melted_decode wf_store_melted
  STORE_MELTED frame_store_melted store_melted_payload
  by unfold_locales
    (simp_all add: store_melted_decode_iff frame_store_melted_def store_melted_payload_def
      is_store_melted_def)

section \<open>Signatures\<close>

lemma preimage_bytes_inj:
  assumes "length s = 32" "length s' = 32"
    and "STORE_MELTED_SIG_DOMAIN_TAG @ s @ be32 h = STORE_MELTED_SIG_DOMAIN_TAG @ s' @ be32 h'"
  shows "s = s' \<and> h = h'"
  using assms by auto

text \<open>
  What a store-melted signature binds. Whenever an announcement \<open>a\<close> is accepted with a
  signature that was made for \<open>(store_id, melt_height)\<close> and a signature verifies only for
  the message it was made for, either \<open>a\<close> names exactly that store and height, or the two
  different preimages collide under the hash.
\<close>

theorem store_melted_signature_binds:
  fixes sha :: "bytes \<Rightarrow> bytes32" and sign_message :: "'sk \<Rightarrow> bytes \<Rightarrow> bytes"
    and verify_signature :: "'pk \<Rightarrow> bytes \<Rightarrow> bytes \<Rightarrow> bool"
  assumes sound: "\<And>m m'. verify_signature pk m' (sign_message sk m) \<longleftrightarrow> m' = m"
    and "length store_id = 32" "length (sm_store_id a) = 32"
    and sig: "sm_signature a = sign sha sign_message sk store_id melt_height"
  shows "store_melted_verify sha verify_signature a pk \<longleftrightarrow>
      (sm_store_id a = store_id \<and> sm_melt_height a = melt_height)
      \<or> (STORE_MELTED_SIG_DOMAIN_TAG @ sm_store_id a @ be32 (sm_melt_height a)
           \<noteq> STORE_MELTED_SIG_DOMAIN_TAG @ store_id @ be32 melt_height
         \<and> sig_preimage sha (sm_store_id a) (sm_melt_height a) = sig_preimage sha store_id melt_height)"
proof -
  have "store_melted_verify sha verify_signature a pk \<longleftrightarrow>
      sig_preimage sha (sm_store_id a) (sm_melt_height a) = sig_preimage sha store_id melt_height"
    by (simp add: store_melted_verify_def sig sign_def sound)
  then show ?thesis
    using preimage_bytes_inj [of "sm_store_id a" store_id "sm_melt_height a" melt_height] assms(2,3)
    by (auto simp: sig_preimage_def)
qed

theorem store_melted_signature_binds_witness:
  "store_melted_verify id (\<lambda>(pk :: nat) m s. s = m)
     (new_signed id (\<lambda>(sk :: nat) m. m) 0 (replicate 32 1) 9 (replicate 32 2)) 0
   \<and> \<not> store_melted_verify id (\<lambda>(pk :: nat) m s. s = m)
     ((new_signed id (\<lambda>(sk :: nat) m. m) 0 (replicate 32 1) 9 (replicate 32 2))\<lparr>sm_melt_height := 8\<rparr>) 0"
proof -
  let ?a = "new_signed id (\<lambda>(sk :: nat) m. m) 0 (replicate 32 1) 9 (replicate 32 2)"
  have "store_melted_verify id (\<lambda>(pk :: nat) m s. s = m) ?a 0"
    by (rule store_melted_signature_binds
        [of "\<lambda>pk m s. s = m" 0 "\<lambda>sk m. m" 0 "replicate 32 1" ?a id 9, THEN iffD2])
      (auto simp: new_signed_def)
  moreover have "\<not> store_melted_verify id (\<lambda>(pk :: nat) m s. s = m) (?a\<lparr>sm_melt_height := 8\<rparr>) 0"
    by (subst store_melted_signature_binds
        [of "\<lambda>pk m s. s = m" 0 "\<lambda>sk m. m" 0 "replicate 32 1" "?a\<lparr>sm_melt_height := 8\<rparr>" id 9])
      (auto simp: new_signed_def sig_preimage_def)
  ultimately show ?thesis by simp
qed

end
