(* ===== verification/Profile_Sync.thy ===== *)
theory Profile_Sync
  imports Dig_Message
begin

text \<open>
  The profile-sync exchange, opcodes 223, 224 and 225 (\<open>service/profile_sync.rs\<close>): the
  fixed-length root reference shared by the announce and the request, and the length-prefixed
  body frame with its 1 MiB cap.
\<close>

definition PROFILE_ROOT_ANNOUNCE :: u8 where "PROFILE_ROOT_ANNOUNCE = 223"
definition PROFILE_BODY_REQUEST :: u8 where "PROFILE_BODY_REQUEST = 224"
definition PROFILE_BODY :: u8 where "PROFILE_BODY = 225"

definition PROFILE_ENCODED_LEN :: nat where
  "PROFILE_ENCODED_LEN = 64"

definition MAX_PROFILE_BODY_FRAME_BYTES :: nat where
  "MAX_PROFILE_BODY_FRAME_BYTES = 1024 * 1024"

definition BODY_FRAME_HEADER_LEN :: nat where
  "BODY_FRAME_HEADER_LEN = PROFILE_ENCODED_LEN + 4"

definition MAX_PROFILE_BODY_BYTES :: nat where
  "MAX_PROFILE_BODY_BYTES = MAX_PROFILE_BODY_FRAME_BYTES - BODY_FRAME_HEADER_LEN"

lemmas profile_consts = PROFILE_ENCODED_LEN_def MAX_PROFILE_BODY_FRAME_BYTES_def
  BODY_FRAME_HEADER_LEN_def MAX_PROFILE_BODY_BYTES_def

section \<open>Root references\<close>

record ProfileRootRef =
  pr_store_id :: bytes32
  pr_root :: bytes32

definition wf_root_ref :: "ProfileRootRef \<Rightarrow> bool" where
  "wf_root_ref r \<longleftrightarrow> length (pr_store_id r) = 32 \<and> length (pr_root r) = 32"

definition root_ref_encode :: "ProfileRootRef \<Rightarrow> bytes" where
  "root_ref_encode r = pr_store_id r @ pr_root r"

definition root_ref_decode :: "bytes \<Rightarrow> ProfileRootRef option" where
  "root_ref_decode bs =
     (if length bs \<noteq> PROFILE_ENCODED_LEN then None
      else Some \<lparr>pr_store_id = slice_of bs 0 32, pr_root = slice_of bs 32 64\<rparr>)"

definition is_profile_root_announce :: "u8 \<Rightarrow> bool" where
  "is_profile_root_announce ty \<longleftrightarrow> ty = PROFILE_ROOT_ANNOUNCE"

definition is_profile_body_request :: "u8 \<Rightarrow> bool" where
  "is_profile_body_request ty \<longleftrightarrow> ty = PROFILE_BODY_REQUEST"

definition profile_root_announce_payload :: "DigMessage \<Rightarrow> ProfileRootRef option" where
  "profile_root_announce_payload msg =
     (if is_profile_root_announce (msg_type msg) then root_ref_decode (data msg) else None)"

definition profile_body_request_payload :: "DigMessage \<Rightarrow> ProfileRootRef option" where
  "profile_body_request_payload msg =
     (if is_profile_body_request (msg_type msg) then root_ref_decode (data msg) else None)"

definition frame_profile_root_announce :: "ProfileRootRef \<Rightarrow> DigMessage" where
  "frame_profile_root_announce r =
     \<lparr>msg_type = PROFILE_ROOT_ANNOUNCE, msg_id = None, data = root_ref_encode r\<rparr>"

definition frame_profile_body_request :: "ProfileRootRef \<Rightarrow> DigMessage" where
  "frame_profile_body_request r =
     \<lparr>msg_type = PROFILE_BODY_REQUEST, msg_id = None, data = root_ref_encode r\<rparr>"

lemma root_ref_decode_iff:
  "root_ref_decode bs = Some r \<longleftrightarrow> wf_root_ref r \<and> root_ref_encode r = bs"
proof
  assume d: "root_ref_decode bs = Some r"
  then have len: "length bs = 64"
    by (simp add: root_ref_decode_def profile_consts split: if_splits)
  have "slice_of bs 0 32 @ slice_of bs 32 64 = bs"
    using slice_of_all [of bs] by (simp add: slice_of_join len)
  then show "wf_root_ref r \<and> root_ref_encode r = bs"
    using d len
    by (auto simp: root_ref_decode_def root_ref_encode_def wf_root_ref_def profile_consts
        split: if_splits)
next
  assume "wf_root_ref r \<and> root_ref_encode r = bs"
  then have "wf_root_ref r" and bs: "bs = root_ref_encode r" by auto
  then show "root_ref_decode bs = Some r"
    by (simp add: root_ref_decode_def root_ref_encode_def wf_root_ref_def profile_consts slice_of_def)
qed

interpretation root_announce: framed_message root_ref_encode root_ref_decode wf_root_ref
  PROFILE_ROOT_ANNOUNCE frame_profile_root_announce profile_root_announce_payload
  by unfold_locales
    (simp_all add: root_ref_decode_iff frame_profile_root_announce_def
      profile_root_announce_payload_def is_profile_root_announce_def)

interpretation body_request: framed_message root_ref_encode root_ref_decode wf_root_ref
  PROFILE_BODY_REQUEST frame_profile_body_request profile_body_request_payload
  by unfold_locales
    (simp_all add: frame_profile_body_request_def profile_body_request_payload_def
      is_profile_body_request_def)

section \<open>Profile bodies\<close>

record ProfileBody =
  pb_store_id :: bytes32
  pb_root :: bytes32
  pb_body :: bytes

definition encoded_len :: "ProfileBody \<Rightarrow> nat" where
  "encoded_len b = BODY_FRAME_HEADER_LEN + length (pb_body b)"

definition fits_frame_cap :: "ProfileBody \<Rightarrow> bool" where
  "fits_frame_cap b \<longleftrightarrow> encoded_len b \<le> MAX_PROFILE_BODY_FRAME_BYTES"

definition profile_body_encode :: "ProfileBody \<Rightarrow> bytes" where
  "profile_body_encode b =
     pb_store_id b @ pb_root b @ be32 (of_nat (length (pb_body b))) @ pb_body b"

definition profile_body_decode :: "bytes \<Rightarrow> ProfileBody option" where
  "profile_body_decode bs =
     (if MAX_PROFILE_BODY_FRAME_BYTES < length bs then None
      else if length bs < BODY_FRAME_HEADER_LEN then None
      else let store_id = slice_of bs 0 32;
               root = slice_of bs 32 64;
               declared = unat (of_nat (nat_of_be (slice_of bs 64 68)) :: u32);
               actual = length bs - BODY_FRAME_HEADER_LEN
           in if declared \<noteq> actual then None
              else Some \<lparr>pb_store_id = store_id, pb_root = root,
                         pb_body = drop BODY_FRAME_HEADER_LEN bs\<rparr>)"

definition is_profile_body :: "u8 \<Rightarrow> bool" where
  "is_profile_body ty \<longleftrightarrow> ty = PROFILE_BODY"

definition profile_body_payload :: "DigMessage \<Rightarrow> ProfileBody option" where
  "profile_body_payload msg =
     (if is_profile_body (msg_type msg) then profile_body_decode (data msg) else None)"

definition frame_profile_body :: "ProfileBody \<Rightarrow> DigMessage option" where
  "frame_profile_body b =
     (if \<not> fits_frame_cap b then None
      else Some \<lparr>msg_type = PROFILE_BODY, msg_id = None, data = profile_body_encode b\<rparr>)"

definition wf_profile_body :: "ProfileBody \<Rightarrow> bool" where
  "wf_profile_body b \<longleftrightarrow> length (pb_store_id b) = 32 \<and> length (pb_root b) = 32 \<and> fits_frame_cap b"

lemma fits_frame_cap_iff: "fits_frame_cap b \<longleftrightarrow> length (pb_body b) \<le> MAX_PROFILE_BODY_BYTES"
  by (auto simp: fits_frame_cap_def encoded_len_def profile_consts)

lemma length_profile_body_encode:
  assumes "length (pb_store_id b) = 32" "length (pb_root b) = 32"
  shows "length (profile_body_encode b) = encoded_len b"
  using assms by (simp add: profile_body_encode_def encoded_len_def profile_consts)

lemma profile_body_decode_encode:
  assumes "wf_profile_body b"
  shows "profile_body_decode (profile_body_encode b) = Some b"
proof -
  let ?n = "length (pb_body b)"
  have n: "?n \<le> 1048508" "length (pb_store_id b) = 32" "length (pb_root b) = 32"
    using assms by (auto simp: wf_profile_body_def fits_frame_cap_iff profile_consts)
  have "unat (of_nat ?n :: u32) = ?n" using n(1) by (simp add: unat_of_nat)
  then show ?thesis
    using n by (simp add: profile_body_decode_def profile_body_encode_def profile_consts slice_of_def Let_def)
qed

lemma profile_body_decode_sound:
  assumes "profile_body_decode bs = Some b"
  shows "wf_profile_body b \<and> profile_body_encode b = bs"
proof -
  have len: "68 \<le> length bs" "length bs \<le> 1048576"
    and decl: "unat (of_nat (nat_of_be (slice_of bs 64 68)) :: u32) = length bs - 68"
    and b: "b = \<lparr>pb_store_id = slice_of bs 0 32, pb_root = slice_of bs 32 64, pb_body = drop 68 bs\<rparr>"
    using assms by (auto simp: profile_body_decode_def profile_consts Let_def split: if_splits)
  have "(of_nat (length bs - 68) :: u32) = of_nat (nat_of_be (slice_of bs 64 68))"
    using decl len nat_of_be_unat(2) [of "slice_of bs 64 68"] by simp
  then have field: "be32 (of_nat (length bs - 68)) = slice_of bs 64 68"
    using len be32_of_be [of "slice_of bs 64 68"] by simp
  have "slice_of bs 0 32 @ slice_of bs 32 64 @ slice_of bs 64 68 @ drop 68 bs = bs"
    using slice_of_join [of 0 32 64 bs] slice_of_join [of 0 64 68 bs]
    by (simp add: slice_of_def flip: append_assoc)
  then show ?thesis
    using len b field
    by (auto simp: wf_profile_body_def profile_body_encode_def fits_frame_cap_iff profile_consts)
qed

interpretation profile_body_codec: strict_codec profile_body_encode profile_body_decode wf_profile_body
  by unfold_locales (use profile_body_decode_encode profile_body_decode_sound in blast)

text \<open>
  The 225 frame. What a receiver lifts is exactly what a sender may build: the payload is
  decoded if and only if the frame is the one \<open>frame_profile_body\<close> builds for the decoded
  body (up to the correlation id), so truncated frames, trailing bytes, a length field that lies
  in either direction and frames over the cap are all refused, and a frame over the cap is
  never built.
\<close>

theorem profile_body_frame_exact:
  "profile_body_payload msg = Some b \<longleftrightarrow>
     frame_profile_body b = Some (msg\<lparr>msg_id := None\<rparr>)
     \<and> length (pb_store_id b) = 32 \<and> length (pb_root b) = 32
     \<and> length (data msg) \<le> MAX_PROFILE_BODY_FRAME_BYTES"
proof -
  have "profile_body_payload msg = Some b \<longleftrightarrow>
      msg_type msg = PROFILE_BODY \<and> wf_profile_body b \<and> data msg = profile_body_encode b"
    using profile_body_codec.decode_iff [of "data msg" b]
    by (auto simp: profile_body_payload_def is_profile_body_def)
  also have "\<dots> \<longleftrightarrow> frame_profile_body b = Some (msg\<lparr>msg_id := None\<rparr>)
     \<and> length (pb_store_id b) = 32 \<and> length (pb_root b) = 32
     \<and> length (data msg) \<le> MAX_PROFILE_BODY_FRAME_BYTES"
    using length_profile_body_encode [of b]
    by (cases msg) (auto simp: frame_profile_body_def wf_profile_body_def fits_frame_cap_def)
  finally show ?thesis .
qed

end
