(* ===== verification/Distributor_Announce.thy ===== *)
theory Distributor_Announce
  imports Dig_Message
begin

text \<open>
  The distributor-announce broadcast, opcode 226 (\<open>service/distributor_announce.rs\<close>): the
  counted list of launcher ids, its decoder, and the receiver's hint cache with its age-based
  eviction.
\<close>

definition DISTRIBUTOR_ANNOUNCE :: u8 where
  "DISTRIBUTOR_ANNOUNCE = 226"

definition MAX_LAUNCHER_IDS_PER_ANNOUNCE :: nat where
  "MAX_LAUNCHER_IDS_PER_ANNOUNCE = 32"

definition MAX_DISTRIBUTOR_ANNOUNCE_BODY_BYTES :: nat where
  "MAX_DISTRIBUTOR_ANNOUNCE_BODY_BYTES = 32 + 2 + MAX_LAUNCHER_IDS_PER_ANNOUNCE * 32"

definition MAX_RETAINED_HINTS_PER_PEER :: nat where
  "MAX_RETAINED_HINTS_PER_PEER = 64"

datatype DistributorAnnounceError = TooManyLauncherIds nat

record DistributorAnnounce =
  da_store_id :: bytes32
  da_launcher_ids :: "bytes32 list"

definition DistributorAnnounce_new ::
  "bytes32 \<Rightarrow> bytes32 list \<Rightarrow> DistributorAnnounceError + DistributorAnnounce" where
  "DistributorAnnounce_new store_id launcher_ids =
     (if MAX_LAUNCHER_IDS_PER_ANNOUNCE < length launcher_ids
      then Inl (TooManyLauncherIds (length launcher_ids))
      else Inr \<lparr>da_store_id = store_id, da_launcher_ids = launcher_ids\<rparr>)"

definition distributor_encode :: "DistributorAnnounce \<Rightarrow> bytes" where
  "distributor_encode a =
     da_store_id a @ be16 (of_nat (length (da_launcher_ids a))) @ concat (da_launcher_ids a)"

definition distributor_decode :: "bytes \<Rightarrow> DistributorAnnounce option" where
  "distributor_decode bs =
     do { (store_id, pos) \<leftarrow> take_32 bs 0;
          (count, pos) \<leftarrow> take_u16 bs pos;
          if MAX_LAUNCHER_IDS_PER_ANNOUNCE < unat count then None
          else do {
            (launcher_ids, pos) \<leftarrow> take_list take_32 (unat count) bs pos;
            if pos \<noteq> length bs then None
            else Some \<lparr>da_store_id = store_id, da_launcher_ids = launcher_ids\<rparr> } }"

definition is_distributor_announce :: "u8 \<Rightarrow> bool" where
  "is_distributor_announce ty \<longleftrightarrow> ty = DISTRIBUTOR_ANNOUNCE"

definition distributor_announce_payload :: "DigMessage \<Rightarrow> DistributorAnnounce option" where
  "distributor_announce_payload msg =
     (if is_distributor_announce (msg_type msg) then distributor_decode (data msg) else None)"

definition frame_distributor_announce :: "DistributorAnnounce \<Rightarrow> DigMessage" where
  "frame_distributor_announce a =
     \<lparr>msg_type = DISTRIBUTOR_ANNOUNCE, msg_id = None, data = distributor_encode a\<rparr>"

definition wf_distributor :: "DistributorAnnounce \<Rightarrow> bool" where
  "wf_distributor a \<longleftrightarrow> length (da_store_id a) = 32
     \<and> list_all (\<lambda>l. length l = 32) (da_launcher_ids a)
     \<and> length (da_launcher_ids a) \<le> MAX_LAUNCHER_IDS_PER_ANNOUNCE"

section \<open>The codec\<close>

interpretation reader32: wire_reader "\<lambda>x :: bytes32. x" take_32 "\<lambda>x. length x = 32"
  by unfold_locales (auto simp: take_32_iff)

lemma unat_small16: "n \<le> 1000 \<Longrightarrow> unat (of_nat n :: u16) = n"
  by (simp add: unat_of_nat)

lemma distributor_decode_steps:
  "distributor_decode bs = Some a \<longleftrightarrow>
     (\<exists>count. length (da_store_id a) = 32 \<and> holds bs 0 (da_store_id a) \<and> holds bs 32 (be16 count)
        \<and> unat count \<le> MAX_LAUNCHER_IDS_PER_ANNOUNCE
        \<and> take_list take_32 (unat count) bs 34 = Some (da_launcher_ids a, length bs))"
  by (cases a)
    (auto 4 4 simp: distributor_decode_def bind_eq_Some_conv take_32_iff take_u16_iff not_less
      split: if_splits)

lemma distributor_decode_iff:
  "distributor_decode bs = Some a \<longleftrightarrow> wf_distributor a \<and> distributor_encode a = bs"
proof -
  let ?ls = "da_launcher_ids a"
  have "distributor_decode bs = Some a \<longleftrightarrow>
     (\<exists>count. length (da_store_id a) = 32 \<and> holds bs 0 (da_store_id a) \<and> holds bs 32 (be16 count)
        \<and> unat count \<le> MAX_LAUNCHER_IDS_PER_ANNOUNCE \<and> length ?ls = unat count
        \<and> list_all (\<lambda>l. length l = 32) ?ls \<and> holds bs 34 (concat ?ls)
        \<and> length bs = 34 + length (concat ?ls))"
    unfolding distributor_decode_steps
    by (rule ex_cong) (auto simp: reader32.read_list_iff list_all_iff dest: holds_le)
  also have "\<dots> \<longleftrightarrow> wf_distributor a \<and> holds bs 0 (distributor_encode a)
        \<and> length (distributor_encode a) = length bs"
    by (auto simp: wf_distributor_def distributor_encode_def holds_append unat_small16
        MAX_LAUNCHER_IDS_PER_ANNOUNCE_def)
  also have "\<dots> \<longleftrightarrow> wf_distributor a \<and> distributor_encode a = bs"
    using holds_whole [of bs "distributor_encode a"] by auto
  finally show ?thesis .
qed

interpretation distributor: framed_message distributor_encode distributor_decode wf_distributor
  DISTRIBUTOR_ANNOUNCE frame_distributor_announce distributor_announce_payload
  by unfold_locales
    (simp_all add: distributor_decode_iff frame_distributor_announce_def
      distributor_announce_payload_def is_distributor_announce_def)

lemma length_concat_32: "list_all (\<lambda>l. length l = n) ls \<Longrightarrow> length (concat ls) = length ls * n"
  by (induction ls) auto

text \<open>
  The 226 frame. A message lifts to an announcement exactly when it carries opcode 226 and
  its bytes are that announcement's encoding, with at most 32 launcher ids of 32 bytes each; so
  trailing bytes, short frames and counts over the cap are refused, and every lifted body is
  within the size bound the rate limiter enforces.
\<close>

theorem distributor_frame_exact:
  "distributor_announce_payload msg = Some a \<longleftrightarrow>
     frame_distributor_announce a = msg\<lparr>msg_id := None\<rparr> \<and> wf_distributor a
     \<and> length (data msg) \<le> MAX_DISTRIBUTOR_ANNOUNCE_BODY_BYTES"
proof -
  have "length (distributor_encode a) \<le> MAX_DISTRIBUTOR_ANNOUNCE_BODY_BYTES" if "wf_distributor a"
    using that length_concat_32 [of 32 "da_launcher_ids a"]
    by (simp add: wf_distributor_def distributor_encode_def MAX_DISTRIBUTOR_ANNOUNCE_BODY_BYTES_def)
  then show ?thesis
    by (cases msg) (auto simp: distributor.lift_iff frame_distributor_announce_def)
qed

section \<open>The hint cache\<close>

record DistributorHintCache =
  order :: "(bytes32 \<times> bytes32) list"
  seen :: "(bytes32 \<times> bytes32) fset"

definition hint_cache_new :: DistributorHintCache where
  "hint_cache_new = \<lparr>order = [], seen = {||}\<rparr>"

text \<open>The inner \<open>while\<close>: pop the oldest entries while over the retention cap.\<close>

function age_out :: "DistributorHintCache \<Rightarrow> DistributorHintCache" where
  "age_out c =
     (if MAX_RETAINED_HINTS_PER_PEER < length (order c)
      then age_out (case order c of
                      evicted # rest \<Rightarrow> \<lparr>order = rest, seen = seen c |-| {|evicted|}\<rparr>
                    | [] \<Rightarrow> c)
      else c)"
  by pat_completeness auto
termination
  by (relation "measure (\<lambda>c. length (order c))")
    (auto simp: MAX_RETAINED_HINTS_PER_PEER_def split: list.splits)

declare age_out.simps [simp del]

definition union_key :: "bytes32 \<times> bytes32 \<Rightarrow> DistributorHintCache \<Rightarrow> DistributorHintCache" where
  "union_key key c =
     (if key |\<in>| seen c then c
      else age_out \<lparr>order = order c @ [key], seen = finsert key (seen c)\<rparr>)"

definition hint_cache_union :: "DistributorHintCache \<Rightarrow> DistributorAnnounce \<Rightarrow> DistributorHintCache" where
  "hint_cache_union c a =
     fold (\<lambda>launcher_id. union_key (da_store_id a, launcher_id)) (da_launcher_ids a) c"

definition hints_for_store :: "DistributorHintCache \<Rightarrow> bytes32 \<Rightarrow> bytes32 list" where
  "hints_for_store c store_id =
     sort (map snd (filter (\<lambda>(s, _). s = store_id) (order c)))"

definition hint_cache_len :: "DistributorHintCache \<Rightarrow> nat" where
  "hint_cache_len c = length (order c)"

definition wf_hint_cache :: "DistributorHintCache \<Rightarrow> bool" where
  "wf_hint_cache c \<longleftrightarrow> distinct (order c) \<and> seen c = fset_of_list (order c)
     \<and> length (order c) \<le> MAX_RETAINED_HINTS_PER_PEER"

lemma seen_iff: "wf_hint_cache c \<Longrightarrow> key |\<in>| seen c \<longleftrightarrow> key \<in> set (order c)"
  by (simp add: wf_hint_cache_def fset_of_list_elem)

lemma age_out_le: "length (order c) \<le> MAX_RETAINED_HINTS_PER_PEER \<Longrightarrow> age_out c = c"
  by (simp add: age_out.simps [of c])

lemma age_out_one:
  "length xs = MAX_RETAINED_HINTS_PER_PEER \<Longrightarrow>
     age_out \<lparr>order = x # xs, seen = S\<rparr> = \<lparr>order = xs, seen = S |-| {|x|}\<rparr>"
  by (simp add: age_out.simps [of "\<lparr>order = x # xs, seen = S\<rparr>"] age_out_le)

text \<open>One insertion on a well-formed cache: a no-op, an append, or an append that drops the head.\<close>

lemma union_key_cases:
  assumes "wf_hint_cache c"
  shows "wf_hint_cache (union_key key c) \<and>
    order (union_key key c) =
      (if key \<in> set (order c) then order c
       else if length (order c) < MAX_RETAINED_HINTS_PER_PEER then order c @ [key]
       else tl (order c) @ [key])"
proof (cases "key \<in> set (order c)")
  case True
  then have "key |\<in>| seen c" using assms by (simp add: seen_iff)
  then show ?thesis using assms True by (simp add: union_key_def)
next
  case False
  then have new: "key |\<notin>| seen c" using assms by (simp add: seen_iff)
  show ?thesis
  proof (cases "length (order c) < MAX_RETAINED_HINTS_PER_PEER")
    case True
    then show ?thesis
      using assms False new
      by (auto simp: union_key_def age_out_le wf_hint_cache_def)
  next
    case full: False
    then have len: "length (order c) = MAX_RETAINED_HINTS_PER_PEER"
      using assms by (simp add: wf_hint_cache_def)
    then obtain x xs where xs: "order c = x # xs"
      by (cases "order c") (auto simp: MAX_RETAINED_HINTS_PER_PEER_def)
    have u: "union_key key c = \<lparr>order = xs @ [key], seen = finsert key (seen c) |-| {|x|}\<rparr>"
      using new len xs by (simp add: union_key_def age_out_one)
    have "finsert key (seen c) |-| {|x|} = fset_of_list (xs @ [key])"
      using assms xs False by (auto simp: wf_hint_cache_def fset_of_list_elem)
    then show ?thesis
      using assms False full len xs u by (auto simp: wf_hint_cache_def)
  qed
qed

text \<open>
  \<open>ages old new keys\<close>: \<open>new\<close> arises from \<open>old\<close> by dropping some number of
  oldest entries, only at capacity, and appending entries among \<open>keys\<close>.
\<close>

definition ages :: "'a list \<Rightarrow> 'a list \<Rightarrow> 'a set \<Rightarrow> bool" where
  "ages old new keys \<longleftrightarrow>
     (\<exists>n added. new = drop n old @ added \<and> n \<le> length old \<and> set added \<subseteq> keys
        \<and> (n \<noteq> 0 \<longrightarrow> length new = MAX_RETAINED_HINTS_PER_PEER))"

lemma ages_step:
  assumes "wf_hint_cache c"
  shows "ages (order c) (order (union_key key c)) {key}"
proof -
  consider (old) "order (union_key key c) = order c"
    | (add) "order (union_key key c) = order c @ [key]"
    | (age) "length (order c) = MAX_RETAINED_HINTS_PER_PEER"
        "order (union_key key c) = tl (order c) @ [key]"
    using union_key_cases [OF assms, of key] assms by (fastforce simp: wf_hint_cache_def split: if_splits)
  then show ?thesis
  proof cases
    case old
    then show ?thesis unfolding ages_def by (intro exI [of _ 0] exI [of _ "[]"]) simp
  next
    case add
    then show ?thesis unfolding ages_def by (intro exI [of _ 0] exI [of _ "[key]"]) simp
  next
    case age
    then show ?thesis unfolding ages_def
      by (intro exI [of _ 1] exI [of _ "[key]"])
        (auto simp: drop_Suc MAX_RETAINED_HINTS_PER_PEER_def)
  qed
qed

lemma ages_trans:
  assumes "ages xs ys K" "ages ys zs L" "length zs \<le> MAX_RETAINED_HINTS_PER_PEER"
  shows "ages xs zs (K \<union> L)"
proof -
  obtain n a where a: "ys = drop n xs @ a" "n \<le> length xs" "set a \<subseteq> K"
      "n \<noteq> 0 \<longrightarrow> length ys = MAX_RETAINED_HINTS_PER_PEER"
    using assms(1) by (auto simp: ages_def)
  obtain m b where b: "zs = drop m ys @ b" "m \<le> length ys" "set b \<subseteq> L"
      "m \<noteq> 0 \<longrightarrow> length zs = MAX_RETAINED_HINTS_PER_PEER"
    using assms(2) by (auto simp: ages_def)
  have z: "zs = drop (min (n + m) (length xs)) xs @ (drop (m - (length xs - n)) a @ b)"
    using a b by (auto simp: min_def add.commute)
  have "length zs = MAX_RETAINED_HINTS_PER_PEER" if "min (n + m) (length xs) \<noteq> 0"
    using that a b assms(3) by (cases "m = 0") auto
  moreover have "set (drop (m - (length xs - n)) a @ b) \<subseteq> K \<union> L"
    using a(3) b(3) set_drop_subset [of "m - (length xs - n)" a] by auto
  ultimately show ?thesis
    unfolding ages_def using z by (intro exI [of _ "min (n + m) (length xs)"] exI) auto
qed

lemma union_fold:
  assumes "wf_hint_cache c"
  shows "wf_hint_cache (fold (\<lambda>l. union_key (s, l)) ls c)
    \<and> ages (order c) (order (fold (\<lambda>l. union_key (s, l)) ls c)) (Pair s ` set ls)"
  using assms
proof (induction ls arbitrary: c)
  case Nil
  then show ?case unfolding ages_def by (auto intro: exI [of _ 0])
next
  case (Cons l ls)
  let ?c = "union_key (s, l) c"
  have w: "wf_hint_cache ?c" using union_key_cases [OF Cons.prems] by blast
  note IH = Cons.IH [OF w]
  then have "length (order (fold (\<lambda>l. union_key (s, l)) ls ?c)) \<le> MAX_RETAINED_HINTS_PER_PEER"
    by (simp add: wf_hint_cache_def)
  then have "ages (order c) (order (fold (\<lambda>l. union_key (s, l)) ls ?c)) ({(s, l)} \<union> Pair s ` set ls)"
    using ages_trans [OF ages_step [OF Cons.prems]] IH by blast
  then show ?case using IH by simp
qed

lemma union_fold_below:
  assumes "wf_hint_cache c" "card (set (order c) \<union> Pair s ` set ls) \<le> MAX_RETAINED_HINTS_PER_PEER"
  shows "set (order (fold (\<lambda>l. union_key (s, l)) ls c)) = set (order c) \<union> Pair s ` set ls"
  using assms
proof (induction ls arbitrary: c)
  case Nil
  then show ?case by simp
next
  case (Cons l ls)
  let ?c = "union_key (s, l) c"
  have w: "wf_hint_cache ?c" using union_key_cases [OF Cons.prems(1)] by blast
  have "length (order c) < MAX_RETAINED_HINTS_PER_PEER" if "(s, l) \<notin> set (order c)"
  proof -
    have "card (insert (s, l) (set (order c))) \<le> card (set (order c) \<union> Pair s ` set (l # ls))"
      by (intro card_mono) auto
    moreover have "card (set (order c)) = length (order c)"
      using Cons.prems(1) by (simp add: wf_hint_cache_def distinct_card)
    ultimately show ?thesis using that Cons.prems(2) by simp
  qed
  then have "set (order ?c) = insert (s, l) (set (order c))"
    using union_key_cases [OF Cons.prems(1), of "(s, l)"] by auto
  then show ?case using Cons.IH [OF w] Cons.prems(2) by simp
qed

text \<open>
  C31: Union, never replace. A frame keeps the cache well-formed (the index mirrors the queue,
  no duplicates, at most 64 entries); it can only drop oldest entries, and those only when the
  cache ends at capacity; and while everything fits, the retained set is exactly the union of
  what was held and what the frame lists, so an omitted id is never removed and an empty frame
  changes nothing.
\<close>

theorem hint_cache_union_correct:
  assumes "wf_hint_cache c"
  shows "wf_hint_cache (hint_cache_union c a)
    \<and> ages (order c) (order (hint_cache_union c a)) (Pair (da_store_id a) ` set (da_launcher_ids a))
    \<and> (card (set (order c) \<union> Pair (da_store_id a) ` set (da_launcher_ids a))
          \<le> MAX_RETAINED_HINTS_PER_PEER \<longrightarrow>
        set (order (hint_cache_union c a)) =
          set (order c) \<union> Pair (da_store_id a) ` set (da_launcher_ids a))"
  using union_fold [OF assms, of "da_store_id a" "da_launcher_ids a"]
    union_fold_below [OF assms, of "da_store_id a" "da_launcher_ids a"]
  by (simp add: hint_cache_union_def)

theorem hint_cache_union_correct_witness:
  "set (order (hint_cache_union hint_cache_new \<lparr>da_store_id = [0], da_launcher_ids = [[2], [1]]\<rparr>))
     = {([0], [2]), ([0], [1])}"
proof -
  have "wf_hint_cache hint_cache_new"
    by (simp add: wf_hint_cache_def hint_cache_new_def)
  then show ?thesis
    using hint_cache_union_correct
      [of hint_cache_new "\<lparr>da_store_id = [0], da_launcher_ids = [[2], [1]]\<rparr>"]
    by (simp add: MAX_RETAINED_HINTS_PER_PEER_def hint_cache_new_def)
qed

text \<open>
  The read accessor gives away no arrival order. The hints of a store are strictly
  ascending and are exactly the retained ids of that store, so two caches that retain the same
  set answer with the same sequence whatever order the ids arrived in.
\<close>

theorem hints_sorted_exact:
  assumes "wf_hint_cache c"
  shows "sorted_wrt (<) (hints_for_store c store_id)
    \<and> set (hints_for_store c store_id) = {l. (store_id, l) |\<in>| seen c}
    \<and> (wf_hint_cache d \<and> seen d = seen c \<longrightarrow> hints_for_store d store_id = hints_for_store c store_id)"
proof -
  have exact: "sorted_wrt (<) (hints_for_store e store_id)
      \<and> set (hints_for_store e store_id) = {l. (store_id, l) |\<in>| seen e}" if w: "wf_hint_cache e" for e
  proof -
    let ?xs = "filter (\<lambda>(s, _). s = store_id) (order e)"
    have "distinct ?xs" using w by (simp add: wf_hint_cache_def)
    moreover have "inj_on snd (set ?xs)" by (auto simp: inj_on_def)
    ultimately have "distinct (hints_for_store e store_id)"
      by (simp add: hints_for_store_def distinct_map)
    then have "sorted_wrt (<) (hints_for_store e store_id)"
      by (simp add: hints_for_store_def strict_sorted_iff)
    moreover have "set (hints_for_store e store_id) = {l. (store_id, l) |\<in>| seen e}"
      by (auto simp: hints_for_store_def seen_iff [OF w] image_iff)
    ultimately show ?thesis by simp
  qed
  show ?thesis
    using exact [OF assms] exact [of d] by (auto intro: strict_sorted_equal)
qed

theorem hints_sorted_exact_witness:
  "sorted_wrt (<) (hints_for_store \<lparr>order = [([0], [2]), ([0], [1])], seen = {|([0], [2]), ([0], [1])|}\<rparr> [0])"
proof -
  have "wf_hint_cache \<lparr>order = [([0], [2]), ([0], [1])], seen = {|([0], [2]), ([0], [1])|}\<rparr>"
    by (simp add: wf_hint_cache_def MAX_RETAINED_HINTS_PER_PEER_def)
  then show ?thesis by (rule hints_sorted_exact [THEN conjunct1])
qed

end
