(* ===== verification/Holdings_Announce.thy ===== *)
theory Holdings_Announce
  imports Dig_Message
begin

text \<open>
  The holdings-announce broadcast, opcode 222 (\<open>service/holdings_announce.rs\<close>): the delta
  batch and its canonical encoding, the signing message, the wire codec, the size checks, the
  builder and the fail-closed verifier.

  A Rust \<open>String\<close> is its byte list, with \<open>utf8_valid\<close> as the type's invariant. The
  record \<open>holdings_env\<close> holds what the module calls and the repository does not contain:
  \<open>peer_id_from_tls_spki_der\<close>, the \<open>hex\<close> crate, the DER parser and ring's ECDSA
  verification.
\<close>

definition HOLDINGS_ANNOUNCE :: u8 where "HOLDINGS_ANNOUNCE = 222"

definition HOLDINGS_SIG_DOMAIN_TAG :: bytes where
  "HOLDINGS_SIG_DOMAIN_TAG = ascii ''dig:holdings:v1''"

definition MAX_CHANGES :: nat where "MAX_CHANGES = 256"
definition MAX_ANNOUNCE_FRAME_BYTES :: nat where "MAX_ANNOUNCE_FRAME_BYTES = 128 * 1024"
definition MAX_ADDRS_PER_CHANGE :: nat where "MAX_ADDRS_PER_CHANGE = 32"
definition MAX_HOST_LEN :: nat where "MAX_HOST_LEN = 253"
definition PEER_ID_HEX_LEN :: nat where "PEER_ID_HEX_LEN = 64"
definition KIND_ADD :: u8 where "KIND_ADD = 0x01"
definition KIND_REMOVE :: u8 where "KIND_REMOVE = 0x02"

lemmas holdings_consts = MAX_CHANGES_def MAX_ANNOUNCE_FRAME_BYTES_def MAX_ADDRS_PER_CHANGE_def
  MAX_HOST_LEN_def PEER_ID_HEX_LEN_def

record CandidateAddr =
  ca_host :: bytes
  ca_port :: u16

datatype HoldingsDelta =
    Add (content_key: bytes32) (addresses: "CandidateAddr list") (expires_at: u64)
  | Remove (content_key: bytes32)

record HoldingsAnnounce =
  provider_peer_id :: bytes
  provider_spki :: bytes
  ha_seq :: u64
  announced_at :: u64
  changes :: "HoldingsDelta list"
  ha_signature :: bytes

datatype HoldingsError =
    TooManyChanges nat
  | AnnounceTooLarge nat
  | TooManyAddresses nat
  | HostTooLong nat
  | BadPeerIdHex
  | BadSpki
  | PeerIdMismatch
  | InvalidSignature

section \<open>Encodings\<close>

definition encode_addr :: "CandidateAddr \<Rightarrow> bytes" where
  "encode_addr a = be16 (of_nat (length (ca_host a))) @ ca_host a @ be16 (ca_port a)"

fun encode_delta :: "HoldingsDelta \<Rightarrow> bytes" where
  "encode_delta (Add key addrs expires) =
     KIND_ADD # key @ be16 (of_nat (length addrs)) @ concat (map encode_addr addrs) @ be64 expires"
| "encode_delta (Remove key) = KIND_REMOVE # key"

definition canonical_encode :: "HoldingsDelta list \<Rightarrow> bytes" where
  "canonical_encode cs = concat (map encode_delta cs)"

definition holdings_signing_message ::
  "bytes32 \<Rightarrow> u64 \<Rightarrow> u64 \<Rightarrow> HoldingsDelta list \<Rightarrow> bytes" where
  "holdings_signing_message peer_id sq at cs =
     HOLDINGS_SIG_DOMAIN_TAG @ peer_id @ be64 sq @ be64 at @ canonical_encode cs"

definition holdings_encode :: "HoldingsAnnounce \<Rightarrow> bytes" where
  "holdings_encode a =
     put_bytes (provider_peer_id a) @ put_bytes (provider_spki a) @ be64 (ha_seq a)
     @ be64 (announced_at a) @ be16 (of_nat (length (changes a)))
     @ canonical_encode (changes a) @ put_bytes (ha_signature a)"

text \<open>\<open>String::from_utf8(take_bytes(bytes, pos)?.to_vec()).ok()?\<close>\<close>

definition take_string :: "bytes \<Rightarrow> nat \<Rightarrow> (bytes \<times> nat) option" where
  "take_string bs pos =
     do { (s, pos) \<leftarrow> take_bytes bs pos; if utf8_valid s then Some (s, pos) else None }"

definition take_addr :: "bytes \<Rightarrow> nat \<Rightarrow> (CandidateAddr \<times> nat) option" where
  "take_addr bs pos =
     do { (h, pos) \<leftarrow> take_string bs pos;
          (p, pos) \<leftarrow> take_u16 bs pos;
          Some (\<lparr>ca_host = h, ca_port = p\<rparr>, pos) }"

definition decode_delta :: "bytes \<Rightarrow> nat \<Rightarrow> (HoldingsDelta \<times> nat) option" where
  "decode_delta bs pos =
     do { kind \<leftarrow> (if pos < length bs then Some (bs ! pos) else None);
          (key, pos) \<leftarrow> take_32 bs (pos + 1);
          if kind = KIND_ADD then
            do { (addr_count, pos) \<leftarrow> take_u16 bs pos;
                 if MAX_ADDRS_PER_CHANGE < unat addr_count then None
                 else do { (addrs, pos) \<leftarrow> take_list take_addr (unat addr_count) bs pos;
                           (expires, pos) \<leftarrow> take_u64 bs pos;
                           Some (Add key addrs expires, pos) } }
          else if kind = KIND_REMOVE then Some (Remove key, pos)
          else None }"

definition holdings_decode :: "bytes \<Rightarrow> HoldingsAnnounce option" where
  "holdings_decode bs =
     do { (peer_id, pos) \<leftarrow> take_string bs 0;
          (spki, pos) \<leftarrow> take_bytes bs pos;
          (sq, pos) \<leftarrow> take_u64 bs pos;
          (at, pos) \<leftarrow> take_u64 bs pos;
          (change_count, pos) \<leftarrow> take_u16 bs pos;
          if MAX_CHANGES < unat change_count then None
          else do {
            (cs, pos) \<leftarrow> take_list decode_delta (unat change_count) bs pos;
            (sig, pos) \<leftarrow> take_bytes bs pos;
            if pos \<noteq> length bs then None
            else Some \<lparr>provider_peer_id = peer_id, provider_spki = spki, ha_seq = sq,
                       announced_at = at, changes = cs, ha_signature = sig\<rparr> } }"

definition is_holdings_announce :: "u8 \<Rightarrow> bool" where
  "is_holdings_announce ty \<longleftrightarrow> ty = HOLDINGS_ANNOUNCE"

definition holdings_announce_payload :: "DigMessage \<Rightarrow> HoldingsAnnounce option" where
  "holdings_announce_payload msg =
     (if is_holdings_announce (msg_type msg) then holdings_decode (data msg) else None)"

definition frame_holdings_announce :: "HoldingsAnnounce \<Rightarrow> DigMessage" where
  "frame_holdings_announce a =
     \<lparr>msg_type = HOLDINGS_ANNOUNCE, msg_id = None, data = holdings_encode a\<rparr>"

section \<open>Checks, building and verification\<close>

record SpkiInfo =
  algorithm_oid :: "nat list"
  curve_oid :: "nat list option"
  subject_public_key :: bytes

record holdings_env =
  peer_id_from_tls_spki_der :: "bytes \<Rightarrow> bytes32"
  hex_encode :: "bytes \<Rightarrow> bytes"
  hex_decode :: "bytes \<Rightarrow> bytes option"
  spki_from_der :: "bytes \<Rightarrow> SpkiInfo option"
  ecdsa_p256_verify :: "bytes \<Rightarrow> bytes \<Rightarrow> bytes \<Rightarrow> bool"

record HoldingsSigner =
  hs_sign :: "bytes \<Rightarrow> bytes"
  hs_spki_der :: bytes

definition OID_KEY_TYPE_EC_PUBLIC_KEY :: "nat list" where
  "OID_KEY_TYPE_EC_PUBLIC_KEY = [1, 2, 840, 10045, 2, 1]"

definition OID_EC_P256 :: "nat list" where
  "OID_EC_P256 = [1, 2, 840, 10045, 3, 1, 7]"

definition signing_message_digest ::
  "(bytes \<Rightarrow> bytes32) \<Rightarrow> bytes32 \<Rightarrow> u64 \<Rightarrow> u64 \<Rightarrow> HoldingsDelta list \<Rightarrow> bytes32" where
  "signing_message_digest sha peer_id sq at cs = sha (holdings_signing_message peer_id sq at cs)"

definition decode_peer_id :: "holdings_env \<Rightarrow> bytes \<Rightarrow> HoldingsError + bytes32" where
  "decode_peer_id env hex_id =
     (if length hex_id \<noteq> PEER_ID_HEX_LEN then Inl BadPeerIdHex
      else case hex_decode env hex_id of
             None \<Rightarrow> Inl BadPeerIdHex
           | Some bs \<Rightarrow> (if length bs = 32 then Inr bs else Inl BadPeerIdHex))"

definition p256_point_from_spki :: "holdings_env \<Rightarrow> bytes \<Rightarrow> HoldingsError + bytes" where
  "p256_point_from_spki env spki =
     (case spki_from_der env spki of
        None \<Rightarrow> Inl BadSpki
      | Some info \<Rightarrow>
          (if algorithm_oid info \<noteq> OID_KEY_TYPE_EC_PUBLIC_KEY then Inl BadSpki
           else case curve_oid info of
                  None \<Rightarrow> Inl BadSpki
                | Some curve \<Rightarrow>
                    (if curve \<noteq> OID_EC_P256 then Inl BadSpki else Inr (subject_public_key info))))"

fun check_hosts :: "CandidateAddr list \<Rightarrow> HoldingsError option" where
  "check_hosts [] = None"
| "check_hosts (a # as) =
     (if MAX_HOST_LEN < length (ca_host a) then Some (HostTooLong (length (ca_host a)))
      else check_hosts as)"

fun check_deltas :: "HoldingsDelta list \<Rightarrow> HoldingsError option" where
  "check_deltas [] = None"
| "check_deltas (Add key addrs expires # ds) =
     (if MAX_ADDRS_PER_CHANGE < length addrs then Some (TooManyAddresses (length addrs))
      else case check_hosts addrs of Some e \<Rightarrow> Some e | None \<Rightarrow> check_deltas ds)"
| "check_deltas (Remove key # ds) = check_deltas ds"

definition check_announce_size :: "HoldingsDelta list \<Rightarrow> nat \<Rightarrow> HoldingsError + unit" where
  "check_announce_size cs encoded_frame_len =
     (case check_deltas cs of
        Some e \<Rightarrow> Inl e
      | None \<Rightarrow> (if MAX_ANNOUNCE_FRAME_BYTES < encoded_frame_len
                 then Inl (AnnounceTooLarge encoded_frame_len) else Inr ()))"

definition holdings_new_signed ::
  "holdings_env \<Rightarrow> HoldingsSigner \<Rightarrow> u64 \<Rightarrow> u64 \<Rightarrow> HoldingsDelta list
     \<Rightarrow> HoldingsError + HoldingsAnnounce" where
  "holdings_new_signed env signer sq at cs =
     (if MAX_CHANGES < length cs then Inl (TooManyChanges (length cs))
      else let spki = hs_spki_der signer;
               peer_id = peer_id_from_tls_spki_der env spki;
               message = holdings_signing_message peer_id sq at cs;
               announce = \<lparr>provider_peer_id = hex_encode env peer_id, provider_spki = spki,
                           ha_seq = sq, announced_at = at, changes = cs,
                           ha_signature = hs_sign signer message\<rparr>
           in case check_announce_size cs (length (holdings_encode announce)) of
                Inl e \<Rightarrow> Inl e
              | Inr _ \<Rightarrow> Inr announce)"

definition verify_holdings_announce :: "holdings_env \<Rightarrow> HoldingsAnnounce \<Rightarrow> HoldingsError + unit" where
  "verify_holdings_announce env a =
     (if MAX_CHANGES < length (changes a) then Inl (TooManyChanges (length (changes a)))
      else case check_announce_size (changes a) (length (holdings_encode a)) of
             Inl e \<Rightarrow> Inl e
           | Inr _ \<Rightarrow>
      (case decode_peer_id env (provider_peer_id a) of
         Inl e \<Rightarrow> Inl e
       | Inr peer_id \<Rightarrow>
      (if peer_id_from_tls_spki_der env (provider_spki a) \<noteq> peer_id then Inl PeerIdMismatch
       else case p256_point_from_spki env (provider_spki a) of
              Inl e \<Rightarrow> Inl e
            | Inr ec_point \<Rightarrow>
                (if ecdsa_p256_verify env ec_point
                      (holdings_signing_message peer_id (ha_seq a) (announced_at a) (changes a))
                      (ha_signature a)
                 then Inr () else Inl InvalidSignature))))"

section \<open>The wire codec is strict\<close>

definition wf_addr :: "CandidateAddr \<Rightarrow> bool" where
  "wf_addr a \<longleftrightarrow> utf8_valid (ca_host a) \<and> length (ca_host a) < 2 ^ 16"

fun wf_delta :: "HoldingsDelta \<Rightarrow> bool" where
  "wf_delta (Add key addrs expires) \<longleftrightarrow>
     length key = 32 \<and> length addrs \<le> MAX_ADDRS_PER_CHANGE \<and> list_all wf_addr addrs"
| "wf_delta (Remove key) \<longleftrightarrow> length key = 32"

definition wf_holdings :: "HoldingsAnnounce \<Rightarrow> bool" where
  "wf_holdings a \<longleftrightarrow> utf8_valid (provider_peer_id a) \<and> length (provider_peer_id a) < 2 ^ 16
     \<and> length (provider_spki a) < 2 ^ 16 \<and> length (ha_signature a) < 2 ^ 16
     \<and> length (changes a) \<le> MAX_CHANGES \<and> list_all wf_delta (changes a)"

lemma take_string_iff [cursor_simps]:
  "take_string bs pos = Some (x, p) \<longleftrightarrow>
     utf8_valid x \<and> length x < 2 ^ 16 \<and> holds bs pos (put_bytes x) \<and> p = pos + length (put_bytes x)"
  by (auto simp: take_string_def bind_eq_Some_conv take_bytes_iff split: if_splits)

lemma encode_addr_eq: "encode_addr a = put_bytes (ca_host a) @ be16 (ca_port a)"
  by (simp add: encode_addr_def put_bytes_def)

interpretation addr_reader: wire_reader encode_addr take_addr wf_addr
proof
  fix bs pos x p
  show "take_addr bs pos = Some (x, p) \<longleftrightarrow>
      wf_addr x \<and> holds bs pos (encode_addr x) \<and> p = pos + length (encode_addr x)"
    by (cases x)
      (auto simp: take_addr_def bind_eq_Some_conv take_string_iff take_u16_iff wf_addr_def
        encode_addr_eq holds_append)
qed

lemma kind_distinct: "KIND_REMOVE \<noteq> KIND_ADD"
  by (simp add: KIND_ADD_def KIND_REMOVE_def)

lemma kind_at:
  "(if pos < length bs then Some (bs ! pos) else None) = Some k \<longleftrightarrow> holds bs pos [k]"
  by (auto simp: holds_single)

lemma unat_of_small16: "n < 2 ^ 16 \<Longrightarrow> unat (of_nat n :: u16) = n"
  by (simp add: unat_of_nat)

lemma decode_delta_iff:
  "decode_delta bs pos = Some (x, p) \<longleftrightarrow>
     wf_delta x \<and> holds bs pos (encode_delta x) \<and> p = pos + length (encode_delta x)"
proof (cases x)
  case (Remove key)
  then show ?thesis
    using kind_distinct
    by (auto simp: decode_delta_def bind_eq_Some_conv kind_at take_32_iff holds_Cons [of bs pos _ key]
        split: if_splits)
next
  case (Add key addrs expires)
  have "decode_delta bs pos = Some (x, p) \<longleftrightarrow>
      (\<exists>count q. holds bs pos [KIND_ADD] \<and> take_32 bs (Suc pos) = Some (key, 33 + pos)
          \<and> take_u16 bs (33 + pos) = Some (count, 35 + pos) \<and> unat count \<le> MAX_ADDRS_PER_CHANGE
          \<and> take_list take_addr (unat count) bs (35 + pos) = Some (addrs, q)
          \<and> take_u64 bs q = Some (expires, p))" (is "_ \<longleftrightarrow> ?layout")
  proof
    assume "decode_delta bs pos = Some (x, p)"
    then show ?layout
      using Add kind_distinct
      by (auto simp: decode_delta_def bind_eq_Some_conv kind_at take_32_iff take_u16_iff
          take_u64_iff not_less split: if_splits)
  next
    assume ?layout
    then show "decode_delta bs pos = Some (x, p)"
      using Add by (auto simp: decode_delta_def holds_single not_less)
  qed
  also have "\<dots> \<longleftrightarrow>
      holds bs pos [KIND_ADD] \<and> length key = 32 \<and> holds bs (Suc pos) key
      \<and> (\<exists>count q. holds bs (33 + pos) (be16 count) \<and> unat count \<le> MAX_ADDRS_PER_CHANGE
          \<and> take_list take_addr (unat count) bs (35 + pos) = Some (addrs, q)
          \<and> holds bs q (be64 expires) \<and> p = q + 8)"
    by (auto simp: take_32_iff take_u16_iff take_u64_iff)
  also have "\<dots> \<longleftrightarrow> holds bs pos [KIND_ADD] \<and> length key = 32 \<and> holds bs (Suc pos) key
      \<and> (\<exists>count. holds bs (33 + pos) (be16 count) \<and> unat count \<le> MAX_ADDRS_PER_CHANGE
          \<and> length addrs = unat count \<and> list_all wf_addr addrs
          \<and> holds bs (35 + pos) (concat (map encode_addr addrs))
          \<and> holds bs (35 + pos + length (concat (map encode_addr addrs))) (be64 expires)
          \<and> p = 35 + pos + length (concat (map encode_addr addrs)) + 8)"
  proof (cases "35 + pos \<le> length bs")
    case True
    then show ?thesis by (simp add: addr_reader.read_list_iff list_all_iff)
  next
    case False
    then have "\<not> holds bs (33 + pos) (be16 count)" for count by (simp add: holds_def)
    then show ?thesis by simp
  qed
  also have "\<dots> \<longleftrightarrow> wf_delta x \<and> holds bs pos (encode_delta x) \<and> p = pos + length (encode_delta x)"
    using Add
    by (auto intro!: exI [of _ "of_nat (length addrs)"] simp: unat_of_small16 holdings_consts ac_simps
        holds_append holds_Cons [of bs pos KIND_ADD
          "key @ be16 (of_nat (length addrs)) @ concat (map encode_addr addrs) @ be64 expires"])
  finally show ?thesis .
qed

interpretation delta_reader: wire_reader encode_delta decode_delta wf_delta
  by unfold_locales (rule decode_delta_iff)

definition holdings_layout :: "bytes \<Rightarrow> HoldingsAnnounce \<Rightarrow> nat \<Rightarrow> u16 \<Rightarrow> nat \<Rightarrow> bool" where
  "holdings_layout bs a p count q \<longleftrightarrow>
     p = length (put_bytes (provider_peer_id a)) + length (put_bytes (provider_spki a))
     \<and> take_string bs 0 = Some (provider_peer_id a, length (put_bytes (provider_peer_id a)))
     \<and> take_bytes bs (length (put_bytes (provider_peer_id a))) = Some (provider_spki a, p)
     \<and> take_u64 bs p = Some (ha_seq a, p + 8) \<and> take_u64 bs (p + 8) = Some (announced_at a, p + 16)
     \<and> take_u16 bs (p + 16) = Some (count, p + 18) \<and> unat count \<le> MAX_CHANGES
     \<and> take_list decode_delta (unat count) bs (p + 18) = Some (changes a, q)
     \<and> take_bytes bs q = Some (ha_signature a, length bs)"

lemma holdings_decode_layout:
  "holdings_decode bs = Some a \<longleftrightarrow> (\<exists>p count q. holdings_layout bs a p count q)"
proof
  assume "holdings_decode bs = Some a"
  then show "\<exists>p count q. holdings_layout bs a p count q"
    by (auto 4 4 simp: holdings_decode_def holdings_layout_def bind_eq_Some_conv take_string_iff
        take_bytes_iff take_u16_iff take_u64_iff not_less ac_simps split: if_splits)
next
  assume "\<exists>p count q. holdings_layout bs a p count q"
  then show "holdings_decode bs = Some a"
    by (auto simp: holdings_decode_def holdings_layout_def not_less)
qed

lemma holdings_decode_iff:
  "holdings_decode bs = Some a \<longleftrightarrow> wf_holdings a \<and> holdings_encode a = bs"
proof -
  let ?pid = "provider_peer_id a" and ?spki = "provider_spki a" and ?sig = "ha_signature a"
    and ?cs = "changes a"
  let ?p = "length (put_bytes ?pid) + length (put_bytes ?spki)"
  let ?enc = "concat (map encode_delta ?cs)"
  have "holdings_decode bs = Some a \<longleftrightarrow>
      utf8_valid ?pid \<and> length ?pid < 2 ^ 16 \<and> holds bs 0 (put_bytes ?pid)
      \<and> length ?spki < 2 ^ 16 \<and> holds bs (length (put_bytes ?pid)) (put_bytes ?spki)
      \<and> holds bs ?p (be64 (ha_seq a)) \<and> holds bs (?p + 8) (be64 (announced_at a))
      \<and> (\<exists>count q. holds bs (?p + 16) (be16 count) \<and> unat count \<le> MAX_CHANGES
          \<and> take_list decode_delta (unat count) bs (?p + 18) = Some (?cs, q)
          \<and> length ?sig < 2 ^ 16 \<and> holds bs q (put_bytes ?sig)
          \<and> length bs = q + length (put_bytes ?sig))"
    unfolding holdings_decode_layout holdings_layout_def
    by (auto simp: take_string_iff take_bytes_iff take_u16_iff take_u64_iff)
  also have "\<dots> \<longleftrightarrow>
      utf8_valid ?pid \<and> length ?pid < 2 ^ 16 \<and> holds bs 0 (put_bytes ?pid)
      \<and> length ?spki < 2 ^ 16 \<and> holds bs (length (put_bytes ?pid)) (put_bytes ?spki)
      \<and> holds bs ?p (be64 (ha_seq a)) \<and> holds bs (?p + 8) (be64 (announced_at a))
      \<and> (\<exists>count. holds bs (?p + 16) (be16 count) \<and> unat count \<le> MAX_CHANGES
          \<and> length ?cs = unat count \<and> list_all wf_delta ?cs \<and> holds bs (?p + 18) ?enc
          \<and> length ?sig < 2 ^ 16 \<and> holds bs (?p + 18 + length ?enc) (put_bytes ?sig)
          \<and> length bs = ?p + 18 + length ?enc + length (put_bytes ?sig))"
  proof (cases "?p + 18 \<le> length bs")
    case True
    then show ?thesis by (simp add: delta_reader.read_list_iff list_all_iff)
  next
    case False
    then have "\<not> holds bs (?p + 16) (be16 count)" for count by (simp add: holds_def)
    then show ?thesis by simp
  qed
  also have "\<dots> \<longleftrightarrow> wf_holdings a \<and> holds bs 0 (holdings_encode a)
      \<and> length (holdings_encode a) = length bs"
    by (auto intro!: exI [of _ "of_nat (length (changes a))"] simp: wf_holdings_def holdings_encode_def canonical_encode_def holds_append
        unat_of_small16 holdings_consts ac_simps)
  also have "\<dots> \<longleftrightarrow> wf_holdings a \<and> holdings_encode a = bs"
    using holds_whole [of bs "holdings_encode a"] by auto
  finally show ?thesis .
qed

interpretation holdings: framed_message holdings_encode holdings_decode wf_holdings
  HOLDINGS_ANNOUNCE frame_holdings_announce holdings_announce_payload
  by unfold_locales
    (simp_all add: holdings_decode_iff frame_holdings_announce_def holdings_announce_payload_def
      is_holdings_announce_def)

text \<open>
  C29: The 222 frame. A message lifts to an announcement exactly when it carries opcode 222 and
  its bytes are that announcement's encoding, with valid UTF-8 strings, at most 256 deltas and
  at most 32 addresses per delta. The decoder therefore accepts no second encoding of a value,
  no truncated frame and no trailing bytes.
\<close>

theorem holdings_frame_exact:
  "holdings_announce_payload msg = Some a \<longleftrightarrow>
     frame_holdings_announce a = msg\<lparr>msg_id := None\<rparr> \<and> wf_holdings a"
  by (cases msg) (auto simp: holdings.lift_iff frame_holdings_announce_def)

section \<open>The signing message binds the batch\<close>

lemma encode_delta_nonempty: "encode_delta d \<noteq> []"
  by (cases d) auto

lemma canonical_encode_inj:
  assumes "list_all wf_delta cs" "list_all wf_delta ds" "canonical_encode cs = canonical_encode ds"
  shows "cs = ds"
  using assms delta_reader.concat_enc_inj [OF encode_delta_nonempty]
  by (simp add: canonical_encode_def list_all_iff)

lemma signing_message_inj:
  assumes "length p = 32" "length p' = 32" "list_all wf_delta cs" "list_all wf_delta ds"
    and "holdings_signing_message p sq at cs = holdings_signing_message p' sq' at' ds"
  shows "p = p' \<and> sq = sq' \<and> at = at' \<and> cs = ds"
proof -
  have "p = p'" "be64 sq = be64 sq'" "be64 at = be64 at'" "canonical_encode cs = canonical_encode ds"
    using assms(1,2,5) by (auto simp: holdings_signing_message_def)
  then show ?thesis using canonical_encode_inj [OF assms(3,4)] by simp
qed

fun typed_delta :: "HoldingsDelta \<Rightarrow> bool" where
  "typed_delta (Add key addrs expires) \<longleftrightarrow> length key = 32 \<and> list_all (\<lambda>a. utf8_valid (ca_host a)) addrs"
| "typed_delta (Remove key) \<longleftrightarrow> length key = 32"

lemma check_hosts_None: "check_hosts as = None \<longleftrightarrow> list_all (\<lambda>a. length (ca_host a) \<le> MAX_HOST_LEN) as"
  by (induction as) auto

lemma check_deltas_None:
  "check_deltas ds = None \<longleftrightarrow>
     list_all (\<lambda>d. case d of Add key addrs expires \<Rightarrow>
        length addrs \<le> MAX_ADDRS_PER_CHANGE \<and> list_all (\<lambda>a. length (ca_host a) \<le> MAX_HOST_LEN) addrs
      | Remove key \<Rightarrow> True) ds"
  by (induction ds rule: check_deltas.induct) (auto simp flip: check_hosts_None split: option.splits)

lemma hosts_wf:
  "check_hosts as = None \<Longrightarrow> list_all (\<lambda>a. utf8_valid (ca_host a)) as \<Longrightarrow> list_all wf_addr as"
  by (induction as) (auto simp: wf_addr_def holdings_consts split: if_splits)

lemma checked_deltas_wf:
  "check_deltas ds = None \<Longrightarrow> list_all typed_delta ds \<Longrightarrow> list_all wf_delta ds"
  by (induction ds rule: check_deltas.induct) (auto simp: hosts_wf split: if_splits option.splits)

lemma verify_ok_iff:
  "verify_holdings_announce env a = Inr () \<longleftrightarrow>
     length (changes a) \<le> MAX_CHANGES \<and> check_deltas (changes a) = None
     \<and> length (holdings_encode a) \<le> MAX_ANNOUNCE_FRAME_BYTES
     \<and> decode_peer_id env (provider_peer_id a) = Inr (peer_id_from_tls_spki_der env (provider_spki a))
     \<and> (\<exists>ec_point. p256_point_from_spki env (provider_spki a) = Inr ec_point
          \<and> ecdsa_p256_verify env ec_point
               (holdings_signing_message (peer_id_from_tls_spki_der env (provider_spki a))
                  (ha_seq a) (announced_at a) (changes a))
               (ha_signature a))"
  by (auto simp: verify_holdings_announce_def check_announce_size_def
      split: if_splits option.splits sum.splits)

lemma decode_peer_id_length: "decode_peer_id env h = Inr p \<Longrightarrow> length p = 32"
  by (auto simp: decode_peer_id_def split: if_splits option.splits)

text \<open>
  The verifier accepts exactly the announcements that pass all six checks, and an accepted
  one fits the opcode-222 rate-limit row: at most 256 deltas, 32 addresses each, hosts of at most
  253 bytes, 128 KiB in all, a carried peer id that is the hash of the carried key, a P-256 key,
  and a signature by that key over the domain-separated message of exactly this batch.
\<close>

theorem verify_accepts_exactly:
  "verify_holdings_announce env a = Inr () \<longleftrightarrow>
     length (changes a) \<le> MAX_CHANGES
     \<and> list_all (\<lambda>d. case d of Add key addrs expires \<Rightarrow>
          length addrs \<le> MAX_ADDRS_PER_CHANGE \<and> list_all (\<lambda>c. length (ca_host c) \<le> MAX_HOST_LEN) addrs
        | Remove key \<Rightarrow> True) (changes a)
     \<and> length (data (frame_holdings_announce a)) \<le> MAX_ANNOUNCE_FRAME_BYTES
     \<and> decode_peer_id env (provider_peer_id a) = Inr (peer_id_from_tls_spki_der env (provider_spki a))
     \<and> (\<exists>ec_point. p256_point_from_spki env (provider_spki a) = Inr ec_point
          \<and> ecdsa_p256_verify env ec_point
               (holdings_signing_message (peer_id_from_tls_spki_der env (provider_spki a))
                  (ha_seq a) (announced_at a) (changes a))
               (ha_signature a))"
  unfolding verify_ok_iff check_deltas_None by (simp add: frame_holdings_announce_def)

text \<open>
  A concrete environment in which the hypotheses below hold: a signature is the signed message,
  and the hexadecimal form of 32 bytes is the bytes written twice.
\<close>

definition plain_env :: holdings_env where
  "plain_env =
     \<lparr>peer_id_from_tls_spki_der = (\<lambda>_. replicate 32 1), hex_encode = (\<lambda>b. b @ b),
      hex_decode = (\<lambda>b. Some (take 32 b)),
      spki_from_der = (\<lambda>_. Some \<lparr>algorithm_oid = OID_KEY_TYPE_EC_PUBLIC_KEY,
                                curve_oid = Some OID_EC_P256, subject_public_key = [9]\<rparr>),
      ecdsa_p256_verify = (\<lambda>p m s. s = m)\<rparr>"

definition plain_signer :: HoldingsSigner where
  "plain_signer = \<lparr>hs_sign = (\<lambda>m. m), hs_spki_der = [4]\<rparr>"

lemma plain_point: "p256_point_from_spki plain_env spki = Inr [9]"
  by (simp add: p256_point_from_spki_def plain_env_def)

text \<open>
  C8: Tamper evidence. Take a signature made over the signing message of one batch with a key
  whose signatures verify only for the message they were made for. Any announcement that carries
  this signature under the same key and is accepted has the same sequence number, timestamp and
  deltas, addresses included: nobody can re-point or extend a provider's announcement.
\<close>

theorem holdings_tamper_evident:
  assumes point: "p256_point_from_spki env (provider_spki a') = Inr ec_point"
    and sound: "\<And>m m'. ecdsa_p256_verify env ec_point m' (sign m) \<longleftrightarrow> m' = m"
    and sig: "ha_signature a' =
      sign (holdings_signing_message (peer_id_from_tls_spki_der env (provider_spki a')) sq at cs)"
    and batch: "check_deltas cs = None" "list_all typed_delta cs" "list_all typed_delta (changes a')"
    and ok: "verify_holdings_announce env a' = Inr ()"
  shows "ha_seq a' = sq \<and> announced_at a' = at \<and> changes a' = cs"
proof -
  let ?pid = "peer_id_from_tls_spki_der env (provider_spki a')"
  have v: "holdings_signing_message ?pid (ha_seq a') (announced_at a') (changes a') =
      holdings_signing_message ?pid sq at cs"
    using ok point sig sound by (auto simp: verify_ok_iff)
  have "length ?pid = 32" "check_deltas (changes a') = None"
    using ok decode_peer_id_length by (auto simp: verify_ok_iff)
  then show ?thesis
    using signing_message_inj [OF _ _ _ _ v] checked_deltas_wf batch by blast
qed

theorem holdings_tamper_evident_witness:
  "let cs = [Remove (replicate 32 5)];
       m = holdings_signing_message (replicate 32 1) 7 8 cs;
       a = \<lparr>provider_peer_id = replicate 64 1, provider_spki = [4], ha_seq = 7, announced_at = 8,
            changes = cs, ha_signature = m\<rparr>
   in verify_holdings_announce plain_env a = Inr () \<and> changes a = [Remove (replicate 32 5)]"
proof -
  let ?cs = "[Remove (replicate 32 5)]"
  let ?m = "holdings_signing_message (replicate 32 1) 7 8 ?cs"
  let ?a = "\<lparr>provider_peer_id = replicate 64 1, provider_spki = [4], ha_seq = 7, announced_at = 8,
            changes = ?cs, ha_signature = ?m\<rparr>"
  have ok: "verify_holdings_announce plain_env ?a = Inr ()"
    by (simp add: verify_ok_iff p256_point_from_spki_def holdings_consts decode_peer_id_def holdings_encode_def
        put_bytes_def canonical_encode_def holdings_signing_message_def HOLDINGS_SIG_DOMAIN_TAG_def
        ascii_def plain_env_def)
  have "ha_seq ?a = 7 \<and> announced_at ?a = 8 \<and> changes ?a = ?cs"
    by (rule holdings_tamper_evident [OF plain_point _ _ _ _ _ ok, of "\<lambda>m. m"])
      (auto simp: plain_env_def)
  then show ?thesis using ok by simp
qed

text \<open>
  Completeness. Whatever the builder returns for a P-256 signer passes the verifier, so an
  honest provider's announcement is never dropped; and the builder refuses exactly the batches
  that break a cap, with the error of the first broken one.
\<close>

theorem holdings_built_verifies:
  assumes pid: "length (peer_id_from_tls_spki_der env (hs_spki_der signer)) = 32"
    and hex: "\<And>b. length b = 32 \<Longrightarrow> length (hex_encode env b) = 64 \<and> hex_decode env (hex_encode env b) = Some b"
    and point: "p256_point_from_spki env (hs_spki_der signer) = Inr ec_point"
    and signs: "\<And>m. ecdsa_p256_verify env ec_point m (hs_sign signer m)"
  shows "case holdings_new_signed env signer sq at cs of
      Inr a \<Rightarrow> verify_holdings_announce env a = Inr () \<and> changes a = cs \<and> ha_seq a = sq
    | Inl e \<Rightarrow> (if MAX_CHANGES < length cs then e = TooManyChanges (length cs)
               else case check_deltas cs of Some e' \<Rightarrow> e = e'
                    | None \<Rightarrow> \<exists>n > MAX_ANNOUNCE_FRAME_BYTES. e = AnnounceTooLarge n)"
proof -
  let ?pid = "peer_id_from_tls_spki_der env (hs_spki_der signer)"
  have "decode_peer_id env (hex_encode env ?pid) = Inr ?pid"
    using hex [OF pid] pid by (simp add: decode_peer_id_def holdings_consts)
  then show ?thesis
    using point signs
    by (auto simp: holdings_new_signed_def Let_def check_announce_size_def verify_ok_iff
        split: option.splits)
qed

theorem holdings_built_verifies_witness:
  "\<exists>a. holdings_new_signed plain_env plain_signer 7 8 [Remove (replicate 32 5)] = Inr a
     \<and> verify_holdings_announce plain_env a = Inr ()"
proof -
  have ok: "\<exists>a. holdings_new_signed plain_env plain_signer 7 8 [Remove (replicate 32 5)] = Inr a"
    by (simp add: holdings_new_signed_def check_announce_size_def holdings_consts holdings_encode_def
        put_bytes_def canonical_encode_def holdings_signing_message_def HOLDINGS_SIG_DOMAIN_TAG_def
        ascii_def plain_env_def plain_signer_def Let_def)
  have "case holdings_new_signed plain_env plain_signer 7 8 [Remove (replicate 32 5)] of
      Inr a \<Rightarrow> verify_holdings_announce plain_env a = Inr ()
        \<and> changes a = [Remove (replicate 32 5)] \<and> ha_seq a = 7
    | Inl e \<Rightarrow> (if MAX_CHANGES < length [Remove (replicate 32 5)]
               then e = TooManyChanges (length [Remove (replicate 32 5)])
               else case check_deltas [Remove (replicate 32 5)] of Some e' \<Rightarrow> e = e'
                    | None \<Rightarrow> \<exists>n > MAX_ANNOUNCE_FRAME_BYTES. e = AnnounceTooLarge n)"
    by (rule holdings_built_verifies [OF _ _ plain_point])
      (simp_all add: plain_env_def plain_signer_def)
  then show ?thesis using ok by auto
qed

end
