(* ===== verification/Broadcaster.thy ===== *)
theory Broadcaster
  imports Priority_Lanes Store_Melted Profile_Sync Distributor_Announce Holdings_Announce
begin

text \<open>
  Message classification: the priority of an opcode (\<open>gossip/priority.rs\<close>), how it is
  broadcast (\<open>gossip/broadcaster.rs\<close>) and the routing of the consensus band 200 to 219
  (\<open>types/dig_messages.rs\<close>).

  Chia's \<open>ProtocolMessageTypes\<close> is an enum of another crate: the datatype names the
  variants the code matches on and keeps the rest as \<open>OtherType\<close>. Reading the enum from a
  byte (\<open>Streamable::from_bytes\<close>) is the parameter \<open>parse\<close>; the Cargo feature
  \<open>erlay\<close> is a boolean argument.
\<close>

datatype ProtocolMessageTypes =
    NewPeak | RespondBlock | RespondUnfinishedBlock | NewTransaction | RespondTransaction
  | NewUnfinishedBlock | RequestBlock | RequestTransaction | RequestUnfinishedBlock
  | RequestBlocks | RespondBlocks | RequestPeers | RespondPeers | RequestMempoolTransactions
  | RequestPeersIntroducer | RespondPeersIntroducer | RejectBlock | RejectBlocks | OtherType u8

fun from_chia_type :: "ProtocolMessageTypes \<Rightarrow> MessagePriority" where
  "from_chia_type NewPeak = Critical"
| "from_chia_type RespondBlock = Critical"
| "from_chia_type RespondUnfinishedBlock = Critical"
| "from_chia_type NewTransaction = Normal"
| "from_chia_type RespondTransaction = Normal"
| "from_chia_type NewUnfinishedBlock = Normal"
| "from_chia_type RequestBlock = Normal"
| "from_chia_type RequestTransaction = Normal"
| "from_chia_type RequestUnfinishedBlock = Normal"
| "from_chia_type RequestBlocks = Bulk"
| "from_chia_type RespondBlocks = Bulk"
| "from_chia_type RequestPeers = Bulk"
| "from_chia_type RespondPeers = Bulk"
| "from_chia_type RequestMempoolTransactions = Bulk"
| "from_chia_type RequestPeersIntroducer = Bulk"
| "from_chia_type RespondPeersIntroducer = Bulk"
| "from_chia_type _ = Normal"

definition from_dig_type :: "u8 \<Rightarrow> MessagePriority" where
  "from_dig_type ty =
     (if 200 \<le> ty \<and> ty \<le> 202 then Critical
      else if 203 \<le> ty \<and> ty \<le> 206 then Normal
      else if ty = 208 then Bulk
      else if 214 \<le> ty \<and> ty \<le> 217 then Normal
      else if ty = STORE_MELTED then Bulk
      else if ty = HOLDINGS_ANNOUNCE then Bulk
      else if ty = PROFILE_ROOT_ANNOUNCE then Bulk
      else if ty = DISTRIBUTOR_ANNOUNCE then Bulk
      else Normal)"

datatype BroadcastStrategy = Plumtree | Erlay | Unicast

fun classify_chia :: "bool \<Rightarrow> bool \<Rightarrow> ProtocolMessageTypes \<Rightarrow> BroadcastStrategy" where
  "classify_chia feature_erlay erlay_enabled NewTransaction =
     (if feature_erlay \<and> erlay_enabled then Erlay else Plumtree)"
| "classify_chia feature_erlay erlay_enabled RespondPeers = Unicast"
| "classify_chia feature_erlay erlay_enabled RespondTransaction = Unicast"
| "classify_chia feature_erlay erlay_enabled RespondBlocks = Unicast"
| "classify_chia feature_erlay erlay_enabled RejectBlock = Unicast"
| "classify_chia feature_erlay erlay_enabled RejectBlocks = Unicast"
| "classify_chia feature_erlay erlay_enabled _ = Plumtree"

definition classify_broadcast ::
  "(u8 \<Rightarrow> ProtocolMessageTypes option) \<Rightarrow> bool \<Rightarrow> u8 \<Rightarrow> bool \<Rightarrow> BroadcastStrategy" where
  "classify_broadcast parse feature_erlay ty erlay_enabled =
     (if ty = STORE_MELTED \<or> ty = HOLDINGS_ANNOUNCE \<or> ty = PROFILE_ROOT_ANNOUNCE
         \<or> ty = DISTRIBUTOR_ANNOUNCE then Plumtree
      else if ty = DIG_MESSAGE \<or> ty = PROFILE_BODY_REQUEST \<or> ty = PROFILE_BODY then Unicast
      else case parse ty of
             None \<Rightarrow> Plumtree
           | Some t \<Rightarrow> classify_chia feature_erlay erlay_enabled t)"

definition broadcast_priority :: "ProtocolMessageTypes \<Rightarrow> MessagePriority" where
  "broadcast_priority ty = from_chia_type ty"

definition should_relay_broadcast :: "bool \<Rightarrow> BroadcastStrategy \<Rightarrow> bool" where
  "should_relay_broadcast relay_connected strategy \<longleftrightarrow> relay_connected \<and> strategy \<noteq> Unicast"

section \<open>The consensus band\<close>

datatype DigMessageType =
    NewAttestation | NewCheckpointProposal | NewCheckpointSignature | RequestCheckpointSignatures
  | RespondCheckpointSignatures | RequestStatus | RespondStatus | NewCheckpointSubmission
  | ValidatorAnnounce | RequestBlockTransactions | RespondBlockTransactions | ReconciliationSketch
  | ReconciliationResponse | StemTransaction | PlumtreeLazyAnnounce | PlumtreePrune | PlumtreeGraft
  | PlumtreeRequestByHash | RegisterPeer | RegisterAck

datatype RoutingStrategy =
    PlumtreeEager | PlumtreeLazy | PlumtreeControl | PlumtreePull | UnicastRequest
  | UnicastResponse | BroadcastFlood | ErlayReconciliation | DandelionStem | UnicastToIntroducer
  | UnicastFromIntroducer

fun route_dig_message :: "DigMessageType \<Rightarrow> RoutingStrategy" where
  "route_dig_message NewAttestation = PlumtreeEager"
| "route_dig_message NewCheckpointProposal = PlumtreeEager"
| "route_dig_message NewCheckpointSignature = PlumtreeEager"
| "route_dig_message NewCheckpointSubmission = PlumtreeEager"
| "route_dig_message RequestCheckpointSignatures = UnicastRequest"
| "route_dig_message RequestStatus = UnicastRequest"
| "route_dig_message RequestBlockTransactions = UnicastRequest"
| "route_dig_message RespondCheckpointSignatures = UnicastResponse"
| "route_dig_message RespondStatus = UnicastResponse"
| "route_dig_message RespondBlockTransactions = UnicastResponse"
| "route_dig_message ValidatorAnnounce = BroadcastFlood"
| "route_dig_message ReconciliationSketch = ErlayReconciliation"
| "route_dig_message ReconciliationResponse = ErlayReconciliation"
| "route_dig_message StemTransaction = DandelionStem"
| "route_dig_message PlumtreeLazyAnnounce = PlumtreeLazy"
| "route_dig_message PlumtreePrune = PlumtreeControl"
| "route_dig_message PlumtreeGraft = PlumtreeControl"
| "route_dig_message PlumtreeRequestByHash = PlumtreePull"
| "route_dig_message RegisterPeer = UnicastToIntroducer"
| "route_dig_message RegisterAck = UnicastFromIntroducer"

text \<open>The discriminants of the shared wire crate, as the module's table lists them.\<close>

fun dig_opcode :: "DigMessageType \<Rightarrow> u8" where
  "dig_opcode NewAttestation = 200"
| "dig_opcode NewCheckpointProposal = 201"
| "dig_opcode NewCheckpointSignature = 202"
| "dig_opcode RequestCheckpointSignatures = 203"
| "dig_opcode RespondCheckpointSignatures = 204"
| "dig_opcode RequestStatus = 205"
| "dig_opcode RespondStatus = 206"
| "dig_opcode NewCheckpointSubmission = 207"
| "dig_opcode ValidatorAnnounce = 208"
| "dig_opcode RequestBlockTransactions = 209"
| "dig_opcode RespondBlockTransactions = 210"
| "dig_opcode ReconciliationSketch = 211"
| "dig_opcode ReconciliationResponse = 212"
| "dig_opcode StemTransaction = 213"
| "dig_opcode PlumtreeLazyAnnounce = 214"
| "dig_opcode PlumtreePrune = 215"
| "dig_opcode PlumtreeGraft = 216"
| "dig_opcode PlumtreeRequestByHash = 217"
| "dig_opcode RegisterPeer = 218"
| "dig_opcode RegisterAck = 219"

lemmas band_opcodes = DIG_MESSAGE_def STORE_MELTED_def HOLDINGS_ANNOUNCE_def
  PROFILE_ROOT_ANNOUNCE_def PROFILE_BODY_REQUEST_def PROFILE_BODY_def DISTRIBUTOR_ANNOUNCE_def

section \<open>The 220 band\<close>

text \<open>
  No confusion between the seven message kinds of the 220 band. At most one of the seven
  lifts accepts any message, and each accepts only its own opcode; so a frame of one kind is
  never read as another, even though the announce and the request of the profile exchange have
  identical bodies.
\<close>

theorem band_lifts_exclusive:
  "length (filter (\<lambda>b. b)
     [dig_message_payload msg \<noteq> None, store_melted_payload msg \<noteq> None,
      holdings_announce_payload msg \<noteq> None, profile_root_announce_payload msg \<noteq> None,
      profile_body_request_payload msg \<noteq> None, profile_body_payload msg \<noteq> None,
      distributor_announce_payload msg \<noteq> None]) \<le> 1
   \<and> (dig_message_payload msg \<noteq> None) = (msg_type msg = 220)"
proof -
  have "dig_message_payload msg \<noteq> None \<longleftrightarrow> msg_type msg = 220"
    by (simp add: dig_message_payload_def is_dig_message_def band_opcodes)
  moreover have "msg_type msg \<noteq> 221 \<Longrightarrow> store_melted_payload msg = None"
    "msg_type msg \<noteq> 222 \<Longrightarrow> holdings_announce_payload msg = None"
    "msg_type msg \<noteq> 223 \<Longrightarrow> profile_root_announce_payload msg = None"
    "msg_type msg \<noteq> 224 \<Longrightarrow> profile_body_request_payload msg = None"
    "msg_type msg \<noteq> 225 \<Longrightarrow> profile_body_payload msg = None"
    "msg_type msg \<noteq> 226 \<Longrightarrow> distributor_announce_payload msg = None"
    using store_melted.lift_other [of msg] holdings.lift_other [of msg]
      root_announce.lift_other [of msg] body_request.lift_other [of msg] distributor.lift_other [of msg]
    by (simp_all add: band_opcodes profile_body_payload_def is_profile_body_def)
  ultimately show ?thesis
    by (cases "msg_type msg = 220"; cases "msg_type msg = 221"; cases "msg_type msg = 222";
        cases "msg_type msg = 223"; cases "msg_type msg = 224"; cases "msg_type msg = 225";
        cases "msg_type msg = 226") simp_all
qed

text \<open>
  Priority, dissemination and relay agree across the band: the four public announcements
  are flooded, travel in the bulk lane and go through the relay when one is connected; the three
  directed kinds are never broadcast, never relayed as a broadcast, and do not queue behind bulk
  traffic.
\<close>

theorem band_classification:
  assumes "ty \<in> {220, 221, 222, 223, 224, 225, 226}"
  shows "(if ty \<in> {STORE_MELTED, HOLDINGS_ANNOUNCE, PROFILE_ROOT_ANNOUNCE, DISTRIBUTOR_ANNOUNCE}
     then classify_broadcast parse feature_erlay ty erlay_enabled = Plumtree
       \<and> from_dig_type ty = Bulk
       \<and> should_relay_broadcast True (classify_broadcast parse feature_erlay ty erlay_enabled)
     else classify_broadcast parse feature_erlay ty erlay_enabled = Unicast
       \<and> from_dig_type ty = Normal
       \<and> \<not> should_relay_broadcast connected (classify_broadcast parse feature_erlay ty erlay_enabled))"
  using assms
  by (auto simp: band_opcodes classify_broadcast_def from_dig_type_def should_relay_broadcast_def)

theorem band_classification_witness:
  "classify_broadcast (\<lambda>_. None) True 224 True = Unicast \<and> from_dig_type 224 = Normal"
  using band_classification [of 224 "\<lambda>_. None" True True] by (simp add: band_opcodes)

end
