(* ===== verification/Directed_Send.thy ===== *)
theory Directed_Send
  imports Peer_View Broadcaster
begin

text \<open>
  Messages to one peer (\<open>service/gossip_handle.rs\<close>): \<open>send_to\<close>, \<open>send_frame\<close>, the directed
  envelopes and streams of opcode 220, \<open>request\<close>, and the two entry points for the consensus
  opcodes, \<open>broadcast_dig\<close> and \<open>send_dig\<close>.

  An operation works on the two views of the state (\<open>Peer_View\<close>): the ban check prunes the
  service state, the rest reads and writes the one of \<open>Fan_Out\<close>. It returns its result, the
  messages handed to the link of the peer, and both states. The serialisation of a typed body is
  an argument (\<open>None\<close>: it fails), as is what a live peer answers to a request.
\<close>

section \<open>Operations\<close>

datatype SendError =
    NotStarted
  | PeerIsBanned peer_id
  | PeerNotConnected peer_id
  | LockPoisoned
  | LinkFailed
  | EncodeFailed
  | WrongDispatchShape
  | UseDedicatedIntroducerMethod
  | StrategyNotYetProduced RoutingStrategy u8
  | RequestTimedOut
  | FanOutFailed GossipError
  | Unreachable

type_synonym ('r, 's, 'c) sent =
  "(SendError + 'r) \<times> DigMessage list \<times> ('s, 'c) gossip_state \<times> ServiceState"

text \<open>The hand-over, after the checks: a live slot sends over its link, any other slot is only
  counted.\<close>

definition hand_over ::
    "fan_env \<Rightarrow> peer_id \<Rightarrow> DigMessage \<Rightarrow> ('s, 'c) gossip_state
      \<Rightarrow> (SendError + unit) \<times> DigMessage list \<times> ('s, 'c) gossip_state" where
  "hand_over env p msg g =
     (if PeersLock \<in> poisoned g then (Inl LockPoisoned, [], g)
      else case map_of (gs_peers g) p of
             None \<Rightarrow> (Inl (PeerNotConnected p), [], g)
           | Some (SlotLive _) \<Rightarrow>
               (if env_send env p msg
                then (Inr (), [msg], record_live_peer_outbound_bytes p (env_wire_len env msg) g)
                else (Inl LinkFailed, [], g))
           | Some _ \<Rightarrow> (Inr (), [], count_sent (env_wire_len env msg) 1 g))"

definition send_directed_message ::
    "fan_env \<Rightarrow> peer_id list \<Rightarrow> peer_id \<Rightarrow> DigMessage \<Rightarrow> ('s, 'c) gossip_state \<Rightarrow> ServiceState
      \<Rightarrow> (unit, 's, 'c) sent" where
  "send_directed_message env bans p msg g st =
     (if \<not> running g then (Inl NotStarted, [], g, st)
      else
        let (banned, st) = is_peer_id_banned_at bans p (env_now env) st
        in if banned then (Inl (PeerIsBanned p), [], g, st)
           else let (res, out, g) = hand_over env p msg g in (res, out, g, st))"

definition send_to ::
    "fan_env \<Rightarrow> peer_id list \<Rightarrow> peer_id \<Rightarrow> DigMessage option \<Rightarrow> ('s, 'c) gossip_state \<Rightarrow> ServiceState
      \<Rightarrow> (unit, 's, 'c) sent" where
  "send_to env bans p encoded g st =
     (if \<not> running g then (Inl NotStarted, [], g, st)
      else case encoded of
             None \<Rightarrow> (Inl EncodeFailed, [], g, st)
           | Some msg \<Rightarrow>
               (let (banned, st) = is_peer_id_banned_at bans p (env_now env) st
                in if banned then (Inl (PeerIsBanned p), [], g, st)
                   else let (res, out, g) = hand_over env p msg g in (res, out, g, st)))"

definition send_frame where
  "send_frame env bans p msg g st = send_directed_message env bans p msg g st"

definition live_peer_ids :: "('s, 'c) gossip_state \<Rightarrow> peer_id list" where
  "live_peer_ids g =
     (if PeersLock \<in> poisoned g then []
      else map fst (filter (\<lambda>(_, slot). case slot of SlotStub \<Rightarrow> False | _ \<Rightarrow> True) (gs_peers g)))"

definition send_dig_message ::
    "fan_env \<Rightarrow> peer_id list \<Rightarrow> peer_id \<Rightarrow> bytes \<Rightarrow> u16 option \<Rightarrow> ('s, 'c) gossip_state \<Rightarrow> ServiceState
      \<Rightarrow> (unit, 's, 'c) sent" where
  "send_dig_message env bans p envelope correlation_id g st =
     send_directed_message env bans p (frame_envelope envelope correlation_id) g st"

fun frame_stream_id :: "StreamFrame \<Rightarrow> u64" where
  "frame_stream_id (Open sid) = sid"
| "frame_stream_id (Data sid _ _) = sid"
| "frame_stream_id (Dig_Message.Close sid) = sid"

definition stream_message :: "StreamFrame \<Rightarrow> DigMessage" where
  "stream_message frame =
     frame_envelope (StreamFrame_encode frame) (Some (ucast (frame_stream_id frame)))"

definition send_stream_frame ::
    "fan_env \<Rightarrow> peer_id list \<Rightarrow> peer_id \<Rightarrow> StreamFrame \<Rightarrow> ('s, 'c) gossip_state \<Rightarrow> ServiceState
      \<Rightarrow> (unit, 's, 'c) sent" where
  "send_stream_frame env bans p frame g st =
     send_dig_message env bans p (StreamFrame_encode frame) (Some (ucast (frame_stream_id frame))) g st"

definition open_dig_stream where
  "open_dig_stream env bans p sid g st = send_stream_frame env bans p (Open sid) g st"

definition send_dig_stream_data where
  "send_dig_stream_data env bans p sid sq payload g st = send_stream_frame env bans p (Data sid sq payload) g st"

definition close_dig_stream where
  "close_dig_stream env bans p sid g st = send_stream_frame env bans p (Dig_Message.Close sid) g st"

text \<open>The last case is the \<open>unreachable!\<close> of the source.\<close>

fun deferred_dispatch_error :: "RoutingStrategy \<Rightarrow> DigMessageType \<Rightarrow> SendError" where
  "deferred_dispatch_error UnicastToIntroducer ty = UseDedicatedIntroducerMethod"
| "deferred_dispatch_error UnicastFromIntroducer ty = UseDedicatedIntroducerMethod"
| "deferred_dispatch_error ErlayReconciliation ty = StrategyNotYetProduced ErlayReconciliation (dig_opcode ty)"
| "deferred_dispatch_error DandelionStem ty = StrategyNotYetProduced DandelionStem (dig_opcode ty)"
| "deferred_dispatch_error PlumtreeLazy ty = StrategyNotYetProduced PlumtreeLazy (dig_opcode ty)"
| "deferred_dispatch_error PlumtreeControl ty = StrategyNotYetProduced PlumtreeControl (dig_opcode ty)"
| "deferred_dispatch_error PlumtreePull ty = StrategyNotYetProduced PlumtreePull (dig_opcode ty)"
| "deferred_dispatch_error _ ty = Unreachable"

definition broadcast_dig ::
    "fan_env \<Rightarrow> ('s, bytes32, unit) lru_ops \<Rightarrow> ('c, bytes32, CacheEntry) lru_ops \<Rightarrow> DigMessageType \<Rightarrow> bytes
      \<Rightarrow> ('s, 'c) gossip_state \<Rightarrow> (SendError + nat) \<times> peer_id list \<times> ('s, 'c) gossip_state" where
  "broadcast_dig env seen_ops cache_ops ty body g =
     (if \<not> running g then (Inl NotStarted, [], g)
      else if route_dig_message ty \<in> {PlumtreeEager, BroadcastFlood}
      then (case broadcast env seen_ops cache_ops (frame_dig_message (dig_opcode ty) body) None g of
              (Inl e, reached, g) \<Rightarrow> (Inl (FanOutFailed e), reached, g)
            | (Inr n, reached, g) \<Rightarrow> (Inr n, reached, g))
      else if route_dig_message ty \<in> {UnicastRequest, UnicastResponse}
      then (Inl WrongDispatchShape, [], g)
      else (Inl (deferred_dispatch_error (route_dig_message ty) ty), [], g))"

definition send_dig ::
    "fan_env \<Rightarrow> peer_id list \<Rightarrow> peer_id \<Rightarrow> DigMessageType \<Rightarrow> bytes \<Rightarrow> ('s, 'c) gossip_state \<Rightarrow> ServiceState
      \<Rightarrow> (unit, 's, 'c) sent" where
  "send_dig env bans p ty body g st =
     (if \<not> running g then (Inl NotStarted, [], g, st)
      else if route_dig_message ty \<in> {UnicastRequest, UnicastResponse}
      then send_directed_message env bans p (frame_dig_message (dig_opcode ty) body) g st
      else if route_dig_message ty \<in> {PlumtreeEager, BroadcastFlood}
      then (Inl WrongDispatchShape, [], g, st)
      else (Inl (deferred_dispatch_error (route_dig_message ty) ty), [], g, st))"

text \<open>A request: the answer of a live peer is \<open>answer\<close>; \<open>peers_pair\<close> says that the types are
  \<open>RequestPeers\<close> and \<open>RespondPeers\<close>, for which any other slot answers with \<open>no_peers\<close>.\<close>

definition request ::
    "fan_env \<Rightarrow> peer_id list \<Rightarrow> peer_id \<Rightarrow> bool \<Rightarrow> bool \<Rightarrow> SendError + 'r \<Rightarrow> 'r
      \<Rightarrow> ('s, 'c) gossip_state \<Rightarrow> ServiceState \<Rightarrow> (SendError + 'r) \<times> ServiceState" where
  "request env bans p encodes peers_pair answer no_peers g st =
     (if \<not> running g then (Inl NotStarted, st)
      else if \<not> encodes then (Inl EncodeFailed, st)
      else
        let (banned, st) = is_peer_id_banned_at bans p (env_now env) st
        in if banned then (Inl (PeerIsBanned p), st)
           else if PeersLock \<in> poisoned g then (Inl LockPoisoned, st)
           else case map_of (gs_peers g) p of
                  None \<Rightarrow> (Inl (PeerNotConnected p), st)
                | Some (SlotLive _) \<Rightarrow> (answer, st)
                | Some _ \<Rightarrow> (if peers_pair then Inr no_peers else Inl RequestTimedOut, st))"

section \<open>What a directed send does\<close>

lemma hand_over_cases:
  assumes "hand_over env p msg g = (res, out, g')"
  shows "out = (if (\<exists>m. map_of (gs_peers g) p = Some (SlotLive m)) \<and> PeersLock \<notin> poisoned g \<and> env_send env p msg
                then [msg] else [])"
    and "res = Inr () \<longleftrightarrow> PeersLock \<notin> poisoned g
       \<and> (\<exists>slot. map_of (gs_peers g) p = Some slot \<and> ((\<exists>m. slot = SlotLive m) \<longrightarrow> env_send env p msg))"
    and "res \<noteq> Inr () \<Longrightarrow> g' = g"
  using assms
  by (auto simp: hand_over_def split: if_splits option.splits PeerSlot.splits)

lemma banned_now:
  "is_peer_id_banned_at bans p now st = (b, st') \<Longrightarrow> fmlookup (svc_banned st) q = None
     \<Longrightarrow> fmlookup (svc_banned st') q = None"
  "is_peer_id_banned_at bans p now st = (b, st') \<Longrightarrow> fmlookup (svc_banned st) p = None \<Longrightarrow> \<not> b"
  by (auto simp: is_peer_id_banned_at_def prune_banned Let_def split: option.splits if_splits)

text \<open>
  What a directed message reaches. A successful send hands its message to the link exactly
  when the peer has a live slot; a failed send hands over nothing and changes no counter. The
  peer of a mux slot is offered among the live peers, yet a send to it succeeds, is counted as
  sent, and hands the message to nobody.
\<close>

theorem directed_send_reaches:
  assumes "send_directed_message env bans p msg g st = (res, out, g', st')"
  shows "(res = Inr () \<longrightarrow> (out = [msg] \<longleftrightarrow> (\<exists>m. map_of (gs_peers g) p = Some (SlotLive m))) \<and> out \<in> {[], [msg]})
    \<and> (res \<noteq> Inr () \<longrightarrow> out = [] \<and> g' = g)
    \<and> (\<forall>sink. map_of (gs_peers g) p = Some (SlotNat sink) \<and> res = Inr () \<longrightarrow>
         p \<in> set (live_peer_ids g) \<and> out = [] \<and> gs_messages_sent g' = (gs_messages_sent g + 1) mod 2 ^ 64)"
proof -
  obtain b st1 where ban: "is_peer_id_banned_at bans p (env_now env) st = (b, st1)" by fastforce
  obtain r o1 g1 where hand: "hand_over env p msg g = (r, o1, g1)" by (rule prod_cases3)
  have cases: "res = Inl NotStarted \<and> out = [] \<and> g' = g \<or> res = Inl (PeerIsBanned p) \<and> out = [] \<and> g' = g
      \<or> res = r \<and> out = o1 \<and> g' = g1"
    using assms by (auto simp: send_directed_message_def ban hand split: if_splits)
  have nat: "p \<in> set (live_peer_ids g)" "o1 = []" "gs_messages_sent g1 = (gs_messages_sent g + 1) mod 2 ^ 64"
    if "map_of (gs_peers g) p = Some (SlotNat sink)" "r = Inr ()" for sink
  proof -
    have free: "PeersLock \<notin> poisoned g"
      using hand_over_cases(2) [OF hand] that(2) by simp
    show "p \<in> set (live_peer_ids g)"
      using map_of_SomeD [OF that(1)] free by (force simp: live_peer_ids_def)
    show "o1 = []" "gs_messages_sent g1 = (gs_messages_sent g + 1) mod 2 ^ 64"
      using hand that(1) free by (auto simp: hand_over_def count_sent_def)
  qed
  show ?thesis
    using cases hand_over_cases [OF hand] nat by (elim disjE) (auto split: if_splits)
qed

theorem directed_send_reaches_witness:
  "fst (snd (send_directed_message demo_env [] [7] (frame_envelope [1] None)
     (demo_state\<lparr>gs_peers := [([7], SlotNat True)]\<rparr>) service_new)) = []"
proof -
  let ?g = "demo_state\<lparr>gs_peers := [([7], SlotNat True)]\<rparr>"
  obtain res out g' st' where run: "send_directed_message demo_env [] [7] (frame_envelope [1] None) ?g service_new
      = (res, out, g', st')"
    by (rule prod_cases4)
  show ?thesis
    using directed_send_reaches [OF run] run by auto
qed

section \<open>A peer that can be reached\<close>

text \<open>A link that takes every message of a peer, and the state in which a send to it succeeds.\<close>

definition reachable_peer ::
    "fan_env \<Rightarrow> peer_id \<Rightarrow> ('s, 'c) gossip_state \<Rightarrow> ServiceState \<Rightarrow> bool" where
  "reachable_peer env p g st \<longleftrightarrow> running g \<and> PeersLock \<notin> poisoned g \<and> fmlookup (svc_banned st) p = None
     \<and> (\<exists>m. map_of (gs_peers g) p = Some (SlotLive m)) \<and> (\<forall>msg. env_send env p msg)"

lemma map_of_recorded:
  "map_of (gs_peers g) p = Some (SlotLive m) \<Longrightarrow>
     \<exists>m'. map_of (gs_peers (record_live_peer_outbound_bytes p n g)) p = Some (SlotLive m')"
proof -
  have "map_of (map (\<lambda>(q, slot). (q, f q slot)) xs) p = map_option (f p) (map_of xs p)"
    for f :: "peer_id \<Rightarrow> PeerSlot \<Rightarrow> PeerSlot" and xs
    by (induction xs) auto
  then show "map_of (gs_peers g) p = Some (SlotLive m) \<Longrightarrow> ?thesis"
    by (simp add: record_live_peer_outbound_bytes_def)
qed

lemma directed_sent:
  assumes "reachable_peer env p g st"
  obtains g' st' where "send_directed_message env bans p msg g st = (Inr (), [msg], g', st')"
    and "reachable_peer env p g' st'"
proof -
  obtain m where m: "map_of (gs_peers g) p = Some (SlotLive m)"
    using assms by (auto simp: reachable_peer_def)
  obtain b st' where ban: "is_peer_id_banned_at bans p (env_now env) st = (b, st')" by fastforce
  let ?g = "record_live_peer_outbound_bytes p (env_wire_len env msg) g"
  have clear: "\<not> b" "fmlookup (svc_banned st') p = None"
    using assms banned_now [OF ban] by (simp_all add: reachable_peer_def)
  have "send_directed_message env bans p msg g st = (Inr (), [msg], ?g, st')"
    using assms m ban clear by (simp add: send_directed_message_def hand_over_def reachable_peer_def)
  moreover have "reachable_peer env p ?g st'"
    using assms clear map_of_recorded [OF m]
    by (auto simp: reachable_peer_def record_live_peer_outbound_bytes_def)
  ultimately show thesis by (rule that)
qed

section \<open>One shape per opcode\<close>

lemma opcode_fan:
  "dig_opcode ty \<in> {200, 201, 202, 207, 208} \<longleftrightarrow> route_dig_message ty \<in> {PlumtreeEager, BroadcastFlood}"
  by (cases ty) simp_all

lemma opcode_unicast:
  "dig_opcode ty \<in> {203, 204, 205, 206, 209, 210} \<longleftrightarrow> route_dig_message ty \<in> {UnicastRequest, UnicastResponse}"
  by (cases ty) simp_all

lemma send_directed_frame:
  assumes "send_directed_message env bans p msg g st = (res, out, g', st')"
  shows "out \<in> {[], [msg]} \<and> gs_seen g' = gs_seen g \<and> gs_cache g' = gs_cache g \<and> map fst (gs_peers g') = map fst (gs_peers g)"
  using assms
  by (auto simp: send_directed_message_def hand_over_def count_sent_def record_live_peer_outbound_bytes_def
      split_beta comp_def split: if_splits option.splits PeerSlot.splits prod.splits)

text \<open>An opcode that is broadcast: a second broadcast reaches nobody. One that goes to a single
  peer: one frame, as often as wanted.\<close>

lemma broadcast_shape:
  assumes "running g" "poisoned g = {}" "lru_laws so view" "0 < lru_cap so (gs_seen g)"
    and fan: "route_dig_message ty \<in> {PlumtreeEager, BroadcastFlood}"
    and run: "broadcast_dig env so co ty body g = (res, reached, g')"
  shows "broadcast_dig env so co ty body g' = (Inr 0, [], g')"
proof -
  let ?msg = "frame_dig_message (dig_opcode ty) body"
  obtain r where r: "broadcast env so co ?msg None g = (r, reached, g')"
    using run fan assms(1) by (auto simp: broadcast_dig_def split: prod.splits sum.splits)
  note seen = fan_out_records [OF assms(3,4,1,2) r [unfolded broadcast_def]]
  have "broadcast env so co ?msg None g' = (Inr 0, [], g')"
    using seen by (simp add: broadcast_def fan_out_def Let_def)
  then show ?thesis
    using fan seen by (auto simp: broadcast_dig_def)
qed

lemma unicast_shape:
  assumes "running g" and uni: "route_dig_message ty \<in> {UnicastRequest, UnicastResponse}"
    and run: "send_dig env bans p ty body g st = (res, out, g', st')"
  shows "out \<in> {[], [frame_dig_message (dig_opcode ty) body]}
    \<and> gs_seen g' = gs_seen g \<and> gs_cache g' = gs_cache g
    \<and> (reachable_peer env p g st \<longrightarrow> res = Inr () \<and> out \<noteq> []
         \<and> (\<exists>g'' st''. send_dig env bans p ty body g' st' = (Inr (), out, g'', st'')))"
proof -
  let ?msg = "frame_dig_message (dig_opcode ty) body"
  have sent: "send_directed_message env bans p ?msg g st = (res, out, g', st')"
    using run uni assms(1) by (auto simp: send_dig_def)
  have "res = Inr () \<and> out = [?msg] \<and> (\<exists>g'' st''. send_dig env bans p ty body g' st' = (Inr (), [?msg], g'', st''))"
    if "reachable_peer env p g st"
  proof -
    have first: "res = Inr () \<and> out = [?msg] \<and> reachable_peer env p g' st'"
      using directed_sent [OF that, of bans ?msg] sent by auto
    then obtain g'' st'' where "send_directed_message env bans p ?msg g' st' = (Inr (), [?msg], g'', st'')"
      using directed_sent [of env p g' st' bans ?msg] by blast
    then show ?thesis
      using first uni by (auto simp: send_dig_def reachable_peer_def)
  qed
  then show ?thesis
    using send_directed_frame [OF sent] by auto
qed

definition deferred_refusal :: "u8 \<Rightarrow> SendError" where
  "deferred_refusal op =
     (if op \<in> {218, 219} then UseDedicatedIntroducerMethod
      else StrategyNotYetProduced
        (if op \<in> {211, 212} then ErlayReconciliation else if op = 213 then DandelionStem
         else if op = 214 then PlumtreeLazy else if op \<in> {215, 216} then PlumtreeControl else PlumtreePull) op)"

text \<open>
  C40: how each consensus opcode travels. The five opcodes 200, 201, 202, 207 and 208 can only be
  broadcast: sending one to a peer is refused, and broadcasting the same body a second time reaches
  nobody. The six opcodes 203 to 206, 209 and 210 can only be sent to one peer: broadcasting is
  refused, the peer's link gets at most the one frame, and what was seen and cached is not touched, so
  the same frame can be sent again. The other nine are refused by both entry points with the
  same error. No refusal changes anything.
\<close>

theorem dispatch_exclusive:
  assumes "running g" "poisoned g = {}" "lru_laws so view" "0 < lru_cap so (gs_seen g)"
  shows "(dig_opcode ty \<in> {200, 201, 202, 207, 208} \<longrightarrow>
            send_dig env bans p ty body g st = (Inl WrongDispatchShape, [], g, st)
            \<and> (\<forall>res reached g'. broadcast_dig env so co ty body g = (res, reached, g') \<longrightarrow>
                  broadcast_dig env so co ty body g' = (Inr 0, [], g')))
    \<and> (dig_opcode ty \<in> {203, 204, 205, 206, 209, 210} \<longrightarrow>
            broadcast_dig env so co ty body g = (Inl WrongDispatchShape, [], g)
            \<and> (\<forall>res out g' st'. send_dig env bans p ty body g st = (res, out, g', st') \<longrightarrow>
                  out \<in> {[], [\<lparr>msg_type = dig_opcode ty, msg_id = None, data = body\<rparr>]}
                  \<and> gs_seen g' = gs_seen g \<and> gs_cache g' = gs_cache g
                  \<and> (reachable_peer env p g st \<longrightarrow> res = Inr () \<and> out \<noteq> []
                       \<and> (\<exists>g'' st''. send_dig env bans p ty body g' st' = (Inr (), out, g'', st'')))))
    \<and> (dig_opcode ty \<in> {211, 212, 213, 214, 215, 216, 217, 218, 219} \<longrightarrow>
            broadcast_dig env so co ty body g = (Inl (deferred_refusal (dig_opcode ty)), [], g)
            \<and> send_dig env bans p ty body g st = (Inl (deferred_refusal (dig_opcode ty)), [], g, st))
    \<and> 200 \<le> dig_opcode ty \<and> dig_opcode ty \<le> 219"
proof -
  have eager: "send_dig env bans p ty body g st = (Inl WrongDispatchShape, [], g, st)"
    if "route_dig_message ty \<in> {PlumtreeEager, BroadcastFlood}"
    using that assms(1) by (auto simp: send_dig_def)
  have lone: "broadcast_dig env so co ty body g = (Inl WrongDispatchShape, [], g)"
    if "route_dig_message ty \<in> {UnicastRequest, UnicastResponse}"
    using that assms(1) by (auto simp: broadcast_dig_def)
  have refused: "broadcast_dig env so co ty body g = (Inl (deferred_refusal (dig_opcode ty)), [], g)
      \<and> send_dig env bans p ty body g st = (Inl (deferred_refusal (dig_opcode ty)), [], g, st)"
    if "dig_opcode ty \<in> {211, 212, 213, 214, 215, 216, 217, 218, 219}"
    using that assms(1) by (cases ty; simp add: broadcast_dig_def send_dig_def deferred_refusal_def)
  have band: "200 \<le> dig_opcode ty \<and> dig_opcode ty \<le> 219"
    by (cases ty; simp)
  show ?thesis
    unfolding opcode_fan opcode_unicast
    using eager lone refused band broadcast_shape [OF assms] unicast_shape [OF assms(1), where env = env and body = body]
    by (simp only: frame_dig_message_def) blast
qed

theorem dispatch_exclusive_witness:
  "send_dig demo_env [] [7] NewAttestation [1] demo_state service_new = (Inl WrongDispatchShape, [], demo_state, service_new)"
proof -
  have "running demo_state" "poisoned demo_state = {}" "0 < lru_cap list_lru (gs_seen demo_state)"
    by (simp_all add: demo_defs)
  from dispatch_exclusive [OF this(1,2) list_lru_laws this(3), where ty = NewAttestation and env = demo_env
      and bans = "[]" and p = "[7]" and body = "[1]" and st = service_new]
  show ?thesis by simp
qed

section \<open>A stream from end to end\<close>

text \<open>Sending frames one after another, until one fails.\<close>

fun send_frames ::
    "fan_env \<Rightarrow> peer_id list \<Rightarrow> peer_id \<Rightarrow> StreamFrame list \<Rightarrow> ('s, 'c) gossip_state \<Rightarrow> ServiceState
      \<Rightarrow> (unit, 's, 'c) sent" where
  "send_frames env bans p [] g st = (Inr (), [], g, st)"
| "send_frames env bans p (f # fs) g st =
     (case send_stream_frame env bans p f g st of
        (Inl e, out, g, st) \<Rightarrow> (Inl e, out, g, st)
      | (Inr _, out, g, st) \<Rightarrow>
          (let (res, out', g, st) = send_frames env bans p fs g st in (res, out @ out', g, st)))"

definition stream_frames :: "u64 \<Rightarrow> bytes list \<Rightarrow> StreamFrame list" where
  "stream_frames sid chunks =
     Open sid # map (\<lambda>(i, c). Data sid (of_nat i) c) (List.enumerate 0 chunks) @ [Dig_Message.Close sid]"

text \<open>The receiver: the chunks of one stream among the messages of a peer.\<close>

definition stream_chunk :: "u64 \<Rightarrow> DigMessage \<Rightarrow> (nat \<times> bytes) option" where
  "stream_chunk sid msg =
     (case Option.bind (dig_message_payload msg) StreamFrame_decode of
        Some (Data s sq payload) \<Rightarrow> if s = sid then Some (unat sq, payload) else None
      | _ \<Rightarrow> None)"

definition stream_chunks :: "u64 \<Rightarrow> DigMessage list \<Rightarrow> (nat \<times> bytes) list" where
  "stream_chunks sid msgs = List.map_filter (stream_chunk sid) msgs"


lemma stream_frame_sent:
  assumes "reachable_peer env p g st"
  obtains g' st' where "send_stream_frame env bans p f g st = (Inr (), [stream_message f], g', st')"
    and "reachable_peer env p g' st'"
  using directed_sent [OF assms, of bans "stream_message f"]
  by (auto simp: send_stream_frame_def send_dig_message_def stream_message_def)

lemma stream_frames_sent:
  assumes "reachable_peer env p g st"
  shows "\<exists>g' st'. send_frames env bans p fs g st = (Inr (), map stream_message fs, g', st')"
  using assms
proof (induction fs arbitrary: g st)
  case (Cons f fs)
  obtain g1 st1 where one: "send_stream_frame env bans p f g st = (Inr (), [stream_message f], g1, st1)"
    and live: "reachable_peer env p g1 st1"
    using Cons.prems by (rule stream_frame_sent)
  show ?case using Cons.IH [OF live] one by fastforce
qed simp

lemma stream_chunk_message:
  "stream_chunk sid (stream_message f) =
     (case f of Data s sq payload \<Rightarrow> if s = sid then Some (unat sq, payload) else None | _ \<Rightarrow> None)"
  by (simp add: stream_chunk_def stream_message_def frame_envelope_def dig_message_payload_def
      is_dig_message_def stream_decode_encode split: StreamFrame.split)

lemma chunks_of_stream:
  assumes "length cs < 2 ^ 64" "set msgs = stream_message ` set (stream_frames sid cs)"
  shows "set (stream_chunks sid msgs) = (\<lambda>i. (i, cs ! i)) ` {..<length cs}"
proof -
  have "set (stream_chunks sid msgs) = {c. \<exists>f \<in> set (stream_frames sid cs). stream_chunk sid (stream_message f) = Some c}"
    using assms(2) by (force simp: stream_chunks_def List.map_filter_def image_iff)
  also have "\<dots> = {c. \<exists>i < length cs. c = (unat (of_nat i :: u64), cs ! i)}"
  proof -
    have frames: "set (stream_frames sid cs) =
        {Open sid, Dig_Message.Close sid} \<union> (\<lambda>i. Data sid (of_nat i) (cs ! i)) ` {..<length cs}"
      by (auto simp: stream_frames_def in_set_enumerate_eq image_iff)
    show ?thesis
      unfolding frames by (auto simp: stream_chunk_message)
  qed
  also have "\<dots> = (\<lambda>i. (i, cs ! i)) ` {..<length cs}"
    using assms(1) by (auto simp: unat_of_nat take_bit_nat_eq_self)
  finally show ?thesis .
qed

lemma accept_due:
  assumes "buffered r = fmempty" "next_seq r < 2 ^ 64 - 1"
  shows "accept r (next_seq r) pl = (Inr [pl], r\<lparr>next_seq := Suc (next_seq r)\<rparr>)"
proof -
  have "next_u64 (next_seq r) = Suc (next_seq r)"
    using assms(2) by (simp add: next_u64_def)
  moreover have "fmdrop (next_seq r) (fmupd (next_seq r) pl fmempty) = fmempty"
    by (rule fmap_ext) simp
  ultimately show ?thesis
    using assms(1) by (simp add: accept_def drain.simps [where r = "r\<lparr>buffered_bytes := _, buffered := _\<rparr>"])
qed

lemma accept_all_in_order:
  assumes "buffered r = fmempty" "next_seq r + length cs < 2 ^ 64"
  shows "accept_all r (List.enumerate (next_seq r) cs) = (cs, r\<lparr>next_seq := next_seq r + length cs\<rparr>)"
  using assms
proof (induction cs arbitrary: r)
  case (Cons c cs)
  have "accept r (next_seq r) c = (Inr [c], r\<lparr>next_seq := Suc (next_seq r)\<rparr>)"
    using Cons.prems by (intro accept_due) simp_all
  then show ?case
    using Cons.IH [of "r\<lparr>next_seq := Suc (next_seq r)\<rparr>"] Cons.prems by simp
qed simp

lemma chunks_as_sent:
  assumes "length cs < 2 ^ 64"
  shows "stream_chunks sid (map stream_message (stream_frames sid cs)) = List.enumerate 0 cs"
proof -
  have "List.map_filter (stream_chunk sid) (map stream_message (map (\<lambda>(i, c). Data sid (of_nat i) c) xs))
      = map (apfst (\<lambda>i. unat (of_nat i :: u64))) xs" for xs
    by (induction xs) (auto simp: List.map_filter_def stream_chunk_message)
  moreover have "map (apfst (\<lambda>i. unat (of_nat i :: u64))) (List.enumerate 0 cs) = List.enumerate 0 cs"
    using assms by (intro map_idI) (auto simp: in_set_enumerate_eq unat_of_nat take_bit_nat_eq_self)
  ultimately show ?thesis
    by (simp add: stream_chunks_def stream_frames_def List.map_filter_def stream_chunk_message)
qed

text \<open>
  C15: a stream sent in pieces arrives whole. Opening a stream to an unbanned live peer whose link
  takes everything, sending its chunks under consecutive sequence numbers and closing it hands the
  link one message per frame. A receiver that gets these messages in the order sent delivers exactly
  the chunks, whatever its caps; a receiver whose caps on chunks and bytes cover the whole stream
  delivers exactly the chunks, in order, from any order and any repetition of the messages. In
  both cases nothing is left buffered.
\<close>

theorem stream_arrives_whole:
  assumes "reachable_peer env p g st" "length cs < 2 ^ 64" "mb < u64_max"
  shows "\<exists>sent g' st'. send_frames env bans p (stream_frames sid cs) g st = (Inr (), sent, g', st')
    \<and> (\<exists>r. accept_all (with_caps mc mb) (stream_chunks sid sent) = (cs, r)
          \<and> buffered r = fmempty \<and> next_seq r = length cs)
    \<and> (length cs \<le> mc \<and> sum_list (map length cs) \<le> mb \<longrightarrow>
         (\<forall>arrived. set arrived = set sent \<longrightarrow>
           (\<exists>r. accept_all (with_caps mc mb) (stream_chunks sid arrived) = (cs, r)
              \<and> buffered r = fmempty \<and> next_seq r = length cs)))"
proof -
  let ?fs = "stream_frames sid cs"
  obtain g' st' where sent: "send_frames env bans p ?fs g st = (Inr (), map stream_message ?fs, g', st')"
    using stream_frames_sent [OF assms(1)] by blast
  have "\<exists>r. accept_all (with_caps mc mb) (stream_chunks sid arrived) = (cs, r)
      \<and> buffered r = fmempty \<and> next_seq r = length cs"
    if "set arrived = set (map stream_message ?fs)" "length cs \<le> mc" "sum_list (map length cs) \<le> mb" for arrived
  proof -
    have chunks: "set (stream_chunks sid arrived) = (\<lambda>i. (i, cs ! i)) ` {..<length cs}"
      using that(1) chunks_of_stream [OF assms(2)] by simp
    show ?thesis
    proof (rule accept_all_complete [OF assms(2,3) _ _ that(2,3)])
      show "list_all (chunk_of cs) (stream_chunks sid arrived)"
        unfolding list_all_iff chunks by (simp add: chunk_of_def)
      show "{..<length cs} \<subseteq> fst ` set (stream_chunks sid arrived)"
        unfolding chunks by force
    qed
  qed
  moreover have "\<exists>r. accept_all (with_caps mc mb) (stream_chunks sid (map stream_message ?fs)) = (cs, r)
      \<and> buffered r = fmempty \<and> next_seq r = length cs"
    using accept_all_in_order [of "with_caps mc mb" cs] assms(2)
    by (simp add: chunks_as_sent with_caps_def)
  ultimately show ?thesis
    using sent by blast
qed

theorem stream_arrives_whole_witness:
  "fst (send_frames demo_env [] [1] (stream_frames 7 [[3], [4, 5]]) demo_state service_new) = Inr ()"
proof -
  have "reachable_peer demo_env [1] demo_state service_new"
    by (simp add: reachable_peer_def demo_env_def demo_state_def service_new_def)
  from stream_arrives_whole [OF this, of "[[3], [4, 5]]" 3 "[]" 7 2] show ?thesis
    by (auto simp: u64_max_def)
qed

end
