(* ===== verification/Admission.thy ===== *)
theory Admission
  imports Service_State
begin

text \<open>
  How a peer enters the peer map: the dial of \<open>connect_to\<close>, the one \<open>dig_nat\<close>
  admission path of the maintenance loop and of content discovery with its displacement, the two
  accepted tiers, and the listener (\<open>service/gossip_handle.rs\<close>,
  \<open>connection/listener.rs\<close>).

  Everything decided under one hold of the peer-map lock is one function. \<open>connect_to\<close> and the
  listener are split where they await the handshake, so that other operations may run in
  between. All clock readings of one function agree. \<open>bans\<close> and \<open>order\<close> are the orders in which the
  ban map and the peer map are iterated. The step relation at the end lets all these operations and
  the departures interleave.
\<close>

section \<open>Errors and arguments\<close>

datatype FilterReason =
    Int006 IpAddr
  | Int007 IpAddr
  | RelayedOutboundCap nat
  | PoolFull DisplacementRefusal
  | VictimMissing peer_id
  | RelayedOnDirectPath
  | DirectOnRelayedPath
  | HoldsDialable peer_id
  | HoldsDirect peer_id
  | DirectInboundCap nat
  | TotalInboundCap nat
  | SourceGroupCap nat
  | RelayedInboundCap nat

datatype AdmitError =
    NotStarted
  | SelfConnection
  | BannedPeer peer_id
  | MaxConnectionsReached nat
  | ConnectionFiltered FilterReason
  | PeerNotConnected peer_id

datatype AdmissionSource = Maintained | Discovered

record NatConn =
  nc_peer_id :: peer_id
  nc_remote :: SocketAddr
  nc_relayed :: bool
  nc_transport :: NatTransport

record DiscoveryAdmission =
  adm_peer_id :: peer_id
  adm_displaced :: "peer_id option"

section \<open>Shared steps\<close>

definition conflict_error :: "OutboundDiversityConflict \<Rightarrow> IpAddr \<Rightarrow> AdmitError" where
  "conflict_error kind ip =
     ConnectionFiltered (case kind of Subnet \<Rightarrow> Int006 ip | As \<Rightarrow> Int007 ip)"

text \<open>What every \<open>dig_nat\<close> admission and \<open>connect_to\<close> do after the insert.\<close>

definition announce_admission :: "peer_id \<Rightarrow> SocketAddr \<Rightarrow> nat \<Rightarrow> ServiceState \<Rightarrow> ServiceState" where
  "announce_admission p addr now st =
     st\<lparr>svc_plumtree := add_peer p (svc_plumtree st),
        svc_total_connections := (svc_total_connections st + 1) mod 2 ^ 64,
        svc_pool := publish (PeerAdded p addr) now (svc_pool st)\<rparr>"

definition insert_and_retire :: "peer_id \<Rightarrow> MapSlot \<Rightarrow> ServiceState \<Rightarrow> ServiceState" where
  "insert_and_retire p slot st =
     (let superseded = fmlookup (svc_peers st) p;
          st = st\<lparr>svc_peers := fmupd p slot (svc_peers st)\<rparr>
      in (case superseded of Some stale \<Rightarrow> retire_slot stale st | None \<Rightarrow> st))"

section \<open>The dig-nat admission path\<close>

definition displace_for_discovered_peer ::
    "ServiceConfig \<Rightarrow> peer_id list \<Rightarrow> nat \<Rightarrow> ServiceState
      \<Rightarrow> (AdmitError + (peer_id \<times> MapSlot) option) \<times> ServiceState" where
  "displace_for_discovered_peer cfg order now st =
     (let peers = svc_peers st;
          held = fmdom peers;
          cyclable = filter (slot_holds (\<lambda>_ s. case s of NatRow _ \<Rightarrow> True | _ \<Rightarrow> False) peers) order;
          st = st\<lparr>svc_pool := retain_admitted held (svc_pool st)\<rparr>;
          pool_cfg = (case cfg_peer_pool cfg of Some c \<Rightarrow> c | None \<Rightarrow> pool_config_default);
          incumbents = activity_of cyclable (svc_pool st)
      in (case plan_displacement
                 \<lparr>req_connected = map_len peers, req_capacity = cfg_max_connections cfg,
                  req_incumbents = incumbents,
                  req_last_displacement_at = pool_last_displacement_at (svc_pool st), req_now = now\<rparr>
                 pool_cfg of
            RoomAlready \<Rightarrow> (Inr None, st)
          | Displace victim \<Rightarrow>
              (case fmlookup peers victim of
                 None \<Rightarrow> (Inl (ConnectionFiltered (VictimMissing victim)), st)
               | Some slot \<Rightarrow>
                   (Inr (Some (victim, slot)),
                    st\<lparr>svc_peers := fmdrop victim peers,
                       svc_pool := record_displacement now (record_departure victim (svc_pool st))\<rparr>))
          | Refused reason \<Rightarrow> (Inl (ConnectionFiltered (PoolFull reason)), st)))"

text \<open>The eclipse caps of a new outbound identity.\<close>

definition eclipse_refusal :: "ServiceConfig \<Rightarrow> NatConn \<Rightarrow> ServiceState \<Rightarrow> AdmitError option" where
  "eclipse_refusal cfg conn st =
     (let peers = svc_peers st;
          is_outbound_reconnect =
            (case fmlookup peers (nc_peer_id conn) of Some slot \<Rightarrow> slot_is_outbound slot | None \<Rightarrow> False)
      in if is_outbound_reconnect then None
         else if nc_relayed conn then
           (let relayed_outbound = count_slots (\<lambda>_ s. is_relayed s \<and> slot_is_outbound s) peers;
                cap = max_relayed_outbound (cfg_target_outbound_count cfg)
            in if cap \<le> relayed_outbound then Some (ConnectionFiltered (RelayedOutboundCap cap)) else None)
         else
           (case outbound_diversity_conflict peers (cfg_as_table cfg) (nc_peer_id conn)
                   (sa_ip (nc_remote conn)) False of
              Some kind \<Rightarrow> Some (conflict_error kind (sa_ip (nc_remote conn)))
            | None \<Rightarrow> None))"

definition retire_displaced :: "peer_id \<times> MapSlot \<Rightarrow> nat \<Rightarrow> ServiceState \<Rightarrow> ServiceState" where
  "retire_displaced = (\<lambda>(victim, slot) now st.
     (let st = retire_slot slot st;
          st = st\<lparr>svc_pool := publish (PeerRemoved victim Displaced) now (svc_pool st)\<rparr>
      in remove_from_plumtree_unless_reconnected victim st))"

text \<open>What \<open>admit_nat_connection\<close> decides under the peer-map lock, its insert included.\<close>

definition admit_locked ::
    "ServiceConfig \<Rightarrow> peer_id list \<Rightarrow> nat \<Rightarrow> NatConn \<Rightarrow> AdmissionSource \<Rightarrow> ServiceState
      \<Rightarrow> (AdmitError + (peer_id \<times> MapSlot) option) \<times> ServiceState" where
  "admit_locked cfg order now conn source st =
     (let p = nc_peer_id conn;
          needs_a_free_slot = (fmlookup (svc_peers st) p = None)
      in if needs_a_free_slot \<and> source = Maintained \<and> cfg_max_connections cfg \<le> map_len (svc_peers st)
         then (Inl (MaxConnectionsReached (cfg_max_connections cfg)), st)
         else (case eclipse_refusal cfg conn st of
             Some e \<Rightarrow> (Inl e, st)
           | None \<Rightarrow>
               (case (if needs_a_free_slot \<and> source = Discovered
                      then displace_for_discovered_peer cfg order now st else (Inr None, st)) of
                  (Inl e, st) \<Rightarrow> (Inl e, st)
                | (Inr displaced, st) \<Rightarrow>
                    (Inr displaced,
                     insert_and_retire p
                       (NatRow \<lparr>nat_conn = nc_transport conn, nat_sink = None,
                                nat_remote = nc_remote conn, nat_is_outbound = True,
                                nat_relayed = nc_relayed conn\<rparr>) st))))"

definition admit_nat_connection ::
    "ServiceConfig \<Rightarrow> peer_id list \<Rightarrow> peer_id list \<Rightarrow> nat \<Rightarrow> NatConn \<Rightarrow> AdmissionSource \<Rightarrow> ServiceState
      \<Rightarrow> (AdmitError + DiscoveryAdmission) \<times> ServiceState" where
  "admit_nat_connection cfg bans order now conn source st =
     (let p = nc_peer_id conn in
      if \<not> svc_running st then (Inl NotStarted, st)
      else if p = cfg_peer_id cfg then (Inl SelfConnection, st)
      else (case is_peer_id_banned_at bans p now st of
          (True, st) \<Rightarrow> (Inl (BannedPeer p), st)
        | (False, st) \<Rightarrow>
            (case admit_locked cfg order now conn source st of
               (Inl e, st) \<Rightarrow> (Inl e, st)
             | (Inr displaced, st) \<Rightarrow>
                 (let st = announce_admission p (nc_remote conn) now st;
                      st = (case displaced of Some v \<Rightarrow> retire_displaced v now st | None \<Rightarrow> st)
                  in (Inr \<lparr>adm_peer_id = p, adm_displaced = map_option fst displaced\<rparr>, st)))))"

section \<open>The accepted tiers\<close>

definition same_source_group :: "IpAddr \<Rightarrow> peer_id \<Rightarrow> MapSlot \<Rightarrow> bool" where
  "same_source_group ip p s \<longleftrightarrow>
     is_accepted_direct s \<and> inbound_source_group (sa_ip (slot_remote s)) = inbound_source_group ip"

definition direct_inbound_refusal :: "ServiceConfig \<Rightarrow> NatConn \<Rightarrow> ServiceState \<Rightarrow> AdmitError option" where
  "direct_inbound_refusal cfg conn st =
     (let peers = svc_peers st;
          p = nc_peer_id conn;
          held = fmlookup peers p;
          maxc = cfg_max_connections cfg;
          held_is = (\<lambda>P. case held of Some s \<Rightarrow> P s | None \<Rightarrow> False)
      in if held_is (\<lambda>s. dial_addr s \<noteq> None) then Some (ConnectionFiltered (HoldsDialable p))
         else if held = None \<and> maxc \<le> map_len peers then Some (MaxConnectionsReached maxc)
         else if \<not> held_is is_accepted_direct
             \<and> max_direct_inbound maxc \<le> count_slots (\<lambda>_. is_accepted_direct) peers
           then Some (ConnectionFiltered (DirectInboundCap (max_direct_inbound maxc)))
         else if \<not> held_is is_accepted_inbound
             \<and> max_inbound_total maxc \<le> count_slots (\<lambda>_. is_accepted_inbound) peers
           then Some (ConnectionFiltered (TotalInboundCap (max_inbound_total maxc)))
         else if max_direct_inbound_per_group maxc
             \<le> count_slots (\<lambda>q s. q \<noteq> p \<and> same_source_group (sa_ip (nc_remote conn)) q s) peers
           then Some (ConnectionFiltered (SourceGroupCap (max_direct_inbound_per_group maxc)))
         else None)"

definition relayed_inbound_refusal :: "ServiceConfig \<Rightarrow> NatConn \<Rightarrow> ServiceState \<Rightarrow> AdmitError option" where
  "relayed_inbound_refusal cfg conn st =
     (let peers = svc_peers st;
          p = nc_peer_id conn;
          held = fmlookup peers p;
          maxc = cfg_max_connections cfg;
          held_is = (\<lambda>P. case held of Some s \<Rightarrow> P s | None \<Rightarrow> False)
      in if held_is (\<lambda>s. \<not> is_relayed s) then Some (ConnectionFiltered (HoldsDirect p))
         else if held = None \<and> maxc \<le> map_len peers then Some (MaxConnectionsReached maxc)
         else if \<not> held_is (\<lambda>s. is_relayed s \<and> \<not> slot_is_outbound s)
             \<and> max_relayed_inbound maxc \<le> count_slots (\<lambda>_ s. is_relayed s \<and> \<not> slot_is_outbound s) peers
           then Some (ConnectionFiltered (RelayedInboundCap (max_relayed_inbound maxc)))
         else if \<not> held_is is_accepted_inbound
             \<and> max_inbound_total maxc \<le> count_slots (\<lambda>_. is_accepted_inbound) peers
           then Some (ConnectionFiltered (TotalInboundCap (max_inbound_total maxc)))
         else None)"

text \<open>The common shape of both entry points; \<open>wrong\<close> is the error of a connection of the
  other tier.\<close>

definition adopt_inbound ::
    "(ServiceState \<Rightarrow> AdmitError option) \<Rightarrow> bool \<Rightarrow> FilterReason \<Rightarrow> ServiceConfig \<Rightarrow> peer_id list
      \<Rightarrow> nat \<Rightarrow> NatConn \<Rightarrow> nat option \<Rightarrow> ServiceState \<Rightarrow> (AdmitError + peer_id) \<times> ServiceState" where
  "adopt_inbound refusal right_tier wrong cfg bans now conn sink st =
     (let p = nc_peer_id conn in
      if \<not> svc_running st then (Inl NotStarted, st)
      else if \<not> right_tier then (Inl (ConnectionFiltered wrong), st)
      else if p = cfg_peer_id cfg then (Inl SelfConnection, st)
      else (case is_peer_id_banned_at bans p now st of
          (True, st) \<Rightarrow> (Inl (BannedPeer p), st)
        | (False, st) \<Rightarrow>
            (case refusal st of
               Some e \<Rightarrow> (Inl e, st)
             | None \<Rightarrow>
                 (Inr p, announce_admission p (nc_remote conn) now
                    (insert_and_retire p
                      (NatRow \<lparr>nat_conn = nc_transport conn, nat_sink = sink,
                               nat_remote = nc_remote conn, nat_is_outbound = False,
                               nat_relayed = nc_relayed conn\<rparr>) st)))))"

definition adopt_direct_inbound_handle ::
    "ServiceConfig \<Rightarrow> peer_id list \<Rightarrow> nat \<Rightarrow> NatConn \<Rightarrow> nat option \<Rightarrow> ServiceState
      \<Rightarrow> (AdmitError + peer_id) \<times> ServiceState" where
  "adopt_direct_inbound_handle cfg bans now conn sink =
     adopt_inbound (direct_inbound_refusal cfg conn) (\<not> nc_relayed conn) RelayedOnDirectPath cfg bans
       now conn sink"

definition adopt_relayed_inbound_inner ::
    "ServiceConfig \<Rightarrow> peer_id list \<Rightarrow> nat \<Rightarrow> NatConn \<Rightarrow> nat option \<Rightarrow> ServiceState
      \<Rightarrow> (AdmitError + peer_id) \<times> ServiceState" where
  "adopt_relayed_inbound_inner cfg bans now conn sink =
     adopt_inbound (relayed_inbound_refusal cfg conn) (nc_relayed conn) DirectOnRelayedPath cfg bans
       now conn sink"

definition adopt_relayed_inbound ::
    "ServiceConfig \<Rightarrow> peer_id list \<Rightarrow> nat \<Rightarrow> NatConn \<Rightarrow> ServiceState
      \<Rightarrow> (AdmitError + peer_id) \<times> ServiceState" where
  "adopt_relayed_inbound cfg bans now conn = adopt_relayed_inbound_inner cfg bans now conn None"

definition adopt_relayed_inbound_handle ::
    "ServiceConfig \<Rightarrow> peer_id list \<Rightarrow> nat \<Rightarrow> peer_id \<Rightarrow> SocketAddr \<Rightarrow> nat \<Rightarrow> nat option \<Rightarrow> ServiceState
      \<Rightarrow> (AdmitError + peer_id) \<times> ServiceState" where
  "adopt_relayed_inbound_handle cfg bans now p addr s sink =
     adopt_relayed_inbound_inner cfg bans now
       \<lparr>nc_peer_id = p, nc_remote = addr, nc_relayed = True, nc_transport = Observed s\<rparr> sink"

definition set_nat_broadcast_sink ::
    "peer_id \<Rightarrow> nat \<Rightarrow> ServiceState \<Rightarrow> (AdmitError + unit) \<times> ServiceState" where
  "set_nat_broadcast_sink p sink st =
     (case fmlookup (svc_peers st) p of
        Some (NatRow n) \<Rightarrow>
          (Inr (), st\<lparr>svc_peers := fmupd p (NatRow (n\<lparr>nat_sink := Some sink\<rparr>)) (svc_peers st)\<rparr>)
      | _ \<Rightarrow> (Inl (PeerNotConnected p), st))"

section \<open>The dial of connect-to\<close>

text \<open>Before the handshake: the address and the number of slots.\<close>

definition connect_precheck :: "ServiceConfig \<Rightarrow> SocketAddr \<Rightarrow> ServiceState \<Rightarrow> AdmitError option" where
  "connect_precheck cfg addr st =
     (if \<not> svc_running st then Some NotStarted
      else if dial_targets_local_listen cfg addr st then Some SelfConnection
      else if cfg_max_connections cfg \<le> map_len (svc_peers st)
        then Some (MaxConnectionsReached (cfg_max_connections cfg))
      else None)"

text \<open>Right after the handshake: the verified identity.\<close>

definition connect_verify ::
    "ServiceConfig \<Rightarrow> peer_id list \<Rightarrow> peer_id \<Rightarrow> nat \<Rightarrow> ServiceState \<Rightarrow> AdmitError option \<times> ServiceState" where
  "connect_verify cfg bans p now st =
     (if p = cfg_peer_id cfg then (Some SelfConnection, st)
      else (case is_peer_id_banned_at bans p now st of
          (True, st) \<Rightarrow> (Some (BannedPeer p), st)
        | (False, st) \<Rightarrow> (None, st)))"

text \<open>After the peer exchange: the admission and what follows it.\<close>

definition connect_admit ::
    "ServiceConfig \<Rightarrow> peer_id \<Rightarrow> SocketAddr \<Rightarrow> nat \<Rightarrow> ServiceState \<Rightarrow> (AdmitError + peer_id) \<times> ServiceState" where
  "connect_admit cfg p addr now st =
     (let (generation, st) = next_peer_generation st;
          is_outbound_reconnect =
            (case fmlookup (svc_peers st) p of Some slot \<Rightarrow> slot_is_outbound slot | None \<Rightarrow> False);
          conflict =
            (if is_outbound_reconnect then None
             else outbound_diversity_conflict (svc_peers st) (cfg_as_table cfg) p (sa_ip addr) False)
      in (case conflict of
            Some kind \<Rightarrow>
              (Inl (conflict_error kind (sa_ip addr)),
               st\<lparr>svc_closed_links := svc_closed_links st @ [generation]\<rparr>)
          | None \<Rightarrow>
              (Inr p, announce_admission p addr now
                 (insert_and_retire p
                   (LiveRow \<lparr>live_meta = \<lparr>sp_remote = addr, sp_is_outbound = True\<rparr>,
                             live_reputation = reputation_default, live_generation = generation\<rparr>) st))))"

section \<open>The listener\<close>

text \<open>The gates of the accept loop: the slots, then the handshakes in flight.\<close>

definition accept_gate :: "ServiceConfig \<Rightarrow> nat \<Rightarrow> nat \<Rightarrow> ServiceState \<Rightarrow> bool" where
  "accept_gate cfg max_inflight in_flight st \<longleftrightarrow>
     svc_running st \<and> map_len (svc_peers st) < cfg_max_connections cfg \<and> in_flight < max max_inflight 1"

definition precheck_inbound_peer ::
    "ServiceConfig \<Rightarrow> peer_id list \<Rightarrow> peer_id \<Rightarrow> nat \<Rightarrow> ServiceState \<Rightarrow> AdmitError option \<times> ServiceState" where
  "precheck_inbound_peer cfg bans p now st =
     (if p = cfg_peer_id cfg then (Some SelfConnection, st)
      else
        let st = prune_expired_dig_bans bans now st
        in (if fmlookup (svc_banned st) p \<noteq> None then Some (BannedPeer p) else None, st))"

definition listener_insert :: "peer_id \<Rightarrow> SocketAddr \<Rightarrow> ServiceState \<Rightarrow> ServiceState" where
  "listener_insert p remote_addr st =
     (let (generation, st) = next_peer_generation st;
          superseded = fmlookup (svc_peers st) p;
          st = st\<lparr>svc_peers := fmupd p
                 (LiveRow \<lparr>live_meta = \<lparr>sp_remote = remote_addr, sp_is_outbound = False\<rparr>,
                           live_reputation = reputation_default, live_generation = generation\<rparr>)
                 (svc_peers st)\<rparr>;
          st = close_live superseded st
      in st\<lparr>svc_total_connections := (svc_total_connections st + 1) mod 2 ^ 64\<rparr>)"

section \<open>Every interleaving\<close>

text \<open>
  A node is the service state with the number of dials between \<open>connect_precheck\<close> and their end
  and the number of inbound handshakes in flight. At most \<open>K\<close> dials are in flight, at
  most \<open>H\<close> handshakes. The label is the time of a displacement.
\<close>

type_synonym node = "ServiceState \<times> nat \<times> nat"

inductive node_step ::
    "ServiceConfig \<Rightarrow> nat \<Rightarrow> nat \<Rightarrow> nat option \<Rightarrow> node \<Rightarrow> node \<Rightarrow> bool"
  for cfg :: ServiceConfig and K H :: nat where
  dial_begin: "connect_precheck cfg addr st = None \<Longrightarrow> c < K \<Longrightarrow>
    node_step cfg K H None (st, c, h) (st, Suc c, h)"
| dial_verify: "node_step cfg K H None (st, c, h) (snd (connect_verify cfg bans p now st), c, h)"
| dial_end: "node_step cfg K H None (st, Suc c, h) (snd (connect_admit cfg p addr now st), c, h)"
| dial_drop: "node_step cfg K H None (st, Suc c, h) (st, c, h)"
| accept_begin: "accept_gate cfg H h st \<Longrightarrow> node_step cfg K H None (st, c, h) (st, c, Suc h)"
| accept_check: "node_step cfg K H None (st, c, h) (snd (precheck_inbound_peer cfg bans p now st), c, h)"
| accept_end: "node_step cfg K H None (st, c, Suc h) (listener_insert p addr st, c, h)"
| accept_drop: "node_step cfg K H None (st, c, Suc h) (st, c, h)"
| admit: "admit_nat_connection cfg bans order now conn source st = (r, st') \<Longrightarrow>
    set order = fset (fmdom (svc_peers st)) \<Longrightarrow> distinct order \<Longrightarrow>
    node_step cfg K H (case r of Inr a \<Rightarrow> if adm_displaced a = None then None else Some now | Inl _ \<Rightarrow> None)
      (st, c, h) (st', c, h)"
| accept_direct: "node_step cfg K H None (st, c, h)
    (snd (adopt_direct_inbound_handle cfg bans now conn sink st), c, h)"
| accept_relayed: "node_step cfg K H None (st, c, h)
    (snd (adopt_relayed_inbound_inner cfg bans now conn sink st), c, h)"
| sink: "node_step cfg K H None (st, c, h) (snd (set_nat_broadcast_sink p s st), c, h)"
| leave: "node_step cfg K H None (st, c, h) (snd (disconnect p now st), c, h)"
| reap: "node_step cfg K H None (st, c, h) (snd (reap_departed_peers closed order now st), c, h)"
| ban: "node_step cfg K H None (st, c, h) (enforce_timed_ban_and_disconnect bans p now g st, c, h)"
| penalize: "node_step cfg K H None (st, c, h) (snd (penalize_peer bans p reason now st), c, h)"
| violation: "node_step cfg K H None (st, c, h)
    (snd (apply_inbound_rate_limit_violation p g now st), c, h)"
| keepalive: "node_step cfg K H None (st, c, h) (disconnect_after_keepalive_failure p g now st, c, h)"
| work: "node_step cfg K H None (st, c, h) (st\<lparr>svc_pool := snd (begin_activity p now (svc_pool st))\<rparr>, c, h)"
| rest: "node_step cfg K H None (st, c, h) (st\<lparr>svc_pool := end_activity p now (svc_pool st)\<rparr>, c, h)"

inductive node_run :: "ServiceConfig \<Rightarrow> nat \<Rightarrow> nat \<Rightarrow> nat list \<Rightarrow> node \<Rightarrow> bool"
  for cfg :: ServiceConfig and K H :: nat where
  boot: "node_run cfg K H [] (service_new\<lparr>svc_running := True, svc_listen_bound_addr := bound\<rparr>, 0, 0)"
| quiet: "node_run cfg K H log x \<Longrightarrow> node_step cfg K H None x y \<Longrightarrow> node_run cfg K H log y"
| displaced: "node_run cfg K H log x \<Longrightarrow> node_step cfg K H (Some t) x y \<Longrightarrow>
    node_run cfg K H (log @ [t]) y"

end
