(* ===== verification/Admission_Caps.thy ===== *)
theory Admission_Caps
  imports Admission
begin

text \<open>
  What the admission rules guarantee in every interleaving: the inbound caps, the size of the peer
  map, the outbound diversity of new identities, the churn bound of displacement, and the cases
  in which a rule is bypassed.

  The caps depend only on four attributes of a slot. Every operation either shrinks the map
  (up to a change that keeps the attributes) or adds one slot under its guards; the two facts are
  proved once for each operation and carry all the invariants.
\<close>

section \<open>Shrinking maps\<close>

definition attrs :: "MapSlot \<Rightarrow> bool \<times> bool \<times> bool \<times> SocketAddr" where
  "attrs s = (is_accepted_inbound s, is_relayed s, slot_is_outbound s, slot_remote s)"

definition shrinks :: "peer_map \<Rightarrow> peer_map \<Rightarrow> bool" where
  "shrinks m' m \<longleftrightarrow>
     (\<forall>p s'. fmlookup m' p = Some s' \<longrightarrow> (\<exists>s. fmlookup m p = Some s \<and> attrs s' = attrs s))"

lemma shrinks_refl [simp]: "shrinks m m"
  by (simp add: shrinks_def)

lemma shrinks_trans: "shrinks m1 m2 \<Longrightarrow> shrinks m2 m3 \<Longrightarrow> shrinks m1 m3"
  unfolding shrinks_def by metis

lemma shrinks_drop [simp]: "shrinks (fmdrop p m) m"
  by (simp add: shrinks_def)

lemma shrinks_filter [simp]: "shrinks (fmfilter P m) m"
  by (simp add: shrinks_def)

lemma shrinks_upd: "fmlookup m p = Some s \<Longrightarrow> attrs s' = attrs s \<Longrightarrow> shrinks (fmupd p s' m) m"
  by (simp add: shrinks_def)

definition of_attrs :: "(peer_id \<Rightarrow> MapSlot \<Rightarrow> bool) \<Rightarrow> bool" where
  "of_attrs P \<longleftrightarrow> (\<forall>p s s'. attrs s = attrs s' \<longrightarrow> P p s = P p s')"

lemma shrinksD:
  assumes "shrinks m' m" "fmlookup m' p = Some s'"
  obtains s where "fmlookup m p = Some s" "attrs s' = attrs s"
  using assms by (auto simp: shrinks_def)

lemma slot_holds_iff: "slot_holds P m p \<longleftrightarrow> (\<exists>s. fmlookup m p = Some s \<and> P p s)"
  by (simp add: slot_holds_def split: option.split)

lemma shrinks_holds:
  assumes "shrinks m' m" "of_attrs P" "slot_holds P m' p"
  shows "slot_holds P m p"
proof -
  obtain s' where s': "fmlookup m' p = Some s'" "P p s'"
    using assms(3) by (auto simp: slot_holds_iff)
  obtain s where "fmlookup m p = Some s" "attrs s' = attrs s"
    using shrinksD [OF assms(1) s'(1)] .
  then show ?thesis
    using s'(2) assms(2) unfolding slot_holds_iff of_attrs_def by metis
qed

lemma shrinks_count: "shrinks m' m \<Longrightarrow> of_attrs P \<Longrightarrow> count_slots P m' \<le> count_slots P m"
  by (rule count_slots_mono) (rule shrinks_holds)

lemma shrinks_len:
  assumes "shrinks m' m"
  shows "map_len m' \<le> map_len m"
  unfolding map_len_def
proof (rule fcard_mono, rule fsubsetI)
  fix p assume "p |\<in>| fmdom m'"
  then obtain s' where "fmlookup m' p = Some s'"
    by (auto simp: fmlookup_dom_iff)
  from shrinksD [OF assms this] show "p |\<in>| fmdom m"
    by (metis fmdomI)
qed

lemma of_attrs_intros [simp]:
  "of_attrs (\<lambda>_. is_accepted_direct)" "of_attrs (\<lambda>_. is_accepted_inbound)"
  "of_attrs (\<lambda>_ s. is_relayed s \<and> \<not> slot_is_outbound s)"
  "of_attrs (\<lambda>_ s. is_relayed s \<and> slot_is_outbound s)"
  "of_attrs (same_source_group ip)"
  by (auto simp: of_attrs_def attrs_def is_accepted_direct_def same_source_group_def)

lemma relayed_accepted: "is_relayed s \<and> \<not> slot_is_outbound s \<Longrightarrow> is_accepted_inbound s"
  by (cases s) auto

section \<open>The inbound caps\<close>

definition caps_ok :: "nat \<Rightarrow> peer_map \<Rightarrow> bool" where
  "caps_ok maxc m \<longleftrightarrow>
     count_slots (\<lambda>_. is_accepted_direct) m \<le> max_direct_inbound maxc
     \<and> count_slots (\<lambda>_ s. is_relayed s \<and> \<not> slot_is_outbound s) m \<le> max_relayed_inbound maxc
     \<and> count_slots (\<lambda>_. is_accepted_inbound) m \<le> max_inbound_total maxc
     \<and> (\<forall>ip. count_slots (same_source_group ip) m \<le> max_direct_inbound_per_group maxc)"

lemma caps_ok_empty: "caps_ok maxc fmempty"
  by (simp add: caps_ok_def count_slots_card slot_holds_def)

lemma caps_shrink: "shrinks m' m \<Longrightarrow> caps_ok maxc m \<Longrightarrow> caps_ok maxc m'"
  unfolding caps_ok_def by (auto intro: order_trans [OF shrinks_count [OF _ of_attrs_intros(1)]]
      order_trans [OF shrinks_count [OF _ of_attrs_intros(2)]]
      order_trans [OF shrinks_count [OF _ of_attrs_intros(3)]]
      order_trans [OF shrinks_count [OF _ of_attrs_intros(5)]])

lemma caps_dialled:
  assumes "caps_ok maxc m" "\<not> is_accepted_inbound s"
  shows "caps_ok maxc (fmupd p s m)"
proof -
  have "caps_ok maxc (fmdrop p m)"
    using caps_shrink [OF shrinks_drop assms(1)] .
  moreover have "\<not> (is_relayed s \<and> \<not> slot_is_outbound s)"
    using assms(2) relayed_accepted by blast
  ultimately show ?thesis
    using assms(2)
    by (auto simp: caps_ok_def count_slots_upd is_accepted_direct_def same_source_group_def)
qed

lemma charged:
  assumes "count_slots P m \<le> cap" "\<not> slot_holds P m p \<Longrightarrow> count_slots P m < cap"
  shows "count_slots P (fmupd p s m) \<le> cap"
  using assms count_slots_pos [of P m p]
  by (auto simp: count_slots_upd count_slots_drop)

lemma uncharged: "count_slots P m \<le> cap \<Longrightarrow> \<not> P p s \<Longrightarrow> count_slots P (fmupd p s m) \<le> cap"
  by (simp add: count_slots_upd count_slots_drop)

lemma count_others:
  "count_slots (\<lambda>q s. q \<noteq> p \<and> P q s) m = count_slots P (fmdrop p m)"
  unfolding count_slots_card by (rule arg_cong [of _ _ card]) (auto simp: slot_holds_iff split: if_splits)

lemma same_group_ip:
  "inbound_source_group ip = inbound_source_group ip' \<Longrightarrow> same_source_group ip = same_source_group ip'"
  by (simp add: same_source_group_def fun_eq_iff)

lemma caps_direct:
  assumes "caps_ok (cfg_max_connections cfg) (svc_peers st)"
    and "direct_inbound_refusal cfg conn st = None" "\<not> nc_relayed conn"
    and "s = NatRow \<lparr>nat_conn = t, nat_sink = k, nat_remote = nc_remote conn, nat_is_outbound = False,
      nat_relayed = nc_relayed conn\<rparr>"
  shows "caps_ok (cfg_max_connections cfg) (fmupd (nc_peer_id conn) s (svc_peers st))"
proof -
  let ?m = "svc_peers st" and ?p = "nc_peer_id conn" and ?c = "cfg_max_connections cfg"
  let ?ip = "sa_ip (nc_remote conn)"
  have s: "is_accepted_direct s" "is_accepted_inbound s" "\<not> (is_relayed s \<and> \<not> slot_is_outbound s)"
    "slot_remote s = nc_remote conn"
    using assms(3) by (simp_all add: assms(4) is_accepted_direct_def)
  have g1: "\<not> slot_holds (\<lambda>_. is_accepted_direct) ?m ?p \<Longrightarrow>
      count_slots (\<lambda>_. is_accepted_direct) ?m < max_direct_inbound ?c"
    and g2: "\<not> slot_holds (\<lambda>_. is_accepted_inbound) ?m ?p \<Longrightarrow>
      count_slots (\<lambda>_. is_accepted_inbound) ?m < max_inbound_total ?c"
    and g3: "count_slots (same_source_group ?ip) (fmdrop ?p ?m) < max_direct_inbound_per_group ?c"
    using assms(2)
    by (auto simp: direct_inbound_refusal_def Let_def slot_holds_def count_others split: if_splits)
  have "count_slots (same_source_group ip) (fmupd ?p s ?m) \<le> max_direct_inbound_per_group ?c" for ip
  proof (cases "inbound_source_group ?ip = inbound_source_group ip")
    case True
    then show ?thesis
      using g3 same_group_ip [OF True] by (simp add: count_slots_upd)
  next
    case False
    then have "\<not> same_source_group ip ?p s"
      using s(4) by (simp add: same_source_group_def)
    then show ?thesis
      using assms(1) by (intro uncharged) (simp_all add: caps_ok_def)
  qed
  moreover have "count_slots (\<lambda>_. is_accepted_direct) (fmupd ?p s ?m) \<le> max_direct_inbound ?c"
    using assms(1) g1 by (intro charged) (simp_all add: caps_ok_def)
  moreover have "count_slots (\<lambda>_. is_accepted_inbound) (fmupd ?p s ?m) \<le> max_inbound_total ?c"
    using assms(1) g2 by (intro charged) (simp_all add: caps_ok_def)
  moreover have "count_slots (\<lambda>_ s. is_relayed s \<and> \<not> slot_is_outbound s) (fmupd ?p s ?m)
      \<le> max_relayed_inbound ?c"
    using assms(1) s(3) by (intro uncharged) (simp_all add: caps_ok_def)
  ultimately show ?thesis
    by (simp add: caps_ok_def)
qed

lemma caps_relayed:
  assumes "caps_ok (cfg_max_connections cfg) (svc_peers st)"
    and "relayed_inbound_refusal cfg conn st = None" "nc_relayed conn"
    and "s = NatRow \<lparr>nat_conn = t, nat_sink = k, nat_remote = nc_remote conn, nat_is_outbound = False,
      nat_relayed = nc_relayed conn\<rparr>"
  shows "caps_ok (cfg_max_connections cfg) (fmupd (nc_peer_id conn) s (svc_peers st))"
proof -
  let ?m = "svc_peers st" and ?p = "nc_peer_id conn" and ?c = "cfg_max_connections cfg"
  have s: "\<not> is_accepted_direct s"
    using assms(3) by (simp add: assms(4) is_accepted_direct_def)
  have g1: "\<not> slot_holds (\<lambda>_ s. is_relayed s \<and> \<not> slot_is_outbound s) ?m ?p \<Longrightarrow>
      count_slots (\<lambda>_ s. is_relayed s \<and> \<not> slot_is_outbound s) ?m < max_relayed_inbound ?c"
    and g2: "\<not> slot_holds (\<lambda>_. is_accepted_inbound) ?m ?p \<Longrightarrow>
      count_slots (\<lambda>_. is_accepted_inbound) ?m < max_inbound_total ?c"
    using assms(2)
    by (auto simp: relayed_inbound_refusal_def Let_def slot_holds_def split: if_splits option.splits)
  have "count_slots (\<lambda>_. is_accepted_direct) (fmupd ?p s ?m) \<le> max_direct_inbound ?c"
    using assms(1) s by (intro uncharged) (simp_all add: caps_ok_def)
  moreover have "count_slots (same_source_group ip) (fmupd ?p s ?m) \<le> max_direct_inbound_per_group ?c" for ip
    using assms(1) s by (intro uncharged) (simp_all add: caps_ok_def same_source_group_def)
  moreover have "count_slots (\<lambda>_ s. is_relayed s \<and> \<not> slot_is_outbound s) (fmupd ?p s ?m)
      \<le> max_relayed_inbound ?c"
    using assms(1) g1 by (intro charged) (simp_all add: caps_ok_def)
  moreover have "count_slots (\<lambda>_. is_accepted_inbound) (fmupd ?p s ?m) \<le> max_inbound_total ?c"
    using assms(1) g2 by (intro charged) (simp_all add: caps_ok_def)
  ultimately show ?thesis
    by (simp add: caps_ok_def)
qed

section \<open>What each operation does to the map\<close>

abbreviation last_displacement :: "ServiceState \<Rightarrow> nat option" where
  "last_displacement st \<equiv> pool_last_displacement_at (svc_pool st)"

lemma retire_frame [simp]:
  "svc_peers (retire_slot s st) = svc_peers st" "svc_pool (retire_slot s st) = svc_pool st"
  "svc_plumtree (retire_slot s st) = svc_plumtree st" "svc_banned (retire_slot s st) = svc_banned st"
  "svc_running (retire_slot s st) = svc_running st"
  by (cases s; simp split: NatTransport.split)+

lemma insert_frame [simp]:
  "svc_peers (insert_and_retire p s st) = fmupd p s (svc_peers st)"
  "svc_pool (insert_and_retire p s st) = svc_pool st"
  "svc_plumtree (insert_and_retire p s st) = svc_plumtree st"
  "svc_banned (insert_and_retire p s st) = svc_banned st"
  by (simp_all add: insert_and_retire_def Let_def split: option.split)

lemma announce_frame [simp]:
  "svc_peers (announce_admission p a now st) = svc_peers st"
  "svc_banned (announce_admission p a now st) = svc_banned st"
  "last_displacement (announce_admission p a now st) = last_displacement st"
  "svc_plumtree (announce_admission p a now st) = add_peer p (svc_plumtree st)"
  by (simp_all add: announce_admission_def)

lemma retire_displaced_frame [simp]:
  "svc_peers (retire_displaced v now st) = svc_peers st"
  "last_displacement (retire_displaced v now st) = last_displacement st"
  by (simp_all add: retire_displaced_def Let_def split: prod.split)

lemma pool_last_frame [simp]:
  "pool_last_displacement_at (record_departure p s) = pool_last_displacement_at s"
  "pool_last_displacement_at (retain_admitted h s) = pool_last_displacement_at s"
  "pool_last_displacement_at (record_displacement t s) = Some t"
  "pool_last_displacement_at (snd (begin_activity p now s)) = pool_last_displacement_at s"
  "pool_last_displacement_at (end_activity p now s) = pool_last_displacement_at s"
  by (simp_all add: record_departure_def retain_admitted_def record_displacement_def
      begin_activity_def end_activity_def split: option.split)

text \<open>Departures, bans and penalties: the map shrinks and the churn clock stands still.\<close>

definition calms :: "ServiceState \<Rightarrow> ServiceState \<Rightarrow> bool" where
  "calms st' st \<longleftrightarrow> shrinks (svc_peers st') (svc_peers st) \<and> last_displacement st' = last_displacement st"

lemma calms_refl [simp]: "calms st st"
  by (simp add: calms_def)

lemma calms_enforce: "calms (enforce_timed_ban_and_disconnect bans p now g st) st"
  by (simp add: calms_def enforce_timed_ban_and_disconnect_def Let_def)

lemma attrs_reputation [simp]: "attrs (LiveRow (l\<lparr>live_reputation := r\<rparr>)) = attrs (LiveRow l)"
  by (simp add: attrs_def)

lemma calms_reputation: "fmlookup (svc_peers st) p = Some (LiveRow l) \<Longrightarrow> calms (set_reputation p l r st) st"
  by (simp add: calms_def set_reputation_def shrinks_upd)

lemma calms_charge: "calms (snd (charge_penalty p reason now st)) st"
proof (cases "\<exists>l. fmlookup (svc_peers st) p = Some (LiveRow l)")
  case True
  then obtain l where "fmlookup (svc_peers st) p = Some (LiveRow l)" ..
  then show ?thesis
    using calms_reputation [of st p l] by (simp add: charge_penalty_def calms_def split_beta Let_def)
next
  case False
  then have "snd (charge_penalty p reason now st) = snd (add_penalty p reason st)"
    by (auto simp: charge_penalty_def split_beta Let_def split: option.split MapSlot.split)
  then show ?thesis
    by (simp add: calms_def add_penalty_def Let_def)
qed

lemma calms_trans: "calms a b \<Longrightarrow> calms b c \<Longrightarrow> calms a c"
  by (auto simp: calms_def intro: shrinks_trans)

lemma calms_prune [simp]: "calms (prune_expired_dig_bans bans now st) st"
  by (simp add: calms_def)

lemma calms_penalize: "calms (snd (penalize_peer bans p reason now st)) st"
  using calms_trans [OF calms_charge calms_prune]
    calms_trans [OF calms_enforce calms_trans [OF calms_charge calms_prune]]
  by (auto simp: penalize_peer_def split_beta Let_def)

lemma calms_violation: "calms (snd (apply_inbound_rate_limit_violation p g now st)) st"
  using calms_reputation [of st p]
  by (auto simp: apply_inbound_rate_limit_violation_def split_beta Let_def split: option.split MapSlot.split)

lemma calms_keepalive: "calms (disconnect_after_keepalive_failure p g now st) st"
  by (auto simp: disconnect_after_keepalive_failure_def calms_def split_beta Let_def
      split: option.split MapSlot.split)

lemma calms_disconnect: "calms (snd (disconnect p now st)) st"
  by (simp add: disconnect_def calms_def Let_def)

lemma calms_reap: "calms (snd (reap_departed_peers closed order now st)) st"
proof -
  have "svc_peers (fold (reap_announce now) ids s) = svc_peers s
      \<and> last_displacement (fold (reap_announce now) ids s) = last_displacement s" for ids s
    by (induction ids arbitrary: s) (simp_all add: reap_announce_def)
  moreover have "pool_last_displacement_at (fold record_departure ids s) = pool_last_displacement_at s" for ids s
    by (induction ids arbitrary: s) simp_all
  ultimately show ?thesis
    by (simp add: reap_departed_peers_def calms_def Let_def)
qed

lemma calms_banned_at: "calms (snd (is_peer_id_banned_at bans p now st)) st"
  by (simp add: is_peer_id_banned_at_def Let_def)

lemma calms_verify: "calms (snd (connect_verify cfg bans p now st)) st"
  using calms_banned_at [of bans p now st]
  by (auto simp: connect_verify_def split: prod.split bool.split)

lemma calms_precheck: "calms (snd (precheck_inbound_peer cfg bans p now st)) st"
  by (simp add: precheck_inbound_peer_def Let_def)

lemma calms_sink: "calms (snd (set_nat_broadcast_sink p s st)) st"
  by (auto simp: set_nat_broadcast_sink_def calms_def attrs_def intro!: shrinks_upd
      split: option.split MapSlot.split)

lemma calms_work:
  "calms (st\<lparr>svc_pool := snd (begin_activity p now (svc_pool st))\<rparr>) st"
  "calms (st\<lparr>svc_pool := end_activity p now (svc_pool st)\<rparr>) st"
  by (simp_all add: calms_def)

lemmas calms_ops = calms_work calms_enforce calms_penalize calms_violation calms_keepalive calms_disconnect
  calms_reap calms_verify calms_precheck calms_sink

section \<open>What each admission does to the map\<close>

text \<open>The configured displacement interval, with its floor of ten minutes.\<close>

abbreviation churn_interval :: "ServiceConfig \<Rightarrow> nat" where
  "churn_interval cfg \<equiv>
     max (displacement_interval_secs (case cfg_peer_pool cfg of Some c \<Rightarrow> c | None \<Rightarrow> pool_config_default)) 600"

lemma displace_cases:
  assumes "displace_for_discovered_peer cfg order now st = (r, st')"
  shows "r = Inl e \<Longrightarrow> calms st' st \<and> svc_peers st' = svc_peers st"
    and "r = Inr None \<Longrightarrow> calms st' st \<and> svc_peers st' = svc_peers st
           \<and> map_len (svc_peers st) < cfg_max_connections cfg"
    and "r = Inr (Some (v, slot)) \<Longrightarrow> fmlookup (svc_peers st) v = Some slot
           \<and> svc_peers st' = fmdrop v (svc_peers st) \<and> last_displacement st' = Some now
           \<and> (\<forall>prev. last_displacement st = Some prev \<longrightarrow> sat_add64 prev (churn_interval cfg) \<le> now)"
  using assms displacement_exact(3)
  by (auto simp: displace_for_discovered_peer_def Let_def calms_def
      split: DisplacementDecision.splits option.splits)
   (fastforce simp: plan_displacement_def Let_def split: if_splits option.splits)+

lemma admit_locked_cases:
  assumes "admit_locked cfg order now conn source st = (r, st')"
  shows "r = Inl e \<Longrightarrow> calms st' st \<and> svc_peers st' = svc_peers st"
    and "r = Inr None \<Longrightarrow> last_displacement st' = last_displacement st
           \<and> (\<exists>s. svc_peers st' = fmupd (nc_peer_id conn) s (svc_peers st) \<and> \<not> is_accepted_inbound s
                \<and> (fmlookup (svc_peers st) (nc_peer_id conn) = None
                     \<longrightarrow> map_len (svc_peers st) < cfg_max_connections cfg))"
    and "r = Inr (Some (v, slot)) \<Longrightarrow> fmlookup (svc_peers st) v = Some slot
           \<and> (\<exists>s. svc_peers st' = fmupd (nc_peer_id conn) s (fmdrop v (svc_peers st)) \<and> \<not> is_accepted_inbound s)
           \<and> last_displacement st' = Some now
           \<and> (\<forall>prev. last_displacement st = Some prev \<longrightarrow> sat_add64 prev (churn_interval cfg) \<le> now)"
proof -
  let ?s = "NatRow \<lparr>nat_conn = nc_transport conn, nat_sink = None, nat_remote = nc_remote conn,
    nat_is_outbound = True, nat_relayed = nc_relayed conn\<rparr>"
  let ?free = "fmlookup (svc_peers st) (nc_peer_id conn) = None"
  consider
      (cap) "r = Inl (MaxConnectionsReached (cfg_max_connections cfg))" "st' = st"
    | (eclipse) e' where "r = Inl e'" "st' = st"
    | (room) "\<not> (?free \<and> source = Discovered)" "r = Inr None" "st' = insert_and_retire (nc_peer_id conn) ?s st"
        "?free \<longrightarrow> map_len (svc_peers st) < cfg_max_connections cfg"
    | (refused) e' where "r = Inl e'" "displace_for_discovered_peer cfg order now st = (Inl e', st')"
    | (given) d st1 where "r = Inr d" "displace_for_discovered_peer cfg order now st = (Inr d, st1)"
        "st' = insert_and_retire (nc_peer_id conn) ?s st1"
    using assms
    by (cases source)
      (auto simp: admit_locked_def Let_def split: if_splits option.splits prod.splits sum.splits)
  note cases = this
  have acc: "\<not> is_accepted_inbound ?s"
    by simp
  show "r = Inl e \<Longrightarrow> calms st' st \<and> svc_peers st' = svc_peers st"
    using cases by cases (auto dest: displace_cases(1))
  show "r = Inr None \<Longrightarrow> last_displacement st' = last_displacement st
     \<and> (\<exists>s. svc_peers st' = fmupd (nc_peer_id conn) s (svc_peers st) \<and> \<not> is_accepted_inbound s
          \<and> (?free \<longrightarrow> map_len (svc_peers st) < cfg_max_connections cfg))"
    using cases
  proof cases
    case room
    then show ?thesis using acc by (auto intro!: exI [of _ ?s])
  next
    case (given d st1)
    assume "r = Inr None"
    then have "calms st1 st \<and> svc_peers st1 = svc_peers st \<and> map_len (svc_peers st) < cfg_max_connections cfg"
      using given displace_cases(2) by auto
    then show ?thesis
      using given acc by (auto simp: calms_def intro!: exI [of _ ?s])
  qed auto
  show "r = Inr (Some (v, slot)) \<Longrightarrow> fmlookup (svc_peers st) v = Some slot
     \<and> (\<exists>s. svc_peers st' = fmupd (nc_peer_id conn) s (fmdrop v (svc_peers st)) \<and> \<not> is_accepted_inbound s)
     \<and> last_displacement st' = Some now
     \<and> (\<forall>prev. last_displacement st = Some prev \<longrightarrow> sat_add64 prev (churn_interval cfg) \<le> now)"
    using cases
  proof cases
    case (given d st1)
    assume "r = Inr (Some (v, slot))"
    then show ?thesis
      using given acc displace_cases(3) [OF given(2), of v slot] by (auto intro!: exI [of _ ?s])
  qed auto
qed

lemma map_len_drop_held: "fmlookup m v \<noteq> None \<Longrightarrow> map_len (fmdrop v m) + 1 = map_len m"
proof -
  assume "fmlookup m v \<noteq> None"
  then have "map_len (fmupd v (the (fmlookup m v)) (fmdrop v m)) = map_len (fmdrop v m) + 1"
    by (simp add: map_len_upd)
  moreover have "fmupd v (the (fmlookup m v)) (fmdrop v m) = m"
    using \<open>fmlookup m v \<noteq> None\<close> by (auto intro!: fmap_ext)
  ultimately show ?thesis by simp
qed

lemma map_len_upd_le: "map_len (fmupd p s m) \<le> map_len m + 1"
  by (simp add: map_len_upd)

lemma banned_at_peers [simp]: "svc_peers (snd (is_peer_id_banned_at bans p now st)) = svc_peers st"
  by (simp add: is_peer_id_banned_at_def Let_def)

lemma admit_effect:
  assumes "admit_nat_connection cfg bans order now conn source st = (r, st')"
  shows "caps_ok maxc (svc_peers st) \<Longrightarrow> caps_ok maxc (svc_peers st')"
    and "map_len (svc_peers st') \<le> max (map_len (svc_peers st)) (cfg_max_connections cfg)"
    and "(case r of Inr a \<Rightarrow> adm_displaced a \<noteq> None | Inl _ \<Rightarrow> False) \<Longrightarrow>
      last_displacement st' = Some now
      \<and> (\<forall>prev. last_displacement st = Some prev \<longrightarrow> sat_add64 prev (churn_interval cfg) \<le> now)"
    and "\<not> (case r of Inr a \<Rightarrow> adm_displaced a \<noteq> None | Inl _ \<Rightarrow> False) \<Longrightarrow>
      last_displacement st' = last_displacement st"
proof -
  let ?p = "nc_peer_id conn"
  obtain b st1 where ban: "is_peer_id_banned_at bans ?p now st = (b, st1)"
    by fastforce
  have st1: "svc_peers st1 = svc_peers st" "last_displacement st1 = last_displacement st"
    using calms_banned_at [of bans ?p now st] banned_at_peers [of bans ?p now st] ban
    by (auto simp: calms_def)
  consider
      (early) e where "r = Inl e" "svc_peers st' = svc_peers st" "last_displacement st' = last_displacement st"
    | (late) e st2 where "r = Inl e" "admit_locked cfg order now conn source st1 = (Inl e, st2)" "st' = st2"
    | (plain) st2 where "admit_locked cfg order now conn source st1 = (Inr None, st2)"
        "r = Inr \<lparr>adm_peer_id = ?p, adm_displaced = None\<rparr>"
        "svc_peers st' = svc_peers st2" "last_displacement st' = last_displacement st2"
    | (cycled) v slot st2 where "admit_locked cfg order now conn source st1 = (Inr (Some (v, slot)), st2)"
        "r = Inr \<lparr>adm_peer_id = ?p, adm_displaced = Some v\<rparr>"
        "svc_peers st' = svc_peers st2" "last_displacement st' = last_displacement st2"
    using assms st1
    by (cases b) (auto simp: admit_nat_connection_def Let_def ban
        split: if_splits prod.splits sum.splits option.splits)
  then have "(caps_ok maxc (svc_peers st) \<longrightarrow> caps_ok maxc (svc_peers st'))
      \<and> map_len (svc_peers st') \<le> max (map_len (svc_peers st)) (cfg_max_connections cfg)
      \<and> (if (case r of Inr a \<Rightarrow> adm_displaced a \<noteq> None | Inl _ \<Rightarrow> False)
         then last_displacement st' = Some now
              \<and> (\<forall>prev. last_displacement st = Some prev \<longrightarrow> sat_add64 prev (churn_interval cfg) \<le> now)
         else last_displacement st' = last_displacement st)"
  proof cases
    case early
    then show ?thesis by simp
  next
    case late
    then have "calms st' st1" "svc_peers st' = svc_peers st1"
      using admit_locked_cases(1) by auto
    then show ?thesis
      using late st1 by (simp add: calms_def)
  next
    case plain
    note eff = admit_locked_cases(2) [OF plain(1) refl]
    obtain s where s: "svc_peers st2 = fmupd ?p s (svc_peers st)" "\<not> is_accepted_inbound s"
      "fmlookup (svc_peers st) ?p = None \<longrightarrow> map_len (svc_peers st) < cfg_max_connections cfg"
      using eff by (auto simp: st1)
    then show ?thesis
      using eff plain by (auto simp: st1 map_len_upd caps_dialled)
  next
    case cycled
    note eff = admit_locked_cases(3) [OF cycled(1) refl]
    obtain s where s: "svc_peers st2 = fmupd ?p s (fmdrop v (svc_peers st))" "\<not> is_accepted_inbound s"
      using eff by (auto simp: st1)
    have "map_len (svc_peers st2) \<le> map_len (svc_peers st)"
      using map_len_upd_le [of ?p s "fmdrop v (svc_peers st)"] map_len_drop_held [of "svc_peers st" v] eff
      by (simp add: s(1) st1)
    moreover have "caps_ok maxc (svc_peers st) \<Longrightarrow> caps_ok maxc (svc_peers st2)"
      using caps_dialled [OF caps_shrink [OF shrinks_drop] s(2)] by (simp add: s(1))
    ultimately show ?thesis
      using eff cycled by (auto simp: st1)
  qed
  then show "caps_ok maxc (svc_peers st) \<Longrightarrow> caps_ok maxc (svc_peers st')"
    "map_len (svc_peers st') \<le> max (map_len (svc_peers st)) (cfg_max_connections cfg)"
    "(case r of Inr a \<Rightarrow> adm_displaced a \<noteq> None | Inl _ \<Rightarrow> False) \<Longrightarrow>
      last_displacement st' = Some now
      \<and> (\<forall>prev. last_displacement st = Some prev \<longrightarrow> sat_add64 prev (churn_interval cfg) \<le> now)"
    "\<not> (case r of Inr a \<Rightarrow> adm_displaced a \<noteq> None | Inl _ \<Rightarrow> False) \<Longrightarrow>
      last_displacement st' = last_displacement st"
    by (simp_all split: if_splits)
qed

lemma adopt_inbound_cases:
  assumes "adopt_inbound refusal right wrong cfg bans now conn sink st = (r, st')"
  obtains (refused) "svc_peers st' = svc_peers st" "last_displacement st' = last_displacement st"
    | (taken) st1 s where "right" "svc_peers st1 = svc_peers st" "refusal st1 = None"
      "svc_peers st' = fmupd (nc_peer_id conn) s (svc_peers st)"
      "s = NatRow \<lparr>nat_conn = nc_transport conn, nat_sink = sink, nat_remote = nc_remote conn,
         nat_is_outbound = False, nat_relayed = nc_relayed conn\<rparr>"
      "last_displacement st' = last_displacement st"
proof -
  obtain b st1 where ban: "is_peer_id_banned_at bans (nc_peer_id conn) now st = (b, st1)"
    by fastforce
  have st1: "svc_peers st1 = svc_peers st" "last_displacement st1 = last_displacement st"
    using calms_banned_at [of bans "nc_peer_id conn" now st]
      banned_at_peers [of bans "nc_peer_id conn" now st] ban
    by (auto simp: calms_def)
  consider
      "svc_peers st' = svc_peers st" "last_displacement st' = last_displacement st"
    | "right" "refusal st1 = None"
      "svc_peers st' = fmupd (nc_peer_id conn) (NatRow \<lparr>nat_conn = nc_transport conn, nat_sink = sink,
         nat_remote = nc_remote conn, nat_is_outbound = False, nat_relayed = nc_relayed conn\<rparr>) (svc_peers st)"
      "last_displacement st' = last_displacement st"
    using assms st1
    by (cases b) (auto simp: adopt_inbound_def Let_def ban split: if_splits option.splits)
  then show ?thesis
    using refused taken st1(1) by cases blast+
qed

lemma direct_effect:
  assumes "adopt_direct_inbound_handle cfg bans now conn sink st = (r, st')"
  shows "caps_ok (cfg_max_connections cfg) (svc_peers st) \<Longrightarrow>
      caps_ok (cfg_max_connections cfg) (svc_peers st')"
    and "map_len (svc_peers st') \<le> max (map_len (svc_peers st)) (cfg_max_connections cfg)"
    and "last_displacement st' = last_displacement st"
proof -
  have "(caps_ok (cfg_max_connections cfg) (svc_peers st) \<longrightarrow> caps_ok (cfg_max_connections cfg) (svc_peers st'))
    \<and> map_len (svc_peers st') \<le> max (map_len (svc_peers st)) (cfg_max_connections cfg)
    \<and> last_displacement st' = last_displacement st"
    using assms unfolding adopt_direct_inbound_handle_def
  proof (cases rule: adopt_inbound_cases)
    case (taken st1 s)
    have "map_len (svc_peers st') \<le> max (map_len (svc_peers st)) (cfg_max_connections cfg)"
      using taken by (auto simp: direct_inbound_refusal_def map_len_upd Let_def split: if_splits)
    then show ?thesis
      using taken caps_direct [of cfg st1 conn s "nc_transport conn" sink] by auto
  qed simp
  then show "caps_ok (cfg_max_connections cfg) (svc_peers st) \<Longrightarrow>
      caps_ok (cfg_max_connections cfg) (svc_peers st')"
    "map_len (svc_peers st') \<le> max (map_len (svc_peers st)) (cfg_max_connections cfg)"
    "last_displacement st' = last_displacement st"
    by auto
qed

lemma relayed_effect:
  assumes "adopt_relayed_inbound_inner cfg bans now conn sink st = (r, st')"
  shows "caps_ok (cfg_max_connections cfg) (svc_peers st) \<Longrightarrow>
      caps_ok (cfg_max_connections cfg) (svc_peers st')"
    and "map_len (svc_peers st') \<le> max (map_len (svc_peers st)) (cfg_max_connections cfg)"
    and "last_displacement st' = last_displacement st"
proof -
  have "(caps_ok (cfg_max_connections cfg) (svc_peers st) \<longrightarrow> caps_ok (cfg_max_connections cfg) (svc_peers st'))
    \<and> map_len (svc_peers st') \<le> max (map_len (svc_peers st)) (cfg_max_connections cfg)
    \<and> last_displacement st' = last_displacement st"
    using assms unfolding adopt_relayed_inbound_inner_def
  proof (cases rule: adopt_inbound_cases)
    case (taken st1 s)
    have "map_len (svc_peers st') \<le> max (map_len (svc_peers st)) (cfg_max_connections cfg)"
      using taken by (auto simp: relayed_inbound_refusal_def map_len_upd Let_def split: if_splits)
    then show ?thesis
      using taken caps_relayed [of cfg st1 conn s "nc_transport conn" sink] by auto
  qed simp
  then show "caps_ok (cfg_max_connections cfg) (svc_peers st) \<Longrightarrow>
      caps_ok (cfg_max_connections cfg) (svc_peers st')"
    "map_len (svc_peers st') \<le> max (map_len (svc_peers st)) (cfg_max_connections cfg)"
    "last_displacement st' = last_displacement st"
    by auto
qed

lemma connect_admit_cases:
  assumes "connect_admit cfg p addr now st = (r, st')"
  obtains (refused) e where "r = Inl e" "svc_peers st' = svc_peers st" "last_displacement st' = last_displacement st"
    | (taken) s where "r = Inr p" "svc_peers st' = fmupd p s (svc_peers st)" "\<not> is_accepted_inbound s"
      "slot_remote s = addr" "slot_is_outbound s" "\<not> is_relayed s"
      "last_displacement st' = last_displacement st"
  using assms
  by (auto simp: connect_admit_def next_peer_generation_def Let_def split: option.splits if_splits)

lemma listener_insert_effect:
  "\<exists>s. svc_peers (listener_insert p addr st) = fmupd p s (svc_peers st)
     \<and> \<not> is_accepted_inbound s \<and> \<not> slot_is_outbound s"
  "svc_pool (listener_insert p addr st) = svc_pool st"
  "svc_plumtree (listener_insert p addr st) = svc_plumtree st"
proof -
  show "\<exists>s. svc_peers (listener_insert p addr st) = fmupd p s (svc_peers st)
     \<and> \<not> is_accepted_inbound s \<and> \<not> slot_is_outbound s"
    unfolding listener_insert_def next_peer_generation_def Let_def
    by (rule exI [of _ "LiveRow \<lparr>live_meta = \<lparr>sp_remote = addr, sp_is_outbound = False\<rparr>,
      live_reputation = reputation_default, live_generation = svc_peer_generation st\<rparr>"]) simp
qed (simp_all add: listener_insert_def next_peer_generation_def Let_def)

section \<open>The invariants of every interleaving\<close>

definition node_ok :: "ServiceConfig \<Rightarrow> nat \<Rightarrow> nat \<Rightarrow> node \<Rightarrow> bool" where
  "node_ok cfg K H x \<longleftrightarrow>
     (case x of (st, c, h) \<Rightarrow>
        caps_ok (cfg_max_connections cfg) (svc_peers st) \<and> c \<le> K \<and> h \<le> max H 1
        \<and> map_len (svc_peers st) + c + h \<le> cfg_max_connections cfg + K + max H 1)"

lemma node_ok_calms:
  "node_ok cfg K H (st, c, h) \<Longrightarrow> calms st' st \<Longrightarrow> node_ok cfg K H (st', c, h)"
  using shrinks_len [of "svc_peers st'" "svc_peers st"]
  by (auto simp: node_ok_def calms_def caps_shrink)

lemma node_ok_admission:
  assumes "node_ok cfg K H (st, c, h)" "caps_ok (cfg_max_connections cfg) (svc_peers st')"
    and "map_len (svc_peers st') \<le> max (map_len (svc_peers st)) (cfg_max_connections cfg)"
  shows "node_ok cfg K H (st', c, h)"
  using assms by (auto simp: node_ok_def max_def split: if_splits)

lemma node_ok_step: "node_step cfg K H lab x y \<Longrightarrow> node_ok cfg K H x \<Longrightarrow> node_ok cfg K H y"
proof (induction rule: node_step.induct)
  case (dial_begin addr st c h)
  then show ?case
    by (auto simp: node_ok_def connect_precheck_def split: if_splits)
next
  case (dial_end st c h p addr now)
  obtain r st' where r: "connect_admit cfg p addr now st = (r, st')"
    by fastforce
  then show ?case
  proof (cases rule: connect_admit_cases)
    case refused
    then show ?thesis
      using dial_end r by (auto simp: node_ok_def)
  next
    case (taken s)
    then show ?thesis
      using dial_end r map_len_upd_le [of p s "svc_peers st"]
      by (auto simp: node_ok_def caps_dialled)
  qed
next
  case (accept_begin h st c)
  then show ?case
    by (auto simp: node_ok_def accept_gate_def)
next
  case (accept_end st c h p addr)
  obtain s where "svc_peers (listener_insert p addr st) = fmupd p s (svc_peers st)" "\<not> is_accepted_inbound s"
    using listener_insert_effect(1) by blast
  then show ?case
    using accept_end map_len_upd_le [of p s "svc_peers st"] by (auto simp: node_ok_def caps_dialled)
next
  case (admit bans order now conn source st r st' c h)
  then show ?case
    using admit_effect(1,2) [OF admit(1)] by (auto intro: node_ok_admission simp: node_ok_def)
next
  case (accept_direct st c h bans now conn sink)
  obtain r st' where r: "adopt_direct_inbound_handle cfg bans now conn sink st = (r, st')"
    by fastforce
  then show ?case
    using accept_direct direct_effect [OF r] by (auto intro!: node_ok_admission simp: node_ok_def)
next
  case (accept_relayed st c h bans now conn sink)
  obtain r st' where r: "adopt_relayed_inbound_inner cfg bans now conn sink st = (r, st')"
    by fastforce
  then show ?case
    using accept_relayed relayed_effect [OF r] by (auto intro!: node_ok_admission simp: node_ok_def)
next
  case (dial_drop st c h)
  then show ?case by (simp add: node_ok_def)
next
  case (accept_drop st c h)
  then show ?case by (simp add: node_ok_def)
qed (erule node_ok_calms, rule calms_ops)+

lemma node_ok_run: "node_run cfg K H log x \<Longrightarrow> node_ok cfg K H x"
proof (induction rule: node_run.induct)
  case (boot bound)
  have "map_len (fmempty :: peer_map) = 0"
    by (simp add: map_len_def fcard_fempty)
  then show ?case
    by (simp add: node_ok_def service_new_def caps_ok_empty)
qed (auto intro: node_ok_step)

text \<open>
  C1: accepted peers never fill the pool. In every interleaving of dials, accepts,
  adoptions, displacements, departures and bans, the accepted \<open>dig_nat\<close> slots are within the
  direct, the relayed and the aggregate cap, and the accepted direct slots of one source group
  within the group cap; at least one slot of a nonempty pool, a quarter of it, is not theirs.
\<close>

theorem inbound_caps_hold:
  assumes "node_run cfg K H log (st, c, h)"
  shows "count_slots (\<lambda>_. is_accepted_direct) (svc_peers st) \<le> max_direct_inbound (cfg_max_connections cfg)
    \<and> count_slots (\<lambda>_ s. is_relayed s \<and> \<not> slot_is_outbound s) (svc_peers st)
           \<le> max_relayed_inbound (cfg_max_connections cfg)
    \<and> count_slots (\<lambda>_. is_accepted_inbound) (svc_peers st)
           \<le> cfg_max_connections cfg - max (cfg_max_connections cfg div 4) 1
    \<and> count_slots (same_source_group ip) (svc_peers st)
           \<le> max_direct_inbound_per_group (cfg_max_connections cfg)"
  using node_ok_run [OF assms]
  by (simp add: node_ok_def caps_ok_def max_inbound_total_def reserving_a_quarter_def)

text \<open>
  C18: the peer map is bounded by the pool size and the handshakes in flight. With at most
  \<open>K\<close> dials and \<open>H\<close> inbound handshakes in flight at once the map never holds more
  than \<open>max_connections + K + H\<close> slots: the slots are counted before a handshake, not when its
  peer is inserted.
\<close>

theorem pool_size_bounded:
  assumes "node_run cfg K H log (st, c, h)"
  shows "map_len (svc_peers st) + c + h \<le> cfg_max_connections cfg + K + max H 1"
  using node_ok_run [OF assms] by (simp add: node_ok_def)

lemma calms_last: "calms st' st \<Longrightarrow> last_displacement st' = last_displacement st"
  by (simp add: calms_def)

lemma last_step:
  assumes "node_step cfg K H lab x y"
  shows "case lab of
      None \<Rightarrow> last_displacement (fst y) = last_displacement (fst x)
    | Some t \<Rightarrow> last_displacement (fst y) = Some t
        \<and> (\<forall>prev. last_displacement (fst x) = Some prev \<longrightarrow> sat_add64 prev (churn_interval cfg) \<le> t)"
  using assms
proof (induction rule: node_step.induct)
  case (admit bans order now conn source st r st' c h)
  show ?case
    using admit_effect(3,4) [OF admit(1)] by (auto split: sum.splits if_splits)
next
  case (dial_end st c h p addr now)
  obtain r st' where r: "connect_admit cfg p addr now st = (r, st')"
    by fastforce
  then show ?case
    by (cases rule: connect_admit_cases) (simp_all add: r)
next
  case (accept_direct st c h bans now conn sink)
  obtain r st' where r: "adopt_direct_inbound_handle cfg bans now conn sink st = (r, st')"
    by fastforce
  then show ?case
    using direct_effect(3) [OF r] by simp
next
  case (accept_relayed st c h bans now conn sink)
  obtain r st' where r: "adopt_relayed_inbound_inner cfg bans now conn sink st = (r, st')"
    by fastforce
  then show ?case
    using relayed_effect(3) [OF r] by simp
qed (simp_all add: calms_ops [THEN calms_last] listener_insert_effect(2))

lemma churn_run:
  "node_run cfg K H log x \<Longrightarrow>
     last_displacement (fst x) = (if log = [] then None else Some (last log))
     \<and> (\<forall>i. Suc i < length log \<longrightarrow> sat_add64 (log ! i) (churn_interval cfg) \<le> log ! Suc i)"
proof (induction rule: node_run.induct)
  case (boot bound)
  then show ?case by (simp add: service_new_def PoolState_new_def)
next
  case (quiet log x y)
  then show ?case
    using last_step [OF quiet(2)] by simp
next
  case (displaced log x t y)
  note last = last_step [OF displaced(2), simplified]
  have "sat_add64 (log ! i) (churn_interval cfg) \<le> t" if "Suc i = length log" for i
  proof -
    have ne: "log \<noteq> []"
      using that by auto
    moreover have "log ! i = List.last log"
      using last_conv_nth [OF ne] that by (metis diff_Suc_1)
    ultimately show ?thesis
      using last displaced(3) by simp
  qed
  then show ?case
    using last displaced(3) by (auto simp: nth_append not_less less_Suc_eq)
qed

text \<open>
  C20: discovery cannot churn the pool. In every interleaving, two successive displacements
  are at least the configured interval apart, and at least ten minutes whatever is configured,
  however many holders discovery reports.
\<close>

theorem displacement_churn_bounded:
  assumes "node_run cfg K H log x" "Suc i < length log"
  shows "sat_add64 (log ! i)
      (max (displacement_interval_secs (case cfg_peer_pool cfg of Some c \<Rightarrow> c | None \<Rightarrow> pool_config_default)) 600)
    \<le> log ! Suc i"
  using churn_run [OF assms(1)] assms(2) by blast

end
