(* ===== verification/Admission_Rules.thy ===== *)
theory Admission_Rules
  imports Admission_Caps
begin

text \<open>
  Single admissions: the outbound diversity of a new identity and the reconnect that evades it,
  what a displacement costs, the dialable peers an accepted connection cannot demote, and what
  the split handshakes and the listener leave out. The witnesses of the run invariants
  stand here, over a pool of one slot.
\<close>

section \<open>Outbound diversity\<close>

definition same_network :: "AsLookupTable \<Rightarrow> IpAddr \<Rightarrow> IpAddr \<Rightarrow> bool" where
  "same_network table a b \<longleftrightarrow>
     subnet_group a = subnet_group b \<or> (\<exists>n. as_lookup table a = Some n \<and> as_lookup table b = Some n)"

definition diverse :: "AsLookupTable \<Rightarrow> peer_map \<Rightarrow> bool" where
  "diverse table m \<longleftrightarrow>
     (\<forall>p q s t. p \<noteq> q \<longrightarrow> fmlookup m p = Some s \<longrightarrow> fmlookup m q = Some t
        \<longrightarrow> slot_is_outbound s \<and> \<not> is_relayed s \<longrightarrow> slot_is_outbound t \<and> \<not> is_relayed t
        \<longrightarrow> \<not> same_network table (sa_ip (slot_remote s)) (sa_ip (slot_remote t)))"

lemma diverse_drop: "diverse table m \<Longrightarrow> diverse table (fmdrop v m)"
  unfolding diverse_def by (auto split: if_splits)

lemma same_network_sym: "same_network table a b \<longleftrightarrow> same_network table b a"
  by (auto simp: same_network_def)

lemma no_conflict_network:
  assumes "outbound_diversity_conflict m table p ip False = None"
    and "fmlookup m q = Some t" "q \<noteq> p" "slot_is_outbound t" "\<not> is_relayed t"
  shows "\<not> same_network table (sa_ip (slot_remote t)) ip"
  using assms
  by (auto simp: outbound_diversity_conflict_def any_slot_iff subnet_group_of_def same_network_def Let_def
      split: if_splits option.splits)

lemma diverse_upd:
  assumes "diverse table m" "outbound_diversity_conflict m' table p (sa_ip (slot_remote s)) False = None"
    and "\<And>q t. fmlookup m q = Some t \<Longrightarrow> fmlookup m' q = Some t"
  shows "diverse table (fmupd p s m)"
  unfolding diverse_def
proof (intro allI impI)
  fix x y a b
  assume *: "x \<noteq> y" "fmlookup (fmupd p s m) x = Some a" "fmlookup (fmupd p s m) y = Some b"
    "slot_is_outbound a \<and> \<not> is_relayed a" "slot_is_outbound b \<and> \<not> is_relayed b"
  have new: "\<not> same_network table (sa_ip (slot_remote t)) (sa_ip (slot_remote s))"
    if "fmlookup m q = Some t" "q \<noteq> p" "slot_is_outbound t \<and> \<not> is_relayed t" for q t
    using no_conflict_network [OF assms(2) assms(3) [OF that(1)] that(2)] that(3) by simp
  show "\<not> same_network table (sa_ip (slot_remote a)) (sa_ip (slot_remote b))"
  proof (cases "x = p \<or> y = p")
    case True
    then show ?thesis
      using * new [of y b] new [of x a] same_network_sym by auto
  next
    case False
    then have "fmlookup m x = Some a" "fmlookup m y = Some b"
      using *(2,3) by (auto split: if_splits)
    then show ?thesis
      using *(1,4,5) assms(1) unfolding diverse_def by blast
  qed
qed

lemma diverse_relayed: "diverse table m \<Longrightarrow> is_relayed s \<Longrightarrow> diverse table (fmupd p s m)"
  unfolding diverse_def by (auto split: if_splits)

text \<open>
  C4: a new identity never doubles a network. While no two outbound direct peers share a subnet
  group or an autonomous system of the configured table, dialling or adopting a peer that holds no
  outbound slot keeps it so, over either path.
\<close>

theorem net_new_outbound_diverse:
  assumes "diverse (cfg_as_table cfg) (svc_peers st)" "\<And>s. fmlookup (svc_peers st) p = Some s \<Longrightarrow> \<not> slot_is_outbound s"
  shows "diverse (cfg_as_table cfg) (svc_peers (snd (connect_admit cfg p addr now st)))
    \<and> (nc_peer_id conn = p \<longrightarrow>
          diverse (cfg_as_table cfg) (svc_peers (snd (admit_nat_connection cfg bans order now conn source st))))"
proof (intro conjI impI)
  have fresh: "(case fmlookup (svc_peers st) p of Some slot \<Rightarrow> slot_is_outbound slot | None \<Rightarrow> False) = False"
    using assms(2) by (simp split: option.split)
  show "diverse (cfg_as_table cfg) (svc_peers (snd (connect_admit cfg p addr now st)))"
    using assms(1) fresh
    by (auto simp: connect_admit_def next_peer_generation_def Let_def
        intro!: diverse_upd [where m' = "svc_peers st" and table = "cfg_as_table cfg"] split: option.split)
  assume p: "nc_peer_id conn = p"
  let ?s = "NatRow \<lparr>nat_conn = nc_transport conn, nat_sink = None, nat_remote = nc_remote conn,
    nat_is_outbound = True, nat_relayed = nc_relayed conn\<rparr>"
  obtain b st1 where ban: "is_peer_id_banned_at bans p now st = (b, st1)"
    by fastforce
  have st1: "svc_peers st1 = svc_peers st"
    using banned_at_peers [of bans p now st] ban by simp
  have locked: "diverse (cfg_as_table cfg) (svc_peers st2)"
    if adm: "admit_locked cfg order now conn source st1 = (Inr d, st2)" for d st2
  proof -
    have pass: "eclipse_refusal cfg conn st1 = None"
      using adm by (auto simp: admit_locked_def Let_def split: if_splits option.splits)
    obtain m where m: "svc_peers st2 = fmupd p ?s m" "m = svc_peers st \<or> (\<exists>v. m = fmdrop v (svc_peers st))"
      using adm pass st1 p displace_cases(2,3)
      by (auto simp: admit_locked_def Let_def split: if_splits prod.splits sum.splits) (metis not_None_eq surj_pair)+
    show ?thesis
    proof (cases "nc_relayed conn")
      case True
      then show ?thesis
        using m assms(1) by (auto intro!: diverse_relayed diverse_drop)
    next
      case False
      then have "outbound_diversity_conflict (svc_peers st) (cfg_as_table cfg) p (sa_ip (nc_remote conn)) False = None"
        using pass fresh by (auto simp: eclipse_refusal_def Let_def st1 p split: option.splits)
      then show ?thesis
        using m assms(1)
        by (auto intro!: diverse_upd [where m' = "svc_peers st" and table = "cfg_as_table cfg"] diverse_drop
            split: if_splits)
    qed
  qed
  show "diverse (cfg_as_table cfg) (svc_peers (snd (admit_nat_connection cfg bans order now conn source st)))"
  proof (cases "admit_locked cfg order now conn source st1")
    case (Pair r st2)
    then show ?thesis
      using locked assms(1) st1 p admit_locked_cases(1) [OF Pair]
      by (cases b; cases r) (auto simp: admit_nat_connection_def Let_def ban split: option.split)
  qed
qed

definition base_config :: "nat \<Rightarrow> ServiceConfig" where
  "base_config maxc = \<lparr>cfg_peer_id = [0], cfg_max_connections = maxc, cfg_target_outbound_count = 8,
     cfg_peer_pool = Some (pool_config_default\<lparr>target_peers := 1, min_peers := 0\<rparr>),
     cfg_as_table = as_table_empty, cfg_listen_addr = SocketAddr (V4 [0, 0, 0, 0]) 9444\<rparr>"

lemma diverse_single: "diverse table (fmupd p s fmempty)"
  by (simp add: diverse_def)

theorem net_new_outbound_diverse_witness:
  "diverse (cfg_as_table (base_config 8)) (svc_peers (snd (connect_admit (base_config 8) [9] (SocketAddr (V4 [9, 9, 0, 1]) 9444) 5 one_live)))"
  by (rule net_new_outbound_diverse [THEN conjunct1]) (simp_all add: one_live_def diverse_single)

text \<open>
  A reconnect evades the group limit. A peer that holds an outbound slot in one group
  may dial in again from an address of another group that an outbound peer already occupies: no
  check is made, and two outbound direct peers share the group.
\<close>

theorem reconnect_breaks_diversity:
  assumes "fmlookup (svc_peers st) q = Some t" "slot_is_outbound t" "\<not> is_relayed t"
    and "fmlookup (svc_peers st) p = Some s" "slot_is_outbound s" "p \<noteq> q"
    and "subnet_group (sa_ip addr) = subnet_group_of t"
  shows "fst (connect_admit cfg p addr now st) = Inr p
    \<and> \<not> diverse (cfg_as_table cfg) (svc_peers (snd (connect_admit cfg p addr now st)))"
proof (intro conjI)
  obtain r st' where adm: "connect_admit cfg p addr now st = (r, st')"
    by fastforce
  have "\<exists>x. svc_peers st' = fmupd p x (svc_peers st) \<and> slot_is_outbound x \<and> \<not> is_relayed x
      \<and> slot_remote x = addr" and r: "r = Inr p"
    using adm assms(4,5) by (auto simp: connect_admit_def next_peer_generation_def Let_def)
  then obtain x where x: "svc_peers st' = fmupd p x (svc_peers st)" "slot_is_outbound x" "\<not> is_relayed x"
    "slot_remote x = addr"
    by blast
  show "fst (connect_admit cfg p addr now st) = Inr p"
    by (simp add: adm r)
  have "fmlookup (svc_peers st') p = Some x" "fmlookup (svc_peers st') q = Some t"
    using x(1) assms(1,6) by simp_all
  moreover have "subnet_group_of x = subnet_group_of t"
    using assms(7) x(4) by (simp add: subnet_group_of_def)
  ultimately show "\<not> diverse (cfg_as_table cfg) (svc_peers (snd (connect_admit cfg p addr now st)))"
    unfolding diverse_def same_network_def adm snd_conv subnet_group_of_def
    using assms(2,3,6) x(2,3) by metis
qed

theorem reconnect_breaks_diversity_witness:
  "\<not> diverse (cfg_as_table (base_config 8)) (svc_peers (snd (connect_admit (base_config 8) [9] (SocketAddr (V4 [8, 8, 7, 7]) 9444) 5
     (one_live\<lparr>svc_peers := fmupd [9] (live_row 9 True 1) (svc_peers one_live)\<rparr>))))"
proof (rule reconnect_breaks_diversity [THEN conjunct2])
  show "fmlookup (svc_peers (one_live\<lparr>svc_peers := fmupd [9] (live_row 9 True 1) (svc_peers one_live)\<rparr>)) [7]
      = Some (live_row 8 True 0)"
    "fmlookup (svc_peers (one_live\<lparr>svc_peers := fmupd [9] (live_row 9 True 1) (svc_peers one_live)\<rparr>)) [9]
      = Some (live_row 9 True 1)"
    by (simp_all add: one_live_def)
qed (simp_all add: live_row_def subnet_group_of_def subnet_group_def)

section \<open>Displacement\<close>

text \<open>
  What a displacement costs. When discovery's admission displaces a peer, the map was
  full and above its minimum; the victim is another peer, held over \<open>dig_nat\<close>, with no work in
  flight and unused for the configured time; it alone leaves the map, the new peer alone enters,
  and the victim's usefulness record is gone.
\<close>

theorem discovered_displacement:
  assumes "admit_nat_connection cfg bans order now conn source st = (Inr a, st')"
    and "adm_displaced a = Some v"
  defines "pool \<equiv> normalized (case cfg_peer_pool cfg of Some c \<Rightarrow> c | None \<Rightarrow> pool_config_default)"
  shows "v \<noteq> nc_peer_id conn
    \<and> cfg_max_connections cfg \<le> map_len (svc_peers st)
    \<and> min_peers pool < map_len (svc_peers st)
    \<and> (\<exists>n. fmlookup (svc_peers st) v = Some (NatRow n))
    \<and> (\<exists>r. fmlookup (pool_activity (svc_pool st)) v = Some r \<and> rec_in_flight r = 0
           \<and> min_idle_secs pool \<le> now - rec_last_active_at r
           \<and> min_established_secs pool \<le> now - rec_admitted_at r)
    \<and> (\<exists>s. svc_peers st' = fmupd (nc_peer_id conn) s (fmdrop v (svc_peers st)))"
proof (intro conjI)
  let ?p = "nc_peer_id conn"
  obtain b st1 where ban: "is_peer_id_banned_at bans ?p now st = (b, st1)"
    by fastforce
  have st1: "svc_peers st1 = svc_peers st" "svc_pool st1 = svc_pool st"
    using arg_cong [OF ban, of snd] by (auto simp: is_peer_id_banned_at_def Let_def)
  obtain slot st2 where locked: "admit_locked cfg order now conn source st1 = (Inr (Some (v, slot)), st2)"
    and peers': "svc_peers st' = svc_peers st2"
    using assms(1,2) ban
    by (cases b) (auto simp: admit_nat_connection_def Let_def
        split: if_splits prod.splits sum.splits option.splits)
  obtain st3 where disp: "displace_for_discovered_peer cfg order now st1 = (Inr (Some (v, slot)), st3)"
    and free: "fmlookup (svc_peers st) ?p = None"
    using locked st1(1) by (auto simp: admit_locked_def Let_def split: if_splits option.splits prod.splits sum.splits)
  define cyclable where "cyclable = filter (slot_holds (\<lambda>_ s. case s of NatRow _ \<Rightarrow> True | _ \<Rightarrow> False) (svc_peers st)) order"
  define req where "req = \<lparr>req_connected = map_len (svc_peers st), req_capacity = cfg_max_connections cfg,
      req_incumbents = activity_of cyclable (retain_admitted (fmdom (svc_peers st)) (svc_pool st)),
      req_last_displacement_at = last_displacement st, req_now = now\<rparr>"
  have plan: "plan_displacement req (case cfg_peer_pool cfg of Some c \<Rightarrow> c | None \<Rightarrow> pool_config_default) = Displace v"
    and slot: "fmlookup (svc_peers st) v = Some slot"
    using disp st1
    by (auto simp: displace_for_discovered_peer_def Let_def req_def cyclable_def
        split: DisplacementDecision.splits option.splits)
  note exact = displacement_exact [OF plan, folded pool_def]
  show "cfg_max_connections cfg \<le> map_len (svc_peers st)" "min_peers pool < map_len (svc_peers st)"
    using exact(1,2) by (simp_all add: req_def)
  obtain x where x: "x \<in> set (req_incumbents req)" "act_peer_id x = v" "is_displaceable x now pool"
    using exact(4) by (auto simp: req_def)
  then obtain r where r: "v \<in> set cyclable" "fmlookup (pool_activity (svc_pool st)) v = Some r"
    "act_in_flight x = rec_in_flight r" "act_last_active_at x = rec_last_active_at r"
    "act_admitted_at x = rec_admitted_at r"
    by (auto simp: req_def activity_of_def List.map_filter_def retain_admitted_def split: option.splits if_splits)
  show "\<exists>r. fmlookup (pool_activity (svc_pool st)) v = Some r \<and> rec_in_flight r = 0
     \<and> min_idle_secs pool \<le> now - rec_last_active_at r \<and> min_established_secs pool \<le> now - rec_admitted_at r"
    using r x(3) by (auto simp: is_displaceable_def)
  show "\<exists>n. fmlookup (svc_peers st) v = Some (NatRow n)"
  proof -
    obtain s where "fmlookup (svc_peers st) v = Some s" "case s of NatRow _ \<Rightarrow> True | _ \<Rightarrow> False"
      using r(1) by (auto simp: cyclable_def slot_holds_iff)
    then show ?thesis by (cases s) auto
  qed
  show "v \<noteq> ?p"
    using slot free by auto
  show "\<exists>s. svc_peers st' = fmupd ?p s (fmdrop v (svc_peers st))"
    using admit_locked_cases(3) [OF locked refl] st1(1) peers' by auto
qed

subsection \<open>A pool of one slot\<close>

definition nat_peer :: "u8 \<Rightarrow> NatConn" where
  "nat_peer b = \<lparr>nc_peer_id = [b], nc_remote = SocketAddr (V4 [b, b, 0, 1]) 9444, nc_relayed = False,
     nc_transport = Owned 0\<rparr>"

definition owned_row :: "u8 \<Rightarrow> MapSlot" where
  "owned_row b = NatRow \<lparr>nat_conn = Owned 0, nat_sink = None,
     nat_remote = SocketAddr (V4 [b, b, 0, 1]) 9444, nat_is_outbound = True, nat_relayed = False\<rparr>"

definition holds_only :: "u8 \<Rightarrow> nat \<Rightarrow> nat option \<Rightarrow> ServiceState \<Rightarrow> bool" where
  "holds_only b t prev st \<longleftrightarrow> svc_running st \<and> svc_peers st = fmupd [b] (owned_row b) fmempty
     \<and> svc_banned st = fmempty
     \<and> pool_activity (svc_pool st)
         = fmupd [b] \<lparr>rec_admitted_at = t, rec_last_active_at = t, rec_in_flight = 0\<rparr> fmempty
     \<and> last_displacement st = prev"

lemma not_banned_empty: "svc_banned st = fmempty \<Longrightarrow>
    is_peer_id_banned_at [] p now st = (False, st\<lparr>svc_banned := fmempty\<rparr>)"
  by (simp add: is_peer_id_banned_at_def prune_expired_dig_bans_def expired_bans_def List.map_filter_def Let_def)

lemma owned_groups: "b \<noteq> d \<Longrightarrow> subnet_group (V4 [b, b, 0, 1]) \<noteq> subnet_group (V4 [d, d, 0, 1])"
  unfolding subnet_group_def canonical_ip.simps IpAddr.case join16 by (simp add: of_nat_of_be_inject)

lemma owned_row_fields [simp]:
  "slot_is_outbound (owned_row b)" "\<not> is_relayed (owned_row b)"
  "slot_remote (owned_row b) = SocketAddr (V4 [b, b, 0, 1]) 9444"
  by (simp_all add: owned_row_def)

lemma map_len_single: "map_len (fmupd p s fmempty) = 1"
  by (simp add: map_len_upd) (simp add: map_len_def fcard_fempty)

lemma one_slot_pool:
  "normalized (pool_config_default\<lparr>target_peers := 1, min_peers := 0\<rparr>)
     = pool_config_default\<lparr>target_peers := 1, min_peers := 0\<rparr>"
  by (rule normalized_coherent) (simp add: coherent_def pool_consts)

lemma one_slot_cycle:
  assumes "holds_only b t prev st" "b \<noteq> d" "t + 600 \<le> now"
    and "\<And>u. prev = Some u \<Longrightarrow> u + 600 \<le> now" "now \<le> u64_max" "d \<noteq> 0"
  obtains st' where "admit_nat_connection (base_config 1) [] [[b]] now (nat_peer d) Discovered st
      = (Inr \<lparr>adm_peer_id = [d], adm_displaced = Some [b]\<rparr>, st')" "holds_only d now (Some now) st'"
proof -
  let ?st = "st\<lparr>svc_banned := fmempty\<rparr>"
  have st: "svc_running st" "svc_peers st = fmupd [b] (owned_row b) fmempty" "svc_banned st = fmempty"
    "pool_activity (svc_pool st)
         = fmupd [b] \<lparr>rec_admitted_at = t, rec_last_active_at = t, rec_in_flight = 0\<rparr> fmempty"
    "last_displacement st = prev"
    using assms(1) by (auto simp: holds_only_def)
  have eclipse: "eclipse_refusal (base_config 1) (nat_peer d) ?st = None"
    using assms(2) owned_groups [of b d]
    by (auto simp: eclipse_refusal_def nat_peer_def st base_config_def outbound_diversity_conflict_def
        any_slot_iff as_lookup_empty subnet_group_of_def Let_def)
  have rate: "case prev of None \<Rightarrow> True | Some u \<Rightarrow> \<not> now < sat_add64 u 600"
    using assms(4,5) by (auto simp: sat_add64_def split: option.split)
  have held: "retain_admitted {|[b]|} (svc_pool st) = svc_pool st"
    by (auto simp: retain_admitted_def st(4) intro!: PoolState.equality fmap_ext)
  have disp: "displace_for_discovered_peer (base_config 1) [[b]] now ?st =
      (Inr (Some ([b], owned_row b)), ?st\<lparr>svc_peers := fmdrop [b] (svc_peers st),
         svc_pool := record_displacement now (record_departure [b] (svc_pool st))\<rparr>)"
    using rate assms(3)
    by (auto simp: displace_for_discovered_peer_def base_config_def st held map_len_single
        plan_displacement_def one_slot_pool [unfolded One_nat_def] activity_of_def List.map_filter_def is_displaceable_def
        slot_holds_def owned_row_def Let_def split: option.splits)
  show ?thesis
  proof (rule that)
    let ?st2 = "insert_and_retire [d] (owned_row d) (?st\<lparr>svc_peers := fmdrop [b] (svc_peers st),
         svc_pool := record_displacement now (record_departure [b] (svc_pool st))\<rparr>)"
    have locked: "admit_locked (base_config 1) [[b]] now (nat_peer d) Discovered ?st
        = (Inr (Some ([b], owned_row b)), ?st2)"
      using eclipse disp assms(2) by (simp add: admit_locked_def st nat_peer_def owned_row_def Let_def)
    show "admit_nat_connection (base_config 1) [] [[b]] now (nat_peer d) Discovered st
        = (Inr \<lparr>adm_peer_id = [d], adm_displaced = Some [b]\<rparr>,
           retire_displaced ([b], owned_row b) now
             (announce_admission [d] (SocketAddr (V4 [d, d, 0, 1]) 9444) now ?st2))"
      using locked assms(6) st(1)
      by (simp add: admit_nat_connection_def not_banned_empty [OF st(3)] Let_def)
        (simp add: nat_peer_def base_config_def)
    show "holds_only d now (Some now) (retire_displaced ([b], owned_row b) now
             (announce_admission [d] (SocketAddr (V4 [d, d, 0, 1]) 9444) now ?st2))"
      using assms(2)
      by (auto simp: holds_only_def retire_displaced_def announce_admission_def insert_and_retire_def st
          record_departure_def record_displacement_def record_admission_def publish_def owned_row_def
          remove_from_plumtree_unless_reconnected_def Let_def intro!: fmap_ext split: option.splits)
  qed
qed

lemma one_slot_start:
  "\<exists>st. node_step (base_config 1) 0 1 None (service_new\<lparr>svc_running := True, svc_listen_bound_addr := None\<rparr>, 0, 0)
      (st, 0, 0) \<and> holds_only 1 0 None st"
proof -
  let ?st = "service_new\<lparr>svc_running := True, svc_listen_bound_addr := None\<rparr>"
  obtain r st' where adm: "admit_nat_connection (base_config 1) [] [] 0 (nat_peer 1) Maintained ?st = (r, st')"
    by fastforce
  have ban: "is_peer_id_banned_at [] p now ?st = (False, ?st)" for p now
    using not_banned_empty [of ?st p now] by (simp add: service_new_def)
  have len: "map_len (fmempty :: peer_map) = 0"
    by (simp add: map_len_def fcard_fempty)
  have "eclipse_refusal (base_config 1) (nat_peer 1) ?st = None"
    by (simp add: eclipse_refusal_def nat_peer_def base_config_def outbound_diversity_conflict_def
        any_slot_iff as_lookup_empty service_new_def Let_def)
  then have locked: "admit_locked (base_config 1) [] 0 (nat_peer 1) Maintained ?st
      = (Inr None, insert_and_retire [1] (owned_row 1) ?st)"
    using len by (simp add: admit_locked_def nat_peer_def owned_row_def base_config_def service_new_def Let_def)
  then have eff: "r = Inr \<lparr>adm_peer_id = [1], adm_displaced = None\<rparr>"
    "st' = announce_admission [1] (SocketAddr (V4 [1, 1, 0, 1]) 9444) 0 (insert_and_retire [1] (owned_row 1) ?st)"
    using adm by (auto simp: admit_nat_connection_def ban nat_peer_def base_config_def Let_def)
  have "node_step (base_config 1) 0 1 (case r of Inr a \<Rightarrow> if adm_displaced a = None then None else Some 0 | Inl _ \<Rightarrow> None)
      (?st, 0, 0) (st', 0, 0)"
    by (rule node_step.admit [OF adm]) (simp_all add: service_new_def)
  moreover have "holds_only 1 0 None st'"
    by (auto simp: eff(2) holds_only_def announce_admission_def insert_and_retire_def service_new_def
        PoolState_new_def publish_def record_admission_def Let_def)
  ultimately show ?thesis
    using eff(1) by auto
qed

lemma one_slot_step:
  assumes "node_run (base_config 1) 0 1 log (st, 0, 0)" "holds_only b t prev st" "b \<noteq> d" "d \<noteq> 0"
    and "t + 600 \<le> now" "\<And>u. prev = Some u \<Longrightarrow> u + 600 \<le> now" "now \<le> u64_max"
  shows "\<exists>st'. node_run (base_config 1) 0 1 (log @ [now]) (st', 0, 0) \<and> holds_only d now (Some now) st'"
proof -
  obtain st' where adm: "admit_nat_connection (base_config 1) [] [[b]] now (nat_peer d) Discovered st
      = (Inr \<lparr>adm_peer_id = [d], adm_displaced = Some [b]\<rparr>, st')" "holds_only d now (Some now) st'"
    using one_slot_cycle [OF assms(2,3,5,6,7,4)] by blast
  have "node_step (base_config 1) 0 1 (Some now) (st, 0, 0) (st', 0, 0)"
    using node_step.admit [OF adm(1), of 0 1 0 0] assms(2) by (simp add: holds_only_def)
  then show ?thesis
    using node_run.displaced [OF assms(1)] adm(2) by blast
qed

text \<open>A run that fills the pool of one slot and displaces twice.\<close>

lemma two_displacements: "\<exists>st. node_run (base_config 1) 0 1 [1000, 2000] (st, 0, 0) \<and> holds_only 3 2000 (Some 2000) st"
proof -
  obtain st1 where r1: "node_run (base_config 1) 0 1 [] (st1, 0, 0)" "holds_only 1 0 None st1"
    using one_slot_start node_run.quiet [OF node_run.boot] by blast
  obtain st2 where r2: "node_run (base_config 1) 0 1 [1000] (st2, 0, 0)" "holds_only 2 1000 (Some 1000) st2"
    using one_slot_step [OF r1, of 2 1000] by (auto simp: u64_max_def)
  show ?thesis
    using one_slot_step [OF r2, of 3 2000] by (auto simp: u64_max_def)
qed

theorem displacement_churn_bounded_witness:
  "\<exists>x. node_run (base_config 1) 0 1 [1000, 2000] x \<and> sat_add64 ([1000, 2000] ! 0) 600 \<le> [1000, 2000] ! Suc 0"
proof -
  obtain st where st: "node_run (base_config 1) 0 1 [1000, 2000] (st, 0, 0)"
    using two_displacements by blast
  from displacement_churn_bounded [OF this, of 0]
  have "sat_add64 ([1000, 2000] ! 0) 600 \<le> [1000, 2000] ! Suc 0"
    by (simp add: base_config_def)
  then show ?thesis
    using st by blast
qed

theorem pool_size_bounded_witness:
  "\<exists>st. holds_only 3 2000 (Some 2000) st \<and> map_len (svc_peers st) \<le> 2"
proof -
  obtain st where st: "node_run (base_config 1) 0 1 [1000, 2000] (st, 0, 0)" "holds_only 3 2000 (Some 2000) st"
    using two_displacements by blast
  from pool_size_bounded [OF st(1)] have "map_len (svc_peers st) \<le> 2"
    by (simp add: base_config_def)
  then show ?thesis
    using st(2) by blast
qed

theorem discovered_displacement_witness: "[1 :: u8] \<noteq> nc_peer_id (nat_peer 2)"
proof -
  obtain st where st: "holds_only 1 0 None st"
    using one_slot_start by blast
  obtain st' where "admit_nat_connection (base_config 1) [] [[1]] 1000 (nat_peer 2) Discovered st
      = (Inr \<lparr>adm_peer_id = [2], adm_displaced = Some [1]\<rparr>, st')"
    using one_slot_cycle [OF st, of 2 1000] by (auto simp: u64_max_def)
  from discovered_displacement [OF this, of "[1]"] show ?thesis
    by simp
qed

section \<open>Accepted connections\<close>

lemma one_accept:
  "\<exists>st. node_run (base_config 8) 0 1 [] (st, 0, 0) \<and> svc_peers st = fmupd [5] (NatRow \<lparr>nat_conn = Owned 0,
     nat_sink = None, nat_remote = SocketAddr (V4 [5, 5, 0, 1]) 9444, nat_is_outbound = False,
     nat_relayed = False\<rparr>) fmempty"
proof -
  let ?st = "service_new\<lparr>svc_running := True, svc_listen_bound_addr := None\<rparr>"
  have ban: "is_peer_id_banned_at [] p now ?st = (False, ?st)" for p now
    using not_banned_empty [of ?st p now] by (simp add: service_new_def)
  have len: "map_len (fmempty :: peer_map) = 0" "count_slots P (fmempty :: peer_map) = 0" for P
    by (simp_all add: map_len_def fcard_fempty count_slots_card slot_holds_def)
  have "direct_inbound_refusal (base_config 8) (nat_peer 5) ?st = None"
    using len by (simp add: direct_inbound_refusal_def service_new_def base_config_def inbound_caps Let_def)
  then have "svc_peers (snd (adopt_direct_inbound_handle (base_config 8) [] 0 (nat_peer 5) None ?st))
      = fmupd [5] (NatRow \<lparr>nat_conn = Owned 0, nat_sink = None,
          nat_remote = SocketAddr (V4 [5, 5, 0, 1]) 9444, nat_is_outbound = False, nat_relayed = False\<rparr>) fmempty"
    by (simp add: adopt_direct_inbound_handle_def adopt_inbound_def ban nat_peer_def base_config_def Let_def)
      (simp add: service_new_def)
  then show ?thesis
    using node_run.quiet [OF node_run.boot node_step.accept_direct] by blast
qed

theorem inbound_caps_hold_witness:
  "\<exists>st :: ServiceState. svc_peers st \<noteq> fmempty
      \<and> count_slots (\<lambda>_. is_accepted_inbound) (svc_peers st) \<le> 6"
proof -
  obtain st where st: "node_run (base_config 8) 0 1 [] (st, 0, 0)" "svc_peers st \<noteq> fmempty"
    using one_accept by (metis fmdom_fmupd fmdom_empty finsert_not_fempty)
  from inbound_caps_hold [OF st(1)]
  have "count_slots (\<lambda>_. is_accepted_inbound) (svc_peers st) \<le> 6"
    by (simp add: base_config_def)
  with st(2) show ?thesis
    by blast
qed

lemma adopt_keeps_others:
  assumes "fmlookup (svc_peers st) q = Some s"
    and "\<And>st1. \<lbrakk>svc_peers st1 = svc_peers st; refusal st1 = None\<rbrakk> \<Longrightarrow> q \<noteq> nc_peer_id conn"
  shows "fmlookup (svc_peers (snd (adopt_inbound refusal right wrong cfg bans now conn sink st))) q = Some s"
proof (cases "adopt_inbound refusal right wrong cfg bans now conn sink st")
  case (Pair r st')
  then show ?thesis
  proof (cases rule: adopt_inbound_cases)
    case (taken st1 x)
    then show ?thesis
      using assms(1) assms(2) [of st1] Pair by simp
  qed (use assms Pair in simp)
qed

text \<open>
  An accepted connection never demotes a dialable peer. Adopting an accepted direct or
  relayed connection leaves every slot that has a dial address as it is, the peer's own included.
\<close>

theorem accepted_keeps_dialable:
  assumes "fmlookup (svc_peers st) q = Some s" "dial_addr s \<noteq> None"
  shows "fmlookup (svc_peers (snd (adopt_direct_inbound_handle cfg bans now conn sink st))) q = Some s
    \<and> fmlookup (svc_peers (snd (adopt_relayed_inbound_inner cfg bans now conn sink st))) q = Some s"
  unfolding adopt_direct_inbound_handle_def adopt_relayed_inbound_inner_def
  using assms
  by (auto intro!: adopt_keeps_others
      simp: direct_inbound_refusal_def relayed_inbound_refusal_def dial_addr_def Let_def split: if_splits)

theorem accepted_keeps_dialable_witness:
  "fmlookup (svc_peers (snd (adopt_direct_inbound_handle (base_config 8) [] 5 (nat_peer 7) None one_live))) [7]
     = Some (live_row 8 True 0)"
  by (rule accepted_keeps_dialable [THEN conjunct1]) (simp_all add: one_live_def live_row_def dial_addr_def)

section \<open>What the split handshakes and the listener leave out\<close>

text \<open>
  A ban issued during a handshake is bypassed. The ban is checked before the peer exchange
  or the upgrade; neither insert checks it again, so a peer banned in between is
  connected while it is banned.
\<close>

theorem ban_during_handshake_bypassed:
  assumes "fst (is_peer_id_banned_at bans p now st)"
  shows "fmlookup (svc_peers (listener_insert p addr st)) p \<noteq> None
      \<and> fst (is_peer_id_banned_at bans p now (listener_insert p addr st))"
    and "fst (connect_admit cfg p addr now st) = Inr p \<Longrightarrow>
      fmlookup (svc_peers (snd (connect_admit cfg p addr now st))) p \<noteq> None
      \<and> fst (is_peer_id_banned_at bans p now (snd (connect_admit cfg p addr now st)))"
proof -
  have "svc_banned (listener_insert p addr st) = svc_banned st"
    by (simp add: listener_insert_def next_peer_generation_def Let_def)
  then show "fmlookup (svc_peers (listener_insert p addr st)) p \<noteq> None
      \<and> fst (is_peer_id_banned_at bans p now (listener_insert p addr st))"
    using assms listener_insert_effect(1) [of p addr st] by (auto simp: is_banned_iff)
  assume ok: "fst (connect_admit cfg p addr now st) = Inr p"
  have "svc_banned (snd (connect_admit cfg p addr now st)) = svc_banned st"
    by (simp add: connect_admit_def next_peer_generation_def Let_def split: option.split)
  moreover have "fmlookup (svc_peers (snd (connect_admit cfg p addr now st))) p \<noteq> None"
    using ok by (simp add: connect_admit_def next_peer_generation_def Let_def split: option.splits)
  ultimately show "fmlookup (svc_peers (snd (connect_admit cfg p addr now st))) p \<noteq> None
      \<and> fst (is_peer_id_banned_at bans p now (snd (connect_admit cfg p addr now st)))"
    using assms by (auto simp: is_banned_iff)
qed

definition banned_seven :: ServiceState where
  "banned_seven = service_new\<lparr>svc_banned := fmupd [7] \<lparr>ban_entry_until = 100, ban_entry_ip = V4 [1, 2, 3, 4]\<rparr> fmempty\<rparr>"

theorem ban_during_handshake_bypassed_witness:
  "fmlookup (svc_peers (listener_insert [7] (SocketAddr (V4 [1, 2, 3, 4]) 9) banned_seven)) [7] \<noteq> None"
  using ban_during_handshake_bypassed(1) [of "[]" "[7]" 50 banned_seven]
  by (simp add: is_banned_iff banned_seven_def)

text \<open>
  The listener's insert keeps none of the books every other admission keeps: no Plumtree
  membership, no usefulness record, no event, and no notice to the owner of an observed session it
  supersedes.
\<close>

lemma listener_skips_books:
  "svc_plumtree (listener_insert p addr st) = svc_plumtree st"
  "svc_pool (listener_insert p addr st) = svc_pool st"
  "svc_notices (listener_insert p addr st) = svc_notices st"
proof -
  have "svc_notices (close_live s st) = svc_notices st" for s st
    by (cases "(s, st)" rule: close_live.cases) simp_all
  then show "svc_plumtree (listener_insert p addr st) = svc_plumtree st"
    "svc_pool (listener_insert p addr st) = svc_pool st"
    "svc_notices (listener_insert p addr st) = svc_notices st"
    by (simp_all add: listener_insert_def next_peer_generation_def Let_def)
qed

lemma connect_tells_owner:
  assumes "fmlookup (svc_peers st) p = Some (NatRow n)" "nat_conn n = Observed s"
    and "fst (connect_admit cfg p addr now st) = Inr p"
  shows "s \<in> set (svc_notices (snd (connect_admit cfg p addr now st)))"
  using assms
  by (auto simp: connect_admit_def next_peer_generation_def insert_and_retire_def
      announce_admission_def Let_def split: option.splits)

text \<open>Two dials that both pass the check before either inserts its peer overfill a pool of
  one slot.\<close>

lemma pool_overshoots:
  "\<exists>st. node_run (base_config 1) 2 1 [] (st, 0, 0) \<and> map_len (svc_peers st) = 2"
proof -
  let ?st = "service_new\<lparr>svc_running := True, svc_listen_bound_addr := None\<rparr>"
  let ?a = "\<lambda>b :: u8. SocketAddr (V4 [b, b, 0, 1]) 9444"
  let ?st1 = "snd (connect_admit (base_config 1) [1] (?a 1) 0 ?st)"
  let ?st2 = "snd (connect_admit (base_config 1) [2] (?a 2) 0 ?st1)"
  have len: "map_len (fmempty :: peer_map) = 0"
    by (simp add: map_len_def fcard_fempty)
  have gate: "connect_precheck (base_config 1) (?a b) ?st = None" if "b \<noteq> 0" for b
    using that by (simp add: connect_precheck_def service_new_def dial_targets_local_listen_def base_config_def len)
  have one: "\<exists>s. svc_peers ?st1 = fmupd [1] s fmempty \<and> slot_remote s = ?a 1"
    by (simp add: connect_admit_def next_peer_generation_def outbound_diversity_conflict_def any_slot_iff
        as_lookup_empty base_config_def service_new_def Let_def) (metis LiveSlot.select_convs(1) StubPeer.select_convs(1) slot_remote.simps(2))
  then obtain s where s: "svc_peers ?st1 = fmupd [1] s fmempty" "slot_remote s = ?a 1"
    by blast
  have two: "\<exists>s'. svc_peers ?st2 = fmupd [2] s' (svc_peers ?st1)"
    using owned_groups [of 1 2] s
    by (auto simp: connect_admit_def [of _ "[2]"] next_peer_generation_def outbound_diversity_conflict_def
        any_slot_iff as_lookup_empty base_config_def subnet_group_of_def Let_def split: if_splits)
  have "node_run (base_config 1) 2 1 [] (?st, 2, 0)"
    using node_run.quiet [OF node_run.quiet [OF node_run.boot node_step.dial_begin] node_step.dial_begin]
      gate [of 1] gate [of 2] by (simp add: numeral_2_eq_2)
  then have "node_run (base_config 1) 2 1 [] (?st2, 0, 0)"
    using node_run.quiet [OF node_run.quiet [OF _ node_step.dial_end] node_step.dial_end]
    by (simp add: numeral_2_eq_2)
  moreover have "map_len (svc_peers ?st2) = 2"
    using two s(1) by (auto simp: map_len_upd len)
  ultimately show ?thesis
    by blast
qed

end
