(* ===== verification/Inbound_Gate.thy ===== *)
theory Inbound_Gate
  imports Service_State Broadcaster "HOL-Library.Sublist"
begin

text \<open>
  The inbound admission gate of a connection: the per-opcode limiter
  (\<open>connection/dig_rate_limiter.rs\<close>), its table and the composed gate
  (\<open>connection/inbound_limits.rs\<close>), and one turn of the loop that forwards admitted frames
  (\<open>connection/listener.rs\<close>, \<open>service/gossip_handle.rs\<close>).

  Counts, sizes and bounds are \<open>f64\<close> in the code; here they are the exact rationals. The counts
  and sizes are whole numbers far below \<open>2 ^ 53\<close>, where \<open>f64\<close> is exact; the product with
  the factor is taken without rounding. Chia's limiter is code of another crate and enters as the
  function \<open>chia_allow\<close> on a state of its own. The window is 60 seconds wherever the
  program builds a limiter (a window of 0 would make the division panic).
\<close>

section \<open>The limiter\<close>

record RateLimit =
  frequency :: rat
  max_size :: rat
  max_total_size :: "rat option"

record DigRateLimiter =
  rl_incoming :: bool
  reset_seconds :: nat
  rl_period :: nat
  limit_factor :: rat
  limits :: "u8 \<rightharpoonup> RateLimit"
  counts :: "u8 \<rightharpoonup> rat"
  sizes :: "u8 \<rightharpoonup> rat"

definition current_period :: "nat \<Rightarrow> nat \<Rightarrow> nat" where
  "current_period reset now = now div reset"

definition DigRateLimiter_new ::
    "bool \<Rightarrow> nat \<Rightarrow> rat \<Rightarrow> (u8 \<rightharpoonup> RateLimit) \<Rightarrow> nat \<Rightarrow> DigRateLimiter" where
  "DigRateLimiter_new incoming reset factor table now =
     \<lparr>rl_incoming = incoming, reset_seconds = reset, rl_period = current_period reset now,
      limit_factor = factor, limits = table, counts = Map.empty, sizes = Map.empty\<rparr>"

definition sync_period :: "nat \<Rightarrow> DigRateLimiter \<Rightarrow> DigRateLimiter" where
  "sync_period now l =
     (let period = current_period (reset_seconds l) now
      in if rl_period l \<noteq> period
         then l\<lparr>rl_period := period, counts := Map.empty, sizes := Map.empty\<rparr> else l)"

definition tally :: "(u8 \<rightharpoonup> rat) \<Rightarrow> u8 \<Rightarrow> rat" where
  "tally m ty = (case m ty of Some x \<Rightarrow> x | None \<Rightarrow> 0)"

definition total_bound :: "RateLimit \<Rightarrow> rat" where
  "total_bound row =
     (case max_total_size row of Some t \<Rightarrow> t | None \<Rightarrow> frequency row * max_size row)"

definition dig_check :: "nat \<Rightarrow> u8 \<Rightarrow> u32 \<Rightarrow> DigRateLimiter \<Rightarrow> bool \<times> DigRateLimiter" where
  "dig_check now ty data_len l =
     (let l = sync_period now l in
      case limits l ty of
        None \<Rightarrow> (True, l)
      | Some row \<Rightarrow>
          let size = of_nat (unat data_len);
              new_count = tally (counts l) ty + 1;
              new_cumulative_size = tally (sizes l) ty + size;
              passed = new_count \<le> frequency row * limit_factor l \<and> size \<le> max_size row
                \<and> new_cumulative_size \<le> total_bound row * limit_factor l
          in (passed,
              if rl_incoming l \<or> passed
              then l\<lparr>counts := (counts l)(ty \<mapsto> new_count), sizes := (sizes l)(ty \<mapsto> new_cumulative_size)\<rparr>
              else l))"

section \<open>The table and the gate\<close>

definition RESET_SECONDS :: nat where
  "RESET_SECONDS = 60"

definition DIG_WIRE_BAND_START :: u8 where
  "DIG_WIRE_BAND_START = 220"

definition rate_row :: "rat \<Rightarrow> nat \<Rightarrow> RateLimit" where
  "rate_row f s = \<lparr>frequency = f, max_size = of_nat s, max_total_size = None\<rparr>"

definition dig_extension_rate_limits_map :: "u8 \<rightharpoonup> RateLimit" where
  "dig_extension_rate_limits_map =
     [dig_opcode NewAttestation \<mapsto> rate_row 100 4096,
      dig_opcode NewCheckpointProposal \<mapsto> rate_row 10 8192,
      dig_opcode NewCheckpointSignature \<mapsto> rate_row 100 4096,
      dig_opcode RequestCheckpointSignatures \<mapsto> rate_row 10 1024,
      dig_opcode RespondCheckpointSignatures \<mapsto> rate_row 10 65536,
      dig_opcode RequestStatus \<mapsto> rate_row 10 1024,
      dig_opcode RespondStatus \<mapsto> rate_row 10 8192,
      dig_opcode NewCheckpointSubmission \<mapsto> rate_row 10 65536,
      dig_opcode ValidatorAnnounce \<mapsto> rate_row 10 4096,
      dig_opcode RegisterPeer \<mapsto> rate_row 4 512,
      dig_opcode RegisterAck \<mapsto> rate_row 4 256,
      STORE_MELTED \<mapsto> rate_row 10 STORE_MELTED_ENCODED_LEN,
      HOLDINGS_ANNOUNCE \<mapsto> rate_row 20 MAX_ANNOUNCE_FRAME_BYTES,
      PROFILE_ROOT_ANNOUNCE \<mapsto> rate_row 20 PROFILE_ENCODED_LEN,
      PROFILE_BODY_REQUEST \<mapsto> rate_row 60 PROFILE_ENCODED_LEN,
      PROFILE_BODY \<mapsto> rate_row 60 MAX_PROFILE_BODY_FRAME_BYTES,
      DISTRIBUTOR_ANNOUNCE \<mapsto> rate_row 6 MAX_DISTRIBUTOR_ANNOUNCE_BODY_BYTES]"

record 'c InboundRateLimiter =
  chia_half :: 'c
  dig_half :: DigRateLimiter

definition InboundRateLimiter_new :: "'c \<Rightarrow> rat \<Rightarrow> nat \<Rightarrow> 'c InboundRateLimiter" where
  "InboundRateLimiter_new chia rate_limit_factor now =
     \<lparr>chia_half = chia,
      dig_half = DigRateLimiter_new True RESET_SECONDS rate_limit_factor dig_extension_rate_limits_map now\<rparr>"

definition new_inbound_rate_limiter :: "'c \<Rightarrow> rat \<Rightarrow> nat \<Rightarrow> 'c InboundRateLimiter" where
  "new_inbound_rate_limiter chia rate_limit_factor now = InboundRateLimiter_new chia rate_limit_factor now"

type_synonym 'c chia_limiter = "nat \<Rightarrow> DigMessage \<Rightarrow> 'c \<Rightarrow> bool \<times> 'c"

definition allows ::
    "'c chia_limiter \<Rightarrow> nat \<Rightarrow> DigMessage \<Rightarrow> 'c InboundRateLimiter \<Rightarrow> bool \<times> 'c InboundRateLimiter" where
  "allows chia_allow now msg g =
     (case chia_allow now msg (chia_half g) of
        (False, c) \<Rightarrow> (False, g\<lparr>chia_half := c\<rparr>)
      | (True, c) \<Rightarrow>
          (if DIG_WIRE_BAND_START \<le> msg_type msg
           then (let (ok, l) = dig_check now (msg_type msg) (of_nat (length (data msg))) (dig_half g)
                 in (ok, g\<lparr>chia_half := c, dig_half := l\<rparr>))
           else (True, g\<lparr>chia_half := c\<rparr>)))"

definition is_public_flood_opcode :: "u8 \<Rightarrow> bool" where
  "is_public_flood_opcode ty \<longleftrightarrow>
     ty = STORE_MELTED \<or> ty = HOLDINGS_ANNOUNCE \<or> ty = PROFILE_ROOT_ANNOUNCE \<or> ty = DISTRIBUTOR_ANNOUNCE"

definition exceeds_dig_wire_max_size :: "DigMessage \<Rightarrow> bool" where
  "exceeds_dig_wire_max_size msg =
     (case dig_extension_rate_limits_map (msg_type msg) of
        Some row \<Rightarrow> max_size row < of_nat (length (data msg))
      | None \<Rightarrow> False)"

definition rejected_frame_incurs_penalty :: "DigMessage \<Rightarrow> bool" where
  "rejected_frame_incurs_penalty msg =
     (if is_public_flood_opcode (msg_type msg) then exceeds_dig_wire_max_size msg else True)"

section \<open>The forwarding loop\<close>

text \<open>
  What a turn does besides changing the gate and the service state: the traffic it counts, the
  reply it sends, the frame it publishes to the service, and the ban task it spawns.
\<close>

datatype FwdEvent =
    CountIn peer_id nat | SendReply DigMessage | CountOut peer_id nat | Publish peer_id DigMessage
  | SpawnBan peer_id nat

text \<open>The opcodes of the peer exchange, the wire length of a frame and the encoding of an empty peer
  list belong to the wire crates.\<close>

record wire_env =
  we_request_peers :: u8
  we_respond_peers :: u8
  we_wire_len :: "DigMessage \<Rightarrow> nat"
  we_no_peers :: "bytes option"

definition forward_frame ::
    "wire_env \<Rightarrow> 'c chia_limiter \<Rightarrow> peer_id \<Rightarrow> nat \<Rightarrow> nat \<Rightarrow> DigMessage
      \<Rightarrow> 'c InboundRateLimiter \<times> ServiceState \<Rightarrow> FwdEvent list \<times> 'c InboundRateLimiter \<times> ServiceState" where
  "forward_frame env chia_allow pid generation now msg = (\<lambda>(g, st).
     (let (allowed, g) = allows chia_allow now msg g in
      if \<not> allowed then
        (if rejected_frame_incurs_penalty msg
         then (let (triggered, st) = apply_inbound_rate_limit_violation pid generation now st
               in (if triggered then [SpawnBan pid generation] else [], g, st))
         else ([], g, st))
      else
        (let answer =
           (if msg_type msg = we_request_peers env
            then (case we_no_peers env of
                    Some body \<Rightarrow>
                      (let reply = \<lparr>msg_type = we_respond_peers env, msg_id = msg_id msg, data = body\<rparr>
                       in [SendReply reply, CountOut pid (we_wire_len env reply)])
                  | None \<Rightarrow> [])
            else [])
         in (CountIn pid (we_wire_len env msg) # answer @ [Publish pid msg], g, st))))"

fun forward_loop ::
    "wire_env \<Rightarrow> 'c chia_limiter \<Rightarrow> peer_id \<Rightarrow> nat \<Rightarrow> (nat \<times> DigMessage) list
      \<Rightarrow> 'c InboundRateLimiter \<times> ServiceState \<Rightarrow> FwdEvent list \<times> 'c InboundRateLimiter \<times> ServiceState" where
  "forward_loop env chia_allow pid generation [] s = ([], s)"
| "forward_loop env chia_allow pid generation ((now, msg) # rest) s =
     (let (out, s) = forward_frame env chia_allow pid generation now msg s;
          (outs, s) = forward_loop env chia_allow pid generation rest s
      in (out @ outs, s))"

section \<open>What the limiter counts\<close>

text \<open>
  The reference: an inbound limiter keeps no more than the history of the frames it was asked
  about. A frame passes when the frames of its opcode in its window, itself
  included, are within the row.
\<close>

type_synonym offer = "nat \<times> u8 \<times> u32"

definition in_window :: "nat \<Rightarrow> u8 \<Rightarrow> nat \<Rightarrow> offer list \<Rightarrow> offer list" where
  "in_window w ty reset H = filter (\<lambda>(t, ty', _). t div reset = w \<and> ty' = ty) H"

definition bytes_of :: "offer list \<Rightarrow> rat" where
  "bytes_of H = sum_list (map (\<lambda>(_, _, n). of_nat (unat n)) H)"

definition within_row :: "(u8 \<rightharpoonup> RateLimit) \<Rightarrow> rat \<Rightarrow> nat \<Rightarrow> offer list \<Rightarrow> offer \<Rightarrow> bool" where
  "within_row table factor reset H = (\<lambda>(now, ty, n).
     (case table ty of
        None \<Rightarrow> True
      | Some row \<Rightarrow>
          let A = in_window (now div reset) ty reset (H @ [(now, ty, n)])
          in of_nat (length A) \<le> frequency row * factor \<and> of_nat (unat n) \<le> max_size row
             \<and> bytes_of A \<le> total_bound row * factor))"

definition offer_step :: "DigRateLimiter \<Rightarrow> offer \<Rightarrow> DigRateLimiter" where
  "offer_step l = (\<lambda>(now, ty, n). snd (dig_check now ty n l))"

lemma offer_step_simp [simp]: "offer_step l (now, ty, n) = snd (dig_check now ty n l)"
  by (simp add: offer_step_def)

lemma bytes_of_simps [simp]:
  "bytes_of [] = 0"
  "bytes_of (H @ H') = bytes_of H + bytes_of H'"
  "bytes_of [(t, ty, n)] = of_nat (unat n)"
  by (simp_all add: bytes_of_def)

lemma in_window_simps [simp]:
  "in_window w ty reset [] = []"
  "in_window w ty reset (H @ H') = in_window w ty reset H @ in_window w ty reset H'"
  "in_window w ty reset [(t, ty', n)] = (if t div reset = w \<and> ty' = ty then [(t, ty', n)] else [])"
  by (auto simp: in_window_def)

lemma in_window_later:
  assumes "\<forall>e\<in>set H. fst e div reset < w"
  shows "in_window w ty reset H = []"
  using assms by (auto simp: in_window_def filter_empty_conv)

text \<open>The books of an inbound limiter after the history \<open>H\<close>.\<close>

definition keeps_books :: "(u8 \<rightharpoonup> RateLimit) \<Rightarrow> rat \<Rightarrow> nat \<Rightarrow> offer list \<Rightarrow> DigRateLimiter \<Rightarrow> bool" where
  "keeps_books table factor reset H l \<longleftrightarrow>
     rl_incoming l \<and> reset_seconds l = reset \<and> limit_factor l = factor \<and> limits l = table
     \<and> (\<forall>e\<in>set H. fst e div reset \<le> rl_period l)
     \<and> (\<forall>ty\<in>dom table. tally (counts l) ty = of_nat (length (in_window (rl_period l) ty reset H))
          \<and> tally (sizes l) ty = bytes_of (in_window (rl_period l) ty reset H))"

lemma keeps_books_new:
  "keeps_books table factor reset [] (DigRateLimiter_new True reset factor table now)"
  by (simp add: keeps_books_def DigRateLimiter_new_def tally_def)

lemma sync_period_frame:
  "rl_incoming (sync_period now l) = rl_incoming l" "reset_seconds (sync_period now l) = reset_seconds l"
  "limit_factor (sync_period now l) = limit_factor l" "limits (sync_period now l) = limits l"
  "rl_period (sync_period now l) = now div reset_seconds l"
  by (simp_all add: sync_period_def current_period_def Let_def)

lemma keeps_books_sync:
  assumes "keeps_books table factor reset H l" "rl_period l \<le> now div reset"
  shows "keeps_books table factor reset H (sync_period now l)"
proof (cases "rl_period l = now div reset")
  case True
  then show ?thesis
    using assms(1) by (simp add: keeps_books_def sync_period_def current_period_def)
next
  case False
  then have "in_window (now div reset) ty reset H = []" for ty
    using assms by (intro in_window_later) (force simp: keeps_books_def)
  then show ?thesis
    using assms False
    by (auto simp: keeps_books_def sync_period_def current_period_def tally_def)
qed

lemma dig_check_books:
  assumes "keeps_books table factor reset H l" "rl_period l \<le> now div reset"
  shows "fst (dig_check now ty n l) = within_row table factor reset H (now, ty, n)"
    and "keeps_books table factor reset (H @ [(now, ty, n)]) (snd (dig_check now ty n l))"
    and "rl_period (snd (dig_check now ty n l)) = now div reset"
proof -
  let ?l = "sync_period now l"
  have books: "keeps_books table factor reset H ?l"
    by (rule keeps_books_sync [OF assms])
  have period: "rl_period ?l = now div reset"
    using assms(1) by (simp add: sync_period_frame keeps_books_def)
  show "fst (dig_check now ty n l) = within_row table factor reset H (now, ty, n)"
    using books period
    by (auto simp: dig_check_def within_row_def keeps_books_def Let_def dom_def ac_simps split: option.split)
  show "keeps_books table factor reset (H @ [(now, ty, n)]) (snd (dig_check now ty n l))"
    using books period
    by (auto simp: dig_check_def keeps_books_def Let_def dom_def tally_def split: option.split)
  show "rl_period (snd (dig_check now ty n l)) = now div reset"
    using period by (simp add: dig_check_def Let_def split: option.split)
qed

lemma offers_books:
  assumes "sorted (t0 # map fst H)"
  shows "keeps_books table factor reset H (foldl offer_step (DigRateLimiter_new True reset factor table t0) H)
    \<and> rl_period (foldl offer_step (DigRateLimiter_new True reset factor table t0) H)
        = List.last (t0 # map fst H) div reset"
  using assms
proof (induction H rule: rev_induct)
  case Nil
  then show ?case
    by (simp add: keeps_books_new) (simp add: DigRateLimiter_new_def current_period_def)
next
  case (snoc e H)
  obtain now ty n where e: "e = (now, ty, n)"
    by (cases e)
  let ?l = "foldl offer_step (DigRateLimiter_new True reset factor table t0) H"
  have "sorted (t0 # map fst H)" "List.last (t0 # map fst H) \<le> now"
    using snoc.prems by (auto simp: e sorted_append last_map)
  then have "keeps_books table factor reset H ?l" "rl_period ?l \<le> now div reset"
    using snoc.IH by (simp_all add: div_le_mono)
  then show ?case
    using dig_check_books [of table factor reset H ?l now ty n] by (simp add: e)
qed

lemma limiter_exact:
  assumes "sorted (t0 # map fst H @ [now])"
  shows "fst (dig_check now ty n (foldl offer_step (DigRateLimiter_new True reset factor table t0) H))
      = within_row table factor reset H (now, ty, n)"
proof -
  have "sorted (t0 # map fst H)" "List.last (t0 # map fst H) \<le> now"
    using assms by (auto simp: sorted_append last_map)
  then show ?thesis
    using offers_books [of t0 H table factor reset] dig_check_books(1) by (simp add: div_le_mono)
qed

text \<open>
  The limiter is exactly its specification. While the clock does not run backwards, an inbound
  limiter passes a frame if and only if the frames of its opcode offered in the
  same window, refused ones included, are within the row. Refused frames are
  charged, so junk buys no retries.
\<close>

theorem rate_check_exact:
  assumes "sorted (t0 # map fst H @ [now])"
  shows "fst (dig_check now ty n (foldl offer_step (DigRateLimiter_new True reset factor table t0) H))
      = within_row table factor reset H (now, ty, n)"
  by (rule limiter_exact [OF assms])

theorem rate_check_exact_witness:
  "\<not> fst (dig_check 65 221 100 (foldl offer_step
      (DigRateLimiter_new True 60 (1 / 5) [221 \<mapsto> rate_row 10 164] 60) [(61, 221, 165), (62, 221, 9)]))"
  by (subst rate_check_exact)
    (simp_all add: within_row_def in_window_def bytes_of_def rate_row_def total_bound_def)

section \<open>What the gate lets through\<close>

definition gate_turn ::
    "'c chia_limiter \<Rightarrow> 'c InboundRateLimiter \<times> (nat \<times> DigMessage) list \<Rightarrow> nat \<times> DigMessage
      \<Rightarrow> 'c InboundRateLimiter \<times> (nat \<times> DigMessage) list" where
  "gate_turn chia_allow = (\<lambda>(g, adm) (now, msg).
     (let (ok, g) = allows chia_allow now msg g in (g, if ok then adm @ [(now, msg)] else adm)))"

definition offer_of :: "nat \<times> DigMessage \<Rightarrow> offer" where
  "offer_of = (\<lambda>(now, msg). (now, msg_type msg, of_nat (length (data msg))))"

definition band_offers :: "(nat \<times> DigMessage) list \<Rightarrow> offer list" where
  "band_offers es = map offer_of (filter (\<lambda>(_, msg). DIG_WIRE_BAND_START \<le> msg_type msg) es)"

lemma band_offers_append [simp]: "band_offers (xs @ ys) = band_offers xs @ band_offers ys"
  by (simp add: band_offers_def)

lemma bytes_of_subseq: "subseq A H \<Longrightarrow> bytes_of A \<le> bytes_of H"
  by (induction rule: list_emb.induct)
    (auto simp: bytes_of_def add_increasing intro!: sum_list_nonneg simp del: of_nat_unat)

lemma in_window_subseq: "subseq A H \<Longrightarrow> subseq (in_window w ty reset A) (in_window w ty reset H)"
  by (simp add: in_window_def)

definition row_bounds :: "(u8 \<rightharpoonup> RateLimit) \<Rightarrow> rat \<Rightarrow> offer list \<Rightarrow> bool" where
  "row_bounds table factor adm \<longleftrightarrow>
     (\<forall>w ty row. table ty = Some row \<longrightarrow> in_window w ty RESET_SECONDS adm \<noteq> [] \<longrightarrow>
        of_nat (length (in_window w ty RESET_SECONDS adm)) \<le> frequency row * factor
        \<and> bytes_of (in_window w ty RESET_SECONDS adm) \<le> total_bound row * factor)
     \<and> (\<forall>e\<in>set adm. \<forall>row. table (fst (snd e)) = Some row \<longrightarrow> of_nat (unat (snd (snd e))) \<le> max_size row)"

lemma row_bounds_admit:
  assumes "row_bounds table factor adm" "subseq adm H" "within_row table factor RESET_SECONDS H (now, ty, n)"
  shows "row_bounds table factor (adm @ [(now, ty, n)])"
proof -
  have sub: "subseq (in_window w ty' RESET_SECONDS adm) (in_window w ty' RESET_SECONDS H)" for w ty'
    by (rule in_window_subseq [OF assms(2)])
  have "length (in_window w ty' RESET_SECONDS adm) \<le> length (in_window w ty' RESET_SECONDS H)"
    "bytes_of (in_window w ty' RESET_SECONDS adm) \<le> bytes_of (in_window w ty' RESET_SECONDS H)" for w ty'
    using list_emb_length [OF sub] bytes_of_subseq [OF sub] by auto
  then have "Suc (length (in_window (now div RESET_SECONDS) ty RESET_SECONDS adm))
        \<le> length (in_window (now div RESET_SECONDS) ty RESET_SECONDS (H @ [(now, ty, n)]))"
    "bytes_of (in_window (now div RESET_SECONDS) ty RESET_SECONDS adm) + of_nat (unat n)
        \<le> bytes_of (in_window (now div RESET_SECONDS) ty RESET_SECONDS (H @ [(now, ty, n)]))"
    by simp_all
  then have "table ty = Some row \<Longrightarrow>
      of_nat (Suc (length (in_window (now div RESET_SECONDS) ty RESET_SECONDS adm))) \<le> frequency row * factor
      \<and> bytes_of (in_window (now div RESET_SECONDS) ty RESET_SECONDS adm) + of_nat (unat n)
          \<le> total_bound row * factor" for row
    using assms(3) unfolding within_row_def Let_def prod.case
    by (auto intro: order_trans [OF of_nat_mono] order_trans)
  then show ?thesis
    using assms(1,3) by (auto simp: row_bounds_def within_row_def Let_def)
qed

lemma sorted_snoc:
  fixes y :: "'a :: linorder"
  shows "\<lbrakk>sorted (x # xs); List.last (x # xs) \<le> y\<rbrakk> \<Longrightarrow> sorted (x # xs @ [y])"
  by (induction xs arbitrary: x) (auto split: if_splits)

lemma gate_turns_bounded:
  assumes "sorted (t0 # map fst es)"
    and "foldl (gate_turn chia_allow) (InboundRateLimiter_new chia factor t0, []) es = (g, adm)"
  shows "\<exists>H. dig_half g = foldl offer_step
        (DigRateLimiter_new True RESET_SECONDS factor dig_extension_rate_limits_map t0) H
      \<and> sorted (t0 # map fst H) \<and> List.last (t0 # map fst H) \<le> List.last (t0 # map fst es)
      \<and> subseq (band_offers adm) H \<and> row_bounds dig_extension_rate_limits_map factor (band_offers adm)"
  using assms
proof (induction es arbitrary: g adm rule: rev_induct)
  case Nil
  then show ?case
    by (intro exI [of _ "[]"])
      (auto simp: InboundRateLimiter_new_def band_offers_def row_bounds_def)
next
  case (snoc e es)
  let ?new = "DigRateLimiter_new True RESET_SECONDS factor dig_extension_rate_limits_map t0"
  obtain now msg where e: "e = (now, msg)"
    by (cases e)
  obtain g1 adm1 where before: "foldl (gate_turn chia_allow) (InboundRateLimiter_new chia factor t0, []) es = (g1, adm1)"
    by fastforce
  have times: "sorted (t0 # map fst es)" "List.last (t0 # map fst es) \<le> now"
    using snoc.prems(1) by (auto simp: e sorted_append last_map)
  obtain H where H: "dig_half g1 = foldl offer_step ?new H" "sorted (t0 # map fst H)"
    "List.last (t0 # map fst H) \<le> List.last (t0 # map fst es)"
    "subseq (band_offers adm1) H" "row_bounds dig_extension_rate_limits_map factor (band_offers adm1)"
    using snoc.IH [OF times(1) before] by blast
  have later: "sorted (t0 # map fst H @ [now])"
    by (rule sorted_snoc [OF H(2) order_trans [OF H(3) times(2)]])
  obtain ok where turn: "allows chia_allow now msg g1 = (ok, g)" "adm = (if ok then adm1 @ [(now, msg)] else adm1)"
    using snoc.prems(2) before by (auto simp: e gate_turn_def split: prod.splits)
  let ?e = "(now, msg_type msg, of_nat (length (data msg))) :: offer"
  show ?case
  proof (cases "fst (chia_allow now msg (chia_half g1)) \<and> DIG_WIRE_BAND_START \<le> msg_type msg")
    case True
    then have dig: "ok = fst (dig_check now (msg_type msg) (of_nat (length (data msg))) (dig_half g1))"
      "dig_half g = offer_step (dig_half g1) ?e"
      using turn(1) by (auto simp: allows_def Let_def split: prod.splits bool.splits)
    have pass: "ok = within_row dig_extension_rate_limits_map factor RESET_SECONDS H ?e"
      unfolding dig(1) H(1) by (rule limiter_exact [OF later])
    have "band_offers adm = (if ok then band_offers adm1 @ [?e] else band_offers adm1)"
      using True turn(2) by (simp add: band_offers_def offer_of_def)
    then have "row_bounds dig_extension_rate_limits_map factor (band_offers adm)"
      "subseq (band_offers adm) (H @ [?e])"
      using H(4,5) pass row_bounds_admit [OF H(5,4)] by (auto intro: list_emb_append_mono)
    then show ?thesis
      using dig(2) H(1) later times(2)
      by (intro exI [of _ "H @ [?e]"]) (auto simp: e)
  next
    case False
    then have "dig_half g = dig_half g1" "band_offers adm = band_offers adm1"
      using turn by (auto simp: allows_def band_offers_def Let_def split: prod.splits bool.splits if_splits)
    then show ?thesis
      using H times(2) by (intro exI [of _ H]) (auto simp: e)
  qed
qed

definition admitted :: "'c chia_limiter \<Rightarrow> 'c \<Rightarrow> rat \<Rightarrow> nat \<Rightarrow> (nat \<times> DigMessage) list \<Rightarrow> (nat \<times> DigMessage) list" where
  "admitted chia_allow chia factor t0 es =
     snd (foldl (gate_turn chia_allow) (InboundRateLimiter_new chia factor t0, []) es)"

definition in_minute :: "nat \<Rightarrow> u8 \<Rightarrow> (nat \<times> DigMessage) list \<Rightarrow> (nat \<times> DigMessage) list" where
  "in_minute w ty es = filter (\<lambda>(t, msg). t div RESET_SECONDS = w \<and> msg_type msg = ty) es"

lemma in_minute_offers:
  assumes "DIG_WIRE_BAND_START \<le> ty"
  shows "in_window w ty RESET_SECONDS (band_offers es) = map offer_of (in_minute w ty es)"
  using assms
  by (induction es) (auto simp: in_window_def in_minute_def band_offers_def offer_of_def)

lemma band_rows:
  "dig_extension_rate_limits_map STORE_MELTED = Some (rate_row 10 STORE_MELTED_ENCODED_LEN)"
  "dig_extension_rate_limits_map HOLDINGS_ANNOUNCE = Some (rate_row 20 MAX_ANNOUNCE_FRAME_BYTES)"
  "dig_extension_rate_limits_map PROFILE_ROOT_ANNOUNCE = Some (rate_row 20 PROFILE_ENCODED_LEN)"
  "dig_extension_rate_limits_map PROFILE_BODY_REQUEST = Some (rate_row 60 PROFILE_ENCODED_LEN)"
  "dig_extension_rate_limits_map PROFILE_BODY = Some (rate_row 60 MAX_PROFILE_BODY_FRAME_BYTES)"
  "dig_extension_rate_limits_map DISTRIBUTOR_ANNOUNCE
     = Some (rate_row 6 MAX_DISTRIBUTOR_ANNOUNCE_BODY_BYTES)"
  by (simp_all add: dig_extension_rate_limits_map_def band_opcodes)

definition all_rows :: "(RateLimit \<Rightarrow> bool) \<Rightarrow> (u8 \<rightharpoonup> RateLimit) \<Rightarrow> bool" where
  "all_rows P m \<longleftrightarrow> (\<forall>ty row. m ty = Some row \<longrightarrow> P row)"

lemma all_rows_upd: "\<lbrakk>P row; all_rows P m\<rbrakk> \<Longrightarrow> all_rows P (m(ty \<mapsto> row))"
  by (simp add: all_rows_def)

lemma all_rows_empty: "all_rows P Map.empty"
  by (simp add: all_rows_def)

lemma rows_positive:
  assumes "dig_extension_rate_limits_map ty = Some row"
  shows "0 < frequency row"
proof -
  have "all_rows (\<lambda>row. 0 < frequency row) dig_extension_rate_limits_map"
    unfolding dig_extension_rate_limits_map_def
    by (intro all_rows_upd all_rows_empty) (simp_all add: rate_row_def)
  then show ?thesis
    using assms by (simp add: all_rows_def)
qed

text \<open>
  C13: a connection cannot flood an opcode of the band. Whatever Chia's limiter does and whatever is
  offered, while the clock does not run backwards, the gate lets through at most the row's frequency
  times the factor of an opcode's frames in a minute, none of them longer than the row allows.
\<close>

theorem flood_bounded:
  assumes "sorted (t0 # map fst es)" "0 \<le> factor"
    and "DIG_WIRE_BAND_START \<le> ty" "dig_extension_rate_limits_map ty = Some row"
  shows "of_nat (length (in_minute w ty (admitted chia_allow chia factor t0 es))) \<le> frequency row * factor
    \<and> ((t, msg) \<in> set (admitted chia_allow chia factor t0 es) \<longrightarrow> msg_type msg = ty \<longrightarrow> length (data msg) < 2 ^ 32
          \<longrightarrow> of_nat (length (data msg)) \<le> max_size row)"
proof (intro conjI impI)
  obtain g where run: "foldl (gate_turn chia_allow) (InboundRateLimiter_new chia factor t0, []) es
      = (g, admitted chia_allow chia factor t0 es)"
    by (metis admitted_def surjective_pairing)
  have bounds: "row_bounds dig_extension_rate_limits_map factor
      (band_offers (admitted chia_allow chia factor t0 es))"
    using gate_turns_bounded [OF assms(1) run] by blast
  show "of_nat (length (in_minute w ty (admitted chia_allow chia factor t0 es))) \<le> frequency row * factor"
  proof (cases "in_minute w ty (admitted chia_allow chia factor t0 es) = []")
    case True
    then show ?thesis
      using rows_positive [OF assms(4)] assms(2) by simp
  next
    case False
    then show ?thesis
      using bounds [unfolded row_bounds_def, THEN conjunct1, rule_format, OF assms(4), of w]
        in_minute_offers [OF assms(3), of w "admitted chia_allow chia factor t0 es"]
      by simp
  qed
  assume m: "(t, msg) \<in> set (admitted chia_allow chia factor t0 es)" "msg_type msg = ty"
    "length (data msg) < 2 ^ 32"
  then have "offer_of (t, msg) \<in> set (band_offers (admitted chia_allow chia factor t0 es))"
    using assms(3) by (force simp: band_offers_def)
  then have "of_nat (unat (of_nat (length (data msg)) :: u32)) \<le> max_size row"
    using bounds assms(4) m(2) by (auto simp: row_bounds_def offer_of_def simp del: of_nat_unat)
  then show "of_nat (length (data msg)) \<le> max_size row"
    using m(3) by (simp add: unat_of_nat del: of_nat_unat)
qed

theorem flood_bounded_witness:
  "length (in_minute 1 STORE_MELTED (admitted (\<lambda>_ _ c. (True, c)) () 1 60
      (replicate 15 (70, \<lparr>msg_type = STORE_MELTED, msg_id = None, data = [1, 2]\<rparr>)))) \<le> 10"
proof -
  have "sorted (60 # map fst (replicate 15 (70 :: nat, \<lparr>msg_type = STORE_MELTED, msg_id = None, data = [1, 2]\<rparr>)))"
    by simp
  from flood_bounded [OF this _ _ band_rows(1), of 1 1 "\<lambda>_ _ c. (True, c)" "()"] show ?thesis
    by (simp add: rate_row_def DIG_WIRE_BAND_START_def band_opcodes)
qed

section \<open>Who is penalised\<close>

lemma exempt_iff:
  assumes "is_public_flood_opcode (msg_type msg)"
  shows "rejected_frame_incurs_penalty msg \<longleftrightarrow> exceeds_dig_wire_max_size msg"
  using assms by (simp add: rejected_frame_incurs_penalty_def)

lemma exceeds_row:
  assumes "dig_extension_rate_limits_map (msg_type msg) = Some (rate_row f n)"
  shows "exceeds_dig_wire_max_size msg \<longleftrightarrow> n < length (data msg)"
  using assms by (simp add: exceeds_dig_wire_max_size_def rate_row_def)

lemma store_melted_lift_size:
  "store_melted_payload msg \<noteq> None \<Longrightarrow>
     is_public_flood_opcode (msg_type msg) \<and> \<not> exceeds_dig_wire_max_size msg"
  by (auto simp: store_melted_payload_def is_store_melted_def is_public_flood_opcode_def band_rows
      exceeds_row store_melted_decode_def split: if_splits)

lemma profile_root_lift_size:
  "profile_root_announce_payload msg \<noteq> None \<Longrightarrow>
     is_public_flood_opcode (msg_type msg) \<and> \<not> exceeds_dig_wire_max_size msg"
  by (auto simp: profile_root_announce_payload_def is_profile_root_announce_def is_public_flood_opcode_def
      band_rows exceeds_row root_ref_decode_def split: if_splits)

lemma distributor_encode_size:
  "wf_distributor a \<Longrightarrow> length (distributor_encode a) \<le> MAX_DISTRIBUTOR_ANNOUNCE_BODY_BYTES"
proof -
  assume wf: "wf_distributor a"
  have "length (concat ls) = 32 * length ls" if "list_all (\<lambda>l. length l = 32) ls" for ls :: "bytes list"
    using that by (induction ls) simp_all
  then show ?thesis
    using wf by (auto simp: wf_distributor_def distributor_encode_def MAX_DISTRIBUTOR_ANNOUNCE_BODY_BYTES_def)
qed

lemma distributor_lift_size:
  "distributor_announce_payload msg \<noteq> None \<Longrightarrow>
     is_public_flood_opcode (msg_type msg) \<and> \<not> exceeds_dig_wire_max_size msg"
  using distributor_encode_size
  by (fastforce simp: distributor_announce_payload_def is_distributor_announce_def is_public_flood_opcode_def
      band_rows exceeds_row distributor_decode_iff not_less split: if_splits)

lemma holdings_lift_size:
  "\<lbrakk>holdings_announce_payload msg = Some a; verify_holdings_announce env a = Inr ()\<rbrakk> \<Longrightarrow>
     is_public_flood_opcode (msg_type msg) \<and> \<not> exceeds_dig_wire_max_size msg"
  by (auto simp: holdings_announce_payload_def is_holdings_announce_def is_public_flood_opcode_def
      band_rows exceeds_row holdings_decode_iff verify_ok_iff not_less split: if_splits)

text \<open>
  An honest relayer is never penalised. A frame whose lift accepts it as a store-melted,
  profile-root or distributor announcement, or as a holdings announcement that verifies, is within
  its row's size, so even when the gate refuses it, for rate, the connection is not charged.
\<close>

theorem relayed_announcement_exempt:
  "store_melted_payload msg \<noteq> None \<Longrightarrow> \<not> rejected_frame_incurs_penalty msg"
  "profile_root_announce_payload msg \<noteq> None \<Longrightarrow> \<not> rejected_frame_incurs_penalty msg"
  "distributor_announce_payload msg \<noteq> None \<Longrightarrow> \<not> rejected_frame_incurs_penalty msg"
  "\<lbrakk>holdings_announce_payload msg = Some a; verify_holdings_announce env a = Inr ()\<rbrakk>
     \<Longrightarrow> \<not> rejected_frame_incurs_penalty msg"
  using store_melted_lift_size [of msg] profile_root_lift_size [of msg] distributor_lift_size [of msg]
    holdings_lift_size [of msg a env]
  by (auto simp: exempt_iff)

theorem relayed_announcement_exempt_witness:
  "\<not> rejected_frame_incurs_penalty \<lparr>msg_type = STORE_MELTED, msg_id = None, data = replicate 164 7\<rparr>"
  by (rule relayed_announcement_exempt(1))
    (simp add: store_melted_payload_def is_store_melted_def store_melted_decode_def STORE_MELTED_ENCODED_LEN_def)

lemma forward_flood_frame:
  assumes "is_public_flood_opcode (msg_type msg)" "\<not> exceeds_dig_wire_max_size msg"
    and "forward_frame env chia_allow pid generation now msg (g, st) = (out, g', st')"
  shows "st' = st \<and> SpawnBan p n \<notin> set out"
  using assms
  by (auto simp: forward_frame_def rejected_frame_incurs_penalty_def Let_def
      split: prod.splits if_splits option.splits)

text \<open>
  Relaying floods cannot get a peer banned. However many public-flood frames within their size
  a connection delivers, at whatever rate, its forwarder changes nothing in the service state: no
  penalty point, no ban.
\<close>

theorem flood_relayer_not_charged:
  assumes "\<forall>(now, msg)\<in>set es. is_public_flood_opcode (msg_type msg) \<and> \<not> exceeds_dig_wire_max_size msg"
    and "forward_loop env chia_allow pid generation es (g, st) = (out, g', st')"
  shows "st' = st \<and> SpawnBan p n \<notin> set out"
  using assms
proof (induction es arbitrary: g st out)
  case (Cons e es)
  obtain now msg where e: "e = (now, msg)"
    by (cases e)
  obtain out1 g1 st1 where turn: "forward_frame env chia_allow pid generation now msg (g, st) = (out1, g1, st1)"
    by (rule prod_cases3)
  then have "st1 = st" "SpawnBan p n \<notin> set out1"
    using forward_flood_frame [OF _ _ turn] Cons.prems(1) by (auto simp: e)
  then show ?case
    using Cons turn by (auto simp: e split: prod.splits)
qed simp

definition live_seven :: ServiceState where
  "live_seven = service_new\<lparr>svc_peers := fmupd [7] (LiveRow
     \<lparr>live_meta = \<lparr>sp_remote = SocketAddr (V4 [7, 7, 0, 1]) 9444, sp_is_outbound = False\<rparr>,
      live_reputation = reputation_default, live_generation = 1\<rparr>) fmempty\<rparr>"

theorem flood_relayer_not_charged_witness:
  "snd (snd (forward_loop \<lparr>we_request_peers = 43, we_respond_peers = 44, we_wire_len = \<lambda>m. 1, we_no_peers = None\<rparr>
       (\<lambda>_ _ c. (False, c)) [7] 1 (replicate 3 (70, \<lparr>msg_type = STORE_MELTED, msg_id = None, data = [1]\<rparr>))
       (InboundRateLimiter_new () 1 60, live_seven))) = live_seven"
proof -
  let ?env = "\<lparr>we_request_peers = 43, we_respond_peers = 44, we_wire_len = \<lambda>m. 1, we_no_peers = None\<rparr>"
  let ?es = "replicate 3 (70 :: nat, \<lparr>msg_type = STORE_MELTED, msg_id = None, data = [1]\<rparr>)"
  obtain out g' st' where run: "forward_loop ?env (\<lambda>_ _ c. (False, c)) [7] 1 ?es
      (InboundRateLimiter_new () 1 60, live_seven) = (out, g', st')"
    by (rule prod_cases3)
  have "\<forall>(now, msg)\<in>set ?es. is_public_flood_opcode (msg_type msg) \<and> \<not> exceeds_dig_wire_max_size msg"
    by (simp add: is_public_flood_opcode_def exceeds_dig_wire_max_size_def band_rows rate_row_def
        STORE_MELTED_ENCODED_LEN_def)
  from flood_relayer_not_charged [OF this run, of "[7]" 1] show ?thesis
    using run by simp
qed

text \<open>An oversized flood frame is refused by every gate the program builds and charged to the session
  that delivered it.\<close>

lemma oversized_refused:
  assumes "limits (dig_half g) = dig_extension_rate_limits_map"
    and "is_public_flood_opcode (msg_type msg)" "exceeds_dig_wire_max_size msg" "length (data msg) < 2 ^ 32"
  shows "\<not> fst (allows chia_allow now msg g)"
proof -
  have band: "DIG_WIRE_BAND_START \<le> msg_type msg"
    using assms(2) by (auto simp: is_public_flood_opcode_def DIG_WIRE_BAND_START_def band_opcodes)
  obtain row where "dig_extension_rate_limits_map (msg_type msg) = Some row"
    "max_size row < of_nat (length (data msg))"
    using assms(3) by (auto simp: exceeds_dig_wire_max_size_def split: option.splits)
  then have "\<not> fst (dig_check now (msg_type msg) (of_nat (length (data msg))) (dig_half g))"
    using assms(1,4)
    by (simp add: dig_check_def sync_period_frame Let_def unat_of_nat del: of_nat_unat)
  then show ?thesis
    using band by (auto simp: allows_def Let_def split: prod.splits bool.splits)
qed

lemma oversized_charged:
  assumes "limits (dig_half g) = dig_extension_rate_limits_map"
    and "is_public_flood_opcode (msg_type msg)" "exceeds_dig_wire_max_size msg" "length (data msg) < 2 ^ 32"
    and "fmlookup (svc_peers st) pid = Some (LiveRow live)" "live_generation live = generation"
  shows "snd (snd (forward_frame env chia_allow pid generation now msg (g, st)))
      = set_reputation pid live (snd (apply_penalty RateLimitExceeded now (live_reputation live))) st"
  using oversized_refused [OF assms(1-4), of chia_allow now] assms(2,3,5,6)
  by (auto simp: forward_frame_def rejected_frame_incurs_penalty_def apply_inbound_rate_limit_violation_def
      Let_def split: prod.split)

end
