(* ===== verification/Handshake.thy ===== *)
theory Handshake
  imports Broadcaster Ip_Group
begin

text \<open>
  The handshake of a session: validation of the remote \<open>Handshake\<close>
  (\<open>connection/handshake.rs\<close>), the dialling side of the exchange
  (\<open>connection/outbound.rs\<close>) and the classification of its failures
  (\<open>connection/dial_error.rs\<close>).

  A \<open>String\<close> is a list of code points; \<open>len()\<close> is its length in UTF-8. The
  Unicode general category (a crate's table) and the decoding of a Chia frame are parameters; white
  space and the parsing of integers are those of the Rust standard library.
\<close>

section \<open>Strings\<close>

type_synonym ustring = "nat list"

definition ustr :: "string \<Rightarrow> ustring" where
  "ustr s = map of_char s"

definition utf8_width :: "nat \<Rightarrow> nat" where
  "utf8_width c = (if c < 0x80 then 1 else if c < 0x800 then 2 else if c < 0x10000 then 3 else 4)"

definition utf8_len :: "ustring \<Rightarrow> nat" where
  "utf8_len s = sum_list (map utf8_width s)"

definition is_white_space :: "nat \<Rightarrow> bool" where
  "is_white_space c \<longleftrightarrow> (9 \<le> c \<and> c \<le> 13) \<or> c = 0x20 \<or> c = 0x85 \<or> c = 0xA0 \<or> c = 0x1680
     \<or> (0x2000 \<le> c \<and> c \<le> 0x200A) \<or> c = 0x2028 \<or> c = 0x2029 \<or> c = 0x202F \<or> c = 0x205F \<or> c = 0x3000"

definition trim :: "ustring \<Rightarrow> ustring" where
  "trim s = rev (dropWhile is_white_space (rev (dropWhile is_white_space s)))"

fun split_on :: "nat \<Rightarrow> ustring \<Rightarrow> ustring list" where
  "split_on d [] = [[]]"
| "split_on d (c # s) =
     (if c = d then [] # split_on d s
      else case split_on d s of part # rest \<Rightarrow> (c # part) # rest | [] \<Rightarrow> [[c]])"

text \<open>The \<open>u32\<close> instance of \<open>str::parse\<close>: an optional plus sign, then one or more
  digits whose value fits.\<close>

definition push_digit :: "nat option \<Rightarrow> nat \<Rightarrow> nat option" where
  "push_digit acc c =
     (case acc of None \<Rightarrow> None
      | Some n \<Rightarrow> if 48 \<le> c \<and> c \<le> 57 \<and> n * 10 + (c - 48) \<le> u32_max then Some (n * 10 + (c - 48)) else None)"

definition parse_digits :: "ustring \<Rightarrow> nat option" where
  "parse_digits s = (if s = [] then None else foldl push_digit (Some 0) s)"

definition parse_u32 :: "ustring \<Rightarrow> nat option" where
  "parse_u32 s = (case s of [] \<Rightarrow> None | c # rest \<Rightarrow> if c = 43 then parse_digits rest else parse_digits s)"

section \<open>The role bridge\<close>

datatype ChiaNodeType = CFullNode | CHarvester | CFarmer | CTimelord | CIntroducer | CWallet | CDataLayer
datatype DigNodeType = FullNode | Harvester | Farmer | Timelord | Introducer | Wallet | DataLayer

fun dig_node_type_of :: "ChiaNodeType \<Rightarrow> DigNodeType" where
  "dig_node_type_of CFullNode = FullNode"
| "dig_node_type_of CHarvester = Harvester"
| "dig_node_type_of CFarmer = Farmer"
| "dig_node_type_of CTimelord = Timelord"
| "dig_node_type_of CIntroducer = Introducer"
| "dig_node_type_of CWallet = Wallet"
| "dig_node_type_of CDataLayer = DataLayer"

fun chia_node_type_of :: "DigNodeType \<Rightarrow> ChiaNodeType" where
  "chia_node_type_of FullNode = CFullNode"
| "chia_node_type_of Harvester = CHarvester"
| "chia_node_type_of Farmer = CFarmer"
| "chia_node_type_of Timelord = CTimelord"
| "chia_node_type_of Introducer = CIntroducer"
| "chia_node_type_of Wallet = CWallet"
| "chia_node_type_of DataLayer = CDataLayer"

lemma role_bridge:
  "dig_node_type_of (chia_node_type_of r) = r" "chia_node_type_of (dig_node_type_of c) = c"
  by (cases r; simp) (cases c; simp)

section \<open>Validation\<close>

record Handshake =
  network_id :: ustring
  protocol_version :: ustring
  software_version :: ustring
  server_port :: u16
  hs_node_type :: ChiaNodeType
  capabilities :: "(nat \<times> ustring) list"

definition MAX_SOFTWARE_VERSION_BYTES :: nat where "MAX_SOFTWARE_VERSION_BYTES = 128"
definition MIN_COMPATIBLE_PROTOCOL_VERSION :: ustring where
  "MIN_COMPATIBLE_PROTOCOL_VERSION = ustr ''0.0.30''"
definition ADVERTISED_PROTOCOL_VERSION :: ustring where
  "ADVERTISED_PROTOCOL_VERSION = ustr ''0.0.37''"

datatype GeneralCategory = Control | Format | OtherCategory

definition sanitize_software_version :: "(nat \<Rightarrow> GeneralCategory) \<Rightarrow> ustring \<Rightarrow> ustring" where
  "sanitize_software_version cat v = filter (\<lambda>c. cat c \<noteq> Control \<and> cat c \<noteq> Format) v"

definition parse_segment :: "ustring list \<Rightarrow> nat \<Rightarrow> nat option" where
  "parse_segment parts i = (if i < length parts then parse_u32 (parts ! i) else Some 0)"

definition parse_protocol_triple :: "ustring \<Rightarrow> (nat \<times> nat \<times> nat) option" where
  "parse_protocol_triple version =
     (let v = trim version in
      if v = [] then None
      else let parts = split_on 46 v in
        do { a \<leftarrow> parse_u32 (hd parts);
             b \<leftarrow> parse_segment parts 1;
             c \<leftarrow> parse_segment parts 2;
             Some (a, b, c) })"

definition triple_le :: "nat \<times> nat \<times> nat \<Rightarrow> nat \<times> nat \<times> nat \<Rightarrow> bool" where
  "triple_le x y \<longleftrightarrow>
     (case (x, y) of ((a, b, c), (a', b', c')) \<Rightarrow>
        a < a' \<or> (a = a' \<and> (b < b' \<or> (b = b' \<and> c \<le> c'))))"

definition is_compatible_protocol_version :: "ustring \<Rightarrow> bool" where
  "is_compatible_protocol_version version =
     (case parse_protocol_triple version of None \<Rightarrow> False
      | Some peer \<Rightarrow>
          (case parse_protocol_triple MIN_COMPATIBLE_PROTOCOL_VERSION of None \<Rightarrow> False
           | Some low \<Rightarrow> triple_le low peer))"

datatype HandshakeValidationError =
    NetworkIdMismatch ustring ustring
  | IncompatibleProtocolVersion ustring
  | EmptyNetworkId
  | EmptyProtocolVersion
  | SoftwareVersionTooLong nat nat

definition validate_remote_handshake ::
    "(nat \<Rightarrow> GeneralCategory) \<Rightarrow> Handshake \<Rightarrow> ustring \<Rightarrow> HandshakeValidationError + ustring" where
  "validate_remote_handshake cat theirs expected =
     (if network_id theirs = [] then Inl EmptyNetworkId
      else if trim (protocol_version theirs) = [] then Inl EmptyProtocolVersion
      else if network_id theirs \<noteq> expected then Inl (NetworkIdMismatch expected (network_id theirs))
      else if \<not> is_compatible_protocol_version (protocol_version theirs)
      then Inl (IncompatibleProtocolVersion (protocol_version theirs))
      else let sanitized = sanitize_software_version cat (software_version theirs) in
        if MAX_SOFTWARE_VERSION_BYTES < utf8_len sanitized
        then Inl (SoftwareVersionTooLong (utf8_len sanitized) MAX_SOFTWARE_VERSION_BYTES)
        else Inr sanitized)"

section \<open>The dialling side\<close>

text \<open>What the exchange depends on outside the crate: the Chia opcodes and the frame codec. The
  message of an error is kept as the value it is made from.\<close>

record frame_env =
  fe_handshake :: u8
  fe_chia_opcode :: "u8 \<Rightarrow> bool"
  fe_decode_handshake :: "bytes \<Rightarrow> Handshake option"
  fe_category :: "nat \<Rightarrow> GeneralCategory"

datatype ClientError =
    MissingHandshake
  | WrongNetwork ustring ustring
  | WrongNodeType ChiaNodeType ChiaNodeType
  | InvalidResponse u8 u8
  | ClientIo HandshakeValidationError

datatype DialError = DialClient ClientError | DialLink | UnknownOpcode u8

datatype DialVerdict = ClientErrorV ClientError | LinkErrorV | UnknownHandshakeOpcode u8

fun client_error_of :: "HandshakeValidationError \<Rightarrow> ClientError" where
  "client_error_of (NetworkIdMismatch expected actual) = WrongNetwork expected actual"
| "client_error_of (IncompatibleProtocolVersion v) = ClientIo (IncompatibleProtocolVersion v)"
| "client_error_of EmptyNetworkId = ClientIo EmptyNetworkId"
| "client_error_of EmptyProtocolVersion = ClientIo EmptyProtocolVersion"
| "client_error_of (SoftwareVersionTooLong n m) = ClientIo (SoftwareVersionTooLong n m)"

definition dial_error_of :: "HandshakeValidationError \<Rightarrow> DialError" where
  "dial_error_of e = DialClient (client_error_of e)"

definition non_handshake_first_frame :: "frame_env \<Rightarrow> u8 \<Rightarrow> DialError" where
  "non_handshake_first_frame env opcode =
     (if fe_chia_opcode env opcode then DialClient (InvalidResponse (fe_handshake env) opcode)
      else UnknownOpcode opcode)"

fun gossip_error_of :: "DialError \<Rightarrow> DialVerdict" where
  "gossip_error_of (DialClient e) = ClientErrorV e"
| "gossip_error_of DialLink = LinkErrorV"
| "gossip_error_of (UnknownOpcode op) = UnknownHandshakeOpcode op"

definition outbound_hello :: "ustring \<Rightarrow> ustring \<Rightarrow> Handshake" where
  "outbound_hello net sv =
     \<lparr>network_id = net, protocol_version = ADVERTISED_PROTOCOL_VERSION, software_version = sv,
      server_port = 0, hs_node_type = CWallet,
      capabilities = [(1, ustr ''1''), (2, ustr ''1''), (3, ustr ''1'')]\<rparr>"

text \<open>The exchange on an open link: \<open>sent\<close> tells whether the hello could be sent,
  \<open>first\<close> is the first frame, if the peer sends one.\<close>

definition outbound_exchange ::
    "frame_env \<Rightarrow> ustring \<Rightarrow> bool \<Rightarrow> DigMessage option \<Rightarrow> DialError + Handshake \<times> ustring" where
  "outbound_exchange env net sent first =
     (if \<not> sent then Inl DialLink
      else case first of
        None \<Rightarrow> Inl (DialClient MissingHandshake)
      | Some msg \<Rightarrow>
          if msg_type msg \<noteq> fe_handshake env then Inl (non_handshake_first_frame env (msg_type msg))
          else (case fe_decode_handshake env (data msg) of
              None \<Rightarrow> Inl DialLink
            | Some theirs \<Rightarrow>
                if hs_node_type theirs \<noteq> CFullNode
                then Inl (DialClient (WrongNodeType CFullNode (hs_node_type theirs)))
                else (case validate_remote_handshake (fe_category env) theirs net of
                    Inl e \<Rightarrow> Inl (dial_error_of e)
                  | Inr version \<Rightarrow> Inr (theirs, version))))"

section \<open>What a version string denotes\<close>

definition digits_value :: "ustring \<Rightarrow> nat" where
  "digits_value s = foldl (\<lambda>n c. n * 10 + (c - 48)) 0 s"

definition is_digit :: "nat \<Rightarrow> bool" where
  "is_digit c \<longleftrightarrow> 48 \<le> c \<and> c \<le> 57"

definition numeral_of :: "ustring \<Rightarrow> nat \<Rightarrow> bool" where
  "numeral_of s n \<longleftrightarrow> (\<exists>ds. (s = ds \<or> s = 43 # ds) \<and> ds \<noteq> [] \<and> list_all is_digit ds
     \<and> digits_value ds = n \<and> n \<le> u32_max)"

fun join_on :: "nat \<Rightarrow> ustring list \<Rightarrow> ustring" where
  "join_on d [] = []"
| "join_on d [part] = part"
| "join_on d (part # rest) = part @ d # join_on d rest"

definition version_of :: "ustring \<Rightarrow> nat \<times> nat \<times> nat \<Rightarrow> bool" where
  "version_of v t \<longleftrightarrow> (\<exists>parts. trim v = join_on 46 parts \<and> trim v \<noteq> [] \<and> parts \<noteq> []
     \<and> list_all (\<lambda>p. 46 \<notin> set p) parts \<and> numeral_of (parts ! 0) (fst t)
     \<and> (if 1 < length parts then numeral_of (parts ! 1) (fst (snd t)) else fst (snd t) = 0)
     \<and> (if 2 < length parts then numeral_of (parts ! 2) (snd (snd t)) else snd (snd t) = 0))"

lemma push_digit_None [simp]: "foldl push_digit None s = None"
  by (induction s) (simp_all add: push_digit_def)

lemma digits_value_ge: "n \<le> foldl (\<lambda>n c. n * 10 + (c - 48)) n (s :: ustring)"
proof (induction s arbitrary: n)
  case (Cons c s)
  show ?case
    using Cons [of "n * 10 + (c - 48)"] by simp
qed simp

lemma push_digits_iff:
  assumes "n \<le> u32_max"
  shows "foldl push_digit (Some n) s = Some m
    \<longleftrightarrow> list_all is_digit s \<and> foldl (\<lambda>n c. n * 10 + (c - 48)) n s = m \<and> m \<le> u32_max"
  using assms
proof (induction s arbitrary: n)
  case (Cons c s)
  show ?case
  proof (cases "is_digit c \<and> n * 10 + (c - 48) \<le> u32_max")
    case True
    have "push_digit (Some n) c = Some (n * 10 + (c - 48))"
      using conjunct2 [OF True] conjunct1 [OF True] by (simp add: push_digit_def is_digit_def)
    then show ?thesis
      using Cons.IH [of "n * 10 + (c - 48)"] conjunct2 [OF True] conjunct1 [OF True] by (simp add: is_digit_def)
  next
    case False
    then have "push_digit (Some n) c = None"
      by (auto simp: push_digit_def is_digit_def)
    moreover have "\<not> (is_digit c \<and> foldl (\<lambda>n c. n * 10 + (c - 48)) (n * 10 + (c - 48)) s = m \<and> m \<le> u32_max)"
      using False digits_value_ge [of "n * 10 + (c - 48)" s] by auto
    ultimately show ?thesis
      by auto
  qed
qed auto

lemma parse_digits_iff:
  "parse_digits s = Some n
    \<longleftrightarrow> s \<noteq> [] \<and> list_all is_digit s \<and> digits_value s = n \<and> n \<le> u32_max"
  using push_digits_iff [of 0 s n] by (simp add: parse_digits_def digits_value_def)

lemma parse_u32_iff: "parse_u32 s = Some n \<longleftrightarrow> numeral_of s n"
proof (cases s)
  case (Cons c rest)
  show ?thesis
  proof (cases "c = 43")
    case True
    then show ?thesis
      using Cons by (auto simp: parse_u32_def parse_digits_iff numeral_of_def is_digit_def)
  next
    case False
    then show ?thesis
      using Cons by (auto simp: parse_u32_def parse_digits_iff numeral_of_def)
  qed
qed (simp add: parse_u32_def numeral_of_def)

lemma split_on_nonempty [simp]: "split_on d s \<noteq> []"
  by (induction d s rule: split_on.induct) (simp_all split: list.split)

lemma join_on_Cons: "rest \<noteq> [] \<Longrightarrow> join_on d (part # rest) = part @ d # join_on d rest"
  by (cases rest) simp_all

lemma join_split: "join_on d (split_on d s) = s"
proof (induction d s rule: split_on.induct)
  case (2 d c s)
  show ?case
  proof (cases "split_on d s")
    case (Cons part rest)
    then show ?thesis
      using 2 by (cases rest) (auto simp: join_on_Cons)
  qed simp
qed simp

lemma split_parts: "list_all (\<lambda>p. d \<notin> set p) (split_on d s)"
  by (induction d s rule: split_on.induct) (auto split: list.split)

lemma split_join:
  assumes "parts \<noteq> []" "list_all (\<lambda>p. d \<notin> set p) parts"
  shows "split_on d (join_on d parts) = parts"
  using assms
proof (induction parts)
  case (Cons part rest)
  have prefix: "d \<notin> set part \<Longrightarrow> split_on d (part @ s) =
      (case split_on d s of p # ps \<Rightarrow> (part @ p) # ps | [] \<Rightarrow> [])" for s
    by (induction part) (simp_all split: list.split)
  show ?case
  proof (cases "rest = []")
    case True
    then show ?thesis
      using Cons.prems prefix [of "[]"] by simp
  next
    case False
    then show ?thesis
      using Cons prefix [of "d # join_on d rest"] by (simp add: join_on_Cons)
  qed
qed simp

lemma parse_segment_iff:
  "parse_segment parts i = Some n \<longleftrightarrow> (if i < length parts then numeral_of (parts ! i) n else n = 0)"
  by (auto simp: parse_segment_def parse_u32_iff)

lemma parse_triple_iff: "parse_protocol_triple v = Some (a, b, c) \<longleftrightarrow> version_of v (a, b, c)"
proof -
  let ?ps = "split_on 46 (trim v)"
  have "parse_protocol_triple v = Some (a, b, c) \<longleftrightarrow> trim v \<noteq> [] \<and> numeral_of (?ps ! 0) a
      \<and> parse_segment ?ps 1 = Some b \<and> parse_segment ?ps 2 = Some c"
    by (auto simp: parse_protocol_triple_def Let_def bind_eq_Some_conv parse_u32_iff hd_conv_nth)
  also have "\<dots> \<longleftrightarrow> version_of v (a, b, c)"
  proof
    assume *: "trim v \<noteq> [] \<and> numeral_of (?ps ! 0) a \<and> parse_segment ?ps 1 = Some b \<and> parse_segment ?ps 2 = Some c"
    then show "version_of v (a, b, c)"
      unfolding version_of_def fst_conv snd_conv parse_segment_iff One_nat_def
      using join_split [of 46 "trim v"] split_parts [of 46 "trim v"] by (intro exI [of _ ?ps]) simp
  next
    assume "version_of v (a, b, c)"
    then obtain parts where parts: "trim v = join_on 46 parts" "trim v \<noteq> []" "parts \<noteq> []"
      "list_all (\<lambda>p. 46 \<notin> set p) parts" "numeral_of (parts ! 0) a"
      "parse_segment parts 1 = Some b" "parse_segment parts 2 = Some c"
      unfolding version_of_def fst_conv snd_conv parse_segment_iff by blast
    then have "?ps = parts"
      using split_join [OF parts(3,4)] by simp
    then show "trim v \<noteq> [] \<and> numeral_of (?ps ! 0) a \<and> parse_segment ?ps 1 = Some b \<and> parse_segment ?ps 2 = Some c"
      using parts by simp
  qed
  finally show ?thesis .
qed

text \<open>The decimal text of a version.\<close>

function show_nat :: "nat \<Rightarrow> ustring" where
  "show_nat n = (if n < 10 then [48 + n] else show_nat (n div 10) @ [48 + n mod 10])"
  by auto
termination by (relation "measure id") auto

declare show_nat.simps [simp del]

lemma show_nat_digits: "show_nat n \<noteq> [] \<and> list_all is_digit (show_nat n) \<and> digits_value (show_nat n) = n"
proof (induction n rule: show_nat.induct)
  case (1 n)
  show ?case
  proof (cases "n < 10")
    case True
    then show ?thesis
      by (subst (1 2 3) show_nat.simps) (simp add: is_digit_def digits_value_def)
  next
    case False
    then have "show_nat n = show_nat (n div 10) @ [48 + n mod 10]"
      by (subst show_nat.simps) simp
    then show ?thesis
      using 1 [OF False] by (simp add: is_digit_def digits_value_def)
  qed
qed

definition version_text :: "nat \<Rightarrow> nat \<Rightarrow> nat \<Rightarrow> ustring" where
  "version_text a b c = show_nat a @ 46 # show_nat b @ 46 # show_nat c"

lemma trim_solid:
  assumes "s \<noteq> []" "\<not> is_white_space (hd s)" "\<not> is_white_space (last s)"
  shows "trim s = s"
proof -
  have "dropWhile is_white_space s = s"
    using assms(1,2) by (cases s) simp_all
  moreover have "dropWhile is_white_space (rev s) = rev s"
    using assms(1,3) by (cases s rule: rev_cases) simp_all
  ultimately show ?thesis
    by (simp add: trim_def)
qed

lemma digit_not_white: "is_digit c \<Longrightarrow> \<not> is_white_space c \<and> c \<noteq> 46"
  by (auto simp: is_digit_def is_white_space_def)

lemma parse_version_text:
  assumes "a \<le> u32_max" "b \<le> u32_max" "c \<le> u32_max"
  shows "parse_protocol_triple (version_text a b c) = Some (a, b, c)"
proof -
  have num: "n \<le> u32_max \<Longrightarrow> numeral_of (show_nat n) n" for n
    using show_nat_digits [of n] by (auto simp: numeral_of_def)
  have dot: "46 \<notin> set (show_nat n)" for n
    using show_nat_digits [of n] digit_not_white by (auto simp: list_all_iff)
  have ends: "is_digit (hd (show_nat n))" "is_digit (last (show_nat n))" for n
    using show_nat_digits [of n] by (auto simp: list_all_iff)
  have "trim (version_text a b c) = version_text a b c"
    using ends(1) [of a] ends(2) [of c] show_nat_digits [of a] show_nat_digits [of c] digit_not_white
    by (intro trim_solid) (auto simp: version_text_def)
  then have "version_of (version_text a b c) (a, b, c)"
    unfolding version_of_def
    by (intro exI [of _ "[show_nat a, show_nat b, show_nat c]"]) (simp add: version_text_def num assms dot)
  then show ?thesis
    by (simp add: parse_triple_iff)
qed

section \<open>Who is accepted\<close>

lemma min_version: "parse_protocol_triple MIN_COMPATIBLE_PROTOCOL_VERSION = Some (0, 0, 30)"
proof -
  have "show_nat 0 = [48]" "show_nat 30 = [51, 48]"
    by (simp_all add: show_nat.simps)
  then have "MIN_COMPATIBLE_PROTOCOL_VERSION = version_text 0 0 30"
    by (simp add: MIN_COMPATIBLE_PROTOCOL_VERSION_def version_text_def ustr_def)
  then show ?thesis
    using parse_version_text [of 0 0 30] by (simp add: u32_max_def)
qed

lemma compatible_iff:
  "is_compatible_protocol_version v \<longleftrightarrow> (\<exists>a b c. version_of v (a, b, c) \<and> triple_le (0, 0, 30) (a, b, c))"
proof -
  have "is_compatible_protocol_version v
      \<longleftrightarrow> (\<exists>a b c. parse_protocol_triple v = Some (a, b, c) \<and> triple_le (0, 0, 30) (a, b, c))"
    unfolding is_compatible_protocol_version_def min_version by (cases "parse_protocol_triple v") auto
  then show ?thesis
    by (simp only: parse_triple_iff)
qed

lemma validate_iff:
  "validate_remote_handshake cat theirs expected = Inr sv \<longleftrightarrow>
     network_id theirs = expected \<and> expected \<noteq> []
     \<and> (\<exists>a b c. version_of (protocol_version theirs) (a, b, c) \<and> triple_le (0, 0, 30) (a, b, c))
     \<and> sv = filter (\<lambda>c. cat c = OtherCategory) (software_version theirs) \<and> utf8_len sv \<le> 128"
proof -
  have cats: "(\<lambda>c. cat c \<noteq> Control \<and> cat c \<noteq> Format) = (\<lambda>c. cat c = OtherCategory)"
    by (intro ext) (metis GeneralCategory.distinct(4,6) GeneralCategory.exhaust)
  have "is_compatible_protocol_version (protocol_version theirs) \<Longrightarrow> trim (protocol_version theirs) \<noteq> []"
    by (auto simp: is_compatible_protocol_version_def parse_protocol_triple_def)
  then show ?thesis
    unfolding compatible_iff [symmetric] validate_remote_handshake_def sanitize_software_version_def cats
      MAX_SOFTWARE_VERSION_BYTES_def Let_def
    by (cases "is_compatible_protocol_version (protocol_version theirs)") (simp_all, safe, simp_all)
qed

text \<open>
  C5: who passes the handshake. A remote handshake is accepted exactly when its network id is the
  expected, nonempty one, its protocol version denotes a version of at least 0.0.30, and its
  software version without control and format characters has at most 128 bytes; what is stored is
  that sanitized version. A version string denotes a triple when, trimmed, its dot-separated parts
  begin with up to three unsigned 32-bit numerals; missing parts count as zero and further parts
  are not looked at.
\<close>

theorem handshake_accepts_exactly:
  "validate_remote_handshake cat theirs expected = Inr sv \<longleftrightarrow>
     network_id theirs = expected \<and> expected \<noteq> []
     \<and> (\<exists>a b c. version_of (protocol_version theirs) (a, b, c) \<and> triple_le (0, 0, 30) (a, b, c))
     \<and> sv = filter (\<lambda>c. cat c = OtherCategory) (software_version theirs) \<and> utf8_len sv \<le> 128"
  by (rule validate_iff)

text \<open>
  Versions are read as they are written. The decimal text of any triple of 32-bit numbers parses
  back to that triple.
\<close>

theorem version_roundtrip:
  assumes "a \<le> u32_max" "b \<le> u32_max" "c \<le> u32_max"
  shows "parse_protocol_triple (version_text a b c) = Some (a, b, c)"
  by (rule parse_version_text [OF assms])

theorem version_roundtrip_witness:
  "parse_protocol_triple (version_text 1 20 4294967295) = Some (1, 20, 4294967295)"
  by (rule version_roundtrip) (simp_all add: u32_max_def)

text \<open>Parts after the third are ignored; an empty part is refused, a plus sign is not.\<close>

lemma odd_versions:
  "parse_protocol_triple (ustr ''0.0.37.x'') = Some (0, 0, 37)"
  "parse_protocol_triple (ustr ''1.'') = None"
  "parse_protocol_triple (ustr '' +1 '') = Some (1, 0, 0)"
  by (simp_all add: parse_protocol_triple_def parse_segment_def ustr_def trim_def is_white_space_def parse_u32_def
      parse_digits_def push_digit_def u32_max_def Let_def)

section \<open>Verdicts\<close>

lemma outbound_verdict:
  assumes "outbound_exchange env net sent first = Inl e"
  shows "e = DialLink \<longleftrightarrow> \<not> sent \<or> (\<exists>msg. first = Some msg \<and> msg_type msg = fe_handshake env
    \<and> fe_decode_handshake env (data msg) = None)"
  using assms
  by (auto simp: outbound_exchange_def non_handshake_first_frame_def dial_error_of_def
      split: if_splits option.splits sum.splits)

text \<open>
  A wrong peer is not mistaken for a broken link. A failed exchange counts as a link error
  (worth a retry) only if the hello could not be sent or a handshake frame does not decode; a peer
  that hangs up, answers with another frame, has another role or fails validation is a policy
  verdict, and another network is reported as such with both ids.
\<close>

theorem handshake_verdict_is_policy:
  assumes "outbound_exchange env net sent first = Inl e"
  shows "(gossip_error_of e = LinkErrorV \<longleftrightarrow> \<not> sent \<or> (\<exists>msg. first = Some msg
      \<and> msg_type msg = fe_handshake env \<and> fe_decode_handshake env (data msg) = None))
    \<and> (\<forall>msg theirs. sent \<and> first = Some msg \<and> msg_type msg = fe_handshake env
        \<and> fe_decode_handshake env (data msg) = Some theirs \<and> hs_node_type theirs = CFullNode
        \<and> network_id theirs \<notin> {[], net} \<and> trim (protocol_version theirs) \<noteq> []
        \<longrightarrow> gossip_error_of e = ClientErrorV (WrongNetwork net (network_id theirs)))"
proof -
  have "gossip_error_of e = LinkErrorV \<longleftrightarrow> e = DialLink"
    by (cases e) simp_all
  then show ?thesis
    using outbound_verdict [OF assms] assms
    by (auto simp: outbound_exchange_def validate_remote_handshake_def dial_error_of_def)
qed

definition demo_frames :: frame_env where
  "demo_frames = \<lparr>fe_handshake = 1, fe_chia_opcode = (\<lambda>op. op < 100),
     fe_decode_handshake = (\<lambda>b. case b of [] \<Rightarrow> None | x # _ \<Rightarrow>
       Some (outbound_hello [unat x] []\<lparr>hs_node_type := if x = 9 then CWallet else CFullNode\<rparr>)),
     fe_category = (\<lambda>c. if c < 32 then Control else OtherCategory)\<rparr>"

theorem handshake_verdict_is_policy_witness:
  "outbound_exchange demo_frames [5] True (Some \<lparr>msg_type = 1, msg_id = None, data = [7]\<rparr>)
     = Inl (DialClient (WrongNetwork [5] [7]))
   \<and> gossip_error_of (DialClient (WrongNetwork [5] [7])) \<noteq> LinkErrorV"
proof -
  have trim: "trim ADVERTISED_PROTOCOL_VERSION \<noteq> []"
    by (simp add: trim_def ADVERTISED_PROTOCOL_VERSION_def ustr_def is_white_space_def)
  have run: "outbound_exchange demo_frames [5] True (Some \<lparr>msg_type = 1, msg_id = None, data = [7]\<rparr>)
     = Inl (DialClient (WrongNetwork [5] [7]))"
    using trim by (simp add: outbound_exchange_def demo_frames_def validate_remote_handshake_def outbound_hello_def
        dial_error_of_def)
  then show ?thesis
    using handshake_verdict_is_policy [OF run] by (simp add: demo_frames_def)
qed

text \<open>The stored version is printable, short, and accepted again unchanged.\<close>

text \<open>
  What a peer can make a node store is harmless. An accepted software version has no control or
  format character and at most 128 bytes, is a subsequence of what was sent, and sending it back is
  accepted unchanged.
\<close>

theorem stored_version_clean:
  assumes "validate_remote_handshake cat theirs expected = Inr sv"
  shows "(\<forall>c\<in>set sv. cat c \<noteq> Control \<and> cat c \<noteq> Format) \<and> utf8_len sv \<le> 128
    \<and> subseq sv (software_version theirs)
    \<and> validate_remote_handshake cat (theirs\<lparr>software_version := sv\<rparr>) expected = Inr sv"
  using assms by (auto simp: validate_iff)

theorem stored_version_clean_witness:
  "(\<forall>c\<in>set [65, 66 :: nat]. c \<ge> 32) \<and> utf8_len [65, 66] \<le> 128"
proof -
  let ?cat = "\<lambda>c. if c < 32 then Control else OtherCategory"
  have "version_of ADVERTISED_PROTOCOL_VERSION (0, 0, 37)"
    by (simp add: parse_triple_iff [symmetric] parse_protocol_triple_def parse_segment_def ustr_def trim_def
        is_white_space_def parse_u32_def parse_digits_def push_digit_def u32_max_def Let_def
        ADVERTISED_PROTOCOL_VERSION_def)
  then have "validate_remote_handshake ?cat (outbound_hello [5] [65, 7, 66]) [5] = Inr [65, 66]"
    unfolding validate_iff
    by (intro conjI exI [of _ 0] exI [of _ 37])
      (simp_all add: outbound_hello_def triple_le_def utf8_len_def utf8_width_def)
  from stored_version_clean [OF this] show ?thesis
    by (auto split: if_splits)
qed

end
