(* ===== verification/Address_Manager.thy ===== *)
theory Address_Manager
  imports Peer_Info
begin

text \<open>
  The address manager (\<open>discovery/address_manager.rs\<close>): the tried and new tables, row
  creation and deletion, promotion to tried with eviction, collision resolution, and the
  attempt and connect bookkeeping.

  A matrix is a function from slots to 32-bit cells, with \<open>EMPTY\<close> the bit pattern of
  \<open>-1i32\<close>; a node id and its cell have the same bits, as \<open>as i32\<close> leaves them. An
  operation that can panic (an index out of range, an \<open>expect\<close>) returns \<open>None\<close> then;
  counters that the code decrements with \<open>-=\<close> wrap as in a release build. Random draws and
  clock readings are arguments. \<open>select_peer_\<close> is not modelled.
\<close>

section \<open>State\<close>

type_synonym node_id = u32
type_synonym slot = "nat \<times> nat"

definition EMPTY :: u32 where "EMPTY = - 1"

definition NEW_BUCKETS_PER_ADDRESS :: nat where "NEW_BUCKETS_PER_ADDRESS = 8"
definition TRIED_COLLISION_SIZE :: nat where "TRIED_COLLISION_SIZE = 10"

record TimestampedPeerInfo =
  ts_host :: bytes
  ts_port :: u16
  ts_timestamp :: nat

record Inner =
  am_key :: bytes32
  id_count :: u32
  tried_matrix :: "slot \<Rightarrow> u32"
  new_matrix :: "slot \<Rightarrow> u32"
  tried_count :: nat
  new_count :: nat
  map_addr :: "(bytes, node_id) fmap"
  map_info :: "(node_id, ExtendedPeerInfo) fmap"
  random_pos :: "node_id list"
  last_good :: nat
  tried_collisions :: "node_id list"
  used_new_matrix_positions :: "slot fset"
  used_tried_matrix_positions :: "slot fset"
  allow_private_subnets :: bool

definition Inner_new :: "bytes32 \<Rightarrow> Inner" where
  "Inner_new key =
     \<lparr>am_key = key, id_count = 0, tried_matrix = (\<lambda>_. EMPTY), new_matrix = (\<lambda>_. EMPTY),
      tried_count = 0, new_count = 0, map_addr = fmempty, map_info = fmempty, random_pos = [],
      last_good = 1, tried_collisions = [], used_new_matrix_positions = {||},
      used_tried_matrix_positions = {||}, allow_private_subnets = False\<rparr>"

definition dec32 :: "nat \<Rightarrow> nat" where
  "dec32 n = (n + (2 ^ 32 - 1)) mod 2 ^ 32"

definition inc32 :: "nat \<Rightarrow> nat" where
  "inc32 n = (n + 1) mod 2 ^ 32"

definition peer_row_from_ts :: "TimestampedPeerInfo \<Rightarrow> PeerInfo \<Rightarrow> ExtendedPeerInfo" where
  "peer_row_from_ts addr src =
     \<lparr>peer_info = \<lparr>pi_host = ts_host addr, pi_port = ts_port addr\<rparr>, ep_timestamp = ts_timestamp addr,
      ep_src = src, ep_random_pos = None, is_tried = False, ref_count = 0, last_success = 0,
      last_try = 0, num_attempts = 0, last_count_attempt = 0\<rparr>"

text \<open>\<open>Ipv4Addr::is_private\<close> and \<open>Ipv6Addr::is_unique_local\<close>.\<close>

fun ip_is_private :: "IpAddr \<Rightarrow> bool" where
  "ip_is_private (V4 v4) \<longleftrightarrow> v4 ! 0 = 10 \<or> (v4 ! 0 = 172 \<and> 16 \<le> v4 ! 1 \<and> v4 ! 1 \<le> 31)
     \<or> (v4 ! 0 = 192 \<and> v4 ! 1 = 168)"
| "ip_is_private (V6 v6) \<longleftrightarrow> v6 ! 0 = 0xfc \<or> v6 ! 0 = 0xfd"

definition host_is_private :: "net_env \<Rightarrow> bytes \<Rightarrow> bool" where
  "host_is_private env h = (case parse_ip env h of Some ip \<Rightarrow> ip_is_private ip | None \<Rightarrow> False)"

definition am_find :: "Inner \<Rightarrow> PeerInfo \<Rightarrow> node_id option \<times> ExtendedPeerInfo option" where
  "am_find st addr =
     (case fmlookup (map_addr st) (pi_host addr) of
        None \<Rightarrow> (None, None)
      | Some node \<Rightarrow> (Some node, fmlookup (map_info st) node))"

section \<open>Table updates\<close>

definition update_row :: "node_id \<Rightarrow> (ExtendedPeerInfo \<Rightarrow> ExtendedPeerInfo) \<Rightarrow> Inner \<Rightarrow> Inner" where
  "update_row node f st =
     (case fmlookup (map_info st) node of
        None \<Rightarrow> st
      | Some info \<Rightarrow> st\<lparr>map_info := fmupd node (f info) (map_info st)\<rparr>)"

definition swap_random :: "nat \<Rightarrow> nat \<Rightarrow> Inner \<Rightarrow> Inner option" where
  "swap_random r1 r2 st =
     (if r1 = r2 then Some st
      else if r1 < length (random_pos st) \<and> r2 < length (random_pos st) then
        (let id1 = random_pos st ! r1; id2 = random_pos st ! r2;
             st1 = update_row id1 (\<lambda>i. i\<lparr>ep_random_pos := Some r2\<rparr>) st;
             st2 = update_row id2 (\<lambda>i. i\<lparr>ep_random_pos := Some r1\<rparr>) st1
         in Some (st2\<lparr>random_pos := (random_pos st2)[r1 := id2, r2 := id1]\<rparr>))
      else None)"

definition set_new_matrix :: "slot \<Rightarrow> u32 \<Rightarrow> Inner \<Rightarrow> Inner" where
  "set_new_matrix pos value st =
     st\<lparr>new_matrix := (new_matrix st)(pos := value),
        used_new_matrix_positions :=
          (if value = EMPTY then used_new_matrix_positions st |-| {|pos|}
           else finsert pos (used_new_matrix_positions st))\<rparr>"

definition set_tried_matrix :: "slot \<Rightarrow> u32 \<Rightarrow> Inner \<Rightarrow> Inner" where
  "set_tried_matrix pos value st =
     st\<lparr>tried_matrix := (tried_matrix st)(pos := value),
        used_tried_matrix_positions :=
          (if value = EMPTY then used_tried_matrix_positions st |-| {|pos|}
           else finsert pos (used_tried_matrix_positions st))\<rparr>"

definition delete_new_entry :: "node_id \<Rightarrow> Inner \<Rightarrow> Inner option" where
  "delete_new_entry node st =
     (case fmlookup (map_info st) node of
        None \<Rightarrow> Some st
      | Some info \<Rightarrow>
          (case ep_random_pos info of
             None \<Rightarrow> Some st
           | Some rp \<Rightarrow>
               (if random_pos st = [] then None
                else case swap_random rp (length (random_pos st) - 1) st of
                       None \<Rightarrow> None
                     | Some st1 \<Rightarrow>
                         Some (st1\<lparr>random_pos := butlast (random_pos st1),
                                  map_info := fmdrop node (map_info st1),
                                  map_addr := fmdrop (pi_host (peer_info info)) (map_addr st1),
                                  new_count := dec32 (new_count st1)\<rparr>))))"

definition clear_new :: "slot \<Rightarrow> Inner \<Rightarrow> Inner option" where
  "clear_new pos st =
     (if new_matrix st pos = EMPTY then Some st
      else let delete_id = new_matrix st pos;
               st1 = update_row delete_id (\<lambda>i. i\<lparr>ref_count := dec32 (ref_count i)\<rparr>) st;
               st2 = set_new_matrix pos EMPTY st1
           in case fmlookup (map_info st2) delete_id of
                None \<Rightarrow> Some st2
              | Some info \<Rightarrow> (if ref_count info = 0 then delete_new_entry delete_id st2 else Some st2))"

definition create_row :: "TimestampedPeerInfo \<Rightarrow> PeerInfo \<Rightarrow> Inner \<Rightarrow> node_id \<times> Inner" where
  "create_row addr addr_src st =
     (let node = (if id_count st = - 1 then id_count st else id_count st + 1);
          row = (peer_row_from_ts addr addr_src)\<lparr>ep_random_pos := Some (length (random_pos st))\<rparr>
      in (node, st\<lparr>id_count := node,
                   map_addr := fmupd (pi_host (peer_info row)) node (map_addr st),
                   map_info := fmupd node row (map_info st),
                   random_pos := random_pos st @ [node]\<rparr>))"

section \<open>Promotion\<close>

text \<open>The first loop of \<open>make_tried\<close>: drop every new-table reference of the row.\<close>

definition clear_ref :: "net_env \<Rightarrow> node_id \<Rightarrow> nat \<Rightarrow> Inner \<Rightarrow> Inner option" where
  "clear_ref env node bucket st =
     do { info \<leftarrow> fmlookup (map_info st) node;
          let pos = (bucket, bucket_position env (am_key st) True bucket (peer_info info));
          Some (if new_matrix st pos = node
                then set_new_matrix pos EMPTY
                       (update_row node (\<lambda>i. i\<lparr>ref_count := ref_count i - 1\<rparr>) st)
                else st) }"

primrec clear_refs :: "net_env \<Rightarrow> node_id \<Rightarrow> nat list \<Rightarrow> Inner \<Rightarrow> Inner option" where
  "clear_refs env node [] st = Some st"
| "clear_refs env node (b # bs) st =
     do { st \<leftarrow> clear_ref env node b st; clear_refs env node bs st }"

definition tried_slot :: "net_env \<Rightarrow> bytes32 \<Rightarrow> PeerInfo \<Rightarrow> slot" where
  "tried_slot env key p =
     (let b = tried_bucket_index env key p in (b, bucket_position env key False b p))"

definition new_slot :: "net_env \<Rightarrow> bytes32 \<Rightarrow> PeerInfo \<Rightarrow> PeerInfo \<Rightarrow> slot" where
  "new_slot env key p src =
     (let b = new_bucket_index env key p src in (b, bucket_position env key True b p))"

text \<open>Send the occupant of a tried slot back to one new slot.\<close>

definition evict_tried :: "net_env \<Rightarrow> slot \<Rightarrow> Inner \<Rightarrow> Inner option" where
  "evict_tried env cur st =
     (if tried_matrix st cur = EMPTY then Some st
      else let evict = tried_matrix st cur in
        do { ev \<leftarrow> fmlookup (map_info st) evict;
             let ev = ev\<lparr>is_tried := False\<rparr>;
             let st1 = set_tried_matrix cur EMPTY (st\<lparr>map_info := fmdrop evict (map_info st)\<rparr>);
             let st2 = st1\<lparr>tried_count := dec32 (tried_count st1)\<rparr>;
             let np = new_slot env (am_key st) (peer_info ev) (ep_src ev);
             st3 \<leftarrow> clear_new np st2;
             let st4 = set_new_matrix np evict st3;
             Some (st4\<lparr>new_count := inc32 (new_count st4),
                       map_info := fmupd evict (ev\<lparr>ref_count := 1\<rparr>) (map_info st4)\<rparr>) })"

definition make_tried :: "net_env \<Rightarrow> node_id \<Rightarrow> Inner \<Rightarrow> Inner option" where
  "make_tried env node st =
     do { st1 \<leftarrow> clear_refs env node [0..<NEW_BUCKET_COUNT] st;
          let st2 = st1\<lparr>new_count := new_count st1 - 1\<rparr>;
          info \<leftarrow> fmlookup (map_info st2) node;
          let cur = tried_slot env (am_key st2) (peer_info info);
          st3 \<leftarrow> evict_tried env cur st2;
          let st4 = set_tried_matrix cur node st3;
          Some (update_row node (\<lambda>i. i\<lparr>is_tried := True\<rparr>)
                  (st4\<lparr>tried_count := inc32 (tried_count st4)\<rparr>)) }"

definition in_new_table :: "net_env \<Rightarrow> Inner \<Rightarrow> node_id \<Rightarrow> PeerInfo \<Rightarrow> nat \<Rightarrow> bool" where
  "in_new_table env st node p bucket_rand =
     (find (\<lambda>n. let b = (n + bucket_rand) mod NEW_BUCKET_COUNT in
              new_matrix st (b, bucket_position env (am_key st) True b p) = node)
        [0..<NEW_BUCKET_COUNT] \<noteq> None)"

definition mark_good_inner ::
  "net_env \<Rightarrow> nat \<Rightarrow> PeerInfo \<Rightarrow> bool \<Rightarrow> nat \<Rightarrow> Inner \<Rightarrow> Inner option" where
  "mark_good_inner env bucket_rand addr test_before_evict timestamp st =
     (let st = st\<lparr>last_good := timestamp\<rparr> in
      case am_find st addr of
        (Some node, Some info) \<Rightarrow>
          (if host_is_private env (pi_host addr) \<and> \<not> allow_private_subnets st then Some st
           else if peer_info info \<noteq> addr then Some st
           else let info = info\<lparr>last_success := timestamp, last_try := timestamp, num_attempts := 0\<rparr>;
                    st = st\<lparr>map_info := fmupd node info (map_info st)\<rparr>
                in if is_tried info then Some st
                   else if \<not> in_new_table env st node (peer_info info) bucket_rand then Some st
                   else if test_before_evict
                          \<and> tried_matrix st (tried_slot env (am_key st) (peer_info info)) \<noteq> EMPTY then
                     (if length (tried_collisions st) < TRIED_COLLISION_SIZE then
                        (if node \<notin> set (tried_collisions st)
                         then Some (st\<lparr>tried_collisions := tried_collisions st @ [node]\<rparr>)
                         else Some st)
                      else make_tried env node st)
                   else make_tried env node st)
      | _ \<Rightarrow> Some st)"

section \<open>Ingestion\<close>

text \<open>
  The branch of \<open>add_to_new_table_\<close> for a known host: the row after the timestamp update, and
  whether the announcement goes on to claim a further new slot.
\<close>

definition refresh_row :: "TimestampedPeerInfo \<Rightarrow> nat \<Rightarrow> nat \<Rightarrow> ExtendedPeerInfo \<Rightarrow> ExtendedPeerInfo" where
  "refresh_row addr penalty now info =
     (let currently_online = now - ts_timestamp addr < 24 * 60 * 60;
          update_interval = (if currently_online then 60 * 60 else 24 * 60 * 60)
      in if 0 < ts_timestamp addr
            \<and> (0 < ep_timestamp info
                 \<or> ep_timestamp info < ts_timestamp addr - sat_add64 update_interval penalty)
         then info\<lparr>ep_timestamp := ts_timestamp addr - penalty\<rparr> else info)"

definition known_continues :: "(nat \<Rightarrow> nat) \<Rightarrow> TimestampedPeerInfo \<Rightarrow> ExtendedPeerInfo \<Rightarrow> bool" where
  "known_continues draw addr info \<longleftrightarrow>
     \<not> (ts_timestamp addr = 0 \<or> (0 < ep_timestamp info \<and> ts_timestamp addr \<le> ep_timestamp info))
     \<and> \<not> is_tried info \<and> ref_count info < NEW_BUCKETS_PER_ADDRESS
     \<and> (let factor = 2 ^ min (ref_count info) 31 in factor \<le> 1 \<or> draw factor = 0)"

text \<open>The last part of \<open>add_to_new_table_\<close>: claim the new slot of the row and its source.\<close>

definition place_new :: "net_env \<Rightarrow> nat \<Rightarrow> PeerInfo \<Rightarrow> node_id \<Rightarrow> Inner \<Rightarrow> Inner option" where
  "place_new env now2 source node st =
     do { info \<leftarrow> fmlookup (map_info st) node;
          let pos = new_slot env (am_key st) (peer_info info) source;
          if new_matrix st pos = node then Some st
          else do {
            add_to_new \<leftarrow> (if new_matrix st pos = EMPTY then Some True
                          else map_option
                                 (\<lambda>ex. is_terrible now2 ex \<or> (1 < ref_count ex \<and> ref_count info = 0))
                                 (fmlookup (map_info st) (new_matrix st pos)));
            if add_to_new then
              do { st1 \<leftarrow> clear_new pos st;
                   row \<leftarrow> fmlookup (map_info st1) node;
                   Some (set_new_matrix pos node
                           (st1\<lparr>map_info := fmupd node (row\<lparr>ref_count := inc32 (ref_count row)\<rparr>)
                                              (map_info st1)\<rparr>)) }
            else if ref_count info = 0 then delete_new_entry node st
            else Some st } }"

definition add_to_new_table_inner ::
  "net_env \<Rightarrow> nat \<Rightarrow> nat \<Rightarrow> (nat \<Rightarrow> nat) \<Rightarrow> TimestampedPeerInfo \<Rightarrow> PeerInfo \<Rightarrow> nat \<Rightarrow> Inner
     \<Rightarrow> (bool \<times> Inner) option" where
  "add_to_new_table_inner env now now2 draw addr source penalty st =
     (let p = \<lparr>pi_host = ts_host addr, pi_port = ts_port addr\<rparr> in
      if host_is_private env (pi_host p) \<and> \<not> allow_private_subnets st then Some (False, st)
      else case am_find st p of
        (Some node, Some ex) \<Rightarrow>
          (let penalty = (if peer_info ex = p then 0 else penalty);
               info = refresh_row addr penalty now ex;
               st = st\<lparr>map_info := fmupd node info (map_info st)\<rparr>
           in if known_continues draw addr info
              then map_option (Pair False) (place_new env now2 source node st)
              else Some (False, st))
      | _ \<Rightarrow>
          (let (node, st) = create_row addr source st;
               st = update_row node (\<lambda>i. i\<lparr>ep_timestamp := ts_timestamp addr - penalty\<rparr>) st;
               st = st\<lparr>new_count := inc32 (new_count st)\<rparr>
           in map_option (Pair True) (place_new env now2 source node st)))"

text \<open>
  \<open>add_to_new_table\<close> of one received list: every address comes with the clock readings and the
  random draws its turn of the loop makes.
\<close>

type_synonym turn = "TimestampedPeerInfo \<times> nat \<times> nat \<times> (nat \<Rightarrow> nat)"

fun add_to_new_table :: "net_env \<Rightarrow> turn list \<Rightarrow> PeerInfo \<Rightarrow> nat \<Rightarrow> Inner \<Rightarrow> Inner option" where
  "add_to_new_table env [] src penalty st = Some st"
| "add_to_new_table env ((addr, now, now2, draw) # ts) src penalty st =
     do { (_, st) \<leftarrow> add_to_new_table_inner env now now2 draw addr src penalty st;
          add_to_new_table env ts src penalty st }"

section \<open>Dial bookkeeping and collisions\<close>

definition attempt_inner :: "PeerInfo \<Rightarrow> bool \<Rightarrow> nat \<Rightarrow> Inner \<Rightarrow> Inner" where
  "attempt_inner addr count_failures timestamp st =
     (case am_find st addr of
        (Some node, Some info) \<Rightarrow>
          (if peer_info info \<noteq> addr then st
           else let info = info\<lparr>last_try := timestamp\<rparr>;
                    info = (if count_failures \<and> last_count_attempt info < last_good st
                            then info\<lparr>last_count_attempt := timestamp,
                                      num_attempts := sat_add32 (num_attempts info) 1\<rparr>
                            else info)
                in st\<lparr>map_info := fmupd node info (map_info st)\<rparr>)
      | _ \<Rightarrow> st)"

definition connect_inner :: "PeerInfo \<Rightarrow> nat \<Rightarrow> Inner \<Rightarrow> Inner" where
  "connect_inner addr timestamp st =
     (case am_find st addr of
        (Some node, Some info) \<Rightarrow>
          (if peer_info info \<noteq> addr then st
           else let info = (if 20 * 60 < timestamp - ep_timestamp info
                            then info\<lparr>ep_timestamp := timestamp\<rparr> else info)
                in st\<lparr>map_info := fmupd node info (map_info st)\<rparr>)
      | _ \<Rightarrow> st)"

text \<open>One round of \<open>resolve_tried_collisions_\<close>: whether the entry is settled, and the state.\<close>

definition resolve_one :: "net_env \<Rightarrow> nat \<Rightarrow> nat \<Rightarrow> node_id \<Rightarrow> Inner \<Rightarrow> (bool \<times> Inner) option" where
  "resolve_one env now bucket_rand node st =
     (case fmlookup (map_info st) node of
        None \<Rightarrow> Some (True, st)
      | Some info \<Rightarrow>
          (let old_id = tried_matrix st (tried_slot env (am_key st) (peer_info info)) in
           if old_id = EMPTY then Some (False, st)
           else case fmlookup (map_info st) old_id of
             None \<Rightarrow> Some (False, st)
           | Some old_info \<Rightarrow>
               (if now - last_success old_info < 4 * 60 * 60 then Some (True, st)
                else if now - last_try old_info < 4 * 60 * 60 then
                  (if 60 < now - last_try old_info
                   then map_option (Pair True)
                          (mark_good_inner env bucket_rand (peer_info info) False now st)
                   else Some (False, st))
                else map_option (Pair True)
                       (mark_good_inner env bucket_rand (peer_info info) False now st))))"

fun resolve_pending :: "net_env \<Rightarrow> nat \<Rightarrow> (node_id \<times> nat) list \<Rightarrow> Inner \<Rightarrow> Inner option" where
  "resolve_pending env now [] st = Some st"
| "resolve_pending env now ((node, bucket_rand) # ps) st =
     do { (resolved, st) \<leftarrow> resolve_one env now bucket_rand node st;
          resolve_pending env now ps
            (if resolved then st\<lparr>tried_collisions := filter (\<lambda>x. x \<noteq> node) (tried_collisions st)\<rparr>
             else st) }"

definition resolve_tried_collisions_inner ::
  "net_env \<Rightarrow> nat \<Rightarrow> (nat \<Rightarrow> nat) \<Rightarrow> Inner \<Rightarrow> Inner option" where
  "resolve_tried_collisions_inner env now rands st =
     (let pending = tried_collisions st in
      resolve_pending env now (zip pending (map rands [0..<length pending])) st)"

definition select_tried_collision_inner ::
  "net_env \<Rightarrow> (nat \<Rightarrow> nat) \<Rightarrow> Inner \<Rightarrow> ExtendedPeerInfo option \<times> Inner" where
  "select_tried_collision_inner env draw st =
     (let st = st\<lparr>tried_collisions :=
                   filter (\<lambda>n. fmlookup (map_info st) n \<noteq> None) (tried_collisions st)\<rparr>;
          n = length (tried_collisions st);
          result =
            (if n \<le> draw n then None
             else do { info \<leftarrow> fmlookup (map_info st) (tried_collisions st ! draw n);
                       let old_id = tried_matrix st (tried_slot env (am_key st) (peer_info info));
                       if old_id = EMPTY then None else fmlookup (map_info st) old_id })
      in (result, st))"

definition set_allow_private_subnets :: "bool \<Rightarrow> Inner \<Rightarrow> Inner" where
  "set_allow_private_subnets allow st = st\<lparr>allow_private_subnets := allow\<rparr>"

end
