(* ===== verification/Address_Book.thy ===== *)
theory Address_Book
  imports Address_Manager
begin

text \<open>
  Invariants of the address manager. \<open>book_ok\<close> relates the two matrices to the rows: every
  cell names an existing row of the right kind at the position the bucket arithmetic gives it,
  and the reference count of a row is the number of its cells. The lemmas of the first section
  update matrices and rows as plain functions; the operations of \<open>Address_Manager\<close> are
  compositions of those updates.
\<close>

section \<open>Matrices and rows\<close>

type_synonym row_view = "PeerInfo \<times> bool \<times> nat"

definition view_row :: "ExtendedPeerInfo \<Rightarrow> row_view" where
  "view_row r = (peer_info r, is_tried r, ref_count r)"

definition view :: "Inner \<Rightarrow> node_id \<Rightarrow> row_view option" where
  "view st n = map_option view_row (fmlookup (map_info st) n)"

definition cells :: "(slot \<Rightarrow> u32) \<Rightarrow> node_id \<Rightarrow> slot set" where
  "cells m i = {pos. m pos = i}"

text \<open>
  What the cells and the row of one node id owe each other: a row of the new table has as many
  new cells as its reference count says, all at its own positions; a tried row has exactly its
  tried slot; an id without a row has no cell.
\<close>

definition home_slots :: "net_env \<Rightarrow> bytes32 \<Rightarrow> PeerInfo \<Rightarrow> slot set" where
  "home_slots env key p = {(b, bucket_position env key True b p) | b. b < NEW_BUCKET_COUNT}"

fun id_ok ::
  "net_env \<Rightarrow> bytes32 \<Rightarrow> u32 \<Rightarrow> slot set \<Rightarrow> slot set \<Rightarrow> row_view option \<Rightarrow> node_id \<Rightarrow> bool" where
  "id_ok env key idc N T None i \<longleftrightarrow> N = {} \<and> T = {}"
| "id_ok env key idc N T (Some (p, t, n)) i \<longleftrightarrow>
     i \<le> idc \<and> n = card N \<and> N \<subseteq> home_slots env key p
     \<and> (if t then N = {} \<and> T = {tried_slot env key p} else T = {})"

definition book_ok ::
  "net_env \<Rightarrow> bytes32 \<Rightarrow> u32 \<Rightarrow> (slot \<Rightarrow> u32) \<Rightarrow> (slot \<Rightarrow> u32) \<Rightarrow> (node_id \<Rightarrow> row_view option)
     \<Rightarrow> bool" where
  "book_ok env key idc nm tm v \<longleftrightarrow>
     v EMPTY = None \<and> (\<forall>i. i \<noteq> EMPTY \<longrightarrow> id_ok env key idc (cells nm i) (cells tm i) (v i) i)"

lemma book_okD: "book_ok env key idc nm tm v \<Longrightarrow> i \<noteq> EMPTY \<Longrightarrow> id_ok env key idc (cells nm i) (cells tm i) (v i) i"
  by (simp add: book_ok_def)

lemma book_no_EMPTY: "book_ok env key idc nm tm v \<Longrightarrow> v i = Some r \<Longrightarrow> i \<noteq> EMPTY"
  by (auto simp: book_ok_def)

lemma cells_upd:
  "cells (m(pos := x)) i = (if x = i then insert pos (cells m i) else cells m i - {pos})"
  by (auto simp: cells_def)

lemma mem_cells: "pos \<in> cells m i \<longleftrightarrow> m pos = i"
  by (simp add: cells_def)

lemma cells_other: "m pos \<noteq> i \<Longrightarrow> cells m i - {pos} = cells m i"
  by (auto simp: cells_def)

lemma home_slots_finite [simp]: "finite (home_slots env key p)"
  by (simp add: home_slots_def setcompr_eq_image)

lemma card_home_slots: "N \<subseteq> home_slots env key p \<Longrightarrow> card N \<le> NEW_BUCKET_COUNT"
  by (rule card_image_below [of _ "\<lambda>b. (b, bucket_position env key True b p)"])
    (auto simp: home_slots_def)

lemma new_slot_home [simp]: "new_slot env key p s \<in> home_slots env key p"
  by (auto simp: home_slots_def new_slot_def Let_def)

text \<open>A step that touches the cells and the row of one id only.\<close>

lemma book_step:
  assumes "book_ok env key idc nm tm v" "i \<noteq> EMPTY" "idc \<le> idc'"
    and "\<And>j. j \<noteq> i \<Longrightarrow> j \<noteq> EMPTY \<Longrightarrow> cells nm' j = cells nm j"
    and "\<And>j. j \<noteq> i \<Longrightarrow> j \<noteq> EMPTY \<Longrightarrow> cells tm' j = cells tm j"
    and "id_ok env key idc' (cells nm' i) (cells tm' i) r i"
  shows "book_ok env key idc' nm' tm' (v(i := r))"
proof -
  have "id_ok env key idc' (cells nm' j) (cells tm' j) (v j) j" if "j \<noteq> i" "j \<noteq> EMPTY" for j
    using book_okD [OF assms(1) that(2)] that assms(3-5) by (cases "v j") auto
  then show ?thesis using assms(1,2,6) by (simp add: book_ok_def)
qed

lemma book_drop_ref:
  assumes b: "book_ok env key idc nm tm v" and c: "nm pos = i" "i \<noteq> EMPTY" and r: "v i = Some (p, t, n)"
  shows "book_ok env key idc (nm(pos := EMPTY)) tm (v(i \<mapsto> (p, t, n - 1)))"
    and "0 < n" and "\<not> t" and "n \<le> NEW_BUCKET_COUNT"
proof -
  have ok: "id_ok env key idc (cells nm i) (cells tm i) (Some (p, t, n)) i" and mem: "pos \<in> cells nm i"
    using book_okD [OF b c(2)] r c by (simp_all add: mem_cells)
  then show "0 < n" "\<not> t" "n \<le> NEW_BUCKET_COUNT"
    by (auto simp: card_gt_0_iff card_home_slots dest: finite_subset)
  show "book_ok env key idc (nm(pos := EMPTY)) tm (v(i \<mapsto> (p, t, n - 1)))"
    using b c ok mem by (intro book_step [OF b c(2)]) (auto simp: cells_upd cells_other dest: finite_subset)
qed

lemma book_delete:
  assumes b: "book_ok env key idc nm tm v" and r: "v i = Some (p, False, 0)"
  shows "book_ok env key idc nm tm (v(i := None))"
  using book_okD [OF b book_no_EMPTY [OF b r]] r
  by (intro book_step [OF b book_no_EMPTY [OF b r]]) (auto dest: finite_subset)

lemma book_put:
  assumes b: "book_ok env key idc nm tm v" and e: "nm pos = EMPTY" and r: "v i = Some (p, False, n)"
    and pos: "pos \<in> home_slots env key p"
  shows "book_ok env key idc (nm(pos := i)) tm (v(i \<mapsto> (p, False, Suc n)))" "n < NEW_BUCKET_COUNT"
proof -
  have i: "i \<noteq> EMPTY" by (rule book_no_EMPTY [OF b r])
  have ok: "id_ok env key idc (cells nm i) (cells tm i) (Some (p, False, n)) i" and mem: "pos \<notin> cells nm i"
    using book_okD [OF b i] r e i by (simp_all add: mem_cells)
  then have c: "card (insert pos (cells nm i)) = Suc n" by (auto dest: finite_subset)
  then show "n < NEW_BUCKET_COUNT"
    using card_home_slots [of "insert pos (cells nm i)" env key p] ok pos by simp
  show "book_ok env key idc (nm(pos := i)) tm (v(i \<mapsto> (p, False, Suc n)))"
    using ok pos e c by (intro book_step [OF b i]) (auto simp: cells_upd cells_other)
qed

lemma book_fresh:
  assumes b: "book_ok env key idc nm tm v" and i: "i \<noteq> EMPTY" "v i = None" "i \<le> idc'" "idc \<le> idc'"
  shows "book_ok env key idc' nm tm (v(i \<mapsto> (p, False, 0)))"
  using book_okD [OF b i(1)] i by (intro book_step [OF b]) auto

lemma book_untry:
  assumes b: "book_ok env key idc nm tm v" and i: "tm pos = i" "i \<noteq> EMPTY"
  shows "book_ok env key idc nm (tm(pos := EMPTY)) (v(i := None))"
    and "\<exists>p. v i = Some (p, True, 0) \<and> pos = tried_slot env key p"
proof -
  have ok: "id_ok env key idc (cells nm i) (cells tm i) (v i) i" and mem: "pos \<in> cells tm i"
    using book_okD [OF b i(2)] i by (simp_all add: mem_cells)
  then obtain p t n where r: "v i = Some (p, t, n)" by (cases "v i") auto
  then show "\<exists>p. v i = Some (p, True, 0) \<and> pos = tried_slot env key p"
    using ok mem by (auto split: if_splits)
  show "book_ok env key idc nm (tm(pos := EMPTY)) (v(i := None))"
    using ok mem r i by (intro book_step [OF b i(2)]) (auto simp: cells_upd cells_other split: if_splits)
qed

lemma book_try:
  assumes b: "book_ok env key idc nm tm v" and r: "v i = Some (p, False, 0)"
    and e: "tm (tried_slot env key p) = EMPTY"
  shows "book_ok env key idc nm (tm(tried_slot env key p := i)) (v(i \<mapsto> (p, True, 0)))"
  using book_okD [OF b book_no_EMPTY [OF b r]] r e
  by (intro book_step [OF b book_no_EMPTY [OF b r]]) (auto simp: cells_upd cells_other dest: finite_subset)

section \<open>The invariant of the state\<close>

text \<open>
  \<open>book env X st\<close>: the tables agree with the rows, the used-position sets mirror the
  matrices, every row has a place in the random order, and every row outside the exempt set
  \<open>X\<close> that is not tried still has a new cell.
\<close>

definition used_ok :: "(slot \<Rightarrow> u32) \<Rightarrow> slot fset \<Rightarrow> bool" where
  "used_ok m used \<longleftrightarrow> fset used = {pos. m pos \<noteq> EMPTY}"

definition ordered :: "Inner \<Rightarrow> bool" where
  "ordered st \<longleftrightarrow> (\<forall>i r. fmlookup (map_info st) i = Some r \<longrightarrow> ep_random_pos r \<noteq> None)"

definition live :: "node_id set \<Rightarrow> (node_id \<Rightarrow> row_view option) \<Rightarrow> bool" where
  "live X v \<longleftrightarrow> (\<forall>i p. v i = Some (p, False, 0) \<longrightarrow> i \<in> X)"

definition book :: "net_env \<Rightarrow> node_id set \<Rightarrow> Inner \<Rightarrow> bool" where
  "book env X st \<longleftrightarrow>
     book_ok env (am_key st) (id_count st) (new_matrix st) (tried_matrix st) (view st)
     \<and> used_ok (new_matrix st) (used_new_matrix_positions st)
     \<and> used_ok (tried_matrix st) (used_tried_matrix_positions st)
     \<and> ordered st \<and> live X (view st)"

text \<open>What the table operations leave alone.\<close>

definition frame :: "Inner \<Rightarrow> Inner \<Rightarrow> bool" where
  "frame st st' \<longleftrightarrow>
     am_key st' = am_key st \<and> id_count st' = id_count st \<and> tried_collisions st' = tried_collisions st
     \<and> allow_private_subnets st' = allow_private_subnets st \<and> last_good st' = last_good st"

lemma frame_refl [simp]: "frame st st"
  by (simp add: frame_def)

lemma frame_trans: "frame a b \<Longrightarrow> frame b c \<Longrightarrow> frame a c"
  by (simp add: frame_def)

lemma used_ok_upd [simp]:
  "used_ok m used \<Longrightarrow> used_ok (m(pos := EMPTY)) (used |-| {|pos|})"
  "used_ok m used \<Longrightarrow> x \<noteq> EMPTY \<Longrightarrow> used_ok (m(pos := x)) (finsert pos used)"
  by (auto simp: used_ok_def)

lemma view_fields [simp]:
  "view (st\<lparr>new_count := a\<rparr>) = view st" "view (st\<lparr>tried_count := b\<rparr>) = view st"
  "view (st\<lparr>random_pos := c\<rparr>) = view st" "view (st\<lparr>map_addr := d\<rparr>) = view st"
  "view (st\<lparr>last_good := e\<rparr>) = view st" "view (st\<lparr>allow_private_subnets := g\<rparr>) = view st" "view (st\<lparr>tried_collisions := f\<rparr>) = view st"
  "view (set_new_matrix pos x st) = view st" "view (set_tried_matrix pos x st) = view st"
  by (auto simp: view_def fun_eq_iff set_new_matrix_def set_tried_matrix_def)

lemma set_matrix_fields [simp]:
  "am_key (set_new_matrix pos x st) = am_key st" "id_count (set_new_matrix pos x st) = id_count st"
  "new_matrix (set_new_matrix pos x st) = (new_matrix st)(pos := x)"
  "tried_matrix (set_new_matrix pos x st) = tried_matrix st"
  "map_info (set_new_matrix pos x st) = map_info st"
  "used_new_matrix_positions (set_new_matrix pos x st) =
     (if x = EMPTY then used_new_matrix_positions st |-| {|pos|} else finsert pos (used_new_matrix_positions st))"
  "used_tried_matrix_positions (set_new_matrix pos x st) = used_tried_matrix_positions st"
  "am_key (set_tried_matrix pos x st) = am_key st" "id_count (set_tried_matrix pos x st) = id_count st"
  "tried_matrix (set_tried_matrix pos x st) = (tried_matrix st)(pos := x)"
  "new_matrix (set_tried_matrix pos x st) = new_matrix st"
  "map_info (set_tried_matrix pos x st) = map_info st"
  "used_tried_matrix_positions (set_tried_matrix pos x st) =
     (if x = EMPTY then used_tried_matrix_positions st |-| {|pos|} else finsert pos (used_tried_matrix_positions st))"
  "used_new_matrix_positions (set_tried_matrix pos x st) = used_new_matrix_positions st"
  "tried_collisions (set_tried_matrix pos x st) = tried_collisions st"
  "allow_private_subnets (set_tried_matrix pos x st) = allow_private_subnets st"
  "last_good (set_tried_matrix pos x st) = last_good st"
  "frame a (set_new_matrix pos x st) = frame a st" "frame a (set_tried_matrix pos x st) = frame a st"
  "ordered (set_new_matrix pos x st) = ordered st" "ordered (set_tried_matrix pos x st) = ordered st"
  by (simp_all add: set_new_matrix_def set_tried_matrix_def frame_def ordered_def)

lemma view_upd [simp]:
  "view (st\<lparr>map_info := fmupd n r m\<rparr>) = (view (st\<lparr>map_info := m\<rparr>))(n \<mapsto> view_row r)"
  "view (st\<lparr>map_info := fmdrop n m\<rparr>) = (view (st\<lparr>map_info := m\<rparr>))(n := None)"
  "view (st\<lparr>map_info := map_info st\<rparr>) = view st"
  by (auto simp: view_def fun_eq_iff)

lemma view_update_row:
  "fmlookup (map_info st) n = Some r \<Longrightarrow> view (update_row n f st) = (view st)(n \<mapsto> view_row (f r))"
  "fmlookup (map_info st) n = None \<Longrightarrow> update_row n f st = st"
  by (simp_all add: update_row_def)

lemma view_SomeD: "view st n = Some v \<Longrightarrow> \<exists>r. fmlookup (map_info st) n = Some r \<and> view_row r = v"
  by (auto simp: view_def)

lemma view_lookup: "fmlookup (map_info st) n = Some r \<Longrightarrow> view st n = Some (view_row r)"
  by (simp add: view_def)

lemma view_None_iff: "view st n = None \<longleftrightarrow> fmlookup (map_info st) n = None"
  by (simp add: view_def)

lemma update_row_frame [simp]:
  "frame st (update_row n f st)" "new_matrix (update_row n f st) = new_matrix st"
  "tried_matrix (update_row n f st) = tried_matrix st" "random_pos (update_row n f st) = random_pos st"
  "used_new_matrix_positions (update_row n f st) = used_new_matrix_positions st"
  "used_tried_matrix_positions (update_row n f st) = used_tried_matrix_positions st"
  by (auto simp: update_row_def frame_def split: option.split)

lemma ordered_update_row:
  "ordered st \<Longrightarrow> (\<And>r. ep_random_pos r \<noteq> None \<Longrightarrow> ep_random_pos (f r) \<noteq> None) \<Longrightarrow> ordered (update_row n f st)"
  by (auto simp: ordered_def update_row_def split: option.split if_splits)

lemma view_update_row_same:
  "(\<And>r. view_row (f r) = view_row r) \<Longrightarrow> view (update_row n f st) = view st"
  by (cases "fmlookup (map_info st) n") (auto simp: view_update_row view_def fun_eq_iff)

lemma dec32_exact: "0 < n \<Longrightarrow> n \<le> NEW_BUCKET_COUNT \<Longrightarrow> dec32 n = n - 1"
  by (simp add: dec32_def bucket_consts mod_if)

lemma inc32_exact: "n < NEW_BUCKET_COUNT \<Longrightarrow> inc32 n = Suc n"
  by (simp add: inc32_def bucket_consts)

text \<open>Two states that agree on everything the invariant reads.\<close>

definition same_tables :: "Inner \<Rightarrow> Inner \<Rightarrow> bool" where
  "same_tables st st' \<longleftrightarrow>
     frame st st' \<and> new_matrix st' = new_matrix st \<and> tried_matrix st' = tried_matrix st
     \<and> used_new_matrix_positions st' = used_new_matrix_positions st
     \<and> used_tried_matrix_positions st' = used_tried_matrix_positions st"

lemma book_frame:
  "book env X st \<Longrightarrow> same_tables st st' \<Longrightarrow> view st' = view st \<Longrightarrow> ordered st' \<Longrightarrow> book env X st'"
  by (simp add: book_def same_tables_def frame_def)

lemma swap_random_same:
  assumes "swap_random a b st = Some st'"
  shows "same_tables st st'" "view st' = view st" "ordered st \<Longrightarrow> ordered st'"
    "length (random_pos st') = length (random_pos st)"
proof -
  let ?u = "update_row (random_pos st ! b) (\<lambda>i. i\<lparr>ep_random_pos := Some a\<rparr>)
      (update_row (random_pos st ! a) (\<lambda>i. i\<lparr>ep_random_pos := Some b\<rparr>) st)"
  have "st' = st \<or> st' = ?u\<lparr>random_pos := (random_pos ?u)[a := random_pos st ! b, b := random_pos st ! a]\<rparr>"
    using assms by (auto simp: swap_random_def Let_def split: if_splits)
  moreover have "view ?u = view st" by (simp add: view_update_row_same view_row_def)
  moreover have "ordered ?u" if "ordered st" using that by (intro ordered_update_row) auto
  moreover have "frame st ?u" by (blast intro: frame_trans update_row_frame)
  ultimately show "same_tables st st'" "view st' = view st" "ordered st \<Longrightarrow> ordered st'"
      "length (random_pos st') = length (random_pos st)"
    by (auto simp: same_tables_def frame_def ordered_def)
qed

lemma delete_new_entry_effect:
  assumes d: "delete_new_entry n st = Some st'" and o: "ordered st" and r: "view st n = Some v"
  shows "same_tables st st'" "view st' = (view st)(n := None)" "ordered st'"
proof -
  obtain row where row: "fmlookup (map_info st) n = Some row" using view_SomeD [OF r] by blast
  then obtain rp where rp: "ep_random_pos row = Some rp" using o by (auto simp: ordered_def)
  obtain st1 where s1: "swap_random rp (length (random_pos st) - 1) st = Some st1"
    and st': "st' = st1\<lparr>random_pos := butlast (random_pos st1), map_info := fmdrop n (map_info st1),
        map_addr := fmdrop (pi_host (peer_info row)) (map_addr st1), new_count := dec32 (new_count st1)\<rparr>"
    using d row rp by (auto simp: delete_new_entry_def split: if_splits option.splits)
  note sw = swap_random_same [OF s1]
  have "view st' = (view st1)(n := None)" unfolding st' by (auto simp: view_def fun_eq_iff)
  then show "view st' = (view st)(n := None)" using sw by simp
  show "same_tables st st'" using sw(1) unfolding st' by (simp add: same_tables_def frame_def)
  show "ordered st'" using sw(3) o unfolding st' by (auto simp: ordered_def)
qed

lemma delete_new_entry_book:
  assumes d: "delete_new_entry n st = Some st'" and b: "book env X st" and r: "view st n = Some (p, False, 0)"
  shows "book env (X - {n}) st'"
proof -
  note eff = delete_new_entry_effect [OF d _ r]
  have "ordered st" using b by (simp add: book_def)
  from eff(1,2,3) [OF this] show ?thesis
    using b book_delete [where v = "view st", OF _ r]
    by (auto simp: book_def same_tables_def frame_def live_def)
qed

text \<open>\<open>clear_new\<close> empties the cell and drops one reference of its row, with the row itself
  when that was the last.\<close>

definition dropped :: "row_view \<Rightarrow> row_view option" where
  "dropped v = (case v of (p, t, n) \<Rightarrow> if n \<le> 1 then None else Some (p, t, n - 1))"

definition drop_cell :: "slot \<Rightarrow> Inner \<Rightarrow> Inner" where
  "drop_cell pos st = set_new_matrix pos EMPTY
     (update_row (new_matrix st pos) (\<lambda>i. i\<lparr>ref_count := dec32 (ref_count i)\<rparr>) st)"

lemma clear_new_eq:
  "clear_new pos st =
     (if new_matrix st pos = EMPTY then Some st
      else case fmlookup (map_info (drop_cell pos st)) (new_matrix st pos) of
             None \<Rightarrow> Some (drop_cell pos st)
           | Some info \<Rightarrow> (if ref_count info = 0 then delete_new_entry (new_matrix st pos) (drop_cell pos st)
                           else Some (drop_cell pos st)))"
  unfolding clear_new_def drop_cell_def Let_def by (rule refl)

lemma cell_row:
  assumes "book_ok env key idc nm tm v" "nm pos \<noteq> EMPTY"
  shows "\<exists>p n. v (nm pos) = Some (p, False, n)"
proof -
  have "pos \<in> cells nm (nm pos)" by (simp add: mem_cells)
  then show ?thesis using book_okD [OF assms] by (cases "v (nm pos)") (auto split: if_splits)
qed

lemma no_new_cell:
  assumes b: "book_ok env key idc nm tm v" and i: "i \<noteq> EMPTY" "v i = None \<or> v i = Some (p, t, 0)"
  shows "i \<noteq> nm pos"
proof -
  have "cells nm i = {}"
    using book_okD [OF b i(1)] i(2) finite_subset [OF _ home_slots_finite, of "cells nm i" env key p] by auto
  then show ?thesis using mem_cells [of pos nm i] by auto
qed

lemma drop_cell_effect:
  assumes b: "book env X st" and i: "new_matrix st pos = i" "i \<noteq> EMPTY" and v: "view st i = Some (p, t, n)"
  shows "book env (insert i X) (drop_cell pos st)" "view (drop_cell pos st) = (view st)(i \<mapsto> (p, t, n - 1))"
    and "frame st (drop_cell pos st)" "new_matrix (drop_cell pos st) = (new_matrix st)(pos := EMPTY)"
    and "tried_matrix (drop_cell pos st) = tried_matrix st" "0 < n" "\<not> t" "ordered (drop_cell pos st)"
proof -
  have bo: "book_ok env (am_key st) (id_count st) (new_matrix st) (tried_matrix st) (view st)"
    and o: "ordered st"
    using b by (simp_all add: book_def)
  note drop = book_drop_ref [OF bo i v]
  show n: "0 < n" "\<not> t" using drop by auto
  obtain r where r: "fmlookup (map_info st) i = Some r" "view_row r = (p, t, n)"
    using view_SomeD [OF v] by blast
  then have "view_row (r\<lparr>ref_count := dec32 (ref_count r)\<rparr>) = (p, t, n - 1)"
    using n drop(4) by (auto simp: view_row_def dec32_exact)
  then show v2: "view (drop_cell pos st) = (view st)(i \<mapsto> (p, t, n - 1))"
    using r i by (simp add: drop_cell_def view_update_row)
  show o2: "ordered (drop_cell pos st)"
    using ordered_update_row [OF o, of "\<lambda>r. r\<lparr>ref_count := dec32 (ref_count r)\<rparr>" i] i
    by (simp add: drop_cell_def set_new_matrix_def ordered_def)
  show fr: "frame st (drop_cell pos st)" and nm: "new_matrix (drop_cell pos st) = (new_matrix st)(pos := EMPTY)"
    and tm: "tried_matrix (drop_cell pos st) = tried_matrix st"
    using update_row_frame(1) [of st i] by (simp_all add: drop_cell_def i set_new_matrix_def frame_def)
  show "book env (insert i X) (drop_cell pos st)"
    using b drop(1) v2 o2 fr nm tm
    by (auto simp: book_def frame_def live_def drop_cell_def set_new_matrix_def)
qed

lemma book_mono: "book env X st \<Longrightarrow> X \<subseteq> Y \<Longrightarrow> book env Y st"
  by (auto simp: book_def live_def)

lemma clear_new_occupied:
  assumes c: "clear_new pos st = Some st'" and b: "book env X st"
    and i: "new_matrix st pos = i" "i \<noteq> EMPTY" and v: "view st i = Some (p, t, n)"
  shows "book env X st' \<and> frame st st' \<and> new_matrix st' = (new_matrix st)(pos := EMPTY)
      \<and> tried_matrix st' = tried_matrix st \<and> view st' = (view st)(i := dropped (p, t, n))"
proof -
  note d = drop_cell_effect [OF b i v]
  obtain r where r: "fmlookup (map_info (drop_cell pos st)) i = Some r" "view_row r = (p, t, n - 1)"
    using d(2) view_SomeD [of "drop_cell pos st" i] by auto
  show ?thesis
  proof (cases "n \<le> 1")
    case True
    then have del: "delete_new_entry i (drop_cell pos st) = Some st'"
      using c i r by (simp add: clear_new_eq view_row_def)
    have v0: "view (drop_cell pos st) i = Some (p, False, 0)" using d True by simp
    from delete_new_entry_book [OF del d(1) v0] have "book env X st'" by (rule book_mono) auto
    then show ?thesis
      using delete_new_entry_effect [OF del d(8) v0] d True
      by (auto simp: same_tables_def frame_def dropped_def)
  next
    case False
    then have st': "st' = drop_cell pos st" using c i r by (simp add: clear_new_eq view_row_def)
    have "book env X st'"
      using d(1,2) False v unfolding st' by (auto simp: book_def live_def split: if_splits)
    then show ?thesis using d False st' by (auto simp: dropped_def)
  qed
qed

lemma clear_new_effect:
  assumes c: "clear_new pos st = Some st'" and b: "book env X st"
  shows "book env X st'" "frame st st'" "new_matrix st' = (new_matrix st)(pos := EMPTY)"
    "tried_matrix st' = tried_matrix st"
    "i \<noteq> new_matrix st pos \<Longrightarrow> view st' i = view st i"
proof -
  have "st' = st" if "new_matrix st pos = EMPTY" using c that by (simp add: clear_new_def)
  moreover have "book env X st' \<and> frame st st' \<and> new_matrix st' = (new_matrix st)(pos := EMPTY)
      \<and> tried_matrix st' = tried_matrix st \<and> (i \<noteq> new_matrix st pos \<longrightarrow> view st' i = view st i)"
    if ne: "new_matrix st pos \<noteq> EMPTY"
  proof -
    obtain p n where v: "view st (new_matrix st pos) = Some (p, False, n)"
      using cell_row [where nm = "new_matrix st", OF _ ne] b unfolding book_def by blast
    show ?thesis using clear_new_occupied [OF c b refl ne v] by simp
  qed
  ultimately show "book env X st'" "frame st st'" "new_matrix st' = (new_matrix st)(pos := EMPTY)"
    "tried_matrix st' = tried_matrix st" "i \<noteq> new_matrix st pos \<Longrightarrow> view st' i = view st i"
    using b by (cases "new_matrix st pos = EMPTY"; auto simp: fun_eq_iff)+
qed

text \<open>Placing a row: afterwards nothing is exempt any more.\<close>

lemma place_put:
  assumes b: "book env {n} st" and e: "new_matrix st pos = EMPTY"
    and r: "fmlookup (map_info st) n = Some r" and t: "\<not> is_tried r"
    and h: "pos \<in> home_slots env (am_key st) (peer_info r)"
  shows "book env {} (set_new_matrix pos n
      (st\<lparr>map_info := fmupd n (r\<lparr>ref_count := inc32 (ref_count r)\<rparr>) (map_info st)\<rparr>))"
proof -
  have v: "view st n = Some (peer_info r, False, ref_count r)" using r t by (simp add: view_def view_row_def)
  have bo: "book_ok env (am_key st) (id_count st) (new_matrix st) (tried_matrix st) (view st)"
    using b by (simp add: book_def)
  note put = book_put [OF bo e v h] and n = book_no_EMPTY [OF bo v]
  have "view_row (r\<lparr>ref_count := inc32 (ref_count r)\<rparr>) = (peer_info r, False, Suc (ref_count r))"
    using t put(2) by (simp add: view_row_def inc32_exact)
  moreover have "ordered (st\<lparr>map_info := fmupd n (r\<lparr>ref_count := inc32 (ref_count r)\<rparr>) (map_info st)\<rparr>)"
    using b r by (auto simp: book_def ordered_def)
  ultimately show ?thesis
    using b put(1) n by (auto simp: book_def live_def)
qed

lemma place_new_book:
  assumes p: "place_new env now2 src n st = Some st'" and b: "book env {n} st"
    and v: "view st n = Some (pp, False, k)"
  shows "book env {} st'" "frame st st'"
proof -
  obtain r where r: "fmlookup (map_info st) n = Some r" "view_row r = (pp, False, k)"
    using view_SomeD [OF v] by blast
  define pos where "pos = new_slot env (am_key st) (peer_info r) src"
  have keep: "book env {} st" if "k \<noteq> 0" using b v that by (auto simp: book_def live_def)
  have "book env {} st' \<and> frame st st'"
  proof (cases "new_matrix st pos = n")
    case True
    have bo: "book_ok env (am_key st) (id_count st) (new_matrix st) (tried_matrix st) (view st)"
      using b by (simp add: book_def)
    have "0 < k" using book_drop_ref(2) [OF bo True book_no_EMPTY [OF bo v] v] .
    then show ?thesis using p r True keep by (simp add: place_new_def pos_def)
  next
    case False
    consider (put) st1 row where "clear_new pos st = Some st1" "fmlookup (map_info st1) n = Some row"
        "st' = set_new_matrix pos n (st1\<lparr>map_info := fmupd n (row\<lparr>ref_count := inc32 (ref_count row)\<rparr>) (map_info st1)\<rparr>)"
      | (del) "ref_count r = 0" "delete_new_entry n st = Some st'" | (keep) "ref_count r \<noteq> 0" "st' = st"
      using p r False by (auto simp: place_new_def pos_def [symmetric] bind_eq_Some_conv split: if_splits)
    then show ?thesis
    proof cases
      case put
      note c = clear_new_effect [OF put(1) b]
      have "view_row row = (pp, False, k)"
        using c(5) [of n] False v put(2) by (auto simp: view_def)
      then have "book env {} st'" unfolding put(3)
        using c r by (intro place_put) (auto simp: put(2) view_row_def frame_def pos_def)
      then show ?thesis using c(2) put(3) by (simp add: frame_def set_new_matrix_def)
    next
      case del
      then have "k = 0" using r by (simp add: view_row_def)
      then show ?thesis
        using delete_new_entry_book [OF del(2) b] delete_new_entry_effect(1) [OF del(2) _ v] v b
        by (simp add: same_tables_def book_def)
    next
      case keep
      then show ?thesis using \<open>k \<noteq> 0 \<Longrightarrow> book env {} st\<close> r by (simp add: view_row_def)
    qed
  qed
  then show "book env {} st'" "frame st st'" by blast+
qed

section \<open>Promotion keeps the invariant\<close>

lemma clear_ref_effect:
  assumes c: "clear_ref env n bk st = Some st'" and b: "book env {n} st" and bk: "bk < NEW_BUCKET_COUNT"
    and v: "view st n = Some (pp, False, k)"
  shows "book env {n} st' \<and> frame st st' \<and> tried_matrix st' = tried_matrix st
    \<and> (\<exists>k'. view st' n = Some (pp, False, k'))
    \<and> cells (new_matrix st') n = cells (new_matrix st) n - {(bk, bucket_position env (am_key st) True bk pp)}"
proof -
  obtain r where r: "fmlookup (map_info st) n = Some r" "view_row r = (pp, False, k)"
    using view_SomeD [OF v] by blast
  define pos where "pos = (bk, bucket_position env (am_key st) True bk pp)"
  have bo: "book_ok env (am_key st) (id_count st) (new_matrix st) (tried_matrix st) (view st)"
    using b by (simp add: book_def)
  show ?thesis
  proof (cases "new_matrix st pos = n")
    case True
    note d = drop_cell_effect [OF b True book_no_EMPTY [OF bo v] v]
    have "dec32 (ref_count r) = ref_count r - 1"
      using book_drop_ref(2,4) [OF bo True book_no_EMPTY [OF bo v] v] r by (simp add: view_row_def dec32_exact)
    then have "st' = drop_cell pos st"
      using c r True by (simp add: clear_ref_def drop_cell_def update_row_def pos_def [symmetric] view_row_def)
    then show ?thesis
      using d book_no_EMPTY [OF bo v] by (auto simp: cells_upd pos_def)
  next
    case False
    then have "st' = st" using c r by (simp add: clear_ref_def pos_def [symmetric] view_row_def)
    then show ?thesis using b v False by (auto simp: cells_def pos_def)
  qed
qed

lemma clear_refs_effect:
  assumes "clear_refs env n bs st = Some st'" "book env {n} st" "set bs \<subseteq> {..<NEW_BUCKET_COUNT}"
    and "view st n = Some (pp, False, k)"
  shows "book env {n} st' \<and> frame st st' \<and> tried_matrix st' = tried_matrix st
    \<and> (\<exists>k'. view st' n = Some (pp, False, k'))
    \<and> cells (new_matrix st') n =
        cells (new_matrix st) n - (\<lambda>b. (b, bucket_position env (am_key st) True b pp)) ` set bs"
  using assms
proof (induction bs arbitrary: st k)
  case Nil
  then show ?case by simp
next
  case (Cons b bs)
  obtain st1 where s1: "clear_ref env n b st = Some st1" "clear_refs env n bs st1 = Some st'"
    using Cons.prems(1) by (auto simp: bind_eq_Some_conv)
  note e = clear_ref_effect [OF s1(1) Cons.prems(2) _ Cons.prems(4)]
  then obtain k1 where vn: "view st1 n = Some (pp, False, k1)" using Cons.prems(3) by auto
  have b1: "book env {n} st1" "frame st st1" using e Cons.prems(3) by auto
  have key: "am_key st1 = am_key st" using b1 by (simp add: frame_def)
  have "frame st1 st' \<Longrightarrow> frame st st'" by (rule frame_trans [OF b1(2)])
  then show ?case
    using Cons.IH [OF s1(2) b1(1) _ vn] e Cons.prems(3) key by auto
qed

lemma clear_all_refs:
  assumes c: "clear_refs env n [0..<NEW_BUCKET_COUNT] st = Some st'" and b: "book env {n} st"
    and v: "view st n = Some (pp, False, k)"
  shows "book env {n} st'" "frame st st'" "tried_matrix st' = tried_matrix st"
    "view st' n = Some (pp, False, 0)"
proof -
  note e = clear_refs_effect [OF c b _ v]
  have set: "set [0..<NEW_BUCKET_COUNT] \<subseteq> {..<NEW_BUCKET_COUNT}" by auto
  show b': "book env {n} st'" "frame st st'" "tried_matrix st' = tried_matrix st" using e set by auto
  obtain k' where k': "view st' n = Some (pp, False, k')" using e set by auto
  have bo: "book_ok env (am_key st) (id_count st) (new_matrix st) (tried_matrix st) (view st)"
    and bo': "book_ok env (am_key st') (id_count st') (new_matrix st') (tried_matrix st') (view st')"
    using b b' by (simp_all add: book_def)
  have n: "n \<noteq> EMPTY" by (rule book_no_EMPTY [OF bo v])
  have "cells (new_matrix st) n \<subseteq> home_slots env (am_key st) pp" using book_okD [OF bo n] v by simp
  then have "cells (new_matrix st') n = {}" using e set by (auto simp: home_slots_def)
  then have "k' = 0" using book_okD [OF bo' n] k' by simp
  then show "view st' n = Some (pp, False, 0)" using k' by simp
qed

lemma book_count_fields [simp]:
  "book env X (st\<lparr>new_count := a\<rparr>) = book env X st" "book env X (st\<lparr>tried_count := a\<rparr>) = book env X st"
  "book env X (st\<lparr>last_good := a\<rparr>) = book env X st" "book env X (st\<lparr>tried_collisions := c\<rparr>) = book env X st"
  "book env X (st\<lparr>allow_private_subnets := d\<rparr>) = book env X st"
  by (simp_all add: book_def ordered_def)

lemma evict_untry:
  assumes b: "book env {n} st" and ne: "tried_matrix st cur \<noteq> EMPTY"
  defines "ev \<equiv> tried_matrix st cur"
  defines "st2 \<equiv> set_tried_matrix cur EMPTY (st\<lparr>map_info := fmdrop ev (map_info st)\<rparr>)"
  shows "book env {n} st2" "view st2 = (view st)(ev := None)" "frame st st2"
    "\<exists>p. view st ev = Some (p, True, 0)"
proof -
  have bo: "book_ok env (am_key st) (id_count st) (new_matrix st) (tried_matrix st) (view st)"
    using b by (simp add: book_def)
  note u = book_untry [OF bo meta_eq_to_obj_eq [OF ev_def, symmetric] ne [folded ev_def]]
  show v2: "view st2 = (view st)(ev := None)" and fr: "frame st st2"
    by (simp_all add: st2_def frame_def)
  show "\<exists>p. view st ev = Some (p, True, 0)" using u(2) by blast
  have "ordered (st\<lparr>map_info := fmdrop ev (map_info st)\<rparr>)" using b by (auto simp: book_def ordered_def)
  then show "book env {n} st2"
    using b u(1) v2 by (auto simp: book_def st2_def live_def)
qed

lemma evict_put:
  assumes b: "book env X st" and e: "new_matrix st np = EMPTY" and none: "view st ev = None"
    and ev: "ev \<noteq> EMPTY" "ev \<le> id_count st" and row: "\<not> is_tried r" "ref_count r = 1" "ep_random_pos r \<noteq> None"
    and h: "np \<in> home_slots env (am_key st) (peer_info r)"
  shows "book env X ((set_new_matrix np ev st)\<lparr>map_info := fmupd ev r (map_info st)\<rparr>)"
proof -
  have bo: "book_ok env (am_key st) (id_count st) (new_matrix st) (tried_matrix st) (view st)"
    using b by (simp add: book_def)
  have "book_ok env (am_key st) (id_count st) (new_matrix st) (tried_matrix st) ((view st)(ev \<mapsto> (peer_info r, False, 0)))"
    using book_fresh [OF bo ev(1) none ev(2)] by simp
  from book_put(1) [OF this e _ h, of ev]
  have bo': "book_ok env (am_key st) (id_count st) ((new_matrix st)(np := ev)) (tried_matrix st)
      ((view st)(ev \<mapsto> (peer_info r, False, 1)))" by simp
  have vr: "view_row r = (peer_info r, False, 1)" using row by (simp add: view_row_def)
  have "view ((set_new_matrix np ev st)\<lparr>map_info := fmupd ev r (map_info st)\<rparr>)
      = (view st)(ev \<mapsto> (peer_info r, False, 1))"
    using vr by (auto simp: view_def fun_eq_iff)
  then show ?thesis
    using b bo' ev row by (auto simp: book_def live_def ordered_def)
qed

lemma evict_tried_effect:
  assumes e: "evict_tried env cur st = Some st'" and b: "book env {n} st" and v: "view st n = Some (pp, False, 0)"
  shows "book env {n} st' \<and> frame st st' \<and> tried_matrix st' = (tried_matrix st)(cur := EMPTY)
    \<and> view st' n = view st n"
proof (cases "tried_matrix st cur = EMPTY")
  case True
  then show ?thesis using e b by (auto simp: evict_tried_def fun_eq_iff)
next
  case False
  define ev where "ev = tried_matrix st cur"
  define st2 where "st2 = set_tried_matrix cur EMPTY (st\<lparr>map_info := fmdrop ev (map_info st)\<rparr>)"
  have bo: "book_ok env (am_key st) (id_count st) (new_matrix st) (tried_matrix st) (view st)"
    using b by (simp add: book_def)
  note u = evict_untry [OF b False, folded ev_def, folded st2_def]
  obtain r where r: "fmlookup (map_info st) ev = Some r" using u(4) view_SomeD by blast
  define np where "np = new_slot env (am_key st) (peer_info r) (ep_src r)"
  define st2' where "st2' = st2\<lparr>tried_count := dec32 (tried_count st2)\<rparr>"
  obtain st3 where c: "clear_new np st2' = Some st3"
    and st': "st' = (set_new_matrix np ev st3)\<lparr>new_count := inc32 (new_count (set_new_matrix np ev st3)),
        map_info := fmupd ev (r\<lparr>is_tried := False, ref_count := 1\<rparr>) (map_info (set_new_matrix np ev st3))\<rparr>"
    using e False r by (auto simp: evict_tried_def ev_def [symmetric] st2_def [symmetric] st2'_def np_def
        bind_eq_Some_conv Let_def)
  note eff = clear_new_effect [OF c, of env "{n}"]
  have b2: "book env {n} st2'" using u(1) by (simp add: st2'_def)
  have bo2: "book_ok env (am_key st2') (id_count st2') (new_matrix st2') (tried_matrix st2') (view st2')"
    using b2 by (simp add: book_def)
  have ev: "ev \<noteq> n" "ev \<noteq> EMPTY" using u(4) v False ev_def by auto
  have v2: "view st2' = (view st)(ev := None)" using u(2) by (simp add: st2'_def)
  note unheld = no_new_cell [OF bo2, where pos = np]
  have n: "n \<noteq> EMPTY" using v bo book_no_EMPTY by blast
  have evn: "view st3 ev = None" using eff(5) [OF b2 unheld [OF ev(2)]] v2 by simp
  have vn: "view st3 n = view st n" using eff(5) [OF b2 unheld [OF n]] v2 v ev by simp
  have idle: "ev \<le> id_count st" using book_okD [OF bo ev(2)] u(4) by auto
  have rp: "ep_random_pos r \<noteq> None" using b r by (auto simp: book_def ordered_def)
  have key: "am_key st3 = am_key st" "id_count st3 = id_count st"
    using eff(2) [OF b2] u(3) by (simp_all add: frame_def st2'_def)
  have b3: "book env {n} ((set_new_matrix np ev st3)\<lparr>map_info := fmupd ev (r\<lparr>is_tried := False, ref_count := 1\<rparr>)
      (map_info st3)\<rparr>)"
    using eff(1,3) [OF b2] evn ev rp key idle by (intro evict_put) (auto simp: np_def)
  have "st' = (set_new_matrix np ev st3)\<lparr>map_info := fmupd ev (r\<lparr>is_tried := False, ref_count := 1\<rparr>)
      (map_info st3)\<rparr>\<lparr>new_count := inc32 (new_count (set_new_matrix np ev st3))\<rparr>"
    unfolding st' by simp
  then have "book env {n} st'" using b3 by (simp only: book_count_fields)
  moreover have "frame st st'" using eff(2) [OF b2] u(3) unfolding st' by (simp add: frame_def st2'_def set_new_matrix_def)
  moreover have "tried_matrix st' = (tried_matrix st)(cur := EMPTY)"
    using eff(4) [OF b2] unfolding st' by (simp add: st2'_def st2_def)
  moreover have "view st' n = view st n" using vn ev unfolding st' by (auto simp: view_def)
  ultimately show ?thesis by simp
qed

lemma make_tried_book:
  assumes m: "make_tried env n st = Some st'" and b: "book env {} st" and v: "view st n = Some (pp, False, k)"
  shows "book env {} st'" "frame st st'" "view st' n = Some (pp, True, 0)"
    "tried_matrix st' (tried_slot env (am_key st) pp) = n"
proof -
  obtain st1 where c: "clear_refs env n [0..<NEW_BUCKET_COUNT] st = Some st1"
    using m by (auto simp: make_tried_def bind_eq_Some_conv)
  note c1 = clear_all_refs [OF c book_mono [OF b] v, simplified]
  obtain r where r: "fmlookup (map_info st1) n = Some r" "view_row r = (pp, False, 0)"
    using c1(4) view_SomeD [of st1 n] by auto
  define cur where "cur = tried_slot env (am_key st) pp"
  have key: "am_key st1 = am_key st" using c1(2) by (simp add: frame_def)
  obtain st3 where e: "evict_tried env cur (st1\<lparr>new_count := new_count st1 - 1\<rparr>) = Some st3"
    and st': "st' = update_row n (\<lambda>i. i\<lparr>is_tried := True\<rparr>)
        ((set_tried_matrix cur n st3)\<lparr>tried_count := inc32 (tried_count (set_tried_matrix cur n st3))\<rparr>)"
    using m c r key by (auto simp: make_tried_def bind_eq_Some_conv cur_def view_row_def Let_def)
  have e3: "book env {n} st3 \<and> frame st1 st3 \<and> tried_matrix st3 = (tried_matrix st1)(cur := EMPTY)
      \<and> view st3 n = Some (pp, False, 0)"
    using evict_tried_effect [OF e, of n pp] c1(1,4) by (simp add: frame_def)
  obtain r3 where r3: "fmlookup (map_info st3) n = Some r3" "view_row r3 = (pp, False, 0)"
    using e3 view_SomeD by blast
  have v': "view st' = (view st3)(n \<mapsto> (pp, True, 0))"
    using r3 unfolding st' by (auto simp: view_update_row view_row_def)
  show fr: "frame st st'"
    using c1(2) e3 update_row_frame(1) unfolding st' frame_def by simp
  have bo3: "book_ok env (am_key st3) (id_count st3) (new_matrix st3) (tried_matrix st3) (view st3)"
    using e3 unfolding book_def by blast
  have key3: "am_key st3 = am_key st" using e3 key by (simp add: frame_def)
  show "view st' n = Some (pp, True, 0)" using v' by simp
  show "tried_matrix st' (tried_slot env (am_key st) pp) = n" unfolding st' cur_def by simp
  have "ordered st'"
    unfolding st' using e3 by (intro ordered_update_row) (auto simp: book_def ordered_def)
  moreover have "am_key st' = am_key st3" "id_count st' = id_count st3"
    using update_row_frame(1) unfolding st' frame_def by simp_all
  moreover have "book_ok env (am_key st3) (id_count st3) (new_matrix st') (tried_matrix st') (view st')"
    using book_try [OF bo3, of n pp] e3 key3 unfolding v' by (simp add: st' cur_def)
  moreover have "live {} (view st')" using e3 unfolding v' book_def live_def by auto
  moreover have "used_ok (new_matrix st') (used_new_matrix_positions st')"
    "used_ok (tried_matrix st') (used_tried_matrix_positions st')"
    using used_ok_upd(2) [of "tried_matrix st3" "used_tried_matrix_positions st3" n cur]
      e3 book_no_EMPTY [OF bo3, of n] by (auto simp: st' book_def)
  ultimately show "book env {} st'" by (simp add: book_def)
qed

section \<open>Every operation keeps the invariant\<close>

lemma book_row_update:
  assumes b: "book env {} st" and r: "fmlookup (map_info st) n = Some r"
    and s: "view_row r' = view_row r" "ep_random_pos r' = ep_random_pos r"
  shows "book env {} (st\<lparr>map_info := fmupd n r' (map_info st)\<rparr>)"
proof -
  have "view (st\<lparr>map_info := fmupd n r' (map_info st)\<rparr>) = view st"
    using r s(1) by (auto simp: view_def fun_eq_iff)
  moreover have "ordered (st\<lparr>map_info := fmupd n r' (map_info st)\<rparr>)"
    using b r s(2) by (auto simp: book_def ordered_def)
  ultimately show ?thesis using b by (simp add: book_def)
qed

lemma am_find_SomeD: "am_find st p = (Some n, Some r) \<Longrightarrow> fmlookup (map_info st) n = Some r"
  by (auto simp: am_find_def split: option.splits)

text \<open>\<open>mark_good_\<close> updates the row first; what follows starts from that state.\<close>

definition touched :: "node_id \<Rightarrow> ExtendedPeerInfo \<Rightarrow> nat \<Rightarrow> Inner \<Rightarrow> Inner" where
  "touched n r ts st = st\<lparr>last_good := ts,
     map_info := fmupd n (r\<lparr>last_success := ts, last_try := ts, num_attempts := 0\<rparr>) (map_info st)\<rparr>"

lemma touched_fields [simp]:
  "am_key (touched n r ts st) = am_key st" "id_count (touched n r ts st) = id_count st"
  "tried_collisions (touched n r ts st) = tried_collisions st"
  "new_matrix (touched n r ts st) = new_matrix st" "tried_matrix (touched n r ts st) = tried_matrix st"
  by (simp_all add: touched_def)

lemma touched_book:
  assumes b: "book env {} st" and r: "fmlookup (map_info st) n = Some r"
  shows "book env {} (touched n r ts st)" "view (touched n r ts st) = view st"
proof -
  let ?st = "st\<lparr>map_info := fmupd n (r\<lparr>last_success := ts, last_try := ts, num_attempts := 0\<rparr>) (map_info st)\<rparr>"
  have t: "touched n r ts st = ?st\<lparr>last_good := ts\<rparr>" by (simp add: touched_def)
  have "book env {} ?st" by (rule book_row_update [OF b r]) (simp_all add: view_row_def)
  then show "book env {} (touched n r ts st)" unfolding t by (simp only: book_count_fields)
  show "view (touched n r ts st) = view st"
    using r by (auto simp: touched_def view_def fun_eq_iff view_row_def)
qed

lemma mark_good_eq:
  "mark_good_inner env br addr tbe ts st =
     (case am_find st addr of
        (Some n, Some r) \<Rightarrow>
          (if host_is_private env (pi_host addr) \<and> \<not> allow_private_subnets st \<or> peer_info r \<noteq> addr
           then Some (st\<lparr>last_good := ts\<rparr>)
           else if is_tried r \<or> \<not> in_new_table env (touched n r ts st) n (peer_info r) br
           then Some (touched n r ts st)
           else if tbe \<and> tried_matrix st (tried_slot env (am_key st) (peer_info r)) \<noteq> EMPTY
                   \<and> length (tried_collisions st) < TRIED_COLLISION_SIZE
           then Some (if n \<in> set (tried_collisions st) then touched n r ts st
                      else (touched n r ts st)\<lparr>tried_collisions := tried_collisions st @ [n]\<rparr>)
           else make_tried env n (touched n r ts st))
      | _ \<Rightarrow> Some (st\<lparr>last_good := ts\<rparr>))"
proof -
  have f: "am_find (st\<lparr>last_good := ts\<rparr>) addr = am_find st addr"
    by (simp add: am_find_def split: option.split)
  show ?thesis
    unfolding mark_good_inner_def Let_def f
    by (auto simp: touched_def [symmetric] split: option.splits prod.splits)
qed

definition collisions_ok :: "Inner \<Rightarrow> bool" where
  "collisions_ok st \<longleftrightarrow> length (tried_collisions st) \<le> TRIED_COLLISION_SIZE"

lemma mark_good_book:
  assumes m: "mark_good_inner env br addr tbe ts st = Some st'" and b: "book env {} st" and c: "collisions_ok st"
  shows "book env {} st' \<and> collisions_ok st' \<and> id_count st' = id_count st"
proof (cases "\<exists>n r. am_find st addr = (Some n, Some r)")
  case False
  then have "st' = st\<lparr>last_good := ts\<rparr>"
    using m by (auto simp: mark_good_eq split: option.splits prod.splits)
  then show ?thesis using b c by (simp add: collisions_ok_def)
next
  case True
  then obtain n r where f: "am_find st addr = (Some n, Some r)" by blast
  note r = am_find_SomeD [OF f]
  note t = touched_book [OF b r, of ts]
  have e: "Some st' = (if host_is_private env (pi_host addr) \<and> \<not> allow_private_subnets st \<or> peer_info r \<noteq> addr
           then Some (st\<lparr>last_good := ts\<rparr>)
           else if is_tried r \<or> \<not> in_new_table env (touched n r ts st) n (peer_info r) br
           then Some (touched n r ts st)
           else if tbe \<and> tried_matrix st (tried_slot env (am_key st) (peer_info r)) \<noteq> EMPTY
                   \<and> length (tried_collisions st) < TRIED_COLLISION_SIZE
           then Some (if n \<in> set (tried_collisions st) then touched n r ts st
                      else (touched n r ts st)\<lparr>tried_collisions := tried_collisions st @ [n]\<rparr>)
           else make_tried env n (touched n r ts st))" (is "_ = (if ?A then _ else if ?B then _ else if ?C then _ else _)")
    using m [symmetric] by (simp only: mark_good_eq f prod.case option.case)
  consider ?A | "\<not> ?A" ?B | "\<not> ?A" "\<not> ?B" ?C | "\<not> ?A" "\<not> ?B" "\<not> ?C" by blast
  then show ?thesis
  proof cases
    case 4
    have v: "view (touched n r ts st) n = Some (peer_info r, False, ref_count r)"
      using 4(2) r t(2) by (simp add: view_lookup view_row_def)
    have "make_tried env n (touched n r ts st) = Some st'" using e 4 by (simp only: if_False)
    from make_tried_book [OF this t(1) v] show ?thesis
      using c by (simp add: collisions_ok_def frame_def)
  qed (use b c t e in \<open>auto simp: collisions_ok_def\<close>)
qed

lemma refresh_row_same [simp]:
  "view_row (refresh_row addr pen now r) = view_row r" "ep_random_pos (refresh_row addr pen now r) = ep_random_pos r"
  by (simp_all add: refresh_row_def view_row_def Let_def)

lemma create_row_book:
  assumes c: "create_row addr src st = (n, st')" and b: "book env {} st" and i: "Suc (unat (id_count st)) < u32_max"
  shows "book env {n} st'" "view st n = None" "\<exists>p. view st' n = Some (p, False, 0)"
    "tried_collisions st' = tried_collisions st" "unat (id_count st') = Suc (unat (id_count st))"
proof -
  have m1: "id_count st \<noteq> - 1" using i by (auto simp: u32_max_def unsigned_minus_1_eq_mask mask_eq_exp_minus_1)
  then have n: "n = id_count st + 1" and st': "st' = st\<lparr>id_count := n, map_addr := fmupd (ts_host addr) n (map_addr st),
      map_info := fmupd n ((peer_row_from_ts addr src)\<lparr>ep_random_pos := Some (length (random_pos st))\<rparr>) (map_info st),
      random_pos := random_pos st @ [n]\<rparr>"
    using c by (auto simp: create_row_def Let_def peer_row_from_ts_def)
  have un: "unat n = Suc (unat (id_count st))" unfolding n using i
    by (simp add: unat_word_ariths u32_max_def)
  have ne: "n \<noteq> EMPTY" using un i by (auto simp: EMPTY_def u32_max_def unsigned_minus_1_eq_mask mask_eq_exp_minus_1)
  have bo: "book_ok env (am_key st) (id_count st) (new_matrix st) (tried_matrix st) (view st)"
    using b by (simp add: book_def)
  have lt: "id_count st < n" using un by (simp add: word_less_nat_alt)
  show none: "view st n = None" using book_okD [OF bo ne] lt by (cases "view st n") auto
  define pp where "pp = \<lparr>pi_host = ts_host addr, pi_port = ts_port addr\<rparr>"
  have v: "view st' = (view st)(n \<mapsto> (pp, False, 0))"
    unfolding st' by (auto simp: view_def fun_eq_iff view_row_def peer_row_from_ts_def pp_def)
  have "book_ok env (am_key st) n (new_matrix st) (tried_matrix st) ((view st)(n \<mapsto> (pp, False, 0)))"
    using book_fresh [OF bo ne none] lt by simp
  moreover have "ordered st'" using b unfolding st' by (auto simp: book_def ordered_def)
  ultimately show "book env {n} st'" using b v by (auto simp: book_def st' live_def)
  show "\<exists>p. view st' n = Some (p, False, 0)" using v by simp
  show "tried_collisions st' = tried_collisions st" "unat (id_count st') = Suc (unat (id_count st))"
    using un by (simp_all add: st')
qed

lemma add_inner_book:
  assumes a: "add_to_new_table_inner env now now2 draw addr src pen st = Some (u, st')"
    and b: "book env {} st" and i: "Suc (unat (id_count st)) < u32_max"
  shows "book env {} st' \<and> tried_collisions st' = tried_collisions st \<and> unat (id_count st') \<le> Suc (unat (id_count st))"
proof -
  define p where "p = \<lparr>pi_host = ts_host addr, pi_port = ts_port addr\<rparr>"
  obtain n st1 where cr: "create_row addr src st = (n, st1)" by (cases "create_row addr src st")
  show ?thesis
  proof (cases "host_is_private env (pi_host p) \<and> \<not> allow_private_subnets st")
    case True
    then show ?thesis using a b by (simp add: add_to_new_table_inner_def p_def Let_def)
  next
    case nonpriv: False
    show ?thesis
    proof (cases "\<exists>n ex. am_find st p = (Some n, Some ex)")
      case True
      then obtain n ex where f: "am_find st p = (Some n, Some ex)" by blast
      define info where "info = refresh_row addr (if peer_info ex = p then 0 else pen) now ex"
      define st2 where "st2 = st\<lparr>map_info := fmupd n info (map_info st)\<rparr>"
      have same: "view_row info = view_row ex" "ep_random_pos info = ep_random_pos ex" by (simp_all add: info_def)
      have b2: "book env {} st2" unfolding st2_def by (rule book_row_update [OF b am_find_SomeD [OF f] same])
      have v2: "view st2 n = Some (view_row info)" by (simp add: st2_def)
      have a2: "(if known_continues draw addr info then map_option (Pair False) (place_new env now2 src n st2)
          else Some (False, st2)) = Some (u, st')"
        using a unfolding info_def st2_def
        by (simp only: add_to_new_table_inner_def p_def [symmetric] Let_def PeerInfo.simps nonpriv f if_False
          prod.case option.case)
      show ?thesis
      proof (cases "known_continues draw addr info")
        case True
        then have "view st2 n = Some (peer_info info, False, ref_count info)"
          using v2 by (simp add: known_continues_def view_row_def)
        moreover have "place_new env now2 src n st2 = Some st'" using a2 True by auto
        ultimately show ?thesis
          using place_new_book [OF _ book_mono [OF b2]] by (fastforce simp: st2_def frame_def)
      next
        case False
        then show ?thesis using a2 b2 by (auto simp: st2_def)
      qed
    next
      case False
      define st2 where "st2 = (update_row n (\<lambda>i. i\<lparr>ep_timestamp := ts_timestamp addr - pen\<rparr>) st1)\<lparr>new_count := inc32 (new_count st1)\<rparr>"
      have nc: "new_count (update_row n f s) = new_count s" for f s
        by (simp add: update_row_def split: option.split)
      have pl: "place_new env now2 src n st2 = Some st'"
        using a nonpriv False cr
        by (auto simp: add_to_new_table_inner_def p_def [symmetric] Let_def st2_def nc split: option.splits prod.splits)
      note c = create_row_book [OF cr b i]
      have v: "view st2 = view st1" by (simp add: st2_def view_update_row_same view_row_def)
      have o: "ordered st2"
        using c(1) ordered_update_row [of st1 "\<lambda>i. i\<lparr>ep_timestamp := ts_timestamp addr - pen\<rparr>" n]
        by (simp add: st2_def book_def ordered_def)
      have t: "same_tables st1 st2"
        using update_row_frame(1) [of st1 n] by (simp add: st2_def same_tables_def frame_def)
      obtain q where q: "view st2 n = Some (q, False, 0)" using c(3) v by auto
      from place_new_book [OF pl book_frame [OF c(1) t v o] q] show ?thesis
        using c(4,5) t by (auto simp: frame_def same_tables_def)
    qed
  qed
qed

lemma attempt_book: "book env {} st \<Longrightarrow> book env {} (attempt_inner addr cf ts st)"
  unfolding attempt_inner_def Let_def
  by (auto split: option.splits prod.splits intro!: book_row_update dest: am_find_SomeD simp: view_row_def)

lemma connect_book: "book env {} st \<Longrightarrow> book env {} (connect_inner addr ts st)"
  unfolding connect_inner_def Let_def
  by (auto split: option.splits prod.splits intro!: book_row_update dest: am_find_SomeD simp: view_row_def)

lemma attempt_connect_frame [simp]:
  "frame st (attempt_inner addr cf ts st)" "frame st (connect_inner addr ts st)"
  by (auto simp: attempt_inner_def connect_inner_def frame_def Let_def split: option.split prod.split)

lemma collisions_filter: "collisions_ok st \<Longrightarrow> collisions_ok (st\<lparr>tried_collisions := filter P (tried_collisions st)\<rparr>)"
  by (auto simp: collisions_ok_def intro: order_trans [OF length_filter_le])

lemma resolve_one_book:
  assumes r: "resolve_one env now br n st = Some (x, st')" and b: "book env {} st" and c: "collisions_ok st"
  shows "book env {} st' \<and> collisions_ok st' \<and> id_count st' = id_count st"
proof -
  consider "st' = st" | addr where "mark_good_inner env br addr False now st = Some st'"
    using r by (auto simp: resolve_one_def Let_def split: option.splits if_splits)
  then show ?thesis
    using b c mark_good_book [OF _ b c] by cases auto
qed

lemma resolve_pending_book:
  "resolve_pending env now ps st = Some st' \<Longrightarrow> book env {} st \<Longrightarrow> collisions_ok st \<Longrightarrow>
    book env {} st' \<and> collisions_ok st' \<and> id_count st' = id_count st"
proof (induction env now ps st rule: resolve_pending.induct)
  case (2 env now n br ps st)
  obtain x st1 where s1: "resolve_one env now br n st = Some (x, st1)"
    and s2: "resolve_pending env now ps
      (if x then st1\<lparr>tried_collisions := filter (\<lambda>x. x \<noteq> n) (tried_collisions st1)\<rparr> else st1) = Some st'"
    using 2 by (auto simp: bind_eq_Some_conv)
  have one: "book env {} st1 \<and> collisions_ok st1 \<and> id_count st1 = id_count st"
    using resolve_one_book [OF s1] 2 by simp
  show ?case
    using 2(1) [OF s1 refl s2] one collisions_filter [of st1] by (cases x) auto
qed simp

lemma add_list_book:
  "add_to_new_table env ts src pen st = Some st' \<Longrightarrow> book env {} st \<Longrightarrow>
    unat (id_count st) + length ts < u32_max \<Longrightarrow>
    book env {} st' \<and> tried_collisions st' = tried_collisions st
      \<and> unat (id_count st') \<le> unat (id_count st) + length ts"
proof (induction ts arbitrary: st)
  case (Cons t ts)
  obtain addr now now2 draw where t: "t = (addr, now, now2, draw)" by (cases t)
  obtain u st1 where s1: "add_to_new_table_inner env now now2 draw addr src pen st = Some (u, st1)"
    and s2: "add_to_new_table env ts src pen st1 = Some st'"
    using Cons.prems(1) by (auto simp: t bind_eq_Some_conv)
  have "book env {} st1 \<and> tried_collisions st1 = tried_collisions st \<and> unat (id_count st1) \<le> Suc (unat (id_count st))"
    using Cons.prems by (intro add_inner_book [OF s1]) auto
  then show ?case using Cons.IH [OF s2] Cons.prems(3) by auto
qed simp

section \<open>Runs\<close>

text \<open>The operations the rest of the program calls, with the clock readings and draws of one call.\<close>

datatype am_op =
    AddToNewTable "turn list" PeerInfo nat
  | MarkGood nat PeerInfo bool nat
  | Attempt PeerInfo bool nat
  | Connect PeerInfo nat
  | SelectTriedCollision "nat \<Rightarrow> nat"
  | ResolveTriedCollisions nat "nat \<Rightarrow> nat"
  | SetAllowPrivateSubnets bool

fun run_op :: "net_env \<Rightarrow> am_op \<Rightarrow> Inner \<Rightarrow> Inner option" where
  "run_op env (AddToNewTable ts src pen) st = add_to_new_table env ts src pen st"
| "run_op env (MarkGood br addr tbe ts) st = mark_good_inner env br addr tbe ts st"
| "run_op env (Attempt addr cf ts) st = Some (attempt_inner addr cf ts st)"
| "run_op env (Connect addr ts) st = Some (connect_inner addr ts st)"
| "run_op env (SelectTriedCollision draw) st = Some (snd (select_tried_collision_inner env draw st))"
| "run_op env (ResolveTriedCollisions now rands) st = resolve_tried_collisions_inner env now rands st"
| "run_op env (SetAllowPrivateSubnets a) st = Some (set_allow_private_subnets a st)"

fun run_ops :: "net_env \<Rightarrow> am_op list \<Rightarrow> Inner \<Rightarrow> Inner option" where
  "run_ops env [] st = Some st"
| "run_ops env (x # xs) st = do { st \<leftarrow> run_op env x st; run_ops env xs st }"

fun announced :: "am_op \<Rightarrow> nat" where
  "announced (AddToNewTable ts src pen) = length ts"
| "announced _ = 0"

lemma run_op_book:
  assumes r: "run_op env x st = Some st'" and b: "book env {} st" and c: "collisions_ok st"
    and i: "unat (id_count st) + announced x < u32_max"
  shows "book env {} st' \<and> collisions_ok st' \<and> unat (id_count st') \<le> unat (id_count st) + announced x"
proof (cases x)
  case (AddToNewTable ts src pen)
  then show ?thesis using add_list_book r b c i by (fastforce simp: collisions_ok_def)
next
  case (MarkGood br addr tbe ts)
  then show ?thesis using mark_good_book r b c by fastforce
next
  case (Attempt addr cf ts)
  then have "st' = attempt_inner addr cf ts st" using r by simp
  then show ?thesis
    using b c attempt_book attempt_connect_frame(1) [of st addr cf ts] by (auto simp: frame_def collisions_ok_def)
next
  case (Connect addr ts)
  then have "st' = connect_inner addr ts st" using r by simp
  then show ?thesis
    using b c connect_book attempt_connect_frame(2) [of st addr ts] by (auto simp: frame_def collisions_ok_def)
next
  case (SelectTriedCollision draw)
  then show ?thesis using r b c collisions_filter by (auto simp: select_tried_collision_inner_def Let_def)
next
  case (ResolveTriedCollisions now rands)
  then show ?thesis using resolve_pending_book r b c by (fastforce simp: resolve_tried_collisions_inner_def Let_def)
next
  case (SetAllowPrivateSubnets a)
  then show ?thesis using r b c by (auto simp: set_allow_private_subnets_def collisions_ok_def)
qed

lemma run_ops_book:
  "run_ops env xs st = Some st' \<Longrightarrow> book env {} st \<Longrightarrow> collisions_ok st \<Longrightarrow>
    unat (id_count st) + (\<Sum>x\<leftarrow>xs. announced x) < u32_max \<Longrightarrow> book env {} st' \<and> collisions_ok st'"
proof (induction xs arbitrary: st)
  case (Cons x xs)
  then obtain st1 where s1: "run_op env x st = Some st1" and s2: "run_ops env xs st1 = Some st'"
    by (auto simp: bind_eq_Some_conv)
  have "book env {} st1 \<and> collisions_ok st1 \<and> unat (id_count st1) \<le> unat (id_count st) + announced x"
    using run_op_book [OF s1] Cons.prems by simp
  then show ?case using Cons.IH [OF s2] Cons.prems by simp
qed simp

lemma book_new: "book env {} (Inner_new key) \<and> collisions_ok (Inner_new key) \<and> id_count (Inner_new key) = 0"
  by (auto simp: Inner_new_def book_def book_ok_def view_def used_ok_def ordered_def live_def collisions_ok_def
      cells_def EMPTY_def)

text \<open>
  C6: Integrity of the address book. After any sequence of operations on a fresh manager that
  announces fewer than 2^32 - 1 addresses and runs without a panic, every occupied cell of the
  new table names an untried row and lies at that row's own position, every occupied tried cell
  names a tried row and is that row's one slot, each reference count is the number of new cells
  of its row, no row is left without a cell, and the used-position sets are the occupied cells.
  At most ten collisions are pending.
\<close>

theorem address_book_integrity:
  assumes run: "run_ops env ops (Inner_new key) = Some st"
    and few: "(\<Sum>x\<leftarrow>ops. announced x) < u32_max"
  shows "(\<forall>pos. new_matrix st pos = EMPTY \<or>
            (\<exists>r. fmlookup (map_info st) (new_matrix st pos) = Some r \<and> \<not> is_tried r \<and> fst pos < NEW_BUCKET_COUNT
                \<and> snd pos = bucket_position env (am_key st) True (fst pos) (peer_info r)))
    \<and> (\<forall>pos. tried_matrix st pos = EMPTY \<or>
            (\<exists>r. fmlookup (map_info st) (tried_matrix st pos) = Some r \<and> is_tried r
                \<and> pos = tried_slot env (am_key st) (peer_info r)))
    \<and> (\<forall>i r. fmlookup (map_info st) i = Some r \<longrightarrow>
            ref_count r = card {pos. new_matrix st pos = i}
            \<and> (if is_tried r then ref_count r = 0 \<and> tried_matrix st (tried_slot env (am_key st) (peer_info r)) = i
               else 0 < ref_count r))
    \<and> fset (used_new_matrix_positions st) = {pos. new_matrix st pos \<noteq> EMPTY}
    \<and> fset (used_tried_matrix_positions st) = {pos. tried_matrix st pos \<noteq> EMPTY}
    \<and> length (tried_collisions st) \<le> TRIED_COLLISION_SIZE"
proof -
  have b: "book env {} st" and c: "collisions_ok st"
    using run_ops_book [OF run] book_new few by auto
  have bo: "book_ok env (am_key st) (id_count st) (new_matrix st) (tried_matrix st) (view st)"
    using b by (simp add: book_def)
  have new: "\<exists>r. fmlookup (map_info st) (new_matrix st pos) = Some r \<and> \<not> is_tried r \<and> fst pos < NEW_BUCKET_COUNT
      \<and> snd pos = bucket_position env (am_key st) True (fst pos) (peer_info r)"
    if "new_matrix st pos \<noteq> EMPTY" for pos
  proof -
    note ne = that
    obtain p n where v: "view st (new_matrix st pos) = Some (p, False, n)" using cell_row [OF bo ne] by blast
    have "pos \<in> home_slots env (am_key st) p" using book_okD [OF bo ne] v by (auto simp: cells_def)
    then show ?thesis using view_SomeD [OF v] by (auto simp: home_slots_def view_row_def)
  qed
  have tried: "\<exists>r. fmlookup (map_info st) (tried_matrix st pos) = Some r \<and> is_tried r
      \<and> pos = tried_slot env (am_key st) (peer_info r)" if "tried_matrix st pos \<noteq> EMPTY" for pos
    using book_untry(2) [OF bo refl that] view_SomeD by (fastforce simp: view_row_def)
  have row: "ref_count r = card {pos. new_matrix st pos = i}
      \<and> (if is_tried r then ref_count r = 0 \<and> tried_matrix st (tried_slot env (am_key st) (peer_info r)) = i
         else 0 < ref_count r)" if r: "fmlookup (map_info st) i = Some r" for i r
  proof -
    have v: "view st i = Some (peer_info r, is_tried r, ref_count r)" using r by (simp add: view_def view_row_def)
    have "is_tried r \<or> 0 < ref_count r" using b v by (cases "is_tried r"; cases "ref_count r") (auto simp: book_def live_def)
    then show ?thesis
      using book_okD [OF bo book_no_EMPTY [OF bo v]] v by (auto simp: cells_def split: if_splits)
  qed
  have or: "(\<not> P \<Longrightarrow> Q) \<Longrightarrow> P \<or> Q" for P Q by blast
  have used: "fset (used_new_matrix_positions st) = {pos. new_matrix st pos \<noteq> EMPTY}"
    "fset (used_tried_matrix_positions st) = {pos. tried_matrix st pos \<noteq> EMPTY}"
    using b by (simp_all add: book_def used_ok_def)
  show ?thesis
    using c unfolding collisions_ok_def
    by (intro conjI allI impI used or new tried row)
qed

text \<open>
  Bounded memory. However many addresses peers announce, the manager never holds more rows
  than the two tables have cells: 1024 * 64 + 256 * 64 = 81920.
\<close>

theorem address_book_bounded:
  assumes run: "run_ops env ops (Inner_new key) = Some st"
    and few: "(\<Sum>x\<leftarrow>ops. announced x) < u32_max"
  shows "fcard (fmdom (map_info st)) \<le> 81920"
proof -
  have b: "book env {} st" using run_ops_book [OF run] book_new few by auto
  have bo: "book_ok env (am_key st) (id_count st) (new_matrix st) (tried_matrix st) (view st)"
    using b by (simp add: book_def)
  let ?N = "{..<NEW_BUCKET_COUNT} \<times> {..<BUCKET_SIZE}" and ?T = "{..<TRIED_BUCKET_COUNT} \<times> {..<BUCKET_SIZE}"
  have "i \<in> new_matrix st ` ?N \<union> tried_matrix st ` ?T" if "i |\<in>| fmdom (map_info st)" for i
  proof -
    note dom = that
    obtain r where "fmlookup (map_info st) i = Some r" using dom by (meson fmlookup_dom_iff)
    then obtain p t n where v: "view st i = Some (p, t, n)" by (auto simp: view_def view_row_def)
    note ok = book_okD [OF bo book_no_EMPTY [OF bo v], unfolded v]
    have "n = 0 \<Longrightarrow> \<not> t \<Longrightarrow> False" using b v by (auto simp: book_def live_def)
    then consider pos where "pos \<in> cells (new_matrix st) i" "pos \<in> home_slots env (am_key st) p"
      | "tried_slot env (am_key st) p \<in> cells (tried_matrix st) i"
      using ok by (cases t; cases "cells (new_matrix st) i = {}") (auto simp del: split_paired_All)
    then show ?thesis
      by cases (force simp: cells_def home_slots_def tried_slot_def Let_def)+
  qed
  then have "fset (fmdom (map_info st)) \<subseteq> new_matrix st ` ?N \<union> tried_matrix st ` ?T" by blast
  then have "fcard (fmdom (map_info st)) \<le> card (new_matrix st ` ?N \<union> tried_matrix st ` ?T)"
    unfolding fcard.rep_eq by (intro card_mono) auto
  also have "\<dots> \<le> card (new_matrix st ` ?N) + card (tried_matrix st ` ?T)" by (rule card_Un_le)
  also have "\<dots> \<le> card ?N + card ?T" by (intro add_mono card_image_le) auto
  finally show ?thesis by (simp add: bucket_consts card_cartesian_product)
qed

definition flat_env :: net_env where
  "flat_env = \<lparr>parse_ip = (\<lambda>_. None), sha256 = (\<lambda>_. [])\<rparr>"

text \<open>A short run: one address announced, then dialled.\<close>

definition one_peer :: "am_op list" where
  "one_peer =
     [AddToNewTable [(\<lparr>ts_host = [1], ts_port = 5, ts_timestamp = 900\<rparr>, 1000, 1000, \<lambda>_. 0)]
        \<lparr>pi_host = [9], pi_port = 1\<rparr> 0,
      Connect \<lparr>pi_host = [1], pi_port = 5\<rparr> 2500]"

lemmas am_eval = add_to_new_table_inner_def am_find_def host_is_private_def flat_env_def
  create_row_def update_row_def peer_row_from_ts_def place_new_def new_slot_def clear_new_def Let_def
  bucket_position_def new_bucket_index_def get_group_def hostname_group_bytes_def hostname_key_bytes_def
  get_key_def chia_std_hash_u64_prefix_def EMPTY_def set_new_matrix_def inc32_def

lemma one_peer_run:
  "\<exists>st. run_ops flat_env one_peer (Inner_new []) = Some st \<and> fmlookup (map_info st) 1 \<noteq> None"
  by (simp add: one_peer_def Inner_new_def am_eval connect_inner_def)

lemma address_book_integrity_witness:
  "\<exists>st r. run_ops flat_env one_peer (Inner_new []) = Some st \<and> fmlookup (map_info st) 1 = Some r
      \<and> ref_count r = card {pos. new_matrix st pos = 1} \<and> length (tried_collisions st) \<le> TRIED_COLLISION_SIZE"
proof -
  obtain st r where run: "run_ops flat_env one_peer (Inner_new []) = Some st" and r: "fmlookup (map_info st) 1 = Some r"
    using one_peer_run by blast
  have few: "(\<Sum>x\<leftarrow>one_peer. announced x) < u32_max" by (simp add: one_peer_def u32_max_def)
  from address_book_integrity [OF run few] r show ?thesis
    by (intro exI [of _ st] exI [of _ r] conjI run r) simp_all
qed

lemma address_book_bounded_witness:
  "\<exists>st. run_ops flat_env one_peer (Inner_new []) = Some st \<and> fcard (fmdom (map_info st)) \<le> 81920"
proof -
  obtain st where run: "run_ops flat_env one_peer (Inner_new []) = Some st" using one_peer_run by blast
  have few: "(\<Sum>x\<leftarrow>one_peer. announced x) < u32_max" by (simp add: one_peer_def u32_max_def)
  from address_book_bounded [OF run few] run show ?thesis by blast
qed

end
