(* ===== verification/Address_Promotion.thy ===== *)
theory Address_Promotion
  imports Address_Book
begin

text \<open>
  What the address manager does with one address: promotion to the tried table and the
  collision queue (\<open>mark_good_\<close>), the timestamp a further announcement leaves behind
  (\<open>add_to_new_table_\<close>), and the random order of the rows (\<open>random_pos\<close>), which ingestion
  keeps and eviction does not.
\<close>

section \<open>Two concrete managers\<close>

text \<open>
  With \<open>flat_env\<close> every address hashes to bucket 0, position 0. \<open>known_peer\<close> knows one
  address; \<open>full_slot\<close> knows a second one that occupies the tried slot of the first.
\<close>

definition host_row :: "bytes \<Rightarrow> bool \<Rightarrow> nat \<Rightarrow> ExtendedPeerInfo" where
  "host_row h t k =
     \<lparr>peer_info = \<lparr>pi_host = h, pi_port = 5\<rparr>, ep_timestamp = 900, ep_src = \<lparr>pi_host = [9], pi_port = 1\<rparr>,
      ep_random_pos = Some k, is_tried = t, ref_count = (if t then 0 else 1), last_success = 0, last_try = 0,
      num_attempts = 0, last_count_attempt = 0\<rparr>"

definition known_peer :: Inner where
  "known_peer = (Inner_new [])\<lparr>id_count := 1, new_matrix := (\<lambda>_. EMPTY)((0, 0) := 1), new_count := 1,
     map_addr := fmupd [1] 1 fmempty, map_info := fmupd 1 (host_row [1] False 0) fmempty, random_pos := [1],
     used_new_matrix_positions := {|(0, 0)|}\<rparr>"

definition full_slot :: Inner where
  "full_slot = known_peer\<lparr>id_count := 2, tried_matrix := (\<lambda>_. EMPTY)((0, 0) := 2), tried_count := 1,
     map_addr := fmupd [2] 2 (map_addr known_peer), map_info := fmupd 2 (host_row [2] True 1) (map_info known_peer),
     random_pos := [1, 2], used_tried_matrix_positions := {|(0, 0)|}\<rparr>"

lemma flat_slots [simp]:
  "bucket_position flat_env key k b p = 0" "tried_slot flat_env key p = (0, 0)" "new_slot flat_env key p s = (0, 0)"
  by (simp_all add: flat_env_def tried_slot_def new_slot_def tried_bucket_index_def new_bucket_index_def
      bucket_position_def chia_std_hash_u64_prefix_def Let_def)

lemma home_slots_flat [simp]: "(0, 0) \<in> home_slots flat_env key p"
  by (simp add: home_slots_def bucket_consts)

lemma cells_single: "cells ((\<lambda>_. EMPTY)(pos := i)) j = (if j = i then {pos} else {})"
  if "i \<noteq> EMPTY" "j \<noteq> EMPTY" for i j :: node_id
  using that by (auto simp: cells_def)

lemma small_ids: "(1::node_id) \<noteq> EMPTY" "(2::node_id) \<noteq> EMPTY"
  by (simp_all add: EMPTY_def)

lemma known_peer_book: "book flat_env {} known_peer"
proof -
  have v: "view known_peer = [1 \<mapsto> (\<lparr>pi_host = [1], pi_port = 5\<rparr>, False, 1)]"
    by (auto simp: view_def fun_eq_iff known_peer_def host_row_def view_row_def Inner_new_def)
  have "cells (\<lambda>_. EMPTY) j = {}" if "j \<noteq> EMPTY" for j :: node_id using that by (simp add: cells_def)
  then show ?thesis using small_ids unfolding book_def v book_ok_def
    by (auto simp: cells_single live_def ordered_def used_ok_def known_peer_def Inner_new_def
        host_row_def)
qed

lemma full_slot_book: "book flat_env {} full_slot"
proof -
  have v: "view full_slot = [1 \<mapsto> (\<lparr>pi_host = [1], pi_port = 5\<rparr>, False, 1),
      2 \<mapsto> (\<lparr>pi_host = [2], pi_port = 5\<rparr>, True, 0)]"
    by (auto simp: view_def fun_eq_iff full_slot_def known_peer_def host_row_def view_row_def Inner_new_def)
  show ?thesis using small_ids unfolding book_def v book_ok_def
    by (auto simp: cells_single live_def ordered_def used_ok_def full_slot_def known_peer_def
        Inner_new_def host_row_def)
qed

lemma concrete_find:
  "am_find known_peer \<lparr>pi_host = [1], pi_port = 5\<rparr> = (Some 1, Some (host_row [1] False 0))"
  "am_find full_slot \<lparr>pi_host = [1], pi_port = 5\<rparr> = (Some 1, Some (host_row [1] False 0))"
  "host_is_private flat_env h = False"
  by (simp_all add: am_find_def known_peer_def full_slot_def flat_env_def host_is_private_def)

lemma concrete_tables:
  "am_key known_peer = []" "tried_matrix known_peer = (\<lambda>_. EMPTY)" "tried_collisions known_peer = []"
  "am_key full_slot = []" "tried_matrix full_slot = (\<lambda>_. EMPTY)((0, 0) := 2)" "tried_collisions full_slot = []"
  "new_matrix full_slot = (\<lambda>_. EMPTY)((0, 0) := 1)" "random_pos full_slot = [1, 2]"
  by (simp_all add: known_peer_def full_slot_def Inner_new_def)

section \<open>Promotion\<close>

lemma in_new_table_book:
  assumes b: "book env {} st" and r: "fmlookup (map_info st) n = Some r" and t: "\<not> is_tried r"
  shows "in_new_table env st n (peer_info r) br"
proof -
  have v: "view st n = Some (peer_info r, False, ref_count r)" using r t by (simp add: view_def view_row_def)
  have bo: "book_ok env (am_key st) (id_count st) (new_matrix st) (tried_matrix st) (view st)"
    using b by (simp add: book_def)
  have pos: "0 < ref_count r" using b v by (cases "ref_count r") (auto simp: book_def live_def)
  have home: "cells (new_matrix st) n \<subseteq> home_slots env (am_key st) (peer_info r)"
    and ne: "cells (new_matrix st) n \<noteq> {}"
    using book_okD [OF bo book_no_EMPTY [OF bo v]] v pos by auto
  then obtain bk where bk: "bk < NEW_BUCKET_COUNT" "new_matrix st (bk, bucket_position env (am_key st) True bk (peer_info r)) = n"
    by (auto simp: home_slots_def mem_cells [symmetric])
  define k where "k = (bk + NEW_BUCKET_COUNT - br mod NEW_BUCKET_COUNT) mod NEW_BUCKET_COUNT"
  have "(k + br) mod NEW_BUCKET_COUNT = bk"
  proof -
    have "(k + br) mod NEW_BUCKET_COUNT = (bk + NEW_BUCKET_COUNT - br mod NEW_BUCKET_COUNT + br mod NEW_BUCKET_COUNT) mod NEW_BUCKET_COUNT"
      by (simp add: k_def mod_simps)
    also have "\<dots> = (bk + NEW_BUCKET_COUNT) mod NEW_BUCKET_COUNT"
      by (subst le_add_diff_inverse2) (auto simp: bucket_consts intro: trans_le_add2 less_imp_le)
    finally show ?thesis using bk(1) by simp
  qed
  moreover have "k < NEW_BUCKET_COUNT" by (simp add: k_def bucket_consts)
  ultimately show ?thesis
    using bk(2) by (auto simp: in_new_table_def find_None_iff Let_def)
qed

lemma clear_refs_total: "fmlookup (map_info st) n \<noteq> None \<Longrightarrow> \<exists>st'. clear_refs env n bs st = Some st'"
proof (induction bs arbitrary: st)
  case (Cons b bs)
  then obtain r where r: "fmlookup (map_info st) n = Some r" by blast
  then obtain st1 where s1: "clear_ref env n b st = Some st1" by (simp add: clear_ref_def Let_def)
  have "fmlookup (map_info st1) n \<noteq> None"
    using s1 r by (auto simp: clear_ref_def Let_def set_new_matrix_def update_row_def split: if_splits)
  from Cons.IH [OF this] s1 show ?case by auto
qed simp

lemma make_tried_total:
  assumes b: "book env {} st" and v: "view st n = Some (p, False, k)"
    and e: "tried_matrix st (tried_slot env (am_key st) p) = EMPTY"
  shows "\<exists>st'. make_tried env n st = Some st'"
proof -
  have "fmlookup (map_info st) n \<noteq> None" using v by (auto simp: view_def)
  then obtain st1 where c: "clear_refs env n [0..<NEW_BUCKET_COUNT] st = Some st1"
    using clear_refs_total by blast
  note c1 = clear_all_refs [OF c book_mono [OF b] v, simplified]
  obtain r where r: "fmlookup (map_info st1) n = Some r" "view_row r = (p, False, 0)"
    using c1(4) view_SomeD [of st1 n] by auto
  have "am_key st1 = am_key st" using c1(2) by (simp add: frame_def)
  then show ?thesis
    using c r e c1(3) by (simp add: make_tried_def Let_def evict_tried_def view_row_def)
qed

text \<open>
  Promotion. A known, untried address that connects is in the new table, and if its tried
  slot is free it moves there: it gives up every new cell, is marked tried, and no
  collision is recorded.
\<close>

theorem good_peer_promoted:
  assumes b: "book env {} st" and f: "am_find st addr = (Some n, Some r)" and p: "peer_info r = addr"
    and ok: "\<not> host_is_private env (pi_host addr) \<or> allow_private_subnets st" and t: "\<not> is_tried r"
    and e: "tried_matrix st (tried_slot env (am_key st) addr) = EMPTY"
  shows "\<exists>st' r'. mark_good_inner env br addr tbe ts st = Some st'
    \<and> tried_matrix st' (tried_slot env (am_key st) addr) = n \<and> (\<forall>pos. new_matrix st' pos \<noteq> n)
    \<and> fmlookup (map_info st') n = Some r' \<and> is_tried r' \<and> peer_info r' = addr \<and> ref_count r' = 0
    \<and> tried_collisions st' = tried_collisions st \<and> last_good st' = ts"
proof -
  note r = am_find_SomeD [OF f]
  note tb = touched_book [OF b r, of ts]
  have look: "fmlookup (map_info (touched n r ts st)) n
      = Some (r\<lparr>last_success := ts, last_try := ts, num_attempts := 0\<rparr>)" by (simp add: touched_def)
  have "in_new_table env (touched n r ts st) n (peer_info r) br"
    using in_new_table_book [OF tb(1) look, of br] t by simp
  then have m: "mark_good_inner env br addr tbe ts st = make_tried env n (touched n r ts st)"
    using f p ok t e by (auto simp: mark_good_eq)
  have v: "view (touched n r ts st) n = Some (addr, False, ref_count r)"
    using tb(2) r t p by (simp add: view_lookup view_row_def)
  obtain st' where st': "make_tried env n (touched n r ts st) = Some st'"
    using make_tried_total [OF tb(1) v] e by auto
  note mt = make_tried_book [OF st' tb(1) v]
  have bo: "book_ok env (am_key st') (id_count st') (new_matrix st') (tried_matrix st') (view st')"
    using mt(1) by (simp add: book_def)
  have "new_matrix st' pos \<noteq> n" for pos
    using no_new_cell [OF bo book_no_EMPTY [OF bo mt(3)], of _ _ pos] mt(3) by blast
  moreover obtain r' where "fmlookup (map_info st') n = Some r'" "view_row r' = (addr, True, 0)"
    using view_SomeD [OF mt(3)] by blast
  ultimately show ?thesis
    using m st' mt(2,4) by (intro exI [of _ st'] exI [of _ r']) (auto simp: view_row_def frame_def touched_def)
qed

lemma good_peer_promoted_witness:
  "\<exists>st' r'. mark_good_inner flat_env 7 \<lparr>pi_host = [1], pi_port = 5\<rparr> True 1000 known_peer = Some st'
     \<and> tried_matrix st' (0, 0) = 1 \<and> fmlookup (map_info st') 1 = Some r' \<and> is_tried r' \<and> ref_count r' = 0"
proof -
  from good_peer_promoted [OF known_peer_book concrete_find(1), of 7 True 1000] show ?thesis
    by (auto simp: concrete_find concrete_tables host_row_def)
qed

text \<open>
  Test before evict. While fewer than ten collisions are pending, a connecting address whose
  tried slot is occupied is only queued: neither table changes. When the queue is full the
  occupant loses its slot at once, without any test.
\<close>

theorem eviction_tested_until_queue_full:
  assumes b: "book env {} st" and f: "am_find st addr = (Some n, Some r)" and p: "peer_info r = addr"
    and ok: "\<not> host_is_private env (pi_host addr) \<or> allow_private_subnets st" and t: "\<not> is_tried r"
    and occ: "tried_matrix st (tried_slot env (am_key st) addr) = old" "old \<noteq> EMPTY"
  shows "if length (tried_collisions st) < TRIED_COLLISION_SIZE
     then \<exists>st'. mark_good_inner env br addr True ts st = Some st' \<and> n \<in> set (tried_collisions st')
            \<and> new_matrix st' = new_matrix st \<and> tried_matrix st' = tried_matrix st
     else case mark_good_inner env br addr True ts st of
            None \<Rightarrow> True
          | Some st' \<Rightarrow> tried_matrix st' (tried_slot env (am_key st) addr) = n \<and> n \<noteq> old"
proof -
  note r = am_find_SomeD [OF f]
  note tb = touched_book [OF b r, of ts]
  have look: "fmlookup (map_info (touched n r ts st)) n
      = Some (r\<lparr>last_success := ts, last_try := ts, num_attempts := 0\<rparr>)" by (simp add: touched_def)
  have i: "in_new_table env (touched n r ts st) n (peer_info r) br"
    using in_new_table_book [OF tb(1) look, of br] t by simp
  have v: "view (touched n r ts st) n = Some (addr, False, ref_count r)"
    using tb(2) r t p by (simp add: view_lookup view_row_def)
  have bo: "book_ok env (am_key st) (id_count st) (new_matrix st) (tried_matrix st) (view st)"
    using b by (simp add: book_def)
  have "n \<noteq> old" using book_untry(2) [OF bo occ] v tb(2) by auto
  then show ?thesis
    using f p ok t occ i make_tried_book [OF _ tb(1) v]
    by (auto simp: mark_good_eq split: option.split)
qed

lemma eviction_tested_until_queue_full_witness:
  "\<exists>st'. mark_good_inner flat_env 7 \<lparr>pi_host = [1], pi_port = 5\<rparr> True 1000 full_slot = Some st'
     \<and> 1 \<in> set (tried_collisions st') \<and> tried_matrix st' (0, 0) = 2"
proof -
  from eviction_tested_until_queue_full [OF full_slot_book concrete_find(2), of 2 7 1000] show ?thesis
    using small_ids by (auto simp: concrete_find concrete_tables host_row_def TRIED_COLLISION_SIZE_def)
qed

section \<open>Announcements of a known address\<close>

text \<open>
  An announcement rewrites the age of a known address. For an address the manager already
  holds with a timestamp, any further announcement with a timestamp, however old, stores that
  timestamp and stops there: the address never gains another new cell, and one announcement
  with an old enough timestamp makes the row terrible, so that the next competitor for its
  cell replaces it.
\<close>

theorem announcement_overwrites_timestamp:
  assumes f: "am_find st \<lparr>pi_host = ts_host addr, pi_port = ts_port addr\<rparr> = (Some n, Some r)"
    and p: "peer_info r = \<lparr>pi_host = ts_host addr, pi_port = ts_port addr\<rparr>"
    and ok: "\<not> host_is_private env (ts_host addr) \<or> allow_private_subnets st"
    and ts: "0 < ep_timestamp r" "0 < ts_timestamp addr"
  shows "add_to_new_table_inner env now now2 draw addr src pen st
      = Some (False, st\<lparr>map_info := fmupd n (r\<lparr>ep_timestamp := ts_timestamp addr\<rparr>) (map_info st)\<rparr>)
    \<and> is_terrible (ts_timestamp addr + HORIZON_DAYS * 24 * 60 * 60 + 61 + last_try r) (r\<lparr>ep_timestamp := ts_timestamp addr\<rparr>)"
proof -
  have "refresh_row addr 0 now r = r\<lparr>ep_timestamp := ts_timestamp addr\<rparr>"
    using ts by (simp add: refresh_row_def Let_def)
  moreover have "\<not> known_continues draw addr (r\<lparr>ep_timestamp := ts_timestamp addr\<rparr>)"
    using ts by (simp add: known_continues_def)
  ultimately have "add_to_new_table_inner env now now2 draw addr src pen st
      = Some (False, st\<lparr>map_info := fmupd n (r\<lparr>ep_timestamp := ts_timestamp addr\<rparr>) (map_info st)\<rparr>)"
    using f p ok by (auto simp: add_to_new_table_inner_def Let_def)
  then show ?thesis by (simp add: is_terrible_def HORIZON_DAYS_def)
qed

lemma announcement_overwrites_timestamp_witness:
  "add_to_new_table_inner flat_env 1000 1000 (\<lambda>_. 0) \<lparr>ts_host = [1], ts_port = 5, ts_timestamp = 1\<rparr>
      \<lparr>pi_host = [3], pi_port = 4\<rparr> 7200 known_peer
    = Some (False, known_peer\<lparr>map_info := fmupd 1 ((host_row [1] False 0)\<lparr>ep_timestamp := 1\<rparr>) (map_info known_peer)\<rparr>)"
proof -
  let ?a = "\<lparr>ts_host = [1], ts_port = 5, ts_timestamp = 1\<rparr>"
  have f: "am_find known_peer \<lparr>pi_host = ts_host ?a, pi_port = ts_port ?a\<rparr> = (Some 1, Some (host_row [1] False 0))"
    by (simp add: concrete_find)
  from announcement_overwrites_timestamp [OF f, where env = flat_env] show ?thesis
    by (simp add: concrete_find host_row_def)
qed

section \<open>The random order\<close>

text \<open>\<open>random_pos\<close> lists every row once, and each row knows its index.\<close>

definition random_ok :: "Inner \<Rightarrow> bool" where
  "random_ok st \<longleftrightarrow>
     distinct (random_pos st) \<and> (\<forall>i. i \<in> set (random_pos st) \<longrightarrow> fmlookup (map_info st) i \<noteq> None)
     \<and> (\<forall>i r. fmlookup (map_info st) i = Some r \<longrightarrow>
          (\<exists>k. ep_random_pos r = Some k \<and> k < length (random_pos st) \<and> random_pos st ! k = i))"

lemma random_okD:
  assumes "random_ok st" "fmlookup (map_info st) i = Some r"
  obtains k where "ep_random_pos r = Some k" "k < length (random_pos st)" "random_pos st ! k = i"
  using assms unfolding random_ok_def by blast

lemma random_ok_count:
  assumes "random_ok st" shows "length (random_pos st) = fcard (fmdom (map_info st))"
proof -
  have "i \<in> set (random_pos st)" if "fmlookup (map_info st) i = Some r" for i r
    using random_okD [OF assms that] by (metis nth_mem)
  then have "set (random_pos st) = fset (fmdom (map_info st))"
    using assms unfolding random_ok_def by (auto simp: fmlookup_dom_iff)
  then show ?thesis using assms unfolding random_ok_def fcard.rep_eq by (metis distinct_card)
qed

lemma random_ok_update_row:
  assumes o: "random_ok st" and f: "\<And>r. ep_random_pos (f r) = ep_random_pos r"
  shows "random_ok (update_row n f st)"
  using o unfolding random_ok_def update_row_def
  by (auto split: option.split simp: f)

lemma random_ok_cong:
  "random_ok st \<Longrightarrow> random_pos st' = random_pos st \<Longrightarrow> map_info st' = map_info st \<Longrightarrow> random_ok st'"
  by (simp add: random_ok_def)

lemma swap_random_total:
  assumes o: "random_ok st" and a: "a < length (random_pos st)" "b < length (random_pos st)"
  shows "\<exists>st'. swap_random a b st = Some st' \<and> random_ok st'
    \<and> random_pos st' = (random_pos st)[a := random_pos st ! b, b := random_pos st ! a]"
proof (cases "a = b")
  case True
  then show ?thesis using o by (simp add: swap_random_def)
next
  case False
  let ?i = "random_pos st ! a" and ?j = "random_pos st ! b"
  let ?rp = "(random_pos st)[a := ?j, b := ?i]"
  have ij: "?i \<noteq> ?j" using o a False by (simp add: random_ok_def nth_eq_iff_index_eq)
  obtain ri rj where ri: "fmlookup (map_info st) ?i = Some ri" and rj: "fmlookup (map_info st) ?j = Some rj"
    using o a by (metis (no_types) nth_mem random_ok_def not_None_eq)
  define mi where "mi = fmupd ?j (rj\<lparr>ep_random_pos := Some a\<rparr>) (fmupd ?i (ri\<lparr>ep_random_pos := Some b\<rparr>) (map_info st))"
  have sw: "swap_random a b st = Some (st\<lparr>map_info := mi, random_pos := ?rp\<rparr>)"
    using False a ri rj ij by (simp add: swap_random_def Let_def update_row_def mi_def)
  have "\<exists>k. ep_random_pos r = Some k \<and> k < length ?rp \<and> ?rp ! k = x" if x: "fmlookup mi x = Some r" for x r
  proof -
    consider "x = ?i" | "x = ?j" | "x \<noteq> ?i" "x \<noteq> ?j" by blast
    then show ?thesis
    proof cases
      case 3
      then have "fmlookup (map_info st) x = Some r" using x by (simp add: mi_def)
      then obtain k where "ep_random_pos r = Some k" "k < length (random_pos st)" "random_pos st ! k = x"
        by (rule random_okD [OF o])
      moreover from this have "k \<noteq> a" "k \<noteq> b" using 3 by auto
      ultimately show ?thesis by simp
    qed (use x ij a False in \<open>auto simp: mi_def nth_list_update\<close>)
  qed
  moreover have "distinct ?rp" and "set ?rp = set (random_pos st)"
    using o a by (simp_all add: random_ok_def)
  moreover have "fmlookup mi x \<noteq> None" if "x \<in> set (random_pos st)" for x
    using o that by (simp add: random_ok_def mi_def)
  ultimately show ?thesis using sw by (simp add: random_ok_def)
qed

lemma delete_new_entry_total:
  assumes o: "random_ok st" and r: "fmlookup (map_info st) n = Some r"
  shows "\<exists>st'. delete_new_entry n st = Some st' \<and> random_ok st'"
proof -
  obtain k where k: "ep_random_pos r = Some k" "k < length (random_pos st)" "random_pos st ! k = n"
    by (rule random_okD [OF o r])
  let ?l = "length (random_pos st) - 1"
  have l: "?l < length (random_pos st)" using k by simp
  obtain st1 where st1: "swap_random k ?l st = Some st1" "random_ok st1"
    "random_pos st1 = (random_pos st)[k := random_pos st ! ?l, ?l := n]"
    using swap_random_total [OF o k(2) l] k(3) by auto
  have last: "length (random_pos st1) = length (random_pos st)" "random_pos st1 ! ?l = n"
    using st1(3) l by simp_all
  define st' where "st' = st1\<lparr>random_pos := butlast (random_pos st1), map_info := fmdrop n (map_info st1),
     map_addr := fmdrop (pi_host (peer_info r)) (map_addr st1), new_count := dec32 (new_count st1)\<rparr>"
  have del: "delete_new_entry n st = Some st'"
    using r k st1(1) l by (auto simp: delete_new_entry_def st'_def)
  have eq: "random_pos st1 = butlast (random_pos st1) @ [n]"
    using last l by (metis append_butlast_last_id last_conv_nth length_0_conv less_nat_zero_code)
  have "\<exists>j. ep_random_pos x = Some j \<and> j < length (butlast (random_pos st1)) \<and> butlast (random_pos st1) ! j = i"
    if ix: "i \<noteq> n" "fmlookup (map_info st1) i = Some x" for i x
  proof -
    obtain j where j: "ep_random_pos x = Some j" "j < length (random_pos st1)" "random_pos st1 ! j = i"
      by (rule random_okD [OF st1(2) ix(2)])
    then have "j \<noteq> ?l" using last ix(1) by auto
    then show ?thesis using j last(1) by (simp add: nth_butlast)
  qed
  moreover have "distinct (butlast (random_pos st1) @ [n])"
    using st1(2) unfolding random_ok_def by (subst eq [symmetric]) simp
  moreover have "fmlookup (map_info st1) i \<noteq> None" if "i \<in> set (butlast (random_pos st1))" for i
    using st1(2) that in_set_butlastD unfolding random_ok_def by fast
  ultimately have "random_ok st'" by (auto simp: random_ok_def st'_def)
  then show ?thesis using del by blast
qed

lemma clear_new_total:
  assumes b: "book env X st" and o: "random_ok st"
  shows "\<exists>st'. clear_new pos st = Some st' \<and> random_ok st'"
proof (cases "new_matrix st pos = EMPTY")
  case True
  then show ?thesis using o by (simp add: clear_new_def)
next
  case False
  have "random_ok (drop_cell pos st)"
    unfolding drop_cell_def
    by (rule random_ok_cong [OF random_ok_update_row [OF o, of "\<lambda>i. i\<lparr>ref_count := dec32 (ref_count i)\<rparr>" "new_matrix st pos"]])
      (simp_all add: set_new_matrix_def)
  then show ?thesis
    using False delete_new_entry_total by (auto simp: clear_new_eq split: option.split)
qed

lemma random_ok_upd:
  "random_ok st \<Longrightarrow> fmlookup (map_info st) n = Some r \<Longrightarrow> ep_random_pos r' = ep_random_pos r \<Longrightarrow>
    random_ok (st\<lparr>map_info := fmupd n r' (map_info st)\<rparr>)"
  by (auto simp: random_ok_def)

lemma place_new_total:
  assumes b: "book env {n} st" and o: "random_ok st" and v: "view st n = Some (pp, False, k)"
  shows "\<exists>st'. place_new env now2 src n st = Some st' \<and> random_ok st'"
proof -
  obtain r where r: "fmlookup (map_info st) n = Some r" using view_SomeD [OF v] by blast
  define pos where "pos = new_slot env (am_key st) (peer_info r) src"
  obtain st1 where st1: "clear_new pos st = Some st1" "random_ok st1" using clear_new_total [OF b o] by blast
  have bo: "book_ok env (am_key st) (id_count st) (new_matrix st) (tried_matrix st) (view st)"
    using b by (simp add: book_def)
  have put: "\<exists>row. fmlookup (map_info st1) n = Some row" if "new_matrix st pos \<noteq> n"
    using clear_new_effect(5) [OF st1(1) b, of n] that v by (auto simp: view_def)
  have put_ok: "random_ok (set_new_matrix pos n (st1\<lparr>map_info := fmupd n (row\<lparr>ref_count := c\<rparr>) (map_info st1)\<rparr>))"
    if "fmlookup (map_info st1) n = Some row" for row c
    by (rule random_ok_cong [OF random_ok_upd [OF st1(2) that, of "row\<lparr>ref_count := c\<rparr>"]])
      (simp_all add: set_new_matrix_def)
  have occ: "\<exists>x. fmlookup (map_info st) (new_matrix st pos) = Some x" if "new_matrix st pos \<noteq> EMPTY"
    using cell_row [OF bo that] by (auto simp: view_def)
  show ?thesis
    using r o st1 put put_ok occ delete_new_entry_total [OF o r]
    by (cases "new_matrix st pos = n"; cases "new_matrix st pos = EMPTY")
      (fastforce simp: place_new_def Let_def pos_def [symmetric])+
qed

lemma create_row_ok:
  assumes c: "create_row addr src st = (n, st')" and o: "random_ok st" and n: "view st n = None"
  shows "random_ok st'"
proof -
  have st': "map_info st' = fmupd n ((peer_row_from_ts addr src)\<lparr>ep_random_pos := Some (length (random_pos st))\<rparr>) (map_info st)"
    "random_pos st' = random_pos st @ [n]"
    using c by (auto simp: create_row_def Let_def split: if_splits)
  have "n \<notin> set (random_pos st)" using o n by (auto simp: random_ok_def view_def)
  then show ?thesis using o unfolding random_ok_def st'
    by (auto simp: nth_append) (use less_Suc_eq in \<open>blast+\<close>)
qed

lemma known_total:
  fixes now pn addr
  assumes b: "book env {} st" and o: "random_ok st" and f: "am_find st p = (Some m, Some ex)"
  defines "info \<equiv> refresh_row addr pn now ex"
  defines "st2 \<equiv> st\<lparr>map_info := fmupd m info (map_info st)\<rparr>"
  shows "\<exists>u st'. (if known_continues draw addr info then map_option (Pair False) (place_new env now2 src m st2)
            else Some (False, st2)) = Some (u, st') \<and> random_ok st'"
proof -
  have s: "view_row info = view_row ex" "ep_random_pos info = ep_random_pos ex" by (simp_all add: info_def)
  have ro: "random_ok st2" unfolding st2_def by (rule random_ok_upd [OF o am_find_SomeD [OF f] s(2)])
  have b2: "book env {} st2" unfolding st2_def by (rule book_row_update [OF b am_find_SomeD [OF f] s])
  show ?thesis
  proof (cases "known_continues draw addr info")
    case True
    then have v: "view st2 m = Some (peer_info info, False, ref_count info)"
      by (simp add: known_continues_def st2_def view_row_def)
    obtain st' where "place_new env now2 src m st2 = Some st'" "random_ok st'"
      using place_new_total [OF book_mono [OF b2] ro v] by blast
    then show ?thesis using True by (intro exI [of _ False] exI [of _ st']) simp
  qed (use ro in \<open>auto intro!: exI [of _ False]\<close>)
qed

lemma fresh_total:
  fixes t
  assumes b: "book env {} st" and o: "random_ok st" and i: "Suc (unat (id_count st)) < u32_max"
    and cr: "create_row addr src st = (n, st1)"
  defines "st2 \<equiv> update_row n (\<lambda>i. i\<lparr>ep_timestamp := t\<rparr>) st1"
  shows "\<exists>st'. place_new env now2 src n (st2\<lparr>new_count := inc32 (new_count st2)\<rparr>) = Some st' \<and> random_ok st'"
proof -
  let ?st = "st2\<lparr>new_count := inc32 (new_count st2)\<rparr>"
  note c = create_row_book [OF cr b i]
  have v: "view ?st = view st1" by (simp add: st2_def view_update_row_same view_row_def)
  have "random_ok st2"
    unfolding st2_def by (rule random_ok_update_row [OF create_row_ok [OF cr o c(2)]]) simp
  then have ro: "random_ok ?st" by (rule random_ok_cong) simp_all
  have ord: "ordered ?st"
    using c(1) ordered_update_row [of st1 "\<lambda>i. i\<lparr>ep_timestamp := t\<rparr>" n] by (simp add: st2_def book_def ordered_def)
  have "same_tables st1 ?st"
    using update_row_frame(1) [of st1 n] by (simp add: st2_def same_tables_def frame_def)
  then have "book env {n} ?st" by (rule book_frame [OF c(1) _ v ord])
  then show ?thesis using place_new_total [OF _ ro] c(3) v by metis
qed

lemma add_inner_total:
  assumes b: "book env {} st" and o: "random_ok st" and i: "Suc (unat (id_count st)) < u32_max"
  shows "\<exists>u st'. add_to_new_table_inner env now now2 draw addr src pen st = Some (u, st') \<and> random_ok st'"
proof -
  define p where "p = \<lparr>pi_host = ts_host addr, pi_port = ts_port addr\<rparr>"
  obtain n st1 where cr: "create_row addr src st = (n, st1)" by (cases "create_row addr src st")
  show ?thesis
  proof (cases "host_is_private env (pi_host p) \<and> \<not> allow_private_subnets st")
    case True
    then have "add_to_new_table_inner env now now2 draw addr src pen st = Some (False, st)"
      by (simp add: add_to_new_table_inner_def Let_def p_def)
    then show ?thesis using o by blast
  next
    case priv: False
    show ?thesis
    proof (cases "\<exists>m ex. am_find st p = (Some m, Some ex)")
      case True
      then obtain m ex where f: "am_find st p = (Some m, Some ex)" by blast
      show ?thesis
        using known_total [OF b o f] unfolding add_to_new_table_inner_def Let_def p_def [symmetric]
        by (simp only: priv if_False f prod.case option.case)
    next
      case False
      obtain st' where new: "place_new env now2 src n ((update_row n (\<lambda>i. i\<lparr>ep_timestamp := ts_timestamp addr - pen\<rparr>) st1)
            \<lparr>new_count := inc32 (new_count (update_row n (\<lambda>i. i\<lparr>ep_timestamp := ts_timestamp addr - pen\<rparr>) st1))\<rparr>) = Some st'"
          "random_ok st'"
        using fresh_total [OF b o i cr] by blast
      obtain x where "am_find st p = (x, None)"
        using False by (auto simp: am_find_def split: option.splits)
      then have "add_to_new_table_inner env now now2 draw addr src pen st = Some (True, st')"
        unfolding add_to_new_table_inner_def Let_def p_def [symmetric] if_not_P [OF priv]
        by (cases x) (simp_all add: cr new(1))
      then show ?thesis using new(2) by blast
    qed
  qed
qed

lemma add_list_total:
  "book env {} st \<Longrightarrow> random_ok st \<Longrightarrow> unat (id_count st) + length ts < u32_max \<Longrightarrow>
    \<exists>st'. add_to_new_table env ts src pen st = Some st' \<and> random_ok st'"
proof (induction ts arbitrary: st)
  case (Cons t ts)
  obtain addr now now2 draw where t: "t = (addr, now, now2, draw)" by (cases t)
  have i: "Suc (unat (id_count st)) < u32_max" using Cons.prems(3) by simp
  obtain u st1 where s1: "add_to_new_table_inner env now now2 draw addr src pen st = Some (u, st1)" and o1: "random_ok st1"
    using add_inner_total [OF Cons.prems(1,2) i] by blast
  have "book env {} st1 \<and> unat (id_count st1) \<le> Suc (unat (id_count st))"
    using add_inner_book [OF s1 Cons.prems(1) i] by simp
  then obtain st' where "add_to_new_table env ts src pen st1 = Some st'" "random_ok st'"
    using Cons.IH [of st1] o1 Cons.prems(3) by auto
  then show ?case using s1 by (auto simp: t)
qed simp

text \<open>The operations that never promote.\<close>

fun ingests :: "am_op \<Rightarrow> bool" where
  "ingests (MarkGood _ _ _ _) = False"
| "ingests (ResolveTriedCollisions _ _) = False"
| "ingests _ = True"

lemma dial_random_ok:
  assumes "random_ok st"
  shows "random_ok (attempt_inner addr cf ts st)" "random_ok (connect_inner addr ts st)"
  unfolding attempt_inner_def connect_inner_def Let_def
  by (auto split: option.splits prod.splits intro!: random_ok_upd [OF assms] assms dest: am_find_SomeD)

lemma run_op_total:
  assumes b: "book env {} st" and o: "random_ok st" and i: "unat (id_count st) + announced x < u32_max" and g: "ingests x"
  shows "\<exists>st'. run_op env x st = Some st' \<and> random_ok st'"
proof (cases x)
  case (AddToNewTable ts src pen)
  then show ?thesis using add_list_total [OF b o] i by simp
next
  case (SelectTriedCollision draw)
  then show ?thesis using o by (simp add: select_tried_collision_inner_def Let_def random_ok_def)
next
  case (SetAllowPrivateSubnets a)
  then show ?thesis using o by (simp add: set_allow_private_subnets_def random_ok_def)
qed (use g o dial_random_ok in simp_all)

lemma run_ops_total:
  "list_all ingests xs \<Longrightarrow> book env {} st \<Longrightarrow> collisions_ok st \<Longrightarrow> random_ok st \<Longrightarrow>
    unat (id_count st) + (\<Sum>x\<leftarrow>xs. announced x) < u32_max \<Longrightarrow>
    \<exists>st'. run_ops env xs st = Some st' \<and> random_ok st'"
proof (induction xs arbitrary: st)
  case (Cons x xs)
  have i: "unat (id_count st) + announced x < u32_max" using Cons.prems(5) by simp
  obtain st1 where s1: "run_op env x st = Some st1" "random_ok st1"
    using run_op_total [OF Cons.prems(2,4) i] Cons.prems(1) by auto
  from run_op_book [OF s1(1) Cons.prems(2,3) i] obtain st' where "run_ops env xs st1 = Some st'" "random_ok st'"
    using Cons.IH [of st1] s1(2) Cons.prems(1,5) by auto
  then show ?case using s1 by auto
qed simp

text \<open>
  C25: Ingestion cannot crash the manager. Announcements, dial bookkeeping and collision
  selection, in any order and from any peers, return for every run of fewer than 2^32 - 1
  addresses, and \<open>size\<close> (the length of \<open>random_pos\<close>) is the number of rows.
\<close>

theorem ingestion_never_panics:
  assumes "list_all ingests ops" and "(\<Sum>x\<leftarrow>ops. announced x) < u32_max"
  shows "\<exists>st. run_ops env ops (Inner_new key) = Some st
    \<and> length (random_pos st) = fcard (fmdom (map_info st)) \<and> distinct (random_pos st)"
proof -
  have "random_ok (Inner_new key)" by (simp add: random_ok_def Inner_new_def)
  then obtain st where "run_ops env ops (Inner_new key) = Some st" "random_ok st"
    using run_ops_total [OF assms(1), of env "Inner_new key"] book_new [of env key] assms(2) by auto
  then show ?thesis using random_ok_count [of st] by (auto simp: random_ok_def)
qed

lemma ingestion_never_panics_witness:
  "\<exists>st. run_ops flat_env one_peer (Inner_new []) = Some st
    \<and> length (random_pos st) = fcard (fmdom (map_info st)) \<and> distinct (random_pos st)"
  by (rule ingestion_never_panics) (simp_all add: one_peer_def u32_max_def)

lemma clear_new_last_reference:
  assumes x: "new_matrix s np = x" "x \<noteq> EMPTY" "fmlookup (map_info s) x = Some rx" "ref_count rx = 1"
    and k: "ep_random_pos rx = Some k" "k < l" "length (random_pos s) = Suc l"
  shows "\<exists>s'. clear_new np s = Some s' \<and> length (random_pos s') = l"
proof -
  let ?d = "drop_cell np s"
  have one: "dec32 1 = 0" by (simp add: dec32_def)
  have d: "fmlookup (map_info ?d) x = Some (rx\<lparr>ref_count := 0\<rparr>)" "random_pos ?d = random_pos s"
    using x one by (simp_all add: drop_cell_def update_row_def set_new_matrix_def)
  have "\<exists>s'. swap_random k l ?d = Some s' \<and> length (random_pos s') = Suc l"
    using k by (simp add: swap_random_def Let_def d(2))
  then have "\<exists>s'. delete_new_entry x ?d = Some s' \<and> length (random_pos s') = l"
    using k d by (auto simp: delete_new_entry_def)
  then show ?thesis using x(1,2) d(1) by (simp add: clear_new_eq)
qed

text \<open>
  C27: Eviction can leave a stale index. \<open>make_tried\<close> takes the evicted row out of
  \<open>map_info\<close> before it clears the row's new slot. If that slot holds another row's only
  reference, and the evicted row is the last of the random order, deleting the other row moves
  the evicted one in \<open>random_pos\<close> without updating its index, which is then past the end: the
  next time the slot is cleared, \<open>swap_random\<close> indexes out of range and panics.
\<close>

theorem eviction_stale_index:
  assumes b: "book env X st" and o: "random_ok st"
    and ev: "tried_matrix st cur = ev" "ev \<noteq> EMPTY" "fmlookup (map_info st) ev = Some r"
    and last: "last (random_pos st) = ev"
    and np: "np = new_slot env (am_key st) (peer_info r) (ep_src r)"
    and x: "new_matrix st np = x" "x \<noteq> EMPTY" "fmlookup (map_info st) x = Some rx" "ref_count rx = 1"
  shows "\<exists>st'. evict_tried env cur st = Some st' \<and> new_matrix st' np = ev \<and> clear_new np st' = None"
proof -
  obtain l where l: "ep_random_pos r = Some l" "l < length (random_pos st)" "random_pos st ! l = ev"
    by (rule random_okD [OF o ev(3)])
  obtain k where k: "ep_random_pos rx = Some k" "k < length (random_pos st)" "random_pos st ! k = x"
    by (rule random_okD [OF o x(3)])
  have bo: "book_ok env (am_key st) (id_count st) (new_matrix st) (tried_matrix st) (view st)"
    using b by (simp add: book_def)
  have "view st ev \<noteq> view st x"
    using book_untry(2) [OF bo ev(1,2)] cell_row [OF bo, of np] x by auto
  then have xe: "x \<noteq> ev" by auto
  have len: "length (random_pos st) = Suc l"
    using last l o by (cases "random_pos st" rule: rev_cases)
      (auto simp: random_ok_def nth_append dest: nth_mem split: if_splits)
  then have kl: "k < l" using k l xe by (auto simp: less_Suc_eq)
  define st2 where "st2 = (set_tried_matrix cur EMPTY (st\<lparr>map_info := fmdrop ev (map_info st)\<rparr>))
      \<lparr>tried_count := dec32 (tried_count (set_tried_matrix cur EMPTY (st\<lparr>map_info := fmdrop ev (map_info st)\<rparr>)))\<rparr>"
  have st2: "new_matrix st2 np = x" "fmlookup (map_info st2) x = Some rx" "length (random_pos st2) = Suc l"
    using x xe len by (simp_all add: st2_def set_tried_matrix_def)
  obtain st3 where st3: "clear_new np st2 = Some st3" "length (random_pos st3) = l"
    using clear_new_last_reference [OF st2(1) x(2) st2(2) x(4) k(1) kl st2(3)] by blast
  let ?r = "r\<lparr>is_tried := False, ref_count := 1\<rparr>"
  define st' where "st' = (set_new_matrix np ev st3)\<lparr>new_count := inc32 (new_count (set_new_matrix np ev st3)),
      map_info := fmupd ev ?r (map_info (set_new_matrix np ev st3))\<rparr>"
  have "evict_tried env cur st = Some st'"
    using ev st3(1) unfolding evict_tried_def Let_def st'_def st2_def np by simp
  moreover have nm: "new_matrix st' np = ev" by (simp add: st'_def)
  moreover have "clear_new np st' = None"
  proof -
    let ?d = "drop_cell np st'"
    have d: "fmlookup (map_info ?d) ev = Some (?r\<lparr>ref_count := 0\<rparr>)" "length (random_pos ?d) = l"
      using nm st3(2) by (simp_all add: drop_cell_def update_row_def set_new_matrix_def st'_def dec32_def)
    have "delete_new_entry ev ?d = None"
      using d l kl by (auto simp: delete_new_entry_def swap_random_def)
    then show ?thesis using nm ev(2) d(1) by (simp add: clear_new_eq)
  qed
  ultimately show ?thesis by blast
qed

lemma eviction_stale_index_witness:
  "\<exists>st'. evict_tried flat_env (0, 0) full_slot = Some st' \<and> new_matrix st' (0, 0) = 2 \<and> clear_new (0, 0) st' = None"
proof -
  have o: "random_ok full_slot"
    by (auto simp: random_ok_def full_slot_def known_peer_def host_row_def)
  have rows: "fmlookup (map_info full_slot) 1 = Some (host_row [1] False 0)"
    "fmlookup (map_info full_slot) 2 = Some (host_row [2] True 1)"
    by (simp_all add: full_slot_def known_peer_def)
  show ?thesis
    by (rule eviction_stale_index [OF full_slot_book o _ small_ids(2) rows(2) _ _ _ small_ids(1) rows(1)])
      (simp_all add: concrete_tables host_row_def)
qed

end
