(* ===== verification/Inbound_Session.thy ===== *)
theory Inbound_Session
  imports Handshake Admission Address_Promotion
begin

text \<open>
  The accepted side of a session (\<open>connection/listener.rs\<close>): reading frames off the raw
  WebSocket, the handshake and the reply, the first request, the registration of the newcomer in
  the address manager, its relay to the live peers and the insertion into the peer map. The
  forwarding loop that runs from then on is \<open>forward_loop\<close>.

  The remote's frames are a list; a read that the timer cuts off is an argument, as are the wire
  encodings and the text of an address. A failed registration (the address manager's panic) is
  \<open>None\<close>. Locks are not poisoned.
\<close>

section \<open>Reading frames\<close>

datatype ws_item = WsBinary bytes | WsPing bytes | WsClose | WsOther | WsFailed

datatype SessionError =
    TimedOut | NoHandshake | TransportError | MalformedFrame | ExpectedHandshake u8
  | BadHandshakeBody | Invalid HandshakeValidationError | EncodeError | SendError

datatype SessionEvent =
    SentPong bytes | SentHandshake Handshake | SentNoPeers "u16 option"
  | RelayedTo peer_id TimestampedPeerInfo

record session_env =
  se_frames :: frame_env
  se_request_peers :: u8
  se_decode_frame :: "bytes \<Rightarrow> DigMessage option"
  se_encode_handshake :: "Handshake \<Rightarrow> bytes option"
  se_no_peers :: "bytes option"
  se_show_ip :: "IpAddr \<Rightarrow> bytes"
  se_net :: net_env

text \<open>The read loop: it answers pings and skips other control frames. \<open>sends\<close> is the number of
  frames the socket still takes before a send fails.\<close>

fun read_next_wire_message ::
    "session_env \<Rightarrow> nat \<Rightarrow> ws_item list \<Rightarrow> SessionEvent list \<times> (SessionError + DigMessage \<times> ws_item list)" where
  "read_next_wire_message env sends [] = ([], Inl NoHandshake)"
| "read_next_wire_message env sends (WsBinary bin # rest) =
     ([], case se_decode_frame env bin of None \<Rightarrow> Inl MalformedFrame | Some msg \<Rightarrow> Inr (msg, rest))"
| "read_next_wire_message env sends (WsPing p # rest) =
     (case sends of
        0 \<Rightarrow> ([], Inl SendError)
      | Suc n \<Rightarrow> apfst (Cons (SentPong p)) (read_next_wire_message env n rest))"
| "read_next_wire_message env sends (WsClose # rest) = ([], Inl NoHandshake)"
| "read_next_wire_message env sends (WsOther # rest) = read_next_wire_message env sends rest"
| "read_next_wire_message env sends (WsFailed # rest) = ([], Inl TransportError)"

definition read_timed ::
    "session_env \<Rightarrow> nat \<Rightarrow> bool \<Rightarrow> ws_item list \<Rightarrow> SessionEvent list \<times> (SessionError + DigMessage \<times> ws_item list)" where
  "read_timed env sends late items =
     (let (out, r) = read_next_wire_message env sends items
      in (out, if late then Inl TimedOut else r))"

section \<open>The negotiation\<close>

record local_config =
  lc_network_id :: ustring
  lc_software_version :: ustring
  lc_listen_addr :: SocketAddr

definition listen_port_for_handshake :: "local_config \<Rightarrow> ServiceState \<Rightarrow> u16" where
  "listen_port_for_handshake cfg st =
     (case svc_listen_bound_addr st of Some a \<Rightarrow> sa_port a | None \<Rightarrow> sa_port (lc_listen_addr cfg))"

definition our_listen_peer_info :: "session_env \<Rightarrow> local_config \<Rightarrow> ServiceState \<Rightarrow> PeerInfo" where
  "our_listen_peer_info env cfg st =
     (let addr = (case svc_listen_bound_addr st of Some a \<Rightarrow> a | None \<Rightarrow> lc_listen_addr cfg)
      in \<lparr>pi_host = se_show_ip env (sa_ip addr), pi_port = sa_port addr\<rparr>)"

definition our_handshake :: "local_config \<Rightarrow> ServiceState \<Rightarrow> Handshake" where
  "our_handshake cfg st =
     \<lparr>network_id = lc_network_id cfg, protocol_version = ADVERTISED_PROTOCOL_VERSION,
      software_version = lc_software_version cfg, server_port = listen_port_for_handshake cfg st,
      hs_node_type = CFullNode, capabilities = [(1, ustr ''1''), (2, ustr ''1''), (3, ustr ''1'')]\<rparr>"

text \<open>Phases 1 to 4: what is sent, and the verdict with the handshake and the stored version. The
  socket takes \<open>si_sends\<close> frames in all: each phase has what the earlier ones left.\<close>

record session_input =
  si_items :: "ws_item list"
  si_late1 :: bool
  si_late2 :: bool
  si_sends :: nat

definition await_handshake ::
    "session_env \<Rightarrow> local_config \<Rightarrow> session_input
      \<Rightarrow> SessionEvent list \<times> (SessionError + Handshake \<times> ustring \<times> ws_item list)" where
  "await_handshake env cfg inp =
     (let (out, first) = read_timed env (si_sends inp) (si_late1 inp) (si_items inp)
      in (out,
        (case first of
           Inl e \<Rightarrow> Inl e
         | Inr (msg, items) \<Rightarrow>
             if msg_type msg \<noteq> fe_handshake (se_frames env) then Inl (ExpectedHandshake (msg_type msg))
             else (case fe_decode_handshake (se_frames env) (data msg) of
                 None \<Rightarrow> Inl BadHandshakeBody
               | Some theirs \<Rightarrow>
                   (case validate_remote_handshake (fe_category (se_frames env)) theirs (lc_network_id cfg) of
                      Inl e \<Rightarrow> Inl (Invalid e)
                    | Inr version \<Rightarrow> Inr (theirs, version, items))))))"

definition answer_first_request ::
    "session_env \<Rightarrow> session_input \<Rightarrow> nat \<Rightarrow> ws_item list \<Rightarrow> SessionEvent list \<times> (SessionError + ws_item list)" where
  "answer_first_request env inp sends items =
     (case read_timed env sends (si_late2 inp) items of
        (out, Inl e) \<Rightarrow> (out, Inl e)
      | (out, Inr (req, items)) \<Rightarrow>
          if msg_type req = se_request_peers env
          then (if se_no_peers env = None then (out, Inl EncodeError)
                else if sends \<le> length out then (out, Inl SendError)
                else (out @ [SentNoPeers (msg_id req)], Inr items))
          else (out, Inr items))"

definition greet ::
    "session_env \<Rightarrow> local_config \<Rightarrow> ServiceState \<Rightarrow> session_input
      \<Rightarrow> SessionEvent list \<times> (SessionError + Handshake \<times> ustring \<times> ws_item list)" where
  "greet env cfg st inp =
     (case await_handshake env cfg inp of
        (out, Inl e) \<Rightarrow> (out, Inl e)
      | (out, Inr (theirs, version, items)) \<Rightarrow>
          (let ours = our_handshake cfg st in
           if se_encode_handshake env ours = None then (out, Inl EncodeError)
           else if si_sends inp \<le> length out then (out, Inl SendError)
           else (case answer_first_request env inp (si_sends inp - length out - 1) items of
               (out2, Inl e) \<Rightarrow> (out @ SentHandshake ours # out2, Inl e)
             | (out2, Inr items) \<Rightarrow> (out @ SentHandshake ours # out2, Inr (theirs, version, items)))))"

definition live_peers :: "peer_id list \<Rightarrow> ServiceState \<Rightarrow> peer_id list" where
  "live_peers ids st = filter (slot_holds (\<lambda>_ s. case s of LiveRow _ \<Rightarrow> True | _ \<Rightarrow> False) (svc_peers st)) ids"

definition relay_new_peer_to_live_peers ::
    "peer_id list \<Rightarrow> TimestampedPeerInfo \<Rightarrow> ServiceState \<Rightarrow> SessionEvent list" where
  "relay_new_peer_to_live_peers ids row st = map (\<lambda>p. RelayedTo p row) (live_peers ids st)"

definition newcomer_row :: "session_env \<Rightarrow> SocketAddr \<Rightarrow> Handshake \<Rightarrow> nat \<Rightarrow> TimestampedPeerInfo" where
  "newcomer_row env remote theirs now =
     \<lparr>ts_host = se_show_ip env (sa_ip remote), ts_port = server_port theirs, ts_timestamp = now\<rparr>"

type_synonym session_state = "ServiceState \<times> Inner"

text \<open>The whole function. \<open>turn\<close> holds what the address manager's turn reads: the clock
  of the new row, two more readings and the draws.\<close>

definition negotiate_inbound_over_ws ::
    "session_env \<Rightarrow> local_config \<Rightarrow> peer_id list \<Rightarrow> nat \<times> nat \<times> nat \<times> (nat \<Rightarrow> nat) \<Rightarrow> peer_id \<Rightarrow> SocketAddr
      \<Rightarrow> session_input \<Rightarrow> session_state
      \<Rightarrow> (SessionEvent list \<times> (SessionError + ustring \<times> DigNodeType \<times> ws_item list) \<times> session_state) option" where
  "negotiate_inbound_over_ws env cfg ids turn p remote inp = (\<lambda>(st, am).
     (case greet env cfg st inp of
        (out, Inl e) \<Rightarrow> Some (out, Inl e, (st, am))
      | (out, Inr (theirs, version, items)) \<Rightarrow>
          (let (ts, now, now2, draw) = turn;
               row = newcomer_row env remote theirs ts
           in map_option (\<lambda>am. (out @ relay_new_peer_to_live_peers ids row st,
                  Inr (version, dig_node_type_of (hs_node_type theirs), items),
                  (listener_insert p remote st, am)))
                (add_to_new_table (se_net env) [(row, now, now2, draw)] (our_listen_peer_info env cfg st) 0 am))))"

section \<open>A session to evaluate\<close>

definition demo_local :: local_config where
  "demo_local = \<lparr>lc_network_id = [5], lc_software_version = [66], lc_listen_addr = SocketAddr (V4 [9, 9, 9, 9]) 9444\<rparr>"

definition demo_session :: session_env where
  "demo_session = \<lparr>se_frames = \<lparr>fe_handshake = 1, fe_chia_opcode = (\<lambda>op. op < 100),
        fe_decode_handshake = (\<lambda>b. if b = [1] then Some (outbound_hello [5] [65])
          else if b = [2] then Some (our_handshake demo_local service_new) else None),
        fe_category = (\<lambda>c. if c < 32 then Control else OtherCategory)\<rparr>,
     se_request_peers = 43,
     se_decode_frame = (\<lambda>b. case b of [] \<Rightarrow> None | op # body \<Rightarrow>
        Some \<lparr>msg_type = op, msg_id = None, data = body\<rparr>),
     se_encode_handshake = (\<lambda>h. Some [2]), se_no_peers = Some [], se_show_ip = (\<lambda>_. [1]), se_net = flat_env\<rparr>"

definition demo_input :: session_input where
  "demo_input = \<lparr>si_items = [WsPing [3], WsOther], si_late1 = False, si_late2 = False, si_sends = 9\<rparr>"

abbreviation node_opening :: session_input where
  "node_opening \<equiv> demo_input\<lparr>si_items := [WsBinary [1, 1], WsBinary [43]]\<rparr>"

lemma demo_versions:
  "utf8_len (sanitize_software_version (fe_category (se_frames demo_session)) [65]) \<le> 128"
  "utf8_len (sanitize_software_version (fe_category (se_frames demo_session)) (lc_software_version demo_local)) \<le> 128"
  by (simp_all add: demo_session_def demo_local_def sanitize_software_version_def utf8_len_def utf8_width_def)

section \<open>Validate, then answer\<close>

lemma read_sends_pongs:
  "read_next_wire_message env sends items = (out, r) \<Longrightarrow> e \<in> set out \<Longrightarrow> \<exists>p. e = SentPong p"
  by (induction env sends items arbitrary: out rule: read_next_wire_message.induct)
    (auto simp: apfst_def map_prod_def split: if_splits prod.splits nat.splits)

lemma read_timed_pongs: "read_timed env sends late items = (out, r) \<Longrightarrow> e \<in> set out \<Longrightarrow> \<exists>p. e = SentPong p"
  using read_sends_pongs by (auto simp: read_timed_def Let_def split: prod.splits)

definition valid_opening :: "session_env \<Rightarrow> local_config \<Rightarrow> session_input \<Rightarrow> bool" where
  "valid_opening env cfg inp \<longleftrightarrow> (\<exists>msg rest theirs version.
     snd (read_next_wire_message env (si_sends inp) (si_items inp)) = Inr (msg, rest) \<and> \<not> si_late1 inp
     \<and> msg_type msg = fe_handshake (se_frames env)
     \<and> fe_decode_handshake (se_frames env) (data msg) = Some theirs
     \<and> validate_remote_handshake (fe_category (se_frames env)) theirs (lc_network_id cfg) = Inr version)"

lemma await_handshake_cases:
  assumes "await_handshake env cfg inp = (out, r)"
  shows "(e \<in> set out \<longrightarrow> (\<exists>p. e = SentPong p)) \<and> ((\<exists>x. r = Inr x) \<longrightarrow> valid_opening env cfg inp)"
proof -
  obtain out1 first where read: "read_timed env (si_sends inp) (si_late1 inp) (si_items inp) = (out1, first)"
    by fastforce
  then have "out = out1"
    using assms by (simp add: await_handshake_def)
  moreover have "valid_opening env cfg inp" if "r = Inr x" for x
    using assms read that
    by (auto simp: await_handshake_def valid_opening_def read_timed_def Let_def
        split: sum.splits if_splits option.splits prod.splits)
  ultimately show ?thesis
    using read_timed_pongs [OF read] by blast
qed

lemma greet_cases:
  assumes "greet env cfg st inp = (out, r)"
  shows "(\<forall>q row. RelayedTo q row \<notin> set out) \<and> (SentHandshake h \<in> set out \<longrightarrow> valid_opening env cfg inp)
    \<and> ((\<exists>x. r = Inr x) \<longrightarrow> valid_opening env cfg inp)"
proof -
  obtain out1 r1 where first: "await_handshake env cfg inp = (out1, r1)"
    by fastforce
  note opens = await_handshake_cases [OF first]
  show ?thesis
  proof (cases r1)
    case (Inl e)
    then show ?thesis
      using assms first opens by (auto simp: greet_def)
  next
    case (Inr x)
    then obtain theirs version items where x: "r1 = Inr (theirs, version, items)"
      by (metis prod_cases3)
    have pongs: "answer_first_request env inp k items = (out2, r2) \<Longrightarrow> RelayedTo q row \<notin> set out2" for k out2 r2 q row
      by (auto simp: answer_first_request_def split: prod.splits sum.splits if_splits dest!: read_timed_pongs)
    moreover have "RelayedTo q row \<notin> set out1" for q row
      using opens [of "RelayedTo q row"] by blast
    ultimately show ?thesis
      using assms first opens x
      by (auto simp: greet_def Let_def split: if_splits prod.splits sum.splits)
  qed
qed

text \<open>
  C12: the listener validates before it answers, and a session that fails leaves no trace. Whatever
  the remote sends, the node's own handshake goes out only after a first frame that is a handshake
  for its network with an acceptable version; if the negotiation ends in an error the peer map, the
  address manager and the other peers are untouched.
\<close>

theorem failed_session_leaves_no_trace:
  assumes "negotiate_inbound_over_ws env cfg ids turn p remote inp s = Some (out, r, s')"
  shows "(SentHandshake h \<in> set out \<longrightarrow> valid_opening env cfg inp)
    \<and> (r = Inl e \<longrightarrow> s' = s \<and> (\<forall>q row. RelayedTo q row \<notin> set out))"
proof -
  obtain st am where s: "s = (st, am)"
    by fastforce
  obtain out1 r1 where greet: "greet env cfg st inp = (out1, r1)"
    by fastforce
  show ?thesis
    using assms greet greet_cases [OF greet, of h] s
    by (cases r1)
      (auto simp: negotiate_inbound_over_ws_def relay_new_peer_to_live_peers_def Let_def split: prod.splits)
qed

theorem failed_session_leaves_no_trace_witness:
  "\<exists>out. negotiate_inbound_over_ws demo_session demo_local [] (0, 0, 0, \<lambda>_. 0) [7] (SocketAddr (V4 [8, 8, 8, 8]) 1)
      demo_input (service_new, Inner_new []) = Some (out, Inl NoHandshake, (service_new, Inner_new []))
    \<and> SentHandshake (our_handshake demo_local service_new) \<notin> set out"
proof -
  have run: "negotiate_inbound_over_ws demo_session demo_local [] (0, 0, 0, \<lambda>_. 0) [7] (SocketAddr (V4 [8, 8, 8, 8]) 1)
      demo_input (service_new, Inner_new []) = Some ([SentPong [3]], Inl NoHandshake, (service_new, Inner_new []))"
    by (simp add: negotiate_inbound_over_ws_def greet_def await_handshake_def read_timed_def demo_input_def)
  have "\<not> valid_opening demo_session demo_local demo_input"
    by (simp add: valid_opening_def demo_input_def)
  then show ?thesis
    using failed_session_leaves_no_trace [OF run] run by blast
qed

section \<open>Two nodes meet\<close>

text \<open>A session as a node of this crate opens it: its hello, then its first request.\<close>

definition opened_by_node ::
    "session_env \<Rightarrow> ustring \<Rightarrow> ustring \<Rightarrow> session_input \<Rightarrow> ws_item list \<Rightarrow> bool" where
  "opened_by_node env net version inp rest \<longleftrightarrow> (\<exists>f1 f2 m1 m2.
     si_items inp = WsBinary f1 # WsBinary f2 # rest \<and> 2 \<le> si_sends inp \<and> \<not> si_late1 inp \<and> \<not> si_late2 inp
     \<and> se_decode_frame env f1 = Some m1 \<and> msg_type m1 = fe_handshake (se_frames env)
     \<and> fe_decode_handshake (se_frames env) (data m1) = Some (outbound_hello net version)
     \<and> se_decode_frame env f2 = Some m2 \<and> msg_type m2 = se_request_peers env)"

lemma advertised_version: "version_of ADVERTISED_PROTOCOL_VERSION (0, 0, 37)"
  by (simp add: parse_triple_iff [symmetric] parse_protocol_triple_def parse_segment_def ustr_def trim_def
      is_white_space_def parse_u32_def parse_digits_def push_digit_def u32_max_def Let_def
      ADVERTISED_PROTOCOL_VERSION_def)

lemma own_version_accepted:
  assumes "network_id h = net" "net \<noteq> []" "protocol_version h = ADVERTISED_PROTOCOL_VERSION"
    and "utf8_len (sanitize_software_version cat (software_version h)) \<le> 128"
  shows "validate_remote_handshake cat h net = Inr (sanitize_software_version cat (software_version h))"
proof -
  have "is_compatible_protocol_version (protocol_version h)"
    unfolding compatible_iff using advertised_version assms(3)
    by (intro exI [of _ 0] exI [of _ 37]) (simp add: triple_le_def)
  moreover from this have "trim (protocol_version h) \<noteq> []"
    by (auto simp: is_compatible_protocol_version_def parse_protocol_triple_def)
  ultimately show ?thesis
    using assms by (simp add: validate_remote_handshake_def Let_def MAX_SOFTWARE_VERSION_BYTES_def)
qed

lemma opened_greet:
  assumes "opened_by_node env net version inp rest" "net \<noteq> []" "lc_network_id cfg = net"
    and "utf8_len (sanitize_software_version (fe_category (se_frames env)) version) \<le> 128"
    and "se_encode_handshake env (our_handshake cfg st) \<noteq> None" "se_no_peers env \<noteq> None"
  shows "\<exists>tag. greet env cfg st inp = ([SentHandshake (our_handshake cfg st), SentNoPeers tag],
    Inr (outbound_hello net version, sanitize_software_version (fe_category (se_frames env)) version, rest))"
proof -
  have "validate_remote_handshake (fe_category (se_frames env)) (outbound_hello net version) net
      = Inr (sanitize_software_version (fe_category (se_frames env)) version)"
    using assms(2,4) own_version_accepted [of "outbound_hello net version"] by (simp add: outbound_hello_def)
  then show ?thesis
    using assms(1,3,5,6)
    by (auto simp: opened_by_node_def greet_def await_handshake_def answer_first_request_def read_timed_def Let_def)
qed

lemma opened_negotiation:
  assumes "greet env cfg st inp = (out, Inr (theirs, version, rest))"
    and "add_to_new_table (se_net env) [(newcomer_row env remote theirs ts, now, now2, draw)]
           (our_listen_peer_info env cfg st) 0 am = Some am'"
  shows "negotiate_inbound_over_ws env cfg ids (ts, now, now2, draw) p remote inp (st, am)
    = Some (out @ map (\<lambda>q. RelayedTo q (newcomer_row env remote theirs ts)) (live_peers ids st),
        Inr (version, dig_node_type_of (hs_node_type theirs), rest), (listener_insert p remote st, am'))"
  using assms by (simp add: negotiate_inbound_over_ws_def relay_new_peer_to_live_peers_def Let_def)

text \<open>
  C35: two nodes of a network always agree. If both are configured with the same nonempty network id
  and software versions of at most 128 bytes, the listener accepts the dialler's opening and
  inserts it, with the dialler's version stored; and the dialler accepts the handshake the listener
  sends in between.
\<close>

theorem handshake_completes:
  assumes "opened_by_node env net version inp rest" "net \<noteq> []" "lc_network_id cfg = net"
    and "utf8_len (sanitize_software_version (fe_category (se_frames env)) version) \<le> 128"
    and "utf8_len (sanitize_software_version (fe_category (se_frames env)) (lc_software_version cfg)) \<le> 128"
    and "se_encode_handshake env (our_handshake cfg st) = Some body"
    and "fe_decode_handshake (se_frames env) body = Some (our_handshake cfg st)" "se_no_peers env \<noteq> None"
    and "book (se_net env) {} am" "random_ok am" "unat (id_count am) + 1 < u32_max"
  shows "\<exists>out st' am'. negotiate_inbound_over_ws env cfg ids turn p remote inp (st, am)
      = Some (out, Inr (sanitize_software_version (fe_category (se_frames env)) version, Wallet, rest), (st', am'))
    \<and> SentHandshake (our_handshake cfg st) \<in> set out
    \<and> (\<exists>l. fmlookup (svc_peers st') p = Some (LiveRow l) \<and> sp_remote (live_meta l) = remote)
    \<and> outbound_exchange (se_frames env) net True
        (Some \<lparr>msg_type = fe_handshake (se_frames env), msg_id = None, data = body\<rparr>)
      = Inr (our_handshake cfg st,
          sanitize_software_version (fe_category (se_frames env)) (lc_software_version cfg))"
proof -
  obtain tag where greet: "greet env cfg st inp = ([SentHandshake (our_handshake cfg st), SentNoPeers tag],
    Inr (outbound_hello net version, sanitize_software_version (fe_category (se_frames env)) version, rest))"
    using opened_greet [OF assms(1-4), of st] assms(6,8) by auto
  obtain ts now now2 draw where turn: "turn = (ts, now, now2, draw)"
    by (rule prod_cases4)
  obtain am' where added: "add_to_new_table (se_net env)
      [(newcomer_row env remote (outbound_hello net version) ts, now, now2, draw)] (our_listen_peer_info env cfg st) 0 am
      = Some am'"
    using add_list_total [OF assms(9,10), of "[(newcomer_row env remote (outbound_hello net version) ts, now, now2, draw)]"]
      assms(11) by auto
  have "validate_remote_handshake (fe_category (se_frames env)) (our_handshake cfg st) net
      = Inr (sanitize_software_version (fe_category (se_frames env)) (lc_software_version cfg))"
    using own_version_accepted [of "our_handshake cfg st" net "fe_category (se_frames env)"] assms(2,3,5)
    by (simp add: our_handshake_def)
  then have "outbound_exchange (se_frames env) net True
        (Some \<lparr>msg_type = fe_handshake (se_frames env), msg_id = None, data = body\<rparr>)
      = Inr (our_handshake cfg st,
          sanitize_software_version (fe_category (se_frames env)) (lc_software_version cfg))"
    using assms(7) by (simp add: outbound_exchange_def) (simp add: our_handshake_def)
  moreover have "\<exists>l. fmlookup (svc_peers (listener_insert p remote st)) p = Some (LiveRow l)
      \<and> sp_remote (live_meta l) = remote"
    by (simp add: listener_insert_def next_peer_generation_def Let_def)
  ultimately show ?thesis
    unfolding turn opened_negotiation [OF greet added] by (simp add: outbound_hello_def)
qed

lemma demo_opened: "opened_by_node demo_session [5] [65] node_opening []"
  by (simp add: opened_by_node_def demo_session_def demo_input_def)

theorem handshake_completes_witness:
  "\<exists>out st' am'. negotiate_inbound_over_ws demo_session demo_local [] (0, 0, 0, \<lambda>_. 0) [7]
      (SocketAddr (V4 [8, 8, 8, 8]) 1) node_opening (service_new, Inner_new [])
      = Some (out, Inr ([65], Wallet, []), (st', am')) \<and> fmlookup (svc_peers st') [7] \<noteq> None"
proof -
  have codec: "se_encode_handshake demo_session (our_handshake demo_local service_new) = Some [2]"
    "fe_decode_handshake (se_frames demo_session) [2] = Some (our_handshake demo_local service_new)"
    "se_no_peers demo_session \<noteq> None" "lc_network_id demo_local = [5]"
    by (simp_all add: demo_session_def demo_local_def)
  have fresh: "book (se_net demo_session) {} (Inner_new [])" "random_ok (Inner_new [])"
    "unat (id_count (Inner_new [])) + 1 < u32_max"
    using book_new [of _ "[]"] by (simp_all add: random_ok_def Inner_new_def u32_max_def)
  have stored: "sanitize_software_version (fe_category (se_frames demo_session)) [65] = [65]"
    by (simp add: demo_session_def sanitize_software_version_def)
  from handshake_completes [OF demo_opened _ codec(4) demo_versions codec(1-3) fresh,
      of "[]" "(0, 0, 0, \<lambda>_. 0)" "[7]" "SocketAddr (V4 [8, 8, 8, 8]) 1"]
  show ?thesis
    unfolding stored by (metis list.distinct(1) option.distinct(1))
qed

text \<open>
  A node that dials in is recorded under port 0. A node's hello announces port 0, and the
  listener takes the newcomer's port from the hello: what it relays to the live peers, and the row
  a fresh address manager gets, is an address nobody can dial.
\<close>

theorem dialler_recorded_without_port:
  assumes "opened_by_node env net version inp rest" "net \<noteq> []" "lc_network_id cfg = net"
    and "utf8_len (sanitize_software_version (fe_category (se_frames env)) version) \<le> 128"
    and "se_encode_handshake env (our_handshake cfg st) \<noteq> None" "se_no_peers env \<noteq> None"
    and "\<not> host_is_private (se_net env) (se_show_ip env (sa_ip remote))"
  shows "\<exists>out r st' am' row. negotiate_inbound_over_ws env cfg ids turn p remote inp (st, Inner_new key)
      = Some (out, Inr r, (st', am'))
    \<and> (\<forall>q\<in>set (live_peers ids st). RelayedTo q row \<in> set out) \<and> ts_port row = 0
    \<and> (\<exists>n rec. fmlookup (map_info am') n = Some rec
        \<and> peer_info rec = \<lparr>pi_host = se_show_ip env (sa_ip remote), pi_port = 0\<rparr>)"
proof -
  obtain tag where greet: "greet env cfg st inp = ([SentHandshake (our_handshake cfg st), SentNoPeers tag],
    Inr (outbound_hello net version, sanitize_software_version (fe_category (se_frames env)) version, rest))"
    using opened_greet [OF assms(1-6)] by blast
  obtain ts now now2 draw where turn: "turn = (ts, now, now2, draw)"
    by (rule prod_cases4)
  let ?row = "newcomer_row env remote (outbound_hello net version) ts"
  have "\<exists>am' rec. add_to_new_table (se_net env) [(?row, now, now2, draw)] (our_listen_peer_info env cfg st) 0
      (Inner_new key) = Some am' \<and> fmlookup (map_info am') 1 = Some rec
      \<and> peer_info rec = \<lparr>pi_host = se_show_ip env (sa_ip remote), pi_port = 0\<rparr>"
    using assms(7)
    by (simp add: newcomer_row_def outbound_hello_def add_to_new_table_inner_def Inner_new_def am_find_def
        create_row_def update_row_def peer_row_from_ts_def place_new_def new_slot_def clear_new_def Let_def
        EMPTY_def set_new_matrix_def inc32_def)
  then obtain am' rec where am: "add_to_new_table (se_net env) [(?row, now, now2, draw)]
      (our_listen_peer_info env cfg st) 0 (Inner_new key) = Some am'" "fmlookup (map_info am') 1 = Some rec"
    "peer_info rec = \<lparr>pi_host = se_show_ip env (sa_ip remote), pi_port = 0\<rparr>"
    by blast
  have "ts_port ?row = 0"
    by (simp add: newcomer_row_def outbound_hello_def)
  then show ?thesis
    unfolding turn opened_negotiation [OF greet am(1)] using am(2,3)
    by (intro exI [of _ "?row"] exI) (auto intro!: exI [of _ 1])
qed

theorem dialler_recorded_without_port_witness:
  "\<exists>out r st' am' n rec. negotiate_inbound_over_ws demo_session demo_local [] (0, 0, 0, \<lambda>_. 0) [7]
      (SocketAddr (V4 [8, 8, 8, 8]) 1) node_opening (service_new, Inner_new []) = Some (out, Inr r, (st', am'))
    \<and> fmlookup (map_info am') n = Some rec \<and> peer_info rec = \<lparr>pi_host = [1], pi_port = 0\<rparr>"
proof -
  have codec: "se_encode_handshake demo_session (our_handshake demo_local service_new) \<noteq> None"
    "se_no_peers demo_session \<noteq> None" "lc_network_id demo_local = [5]"
    and ip: "se_show_ip demo_session (sa_ip (SocketAddr (V4 [8, 8, 8, 8]) 1)) = [1]"
    and public: "\<not> host_is_private (se_net demo_session) (se_show_ip demo_session (sa_ip (SocketAddr (V4 [8, 8, 8, 8]) 1)))"
    by (simp_all add: demo_session_def demo_local_def host_is_private_def flat_env_def)
  from dialler_recorded_without_port [OF demo_opened _ codec(3) demo_versions(1) codec(1,2) public,
      of "[]" "(0, 0, 0, \<lambda>_. 0)" "[7]" "[]"]
  show ?thesis
    unfolding ip by (metis list.distinct(1))
qed

end
