(* ===== verification/Select_Peer.thy ===== *)
theory Select_Peer
  imports Address_Promotion "HOL-Library.Product_Lexorder"
begin

text \<open>
  Picking an address to dial: \<open>get_selection_chance\<close> (\<open>types/peer.rs\<close>) and
  \<open>select_peer_\<close> (\<open>discovery/address_manager.rs\<close>).

  The random generator is a state with three draws: a number below a bound, a machine word of any
  size and a 32-bit word. \<open>f64\<close> weights are exact rationals; the cast to \<open>u32\<close>
  truncates and saturates. The walk to an occupied cell may run for ever on an unlucky
  generator, so a selection is an option: \<open>None\<close> when it does not return. The order in which
  the position sets are visited is an argument.
\<close>

section \<open>Weights\<close>

definition get_selection_chance :: "nat \<Rightarrow> ExtendedPeerInfo \<Rightarrow> rat" where
  "get_selection_chance now r =
     (if now - last_try r < 60 * 10 then 1 / 100 else 1) * (66 / 100) ^ min (num_attempts r) 8"

definition f64_to_u32 :: "rat \<Rightarrow> nat" where
  "f64_to_u32 x = nat (min (max \<lfloor>x\<rfloor> 0) (2 ^ 32 - 1))"

definition selection_threshold :: "rat \<Rightarrow> nat \<Rightarrow> ExtendedPeerInfo \<Rightarrow> nat" where
  "selection_threshold chance now r = f64_to_u32 (chance * get_selection_chance now r * 2 ^ 30)"

section \<open>Selection\<close>

record 'r rng_ops =
  below :: "nat \<Rightarrow> 'r \<Rightarrow> nat \<times> 'r"
  any_usize :: "'r \<Rightarrow> nat \<times> 'r"
  any_u32 :: "'r \<Rightarrow> nat \<times> 'r"

definition LOG_TRIED_BUCKET_COUNT :: nat where "LOG_TRIED_BUCKET_COUNT = 3"
definition LOG_NEW_BUCKET_COUNT :: nat where "LOG_NEW_BUCKET_COUNT = 10"
definition LOG_BUCKET_SIZE :: nat where "LOG_BUCKET_SIZE = 6"

text \<open>The square roots of the numbers of cells.\<close>

definition TRIED_SQRT_SLOTS :: nat where "TRIED_SQRT_SLOTS = 128"
definition NEW_SQRT_SLOTS :: nat where "NEW_SQRT_SLOTS = 256"

lemma sqrt_slots:
  "TRIED_SQRT_SLOTS * TRIED_SQRT_SLOTS = TRIED_BUCKET_COUNT * BUCKET_SIZE"
  "NEW_SQRT_SLOTS * NEW_SQRT_SLOTS = NEW_BUCKET_COUNT * BUCKET_SIZE"
  by (simp_all add: TRIED_SQRT_SLOTS_def NEW_SQRT_SLOTS_def bucket_consts)

record table_view =
  tv_matrix :: "slot \<Rightarrow> u32"
  tv_buckets :: nat
  tv_log :: nat
  tv_cached :: "slot list option"

partial_function (option) walk ::
    "'r rng_ops \<Rightarrow> table_view \<Rightarrow> nat \<Rightarrow> nat \<Rightarrow> 'r \<Rightarrow> (slot \<times> 'r) option" where
  "walk rng t bucket pos s =
     (if tv_matrix t (bucket, pos) = EMPTY
      then (let (a, s) = any_usize rng s;
                bucket = (bucket + a mod 2 ^ tv_log t) mod tv_buckets t;
                (b, s) = any_usize rng s;
                pos = (pos + b mod 2 ^ LOG_BUCKET_SIZE) mod BUCKET_SIZE
            in walk rng t bucket pos s)
      else Some ((bucket, pos), s))"

definition pick_cell :: "'r rng_ops \<Rightarrow> table_view \<Rightarrow> 'r \<Rightarrow> (slot \<times> 'r) option" where
  "pick_cell rng t s =
     (case tv_cached t of
        Some c \<Rightarrow> (let (i, s) = below rng (length c) s in Some (c ! i, s))
      | None \<Rightarrow>
          (let (bucket, s) = below rng (tv_buckets t) s;
               (pos, s) = below rng BUCKET_SIZE s
           in walk rng t bucket pos s))"

primrec select_loop ::
    "nat \<Rightarrow> 'r rng_ops \<Rightarrow> table_view \<Rightarrow> (node_id, ExtendedPeerInfo) fmap \<Rightarrow> nat \<Rightarrow> rat \<Rightarrow> 'r
      \<Rightarrow> (ExtendedPeerInfo option \<times> 'r) option" where
  "select_loop 0 rng t rows now chance s = Some (None, s)"
| "select_loop (Suc left) rng t rows now chance s =
     (if tv_cached t = Some [] then Some (None, s)
      else do {
        (pos, s) \<leftarrow> pick_cell rng t s;
        (if tv_matrix t pos = EMPTY then select_loop left rng t rows now chance s
         else case fmlookup rows (tv_matrix t pos) of
                None \<Rightarrow> Some (None, s)
              | Some info \<Rightarrow>
                  (let (w, s) = any_u32 rng s in
                   if w mod 2 ^ 30 < selection_threshold chance now info then Some (Some info, s)
                   else select_loop left rng t rows now (chance * (6 / 5)) s)) })"

definition MAX_SELECT_ITERS :: nat where "MAX_SELECT_ITERS = 50000"

definition tried_view :: "(slot fset \<Rightarrow> slot list) \<Rightarrow> Inner \<Rightarrow> table_view" where
  "tried_view order st =
     \<lparr>tv_matrix = tried_matrix st, tv_buckets = TRIED_BUCKET_COUNT, tv_log = LOG_TRIED_BUCKET_COUNT,
      tv_cached =
        (if fcard (used_tried_matrix_positions st) < TRIED_SQRT_SLOTS
         then Some (order (used_tried_matrix_positions st)) else None)\<rparr>"

definition new_view :: "(slot fset \<Rightarrow> slot list) \<Rightarrow> Inner \<Rightarrow> table_view" where
  "new_view order st =
     \<lparr>tv_matrix = new_matrix st, tv_buckets = NEW_BUCKET_COUNT, tv_log = LOG_NEW_BUCKET_COUNT,
      tv_cached =
        (if fcard (used_new_matrix_positions st) < NEW_SQRT_SLOTS
         then Some (order (used_new_matrix_positions st)) else None)\<rparr>"

definition tried_coin :: "'r rng_ops \<Rightarrow> bool \<Rightarrow> Inner \<Rightarrow> 'r \<Rightarrow> bool \<times> 'r" where
  "tried_coin rng new_only st s =
     (if new_only \<or> tried_count st = 0 then (False, s)
      else if new_count st = 0 then (True, s)
      else let (c, s) = below rng 2 s in (c = 0, s))"

definition select_peer_inner ::
    "'r rng_ops \<Rightarrow> (slot fset \<Rightarrow> slot list) \<Rightarrow> bool \<Rightarrow> nat \<Rightarrow> Inner \<Rightarrow> 'r
      \<Rightarrow> (ExtendedPeerInfo option \<times> 'r) option" where
  "select_peer_inner rng order new_only now st s =
     (if random_pos st = [] then Some (None, s)
      else if new_only \<and> new_count st = 0 then Some (None, s)
      else let (from_tried, s) = tried_coin rng new_only st s
           in select_loop MAX_SELECT_ITERS rng (if from_tried then tried_view order st else new_view order st)
                (map_info st) now 1 s)"

section \<open>What a selection returns\<close>

definition rng_ok :: "'r rng_ops \<Rightarrow> bool" where
  "rng_ok rng \<longleftrightarrow> (\<forall>n s. 0 < n \<longrightarrow> fst (below rng n s) < n)"

lemma select_loop_sound:
  assumes "select_loop k rng t rows now chance s = Some (Some info, s')"
  shows "\<exists>pos. tv_matrix t pos \<noteq> EMPTY \<and> fmlookup rows (tv_matrix t pos) = Some info"
  using assms
  by (induction k arbitrary: chance s)
    (auto simp: Let_def bind_eq_Some_conv split: if_splits option.splits prod.splits)

lemma selection_chance_floor: "1 / 100 * (66 / 100) ^ 8 \<le> get_selection_chance now r"
proof -
  have "(66 / 100 :: rat) ^ 8 \<le> (66 / 100) ^ min (num_attempts r) 8"
    by (rule power_decreasing) simp_all
  then show ?thesis
    unfolding get_selection_chance_def by (intro mult_mono) simp_all
qed

lemma selection_threshold_certain:
  assumes "44 \<le> j"
  shows "2 ^ 30 \<le> selection_threshold ((6 / 5) ^ j) now r"
proof -
  have "1 \<le> (6 / 5 :: rat) ^ 44 * (1 / 100 * (66 / 100) ^ 8)"
    by (simp add: field_simps)
  also have "\<dots> \<le> (6 / 5) ^ j * get_selection_chance now r"
    using assms by (intro mult_mono selection_chance_floor power_increasing) simp_all
  finally have "(2 ^ 30 :: rat) \<le> (6 / 5) ^ j * get_selection_chance now r * 2 ^ 30"
    by simp
  moreover have "2 ^ 30 \<le> f64_to_u32 x" if "2 ^ 30 \<le> x" for x
    using that by (simp add: f64_to_u32_def le_nat_iff le_floor_iff)
  ultimately show ?thesis
    unfolding selection_threshold_def by blast
qed

text \<open>With the positions of the table cached and all of them occupied by rows, the weight grows until
  a draw is certain to succeed: 45 rounds are enough.\<close>

lemma select_loop_returns:
  assumes "tv_cached t = Some c" "c \<noteq> []" "rng_ok rng"
    and "\<forall>pos\<in>set c. tv_matrix t pos \<noteq> EMPTY \<and> fmlookup rows (tv_matrix t pos) \<noteq> None"
    and "0 < k" "44 < j + k"
  shows "\<exists>info s'. select_loop k rng t rows now ((6 / 5) ^ j) s = Some (Some info, s')"
  using assms(5,6)
proof (induction k arbitrary: j s)
  case (Suc k)
  obtain i s1 where i: "below rng (length c) s = (i, s1)"
    by fastforce
  then have "i < length c"
    using assms(2,3) by (auto simp: rng_ok_def) (metis fst_conv length_greater_0_conv)
  then have cell: "tv_matrix t (c ! i) \<noteq> EMPTY"
    and "fmlookup rows (tv_matrix t (c ! i)) \<noteq> None"
    using assms(4) by (simp_all add: nth_mem)
  then obtain info where row: "fmlookup rows (tv_matrix t (c ! i)) = Some info"
    by blast
  obtain w s2 where w: "any_u32 rng s1 = (w, s2)"
    by fastforce
  have step: "select_loop (Suc k) rng t rows now ((6 / 5) ^ j) s =
      (if w mod 2 ^ 30 < selection_threshold ((6 / 5) ^ j) now info then Some (Some info, s2)
       else select_loop k rng t rows now ((6 / 5) ^ Suc j) s2)"
    using assms(1,2) i w cell row by (simp add: pick_cell_def mult.commute)
  show ?case
  proof (cases "w mod 2 ^ 30 < selection_threshold ((6 / 5) ^ j) now info")
    case False
    have "w mod 2 ^ 30 < 2 ^ 30"
      by simp
    then have "j < 44"
      using False selection_threshold_certain [of j now info] by (meson not_less order_less_le_trans)
    then have "0 < k" "44 < Suc j + k"
      using Suc.prems by simp_all
    then show ?thesis
      unfolding step using Suc.IH [of "Suc j" s2] False by simp
  next
    case True
    then show ?thesis
      unfolding step by simp
  qed
qed simp

lemma book_cells:
  assumes "book env X st"
  shows "new_matrix st pos \<noteq> EMPTY \<Longrightarrow> \<exists>r. fmlookup (map_info st) (new_matrix st pos) = Some r \<and> \<not> is_tried r"
    and "tried_matrix st pos \<noteq> EMPTY \<Longrightarrow> \<exists>r. fmlookup (map_info st) (tried_matrix st pos) = Some r \<and> is_tried r"
proof -
  have ok: "i \<noteq> EMPTY \<Longrightarrow> id_ok env (am_key st) (id_count st) (cells (new_matrix st) i) (cells (tried_matrix st) i)
      (view st i) i" for i
    using assms book_okD by (simp add: book_def)
  show "new_matrix st pos \<noteq> EMPTY \<Longrightarrow> \<exists>r. fmlookup (map_info st) (new_matrix st pos) = Some r \<and> \<not> is_tried r"
    using ok [of "new_matrix st pos"] mem_cells [of pos "new_matrix st" "new_matrix st pos"]
    by (cases "fmlookup (map_info st) (new_matrix st pos)")
      (auto simp: view_def view_row_def split: if_splits)
  show "tried_matrix st pos \<noteq> EMPTY \<Longrightarrow> \<exists>r. fmlookup (map_info st) (tried_matrix st pos) = Some r \<and> is_tried r"
    using ok [of "tried_matrix st pos"] mem_cells [of pos "tried_matrix st" "tried_matrix st pos"]
    by (cases "fmlookup (map_info st) (tried_matrix st pos)")
      (auto simp: view_def view_row_def split: if_splits)
qed

text \<open>Whatever the generator does, a selection that returns an address returns a row of the manager,
  and for a feeler an untried one.\<close>

lemma select_peer_sound:
  assumes "book env X st" "select_peer_inner rng order new_only now st s = Some (Some info, s')"
  shows "\<exists>i. fmlookup (map_info st) i = Some info \<and> (new_only \<longrightarrow> \<not> is_tried info)"
proof -
  obtain from_tried s1 where coin: "tried_coin rng new_only st s = (from_tried, s1)"
    by fastforce
  then have run: "select_loop MAX_SELECT_ITERS rng (if from_tried then tried_view order st else new_view order st)
      (map_info st) now 1 s1 = Some (Some info, s')"
    using assms(2) by (simp add: select_peer_inner_def split: if_splits)
  from select_loop_sound [OF run] show ?thesis
    using book_cells [OF assms(1)] coin
    by (fastforce simp: tried_view_def new_view_def tried_coin_def split: if_splits prod.splits)
qed

lemma select_new_returns:
  assumes "book env X st" "rng_ok rng" "\<And>u. set (order u) = fset u"
    and "random_pos st \<noteq> []" "new_count st \<noteq> 0" "used_new_matrix_positions st \<noteq> {||}"
    and "fcard (used_new_matrix_positions st) < NEW_SQRT_SLOTS"
  shows "\<exists>info s' i. select_peer_inner rng order True now st s = Some (Some info, s')
      \<and> fmlookup (map_info st) i = Some info \<and> \<not> is_tried info"
proof -
  let ?t = "new_view order st" and ?c = "order (used_new_matrix_positions st)"
  have used: "fset (used_new_matrix_positions st) = {pos. new_matrix st pos \<noteq> EMPTY}"
    using assms(1) by (simp add: book_def used_ok_def)
  have "?c \<noteq> []"
    using assms(3) [of "used_new_matrix_positions st"] assms(6) by auto
  moreover have "\<forall>pos\<in>set ?c. new_matrix st pos \<noteq> EMPTY \<and> fmlookup (map_info st) (new_matrix st pos) \<noteq> None"
    using assms(3) [of "used_new_matrix_positions st"] used book_cells(1) [OF assms(1)] by fastforce
  ultimately have "\<exists>info s'. select_loop MAX_SELECT_ITERS rng ?t (map_info st) now ((6 / 5) ^ 0) s = Some (Some info, s')"
    using assms(2,7) by (intro select_loop_returns [of _ ?c]) (simp_all add: new_view_def MAX_SELECT_ITERS_def)
  then obtain info s' where run: "select_peer_inner rng order True now st s = Some (Some info, s')"
    using assms(4,5) by (auto simp: select_peer_inner_def tried_coin_def)
  then show ?thesis
    using select_peer_sound [OF assms(1) run] by blast
qed

text \<open>
  C36: a feeler selection ends, and finds an address. After any run of a fresh manager, while the new
  table holds an address and fewer than 256 cells, a selection from the new table returns one, and
  it is a row that is not tried, whatever the generator draws: never none, and never without end.
\<close>

theorem select_peer_returns:
  assumes "run_ops env ops (Inner_new key) = Some st" "(\<Sum>x\<leftarrow>ops. announced x) < u32_max"
    and "rng_ok rng" "\<And>u. set (order u) = fset u"
    and "random_pos st \<noteq> []" "new_count st \<noteq> 0" "used_new_matrix_positions st \<noteq> {||}"
    and "fcard (used_new_matrix_positions st) < 256"
  shows "\<exists>info s' i. select_peer_inner rng order True now st s = Some (Some info, s')
      \<and> fmlookup (map_info st) i = Some info \<and> \<not> is_tried info"
proof -
  have "book env {} st"
    using run_ops_book [OF assms(1)] book_new [of env key] assms(2) by simp
  then show ?thesis
    using assms(3-8) by (intro select_new_returns) (simp_all add: NEW_SQRT_SLOTS_def)
qed

text \<open>A generator that always draws the largest value, so the selection has to wait for certainty.\<close>

definition unlucky :: "unit rng_ops" where
  "unlucky = \<lparr>below = (\<lambda>n s. (n - 1, s)), any_usize = (\<lambda>s. (0, s)), any_u32 = (\<lambda>s. (2 ^ 30 - 1, s))\<rparr>"

lemma one_peer_tables:
  "\<exists>st. run_ops flat_env one_peer (Inner_new []) = Some st \<and> random_pos st \<noteq> [] \<and> new_count st = 1
      \<and> (\<exists>pos. used_new_matrix_positions st = {|pos|})"
  by (simp add: one_peer_def Inner_new_def am_eval connect_inner_def)

theorem select_peer_returns_witness:
  "\<exists>st info s'. run_ops flat_env one_peer (Inner_new []) = Some st
      \<and> select_peer_inner unlucky sorted_list_of_fset True 5000 st () = Some (Some info, s') \<and> \<not> is_tried info"
proof -
  obtain st pos where st: "run_ops flat_env one_peer (Inner_new []) = Some st" "random_pos st \<noteq> []"
    "new_count st = 1" "used_new_matrix_positions st = {|pos|}"
    using one_peer_tables by blast
  have "(\<Sum>x\<leftarrow>one_peer. announced x) < u32_max"
    by (simp add: one_peer_def u32_max_def)
  moreover have "rng_ok unlucky"
    by (simp add: rng_ok_def unlucky_def)
  ultimately show ?thesis
    using select_peer_returns [OF st(1), of unlucky sorted_list_of_fset 5000 "()"] st
    by (auto simp: fcard.rep_eq)
qed

end
