(* ===== verification/Node_Discovery.thy ===== *)
theory Node_Discovery
  imports Select_Peer
begin

text \<open>
  Bootstrapping (\<open>discovery/node_discovery.rs\<close>): the caps on received peer lists, the merge of
  DNS results, one turn of the feeler loop and the discovery loop with its backoff.

  What a turn meets outside the crate is its argument: the addresses the resolver returns, the
  introducer's answer, the clock, the draws of the address manager, and whether the loop is
  cancelled before the turn or during its sleep. The text of an address is the parameter
  \<open>show_ip\<close>. A turn returns \<open>None\<close> when the address manager panics.
\<close>

section \<open>Caps on received peers\<close>

definition MAX_PEERS_RECEIVED_PER_REQUEST :: nat where "MAX_PEERS_RECEIVED_PER_REQUEST = 1000"
definition MAX_TOTAL_PEERS_RECEIVED :: nat where "MAX_TOTAL_PEERS_RECEIVED = 3000"

lemmas peer_caps = MAX_PEERS_RECEIVED_PER_REQUEST_def MAX_TOTAL_PEERS_RECEIVED_def

text \<open>How many of \<open>n\<close> peers are accepted by a call that read the counter as \<open>tot\<close>.\<close>

definition accepted_of :: "nat \<Rightarrow> nat \<Rightarrow> nat" where
  "accepted_of tot n =
     (if MAX_TOTAL_PEERS_RECEIVED \<le> tot then 0 else min n (MAX_TOTAL_PEERS_RECEIVED - tot))"

definition cap_received_peers :: "'a list \<Rightarrow> nat \<Rightarrow> 'a list \<times> nat" where
  "cap_received_peers peers tot =
     (let capped = take MAX_PEERS_RECEIVED_PER_REQUEST peers;
          accepted = accepted_of tot (length capped)
      in (take accepted capped,
          if MAX_TOTAL_PEERS_RECEIVED \<le> tot then tot else (tot + accepted) mod 2 ^ 64))"

text \<open>
  The counter is read and then added to in two steps. In between other calls may run: the state is
  the counter and the numbers the calls in flight have settled on. At most \<open>K\<close> calls are
  in flight.
\<close>

inductive exchange_step :: "nat \<Rightarrow> nat \<times> nat list \<Rightarrow> nat \<times> nat list \<Rightarrow> bool" for K :: nat where
  load: "\<lbrakk>length calls < K; n \<le> MAX_PEERS_RECEIVED_PER_REQUEST\<rbrakk> \<Longrightarrow>
     exchange_step K (tot, calls) (tot, accepted_of tot n # calls)"
| store: "exchange_step K (tot, xs @ a # ys) ((tot + a) mod 2 ^ 64, xs @ ys)"

inductive exchange_run :: "nat \<Rightarrow> nat \<times> nat list \<Rightarrow> bool" for K :: nat where
  start: "exchange_run K (0, [])"
| step: "\<lbrakk>exchange_run K s; exchange_step K s s'\<rbrakk> \<Longrightarrow> exchange_run K s'"

section \<open>DNS and introducer\<close>

definition timestamped_peer_infos_from_dns_addrs ::
    "('ip \<Rightarrow> bytes) \<Rightarrow> ('ip \<times> u16) list \<Rightarrow> nat \<Rightarrow> TimestampedPeerInfo list" where
  "timestamped_peer_infos_from_dns_addrs show_ip addrs ts =
     map (\<lambda>(ip, p). \<lparr>ts_host = show_ip ip, ts_port = p, ts_timestamp = ts\<rparr>) addrs"

type_synonym draws = "nat \<Rightarrow> nat \<times> nat \<times> (nat \<Rightarrow> nat)"

definition add_rows ::
    "net_env \<Rightarrow> draws \<Rightarrow> TimestampedPeerInfo list \<Rightarrow> PeerInfo \<Rightarrow> Inner \<Rightarrow> Inner option" where
  "add_rows env d rows source st =
     add_to_new_table env (map (\<lambda>(i, row). (row, d i)) (List.enumerate 0 rows)) source 0 st"

definition merge_dns_seed_addrs_into_address_manager ::
    "net_env \<Rightarrow> ('ip \<Rightarrow> bytes) \<Rightarrow> draws \<Rightarrow> ('ip \<times> u16) list \<Rightarrow> PeerInfo \<Rightarrow> nat \<Rightarrow> Inner \<Rightarrow> Inner option" where
  "merge_dns_seed_addrs_into_address_manager env show_ip d addrs source ts st =
     (if addrs = [] then Some st
      else add_rows env d (timestamped_peer_infos_from_dns_addrs show_ip addrs ts) source st)"

text \<open>What asking the introducer comes to: none is configured, the query fails, or it answers.\<close>

datatype introducer_answer = NoIntroducer | QueryFailed | Answered "TimestampedPeerInfo list"

definition INTRODUCER_SOURCE :: PeerInfo where
  "INTRODUCER_SOURCE = \<lparr>pi_host = map of_char ''introducer'', pi_port = 0\<rparr>"

fun try_introducer_query ::
    "net_env \<Rightarrow> draws \<Rightarrow> introducer_answer \<Rightarrow> nat \<Rightarrow> Inner \<Rightarrow> (nat option \<times> nat \<times> Inner) option" where
  "try_introducer_query env d NoIntroducer tot st = Some (Some 0, tot, st)"
| "try_introducer_query env d QueryFailed tot st = Some (None, tot, st)"
| "try_introducer_query env d (Answered peers) tot st =
     (let (capped, tot) = cap_received_peers peers tot
      in if capped = [] then Some (Some 0, tot, st)
         else do { st \<leftarrow> add_rows env d capped INTRODUCER_SOURCE st; Some (Some (length capped), tot, st) })"

section \<open>The discovery loop\<close>

definition MAX_INTRODUCER_BACKOFF_SECS :: nat where "MAX_INTRODUCER_BACKOFF_SECS = 300"

datatype DiscoveryAction =
    DnsSeeded nat | IntroducerQueried nat | IntroducerBackoff nat | CycleSleep | Cancelled

record 'ip turn_input =
  cancelled_before :: bool
  dns_addrs :: "('ip \<times> u16) list"
  dns_time :: nat
  dns_draws :: draws
  answer :: introducer_answer
  answer_draws :: draws
  cancelled_asleep :: bool

record loop_state =
  manager :: Inner
  total_received :: nat
  introducer_backoff_secs :: nat

definition manager_size :: "Inner \<Rightarrow> nat" where
  "manager_size st = length (random_pos st)"

text \<open>The sleep that ends a cycle.\<close>

definition cycle_sleep :: "'ip turn_input \<Rightarrow> DiscoveryAction list \<Rightarrow> loop_state \<Rightarrow> DiscoveryAction list \<times> loop_state \<times> bool" where
  "cycle_sleep inp done st =
     (done @ CycleSleep # (if cancelled_asleep inp then [Cancelled] else []), st, \<not> cancelled_asleep inp)"

definition discovery_turn ::
    "net_env \<Rightarrow> ('ip \<Rightarrow> bytes) \<Rightarrow> PeerInfo \<Rightarrow> 'ip turn_input \<Rightarrow> loop_state
      \<Rightarrow> (DiscoveryAction list \<times> loop_state \<times> bool) option" where
  "discovery_turn env show_ip dns_source inp st =
     (if cancelled_before inp then Some ([Cancelled], st, False)
      else if manager_size (manager st) \<noteq> 0 then Some (cycle_sleep inp [] st)
      else do {
        m \<leftarrow> merge_dns_seed_addrs_into_address_manager env show_ip (dns_draws inp) (dns_addrs inp) dns_source
               (dns_time inp) (manager st);
        (if dns_addrs inp \<noteq> []
         then Some (cycle_sleep inp [DnsSeeded (length (dns_addrs inp))]
                      (st\<lparr>manager := m, introducer_backoff_secs := 1\<rparr>))
         else do {
           (found, tot, m) \<leftarrow> try_introducer_query env (answer_draws inp) (answer inp) (total_received st) m;
           (case found of
              Some (Suc n) \<Rightarrow>
                Some (cycle_sleep inp [IntroducerQueried (Suc n)]
                        \<lparr>manager = m, total_received = tot, introducer_backoff_secs = 1\<rparr>)
            | _ \<Rightarrow>
                (let st = \<lparr>manager = m, total_received = tot,
                           introducer_backoff_secs = introducer_backoff_secs st\<rparr>;
                     act = IntroducerBackoff (introducer_backoff_secs st)
                 in if cancelled_asleep inp then Some ([act, Cancelled], st, False)
                    else Some ([act], st\<lparr>introducer_backoff_secs :=
                           min (sat_mul64 (introducer_backoff_secs st) 2) MAX_INTRODUCER_BACKOFF_SECS\<rparr>, True))) }) })"

fun run_discovery_loop ::
    "net_env \<Rightarrow> ('ip \<Rightarrow> bytes) \<Rightarrow> PeerInfo \<Rightarrow> 'ip turn_input list \<Rightarrow> loop_state
      \<Rightarrow> (DiscoveryAction list \<times> loop_state) option" where
  "run_discovery_loop env show_ip dns_source [] st = Some ([], st)"
| "run_discovery_loop env show_ip dns_source (inp # rest) st =
     do { (acts, st, go) \<leftarrow> discovery_turn env show_ip dns_source inp st;
          if go then map_option (apfst (append acts)) (run_discovery_loop env show_ip dns_source rest st)
          else Some (acts, st) }"

definition discovery_start :: "Inner \<Rightarrow> nat \<Rightarrow> loop_state" where
  "discovery_start m tot = \<lparr>manager = m, total_received = tot, introducer_backoff_secs = 1\<rparr>"

section \<open>The feeler loop\<close>

datatype FeelerAction =
    Success bytes u16 | Failure bytes u16 | NoCandidates | FeelerCancelled

text \<open>One cycle after the wait: select an address of the new table and mark it good.\<close>

definition feeler_turn ::
    "net_env \<Rightarrow> 'r rng_ops \<Rightarrow> (slot fset \<Rightarrow> slot list) \<Rightarrow> nat \<Rightarrow> nat \<Rightarrow> nat \<Rightarrow> bool \<Rightarrow> Inner \<Rightarrow> 'r
      \<Rightarrow> ((FeelerAction \<times> Inner) option \<times> 'r) option" where
  "feeler_turn env rng order now mark_time bucket_rand cancelled st s =
     (if cancelled then Some (Some (FeelerCancelled, st), s)
      else do {
        (candidate, s) \<leftarrow> select_peer_inner rng order True now st s;
        (case candidate of
           None \<Rightarrow> Some (Some (NoCandidates, st), s)
         | Some r \<Rightarrow>
             Some (map_option (Pair (Success (pi_host (peer_info r)) (pi_port (peer_info r))))
                     (mark_good_inner env bucket_rand (peer_info r) True mark_time st), s)) })"

section \<open>What the caps bound\<close>

lemma accepted_le: "accepted_of tot n \<le> n" "tot + accepted_of tot n \<le> max tot MAX_TOTAL_PEERS_RECEIVED"
  by (auto simp: accepted_of_def)

lemma cap_received_prefix:
  "fst (cap_received_peers peers tot) = take (accepted_of tot (min (length peers) MAX_PEERS_RECEIVED_PER_REQUEST)) peers"
  using accepted_le(1) [of tot "min (length peers) MAX_PEERS_RECEIVED_PER_REQUEST"]
  by (simp add: cap_received_peers_def Let_def min.commute)

lemma cap_used_up: "MAX_TOTAL_PEERS_RECEIVED \<le> tot \<Longrightarrow> cap_received_peers peers tot = ([], tot)"
  by (simp add: cap_received_peers_def accepted_of_def Let_def)

lemma exchange_invariant:
  assumes "exchange_run K s"
  shows "length (snd s) \<le> K \<and> list_all (\<lambda>a. a \<le> MAX_PEERS_RECEIVED_PER_REQUEST) (snd s)
    \<and> fst s + sum_list (snd s) \<le> MAX_TOTAL_PEERS_RECEIVED + (K - 1) * MAX_PEERS_RECEIVED_PER_REQUEST"
  using assms
proof (induction rule: exchange_run.induct)
  case (step s s')
  from step.hyps(2) step.IH show ?case
  proof (cases rule: exchange_step.cases)
    case (load calls n tot)
    have sum: "sum_list calls \<le> length calls * MAX_PEERS_RECEIVED_PER_REQUEST"
      if "list_all (\<lambda>a. a \<le> MAX_PEERS_RECEIVED_PER_REQUEST) calls"
      using that by (induction calls) auto
    have "length calls * MAX_PEERS_RECEIVED_PER_REQUEST \<le> (K - 1) * MAX_PEERS_RECEIVED_PER_REQUEST"
      using load(3) by (intro mult_right_mono) simp_all
    then have "sum_list calls \<le> (K - 1) * MAX_PEERS_RECEIVED_PER_REQUEST"
      using load step.IH order_trans [OF sum] by simp
    then have "tot + accepted_of tot n + sum_list calls
        \<le> MAX_TOTAL_PEERS_RECEIVED + (K - 1) * MAX_PEERS_RECEIVED_PER_REQUEST"
      using load step.IH by (cases "MAX_TOTAL_PEERS_RECEIVED \<le> tot") (simp_all add: accepted_of_def)
    then show ?thesis
      using load step.IH accepted_le(1) [of tot n] by simp
  next
    case (store tot xs a ys)
    then have "fst s' \<le> tot + a" "snd s' = xs @ ys"
      by simp_all
    then show ?thesis
      using store(1) step.IH by simp
  qed
qed simp

text \<open>
  What peers can make a node accept is bounded. However the calls that read and bump the shared
  counter interleave, with at most \<open>K\<close> in flight, at most 3000 + 1000 (K - 1) addresses are
  accepted from peers and introducers together over the life of the node.
\<close>

theorem exchange_bounded:
  assumes "exchange_run K (tot, calls)"
  shows "tot + sum_list calls \<le> 3000 + 1000 * (K - 1)"
  using exchange_invariant [OF assms] by (simp add: peer_caps)

text \<open>Two calls that read the counter before either adds to it pass the documented total of 3000.\<close>

lemma exchange_exceeds_cap: "exchange_run 2 (4000, [])"
proof -
  have full: "accepted_of 0 1000 = 1000" "accepted_of 1000 1000 = 1000" "accepted_of 2000 1000 = 1000"
    by (simp_all add: accepted_of_def peer_caps)
  have load: "exchange_run 2 (tot, calls) \<Longrightarrow> length calls < 2 \<Longrightarrow> accepted_of tot 1000 = 1000
      \<Longrightarrow> exchange_run 2 (tot, 1000 # calls)" for tot calls
    using exchange_run.step [OF _ exchange_step.load [of calls 2 1000 tot]] by (simp add: peer_caps)
  have store: "exchange_run 2 (tot, 1000 # calls) \<Longrightarrow> tot < 10000 \<Longrightarrow> exchange_run 2 (tot + 1000, calls)" for tot calls
    using exchange_run.step [OF _ exchange_step.store [of 2 tot "[]" 1000 calls]] by simp
  have "exchange_run 2 (1000, [])"
    using store [OF load [OF exchange_run.start]] full by simp
  then have "exchange_run 2 (2000, [])"
    using store [OF load] full by force
  then have "exchange_run 2 (2000, [1000, 1000])"
    using load full by force
  then show ?thesis
    using store [of 2000 "[1000]"] store [of 3000 "[]"] by simp
qed

theorem exchange_bounded_witness:
  "(4000 :: nat) + sum_list [] \<le> 3000 + 1000 * (2 - 1)"
  by (rule exchange_bounded [OF exchange_exceeds_cap])

section \<open>The backoff\<close>

definition fruitless :: "nat \<Rightarrow> 'ip turn_input \<Rightarrow> bool" where
  "fruitless tot inp \<longleftrightarrow> \<not> cancelled_before inp \<and> dns_addrs inp = [] \<and> \<not> cancelled_asleep inp
     \<and> (case answer inp of Answered peers \<Rightarrow> peers = [] \<or> MAX_TOTAL_PEERS_RECEIVED \<le> tot | _ \<Rightarrow> True)"

lemma cap_empty: "cap_received_peers [] tot = ([], tot)"
  by (simp add: cap_received_peers_def accepted_of_def Let_def peer_caps)

lemma fruitless_query:
  assumes "fruitless tot inp"
  shows "try_introducer_query env d (answer inp) tot m \<in> {Some (Some 0, tot, m), Some (None, tot, m)}"
proof (cases "answer inp")
  case (Answered peers)
  then have "cap_received_peers peers tot = ([], tot)"
    using assms cap_used_up [of tot peers] cap_empty [of tot] by (auto simp: fruitless_def)
  then show ?thesis
    using Answered by simp
qed simp_all

lemma fruitless_turn:
  assumes "fruitless (total_received st) inp" "manager_size (manager st) = 0"
  shows "discovery_turn env show_ip src inp st =
    Some ([IntroducerBackoff (introducer_backoff_secs st)],
      st\<lparr>introducer_backoff_secs := min (sat_mul64 (introducer_backoff_secs st) 2) MAX_INTRODUCER_BACKOFF_SECS\<rparr>, True)"
  using assms fruitless_query [OF assms(1), of env "answer_draws inp" "manager st"]
  by (cases st) (auto simp: discovery_turn_def merge_dns_seed_addrs_into_address_manager_def fruitless_def)

definition backoff_after :: "nat \<Rightarrow> nat" where
  "backoff_after i = min (2 ^ i) MAX_INTRODUCER_BACKOFF_SECS"

lemma backoff_doubles:
  "min (sat_mul64 (backoff_after i) 2) MAX_INTRODUCER_BACKOFF_SECS = backoff_after (Suc i)"
  by (auto simp: backoff_after_def sat_mul64_def MAX_INTRODUCER_BACKOFF_SECS_def u64_max_def min_def)

lemma fruitless_run:
  assumes "\<forall>inp\<in>set inps. fruitless tot inp" "manager_size m = 0"
  shows "run_discovery_loop env show_ip src inps
      \<lparr>manager = m, total_received = tot, introducer_backoff_secs = backoff_after i\<rparr>
    = Some (map (\<lambda>j. IntroducerBackoff (backoff_after j)) [i..<i + length inps],
        \<lparr>manager = m, total_received = tot, introducer_backoff_secs = backoff_after (i + length inps)\<rparr>)"
  using assms(1)
proof (induction inps arbitrary: i)
  case (Cons inp inps)
  let ?st = "\<lambda>i. \<lparr>manager = m, total_received = tot, introducer_backoff_secs = backoff_after i\<rparr>"
  have "discovery_turn env show_ip src inp (?st i) = Some ([IntroducerBackoff (backoff_after i)], ?st (Suc i), True)"
    using fruitless_turn [of "?st i" inp env show_ip src] Cons.prems assms(2) by (simp add: backoff_doubles)
  then show ?case
    using Cons.IH [of "Suc i"] Cons.prems by (simp add: upt_conv_Cons del: upt_Suc)
qed simp

text \<open>
  The backoff of an empty node is exact, and a node whose lifetime quota is used up never
  recovers through introducers. While the manager is empty, DNS yields nothing, and the introducer is absent,
  fails, answers with nothing, or the counter has reached 3000 (then whatever it answers), the waits are
  1, 2, 4, ... up to 300 seconds and nothing is learned.
\<close>

theorem discovery_backoff_exact:
  assumes "\<forall>inp\<in>set inps. fruitless tot inp" "manager_size m = 0"
  shows "\<exists>st. run_discovery_loop env show_ip src inps (discovery_start m tot)
      = Some (map (\<lambda>i. IntroducerBackoff (min (2 ^ i) 300)) [0..<length inps], st)
      \<and> manager st = m \<and> total_received st = tot"
proof -
  have "backoff_after 0 = 1"
    by (simp add: backoff_after_def MAX_INTRODUCER_BACKOFF_SECS_def)
  then show ?thesis
    using fruitless_run [OF assms, of env show_ip src 0]
    by (simp add: discovery_start_def) (simp add: backoff_after_def MAX_INTRODUCER_BACKOFF_SECS_def)
qed

definition generous :: "unit turn_input" where
  "generous = \<lparr>cancelled_before = False, dns_addrs = [], dns_time = 0, dns_draws = (\<lambda>_. (0, 0, \<lambda>_. 0)),
     answer = Answered [\<lparr>ts_host = [1], ts_port = 5, ts_timestamp = 900\<rparr>],
     answer_draws = (\<lambda>_. (0, 0, \<lambda>_. 0)), cancelled_asleep = False\<rparr>"

theorem discovery_backoff_exact_witness:
  "\<exists>st. run_discovery_loop flat_env (\<lambda>_. []) INTRODUCER_SOURCE (replicate 10 generous)
        (discovery_start (Inner_new []) 3000)
      = Some (map (\<lambda>i. IntroducerBackoff (min (2 ^ i) 300)) [0..<10], st)
      \<and> random_pos (manager st) = []"
proof -
  have "\<forall>inp\<in>set (replicate 10 generous). fruitless 3000 inp"
    by (simp add: fruitless_def generous_def peer_caps)
  moreover have empty: "random_pos (Inner_new []) = []"
    by (simp add: Inner_new_def)
  ultimately obtain st where "run_discovery_loop flat_env (\<lambda>_. []) INTRODUCER_SOURCE (replicate 10 generous)
        (discovery_start (Inner_new []) 3000)
      = Some (map (\<lambda>i. IntroducerBackoff (min (2 ^ i) 300)) [0..<length (replicate 10 generous)], st)"
    "manager st = Inner_new []"
    using discovery_backoff_exact [of "replicate 10 generous" 3000 "Inner_new []" flat_env "\<lambda>_. []"
        INTRODUCER_SOURCE] by (auto simp: manager_size_def)
  then show ?thesis
    using empty by (intro exI [of _ st]) simp
qed

section \<open>Feelers\<close>

text \<open>
  A feeler promotes an address nobody has reached. A cycle marks the selected new address good
  without any attempt to connect, so an address that was only announced ends up in the tried table.
\<close>

theorem feeler_promotes_unreached:
  assumes "book env {} st" "rng_ok rng" "\<And>u. set (order u) = fset u"
    and "random_pos st \<noteq> []" "new_count st \<noteq> 0" "used_new_matrix_positions st \<noteq> {||}"
    and "fcard (used_new_matrix_positions st) < NEW_SQRT_SLOTS"
    and "\<And>n r. \<lbrakk>fmlookup (map_info st) n = Some r; \<not> is_tried r\<rbrakk> \<Longrightarrow>
      am_find st (peer_info r) = (Some n, Some r)
      \<and> (\<not> host_is_private env (pi_host (peer_info r)) \<or> allow_private_subnets st)
      \<and> tried_matrix st (tried_slot env (am_key st) (peer_info r)) = EMPTY"
  shows "\<exists>n r r' st' s'. fmlookup (map_info st) n = Some r \<and> \<not> is_tried r
      \<and> feeler_turn env rng order now ts br False st s
          = Some (Some (Success (pi_host (peer_info r)) (pi_port (peer_info r)), st'), s')
      \<and> fmlookup (map_info st') n = Some r' \<and> is_tried r'"
proof -
  obtain r s' n where sel: "select_peer_inner rng order True now st s = Some (Some r, s')"
    and row: "fmlookup (map_info st) n = Some r" "\<not> is_tried r"
    using select_new_returns [OF assms(1-7)] by blast
  obtain st' r' where "mark_good_inner env br (peer_info r) True ts st = Some st'"
    "fmlookup (map_info st') n = Some r'" "is_tried r'"
    using good_peer_promoted [OF assms(1), of "peer_info r" n r br True ts] assms(8) [OF row] row(2) by blast
  then show ?thesis
    using sel row by (intro exI [of _ n] exI [of _ r] exI [of _ r'] exI [of _ st'] exI [of _ s'])
      (simp add: feeler_turn_def)
qed

lemma one_peer_row:
  assumes "run_ops flat_env one_peer (Inner_new []) = Some st"
  shows "random_pos st \<noteq> []" "new_count st \<noteq> 0" "used_new_matrix_positions st = {|(0, 0)|}"
    "tried_matrix st pos = EMPTY" "am_find st \<lparr>pi_host = [1], pi_port = 5\<rparr> = (Some 1, fmlookup (map_info st) 1)"
    "fmlookup (map_info st) n = Some r \<Longrightarrow> n = 1 \<and> peer_info r = \<lparr>pi_host = [1], pi_port = 5\<rparr>"
  using assms
  by (auto simp: one_peer_def Inner_new_def am_eval connect_inner_def split: if_splits)

theorem feeler_promotes_unreached_witness:
  "\<exists>st n r' st'. run_ops flat_env one_peer (Inner_new []) = Some st
      \<and> feeler_turn flat_env unlucky sorted_list_of_fset 5000 6000 0 False st ()
          = Some (Some (Success [1] 5, st'), ())
      \<and> fmlookup (map_info st') n = Some r' \<and> is_tried r'"
proof -
  obtain st where run: "run_ops flat_env one_peer (Inner_new []) = Some st"
    using one_peer_run by blast
  note row = one_peer_row [OF run]
  have book: "book flat_env {} st"
    using run_ops_book [OF run] book_new by (auto simp: one_peer_def u32_max_def)
  have rng: "rng_ok unlucky"
    by (simp add: rng_ok_def unlucky_def)
  have few: "used_new_matrix_positions st \<noteq> {||}" "fcard (used_new_matrix_positions st) < NEW_SQRT_SLOTS"
    by (simp_all add: row(3) NEW_SQRT_SLOTS_def fcard.rep_eq)
  have rows: "am_find st (peer_info r) = (Some n, Some r)
      \<and> (\<not> host_is_private flat_env (pi_host (peer_info r)) \<or> allow_private_subnets st)
      \<and> tried_matrix st (tried_slot flat_env (am_key st) (peer_info r)) = EMPTY"
    if "fmlookup (map_info st) n = Some r" "\<not> is_tried r" for n r
    using row(4-6) that by (auto simp: host_is_private_def flat_env_def)
  obtain n r r' st' where "fmlookup (map_info st) n = Some r"
    "feeler_turn flat_env unlucky sorted_list_of_fset 5000 6000 0 False st ()
        = Some (Some (Success (pi_host (peer_info r)) (pi_port (peer_info r)), st'), ())"
    "fmlookup (map_info st') n = Some r'" "is_tried r'"
    using feeler_promotes_unreached [OF book rng _ row(1,2) few rows, of sorted_list_of_fset 5000 6000 0 "()"]
    by auto
  then show ?thesis
    using run row(6) by fastforce
qed

end
