(* ===== verification/Relay_Discovery.thy ===== *)
theory Relay_Discovery
  imports Node_Discovery Service_State
begin

text \<open>
  Peers learned from a relay: the relay's wire types (\<open>relay/relay_types.rs\<close>), the unified peer
  record and its conversions (\<open>nat/peer_record.rs\<close>), the query of a relay and the merge into the
  address manager (\<open>nat/discovery.rs\<close>), and the fold of the peers a live reservation has
  discovered (\<open>fold_relay_known_peers\<close> in \<open>service/gossip_handle.rs\<close>).

  What the WebSocket yields is an argument: whether connecting and sending succeed, the frames
  that arrive before the timeout, and whether the stream then ends or stays silent. The JSON
  parser, the text of an IP address and the family order of \<open>dig_ip\<close> are parameters, and
  an operation on the address manager returns \<open>None\<close> when it panics.
\<close>

section \<open>Wire types\<close>

record RelayPeerInfo =
  rpi_peer_id :: bytes
  rpi_network_id :: bytes
  rpi_protocol_version :: u32
  rpi_connected_at :: nat
  rpi_last_seen :: nat
  rpi_addresses :: "SocketAddr list"

definition RelayPeerInfo_new :: "bytes \<Rightarrow> bytes \<Rightarrow> u32 \<Rightarrow> nat \<Rightarrow> RelayPeerInfo" where
  "RelayPeerInfo_new peer_id network_id protocol_version now =
     \<lparr>rpi_peer_id = peer_id, rpi_network_id = network_id, rpi_protocol_version = protocol_version,
      rpi_connected_at = now, rpi_last_seen = now, rpi_addresses = []\<rparr>"

record DhtRecordEntry =
  content_key :: bytes
  providers :: nat

datatype RelayMessage =
    Register (reg_peer_id: bytes) (reg_network_id: bytes) (reg_version: u32) (reg_listen: "SocketAddr list")
  | RegisterAck bool bytes nat
  | Unregister bytes
  | RelayGossipMessage (rg_from: bytes) (rg_to: bytes) (rg_payload: bytes) (rg_seq: u64)
  | RelayBroadcast bytes bytes "bytes list"
  | PeerConnected RelayPeerInfo
  | PeerDisconnected bytes
  | GetPeers "bytes option"
  | Peers "RelayPeerInfo list"
  | Ping nat
  | Pong nat
  | HolePunchRequest bytes bytes SocketAddr
  | HolePunchCoordinate bytes SocketAddr
  | HolePunchResult bytes bool
  | RelayErrorMsg u32 bytes
  | GetDhtRecords nat
  | DhtRecords "DhtRecordEntry list" nat bool

section \<open>Peer records\<close>

datatype AddressKind = Direct | Reflexive | Mapped | RelayKind

fun kind_rank :: "AddressKind \<Rightarrow> nat" where
  "kind_rank Direct = 0"
| "kind_rank Mapped = 1"
| "kind_rank Reflexive = 2"
| "kind_rank RelayKind = 3"

definition is_dialable :: "AddressKind \<Rightarrow> bool" where
  "is_dialable k \<longleftrightarrow> k \<noteq> RelayKind"

record PeerAddress =
  pa_host :: bytes
  pa_port :: u16
  pa_kind :: AddressKind

record PeerRecord =
  rec_peer_id :: bytes
  rec_addresses :: "PeerAddress list"
  rec_network_id :: bytes
  rec_last_seen :: nat
  rec_via :: Via

definition from_relay_peer_info :: "RelayPeerInfo \<Rightarrow> PeerRecord" where
  "from_relay_peer_info rpi =
     \<lparr>rec_peer_id = rpi_peer_id rpi, rec_addresses = [], rec_network_id = rpi_network_id rpi,
      rec_last_seen = rpi_last_seen rpi, rec_via = ViaRelay\<rparr>"

definition direct_address :: "(IpAddr \<Rightarrow> bytes) \<Rightarrow> SocketAddr \<Rightarrow> PeerAddress" where
  "direct_address show_ip addr =
     \<lparr>pa_host = show_ip (sa_ip addr), pa_port = sa_port addr, pa_kind = Direct\<rparr>"

definition from_nat_relay_peer_info ::
    "(IpAddr \<Rightarrow> bytes) \<Rightarrow> (SocketAddr \<Rightarrow> 'f::linorder) \<Rightarrow> RelayPeerInfo \<Rightarrow> PeerRecord" where
  "from_nat_relay_peer_info show_ip family_of rpi =
     (if rpi_addresses rpi = []
      then \<lparr>rec_peer_id = rpi_peer_id rpi, rec_addresses = [], rec_network_id = rpi_network_id rpi,
            rec_last_seen = rpi_last_seen rpi, rec_via = ViaRelay\<rparr>
      else \<lparr>rec_peer_id = rpi_peer_id rpi,
            rec_addresses = map (direct_address show_ip) (sort_key family_of (rpi_addresses rpi)),
            rec_network_id = rpi_network_id rpi, rec_last_seen = rpi_last_seen rpi,
            rec_via = ViaDirect\<rparr>)"

definition from_timestamped_peer_info :: "TimestampedPeerInfo \<Rightarrow> bytes \<Rightarrow> PeerRecord" where
  "from_timestamped_peer_info tpi network_id =
     \<lparr>rec_peer_id = [],
      rec_addresses = [\<lparr>pa_host = ts_host tpi, pa_port = ts_port tpi, pa_kind = Direct\<rparr>],
      rec_network_id = network_id, rec_last_seen = ts_timestamp tpi, rec_via = ViaDirect\<rparr>"

text \<open>\<open>min_by_key\<close> keeps the first of several smallest elements.\<close>

fun min_by_rank :: "PeerAddress list \<Rightarrow> PeerAddress option" where
  "min_by_rank [] = None"
| "min_by_rank (a # as) =
     Some (fold (\<lambda>x best. if kind_rank (pa_kind x) < kind_rank (pa_kind best) then x else best) as a)"

definition best_address :: "PeerRecord \<Rightarrow> PeerAddress option" where
  "best_address r = min_by_rank (filter (is_dialable \<circ> pa_kind) (rec_addresses r))"

definition to_timestamped_peer_info :: "PeerRecord \<Rightarrow> TimestampedPeerInfo option" where
  "to_timestamped_peer_info r =
     map_option (\<lambda>a. \<lparr>ts_host = pa_host a, ts_port = pa_port a, ts_timestamp = rec_last_seen r\<rparr>)
       (best_address r)"

section \<open>Asking a relay\<close>

definition RELAY_PROTOCOL_VERSION :: u32 where "RELAY_PROTOCOL_VERSION = 1"
definition MAX_RELAY_DISCOVERY_FRAMES :: nat where "MAX_RELAY_DISCOVERY_FRAMES = 64"

datatype ws_read = ReadFails bytes | Text bytes | Binary bytes | Close | OtherFrame
datatype stream_end = StreamEnds | StreamSilent
datatype io_result = IoOk | IoFails bytes | IoStalls

datatype relay_failure =
    ConnectFailed bytes
  | SendFailed bytes
  | ReadFailed bytes
  | TooManyFrames nat
  | ClosedBeforePeers
  | RefusedByRelay u32 bytes
  | QueryTimedOut

record relay_io =
  io_connect :: io_result
  io_send :: "RelayMessage \<Rightarrow> io_result"
  io_reads :: "ws_read list"
  io_end :: stream_end
  io_parse :: "bytes \<Rightarrow> RelayMessage option"

text \<open>\<open>None\<close>: the loop goes on to the next frame.\<close>

definition message_outcome :: "RelayMessage option \<Rightarrow> (relay_failure + PeerRecord list) option" where
  "message_outcome m =
     (case m of
        Some (Peers peers) \<Rightarrow>
          (let capped_len = min (length peers) MAX_PEERS_RECEIVED_PER_REQUEST
           in Some (Inr (map from_relay_peer_info (take capped_len peers))))
      | Some (RelayErrorMsg code message) \<Rightarrow> Some (Inl (RefusedByRelay code message))
      | _ \<Rightarrow> None)"

fun frame_outcome :: "relay_io \<Rightarrow> ws_read \<Rightarrow> (relay_failure + PeerRecord list) option" where
  "frame_outcome io (ReadFails e) = Some (Inl (ReadFailed e))"
| "frame_outcome io (Text b) = message_outcome (io_parse io b)"
| "frame_outcome io (Binary b) = message_outcome (io_parse io b)"
| "frame_outcome io Close = Some (Inl ClosedBeforePeers)"
| "frame_outcome io OtherFrame = None"

definition end_outcome :: "relay_io \<Rightarrow> relay_failure" where
  "end_outcome io = (case io_end io of StreamEnds \<Rightarrow> ClosedBeforePeers | StreamSilent \<Rightarrow> QueryTimedOut)"

fun read_peers :: "relay_io \<Rightarrow> nat \<Rightarrow> ws_read list \<Rightarrow> relay_failure + PeerRecord list" where
  "read_peers io frames_seen [] =
     Inl (if MAX_RELAY_DISCOVERY_FRAMES \<le> frames_seen then TooManyFrames frames_seen else end_outcome io)"
| "read_peers io frames_seen (r # rs) =
     (if MAX_RELAY_DISCOVERY_FRAMES \<le> frames_seen then Inl (TooManyFrames frames_seen)
      else case frame_outcome io r of
             Some res \<Rightarrow> res
           | None \<Rightarrow> read_peers io (Suc frames_seen) rs)"

definition send_relay :: "relay_io \<Rightarrow> RelayMessage \<Rightarrow> relay_failure option" where
  "send_relay io msg =
     (case io_send io msg of IoOk \<Rightarrow> None | IoFails e \<Rightarrow> Some (SendFailed e) | IoStalls \<Rightarrow> Some QueryTimedOut)"

definition relay_get_peers :: "relay_io \<Rightarrow> bytes \<Rightarrow> bytes \<Rightarrow> relay_failure + PeerRecord list" where
  "relay_get_peers io peer_id_hex network_id =
     (case io_connect io of
        IoFails e \<Rightarrow> Inl (ConnectFailed e)
      | IoStalls \<Rightarrow> Inl QueryTimedOut
      | IoOk \<Rightarrow>
          (case send_relay io (Register peer_id_hex network_id RELAY_PROTOCOL_VERSION []) of
             Some e \<Rightarrow> Inl e
           | None \<Rightarrow>
               (case send_relay io (GetPeers (Some network_id)) of
                  Some e \<Rightarrow> Inl e
                | None \<Rightarrow> read_peers io 0 (io_reads io))))"

record UnifiedDiscoveryConfig =
  ud_relay_endpoint :: bytes
  ud_self_peer_id_hex :: bytes
  ud_network_id :: bytes

definition unified_discover :: "(bytes \<Rightarrow> bytes) \<Rightarrow> relay_io \<Rightarrow> UnifiedDiscoveryConfig \<Rightarrow> PeerRecord list" where
  "unified_discover trim io cfg =
     (if trim (ud_relay_endpoint cfg) = [] then []
      else case relay_get_peers io (ud_self_peer_id_hex cfg) (ud_network_id cfg) of
             Inr records \<Rightarrow> records
           | Inl _ \<Rightarrow> [])"

section \<open>Merging into the address manager\<close>

definition dialable_rows :: "PeerRecord list \<Rightarrow> TimestampedPeerInfo list" where
  "dialable_rows records = List.map_filter to_timestamped_peer_info records"

definition merge_records_into_address_manager ::
    "net_env \<Rightarrow> draws \<Rightarrow> PeerRecord list \<Rightarrow> bytes \<Rightarrow> u16 \<Rightarrow> Inner \<Rightarrow> (nat \<times> Inner) option" where
  "merge_records_into_address_manager env d records src_host src_port am =
     (let dialable = dialable_rows records
      in if dialable = [] then Some (0, am)
         else do { am' \<leftarrow> add_rows env d dialable \<lparr>pi_host = src_host, pi_port = src_port\<rparr> am;
                   Some (manager_size am' - manager_size am, am') })"

definition merge_records_into_address_manager_capped ::
    "net_env \<Rightarrow> draws \<Rightarrow> PeerRecord list \<Rightarrow> bytes \<Rightarrow> u16 \<Rightarrow> nat \<Rightarrow> Inner \<Rightarrow> (nat \<times> nat \<times> Inner) option" where
  "merge_records_into_address_manager_capped env d records src_host src_port tot am =
     (let dialable = dialable_rows records
      in if dialable = [] then Some (0, tot, am)
         else let (capped, tot) = cap_received_peers dialable tot
              in if capped = [] then Some (0, tot, am)
                 else do { am' \<leftarrow> add_rows env d capped \<lparr>pi_host = src_host, pi_port = src_port\<rparr> am;
                           Some (manager_size am' - manager_size am, tot, am') })"

section \<open>Folding a live reservation\<close>

definition hex_digit :: "u8 \<Rightarrow> u8 option" where
  "hex_digit c =
     (if 48 \<le> c \<and> c \<le> 57 then Some (c - 48)
      else if 97 \<le> c \<and> c \<le> 102 then Some (c - 87)
      else if 65 \<le> c \<and> c \<le> 70 then Some (c - 55)
      else None)"

fun hex_pairs :: "bytes \<Rightarrow> bytes option" where
  "hex_pairs (a # b # rest) =
     do { hi \<leftarrow> hex_digit a; lo \<leftarrow> hex_digit b; out \<leftarrow> hex_pairs rest; Some ((hi * 16 + lo) # out) }"
| "hex_pairs _ = Some []"

definition peer_id_from_hex :: "bytes \<Rightarrow> peer_id option" where
  "peer_id_from_hex text =
     (let s = strip_0x text in if length s \<noteq> 64 then None else hex_pairs s)"

record relay_book =
  rb_service :: ServiceState
  rb_discovered :: "(SocketAddr, peer_id) fmap"
  rb_manager :: Inner
  rb_total :: nat

definition record_discovered_peer_id ::
    "SocketAddr \<Rightarrow> peer_id \<Rightarrow> (SocketAddr, peer_id) fmap \<Rightarrow> (SocketAddr, peer_id) fmap" where
  "record_discovered_peer_id addr pid m = fmupd addr pid m"

definition record_addresses ::
    "net_env \<Rightarrow> peer_id \<Rightarrow> PeerAddress list \<Rightarrow> (SocketAddr, peer_id) fmap \<Rightarrow> (SocketAddr, peer_id) fmap" where
  "record_addresses env pid =
     fold (\<lambda>a m. if \<not> is_dialable (pa_kind a) then m
                else case parse_ip env (pa_host a) of
                       Some ip \<Rightarrow> record_discovered_peer_id (SocketAddr ip (pa_port a)) pid m
                     | None \<Rightarrow> m)"

definition record_identities ::
    "net_env \<Rightarrow> PeerRecord list \<Rightarrow> (SocketAddr, peer_id) fmap \<Rightarrow> (SocketAddr, peer_id) fmap" where
  "record_identities env =
     fold (\<lambda>rec m. if rec_peer_id rec = [] then m
                  else case peer_id_from_hex (rec_peer_id rec) of
                         None \<Rightarrow> m
                       | Some pid \<Rightarrow> record_addresses env pid (rec_addresses rec) m)"

definition bound_or_configured :: "ServiceConfig \<Rightarrow> ServiceState \<Rightarrow> SocketAddr" where
  "bound_or_configured cfg st =
     (case svc_listen_bound_addr st of Some a \<Rightarrow> a | None \<Rightarrow> cfg_listen_addr cfg)"

definition fold_relay_known_peers ::
    "net_env \<Rightarrow> (IpAddr \<Rightarrow> bytes) \<Rightarrow> (SocketAddr \<Rightarrow> 'f::linorder) \<Rightarrow> draws \<Rightarrow> ServiceConfig \<Rightarrow> bytes option
      \<Rightarrow> RelayPeerInfo list \<Rightarrow> relay_book \<Rightarrow> relay_book option" where
  "fold_relay_known_peers env show_ip family_of d cfg self_hex known b =
     (let b = b\<lparr>rb_service := set_relay_reachable (map rpi_peer_id known) self_hex (rb_service b)\<rparr>
      in if known = [] then Some b
         else
           let records = map (from_nat_relay_peer_info show_ip family_of) known;
               b = b\<lparr>rb_discovered := record_identities env records (rb_discovered b)\<rparr>;
               bound = bound_or_configured cfg (rb_service b)
           in do { (_, tot, am) \<leftarrow> merge_records_into_address_manager_capped env d records
                     (show_ip (sa_ip bound)) (sa_port bound) (rb_total b) (rb_manager b);
                   Some (b\<lparr>rb_total := tot, rb_manager := am\<rparr>) })"

text \<open>The peers the attached reservation knows; \<open>None\<close>: none is attached.\<close>

definition pool_discover_from_relay ::
    "net_env \<Rightarrow> (IpAddr \<Rightarrow> bytes) \<Rightarrow> (SocketAddr \<Rightarrow> 'f::linorder) \<Rightarrow> draws \<Rightarrow> ServiceConfig \<Rightarrow> bytes option
      \<Rightarrow> RelayPeerInfo list option \<Rightarrow> relay_book \<Rightarrow> relay_book option" where
  "pool_discover_from_relay env show_ip family_of d cfg self_hex status b =
     (case status of
        None \<Rightarrow> Some b
      | Some known \<Rightarrow> fold_relay_known_peers env show_ip family_of d cfg self_hex known b)"

text \<open>The maintenance loop: one fold for each wake-up, with the draws of that pass.\<close>

fun relay_passes ::
    "net_env \<Rightarrow> (IpAddr \<Rightarrow> bytes) \<Rightarrow> (SocketAddr \<Rightarrow> 'f::linorder) \<Rightarrow> ServiceConfig \<Rightarrow> bytes option
      \<Rightarrow> (draws \<times> RelayPeerInfo list option) list \<Rightarrow> relay_book \<Rightarrow> relay_book option" where
  "relay_passes env show_ip family_of cfg self_hex [] b = Some b"
| "relay_passes env show_ip family_of cfg self_hex ((d, status) # ps) b =
     do { b \<leftarrow> pool_discover_from_relay env show_ip family_of d cfg self_hex status b;
          relay_passes env show_ip family_of cfg self_hex ps b }"

section \<open>The query\<close>

lemma read_peers_find:
  "n \<le> MAX_RELAY_DISCOVERY_FRAMES \<Longrightarrow> read_peers io n rs =
     (case List.find (\<lambda>r. frame_outcome io r \<noteq> None) (take (MAX_RELAY_DISCOVERY_FRAMES - n) rs) of
        Some r \<Rightarrow> the (frame_outcome io r)
      | None \<Rightarrow> Inl (if MAX_RELAY_DISCOVERY_FRAMES - n \<le> length rs
                     then TooManyFrames MAX_RELAY_DISCOVERY_FRAMES else end_outcome io))"
proof (induction rs arbitrary: n)
  case (Cons r rs)
  show ?case
  proof (cases "n = MAX_RELAY_DISCOVERY_FRAMES")
    case False
    then have "n < MAX_RELAY_DISCOVERY_FRAMES" using Cons.prems by simp
    moreover from this have "MAX_RELAY_DISCOVERY_FRAMES - n = Suc (MAX_RELAY_DISCOVERY_FRAMES - Suc n)" by simp
    ultimately show ?thesis
      using Cons.IH [of "Suc n"] by (cases "frame_outcome io r") simp_all
  qed simp
qed auto

lemma message_outcome_records:
  "message_outcome m = Some (Inr records) \<Longrightarrow>
     length records \<le> MAX_PEERS_RECEIVED_PER_REQUEST \<and> (\<forall>r \<in> set records. rec_addresses r = [])"
  by (auto simp: message_outcome_def from_relay_peer_info_def Let_def split: option.splits RelayMessage.splits)

lemma frame_outcome_records:
  "frame_outcome io r = Some (Inr records) \<Longrightarrow>
     length records \<le> MAX_PEERS_RECEIVED_PER_REQUEST \<and> (\<forall>r \<in> set records. rec_addresses r = [])"
  by (cases r) (auto dest: message_outcome_records)

text \<open>
  A query of an untrusted relay is bounded. Once connected and registered, its result is that
  of the first frame that is an answer, an error, a close or a read failure among the first 64 frames;
  64 frames without one end it, whatever follows. Every answer it returns has at most 1000
  records, and none of them has an address to file.
\<close>

theorem relay_query_bounded:
  assumes "io_connect io = IoOk" "\<And>m. io_send io m = IoOk"
  shows "relay_get_peers io pid net =
      (case List.find (\<lambda>r. frame_outcome io r \<noteq> None) (take 64 (io_reads io)) of
         Some r \<Rightarrow> the (frame_outcome io r)
       | None \<Rightarrow> Inl (if 64 \<le> length (io_reads io) then TooManyFrames 64 else end_outcome io))
    \<and> (\<forall>records. relay_get_peers io pid net = Inr records
         \<longrightarrow> length records \<le> 1000 \<and> dialable_rows records = [])"
proof (intro conjI allI impI)
  have run: "relay_get_peers io pid net = read_peers io 0 (io_reads io)"
    using assms by (simp add: relay_get_peers_def send_relay_def)
  show exact: "relay_get_peers io pid net =
      (case List.find (\<lambda>r. frame_outcome io r \<noteq> None) (take 64 (io_reads io)) of
         Some r \<Rightarrow> the (frame_outcome io r)
       | None \<Rightarrow> Inl (if 64 \<le> length (io_reads io) then TooManyFrames 64 else end_outcome io))"
    unfolding run using read_peers_find [of 0 io "io_reads io", unfolded MAX_RELAY_DISCOVERY_FRAMES_def] by simp
  fix records
  assume "relay_get_peers io pid net = Inr records"
  then obtain r where "frame_outcome io r = Some (Inr records)"
    using exact by (auto simp: find_Some_iff split: option.splits if_splits)
  from frame_outcome_records [OF this]
  show "length records \<le> 1000" "dialable_rows records = []"
    by (auto simp: peer_caps dialable_rows_def List.map_filter_def filter_empty_conv
        to_timestamped_peer_info_def best_address_def)
qed

definition chatty_relay :: relay_io where
  "chatty_relay = \<lparr>io_connect = IoOk, io_send = (\<lambda>_. IoOk), io_reads = [OtherFrame, Text [1]],
     io_end = StreamSilent, io_parse = (\<lambda>_. Some (Peers [RelayPeerInfo_new [7] [8] 1 9]))\<rparr>"

theorem relay_query_bounded_witness:
  "relay_get_peers chatty_relay [1] [8] = Inr [from_relay_peer_info (RelayPeerInfo_new [7] [8] 1 9)]"
  using relay_query_bounded [of chatty_relay "[1]" "[8]", THEN conjunct1]
  by (simp add: chatty_relay_def message_outcome_def peer_caps)

section \<open>Conversions\<close>

lemma min_by_rank_head:
  "(\<forall>x \<in> set as. kind_rank (pa_kind a) \<le> kind_rank (pa_kind x)) \<Longrightarrow> min_by_rank (a # as) = Some a"
  by (induction as) auto

lemma best_direct:
  assumes "rec_addresses r = map (direct_address show_ip) (a # as)"
  shows "best_address r = Some (direct_address show_ip a)"
proof -
  have all: "filter (is_dialable \<circ> pa_kind) (map (direct_address show_ip) xs) = map (direct_address show_ip) xs" for xs
    by (induction xs) (simp_all add: is_dialable_def direct_address_def)
  show ?thesis
    unfolding best_address_def assms all
    by (simp only: list.map, rule min_by_rank_head) (simp add: direct_address_def)
qed

lemma sort_key_head:
  assumes "xs \<noteq> []"
  obtains a as where "sort_key f xs = a # as" "a \<in> set xs" "\<forall>b \<in> set xs. f a \<le> f b"
proof -
  obtain a as where s: "sort_key f xs = a # as"
    using assms by (metis list.exhaust set_empty set_sort)
  have "sorted (map f (a # as))"
    using sorted_sort_key [of f xs] s by simp
  then have least: "\<forall>b \<in> set (a # as). f a \<le> f b"
    by simp
  have members: "set (a # as) = set xs"
    using s by (metis set_sort)
  show ?thesis
    using that [OF s] least unfolding members [symmetric] by simp
qed

text \<open>
  The row that files a relay-introduced peer is a dialable candidate of the preferred family. A
  peer the relay knows without addresses gives no row; one with addresses gives a row for an
  address the relay listed, and no listed address has a family that \<open>dig_ip\<close> orders before
  it. A row received from a peer survives the conversion to a record and back.
\<close>

theorem relay_row_prefers_family:
  "(rpi_addresses rpi = [] \<longrightarrow> to_timestamped_peer_info (from_nat_relay_peer_info show_ip family_of rpi) = None)
   \<and> (rpi_addresses rpi \<noteq> [] \<longrightarrow>
        (\<exists>a \<in> set (rpi_addresses rpi).
           to_timestamped_peer_info (from_nat_relay_peer_info show_ip family_of rpi)
             = Some \<lparr>ts_host = show_ip (sa_ip a), ts_port = sa_port a, ts_timestamp = rpi_last_seen rpi\<rparr>
           \<and> (\<forall>b \<in> set (rpi_addresses rpi). family_of a \<le> family_of b)))
   \<and> to_timestamped_peer_info (from_timestamped_peer_info tpi net) = Some tpi"
proof (intro conjI impI)
  show "to_timestamped_peer_info (from_timestamped_peer_info tpi net) = Some tpi"
    by (simp add: to_timestamped_peer_info_def from_timestamped_peer_info_def best_address_def is_dialable_def)
  show "to_timestamped_peer_info (from_nat_relay_peer_info show_ip family_of rpi) = None" if "rpi_addresses rpi = []"
    using that by (simp add: to_timestamped_peer_info_def from_nat_relay_peer_info_def best_address_def)
  assume ne: "rpi_addresses rpi \<noteq> []"
  obtain a as where a: "sort_key family_of (rpi_addresses rpi) = a # as" "a \<in> set (rpi_addresses rpi)"
    "\<forall>b \<in> set (rpi_addresses rpi). family_of a \<le> family_of b"
    using sort_key_head [OF ne, where f = family_of] by metis
  have "best_address (from_nat_relay_peer_info show_ip family_of rpi) = Some (direct_address show_ip a)"
    by (rule best_direct [where as = as]) (simp add: from_nat_relay_peer_info_def ne a(1))
  then show "\<exists>a \<in> set (rpi_addresses rpi).
      to_timestamped_peer_info (from_nat_relay_peer_info show_ip family_of rpi)
        = Some \<lparr>ts_host = show_ip (sa_ip a), ts_port = sa_port a, ts_timestamp = rpi_last_seen rpi\<rparr>
      \<and> (\<forall>b \<in> set (rpi_addresses rpi). family_of a \<le> family_of b)"
    using a(2,3) ne
    by (intro bexI [of _ a]) (simp_all add: to_timestamped_peer_info_def direct_address_def from_nat_relay_peer_info_def)
qed

definition dual_peer :: RelayPeerInfo where
  "dual_peer = RelayPeerInfo_new [7] [8] 1 9\<lparr>rpi_addresses :=
     [SocketAddr (V4 [1, 2, 3, 4]) 5, SocketAddr (V6 (replicate 16 1)) 6]\<rparr>"

definition v6_first :: "SocketAddr \<Rightarrow> nat" where
  "v6_first a = (case sa_ip a of V6 _ \<Rightarrow> 0 | V4 _ \<Rightarrow> 1)"

theorem relay_row_prefers_family_witness:
  "to_timestamped_peer_info (from_nat_relay_peer_info octets v6_first dual_peer)
     = Some \<lparr>ts_host = replicate 16 1, ts_port = 6, ts_timestamp = 9\<rparr>"
  using relay_row_prefers_family [where rpi = dual_peer and show_ip = octets and family_of = v6_first, THEN conjunct2, THEN conjunct1]
  by (auto simp: dual_peer_def v6_first_def RelayPeerInfo_new_def)

section \<open>The identities a reservation pins\<close>

definition claims :: "RelayPeerInfo list \<Rightarrow> SocketAddr \<Rightarrow> peer_id \<Rightarrow> bool" where
  "claims known a p \<longleftrightarrow>
     (\<exists>rpi \<in> set known. a \<in> set (rpi_addresses rpi) \<and> peer_id_from_hex (rpi_peer_id rpi) = Some p)"

lemma claims_simps [simp]:
  "claims [] a p \<longleftrightarrow> False"
  "claims (rpi # known) a p \<longleftrightarrow>
     a \<in> set (rpi_addresses rpi) \<and> peer_id_from_hex (rpi_peer_id rpi) = Some p \<or> claims known a p"
  by (auto simp: claims_def)

text \<open>What a text of an address must be for the pins to be filed under the address itself.\<close>

definition parses_back :: "net_env \<Rightarrow> (IpAddr \<Rightarrow> bytes) \<Rightarrow> RelayPeerInfo list \<Rightarrow> bool" where
  "parses_back env show_ip known \<longleftrightarrow>
     (\<forall>rpi \<in> set known. \<forall>a \<in> set (rpi_addresses rpi). parse_ip env (show_ip (sa_ip a)) = Some (sa_ip a))"

lemma parses_back_Cons:
  "parses_back env show_ip (rpi # known) \<longleftrightarrow>
     (\<forall>a \<in> set (rpi_addresses rpi). parse_ip env (show_ip (sa_ip a)) = Some (sa_ip a))
     \<and> parses_back env show_ip known"
  by (simp add: parses_back_def)

lemma record_addresses_lookup:
  assumes "\<forall>a \<in> set as. parse_ip env (show_ip (sa_ip a)) = Some (sa_ip a)"
  shows "fmlookup (record_addresses env pid (map (direct_address show_ip) as) m) a
    = (if a \<in> set as then Some pid else fmlookup m a)"
  using assms
  by (induction as arbitrary: m)
    (auto simp: record_addresses_def direct_address_def is_dialable_def record_discovered_peer_id_def)

lemma record_addresses_Nil: "record_addresses env pid [] m = m"
  by (simp add: record_addresses_def)

lemma no_identity: "peer_id_from_hex [] = None"
  by (simp add: peer_id_from_hex_def strip_0x_def)

lemma record_identities_Cons:
  assumes "\<forall>a \<in> set (rpi_addresses rpi). parse_ip env (show_ip (sa_ip a)) = Some (sa_ip a)"
  obtains m' where "record_identities env (map (from_nat_relay_peer_info show_ip family_of) (rpi # known)) m
      = record_identities env (map (from_nat_relay_peer_info show_ip family_of) known) m'"
    and "\<And>a. fmlookup m' a = (if a \<in> set (rpi_addresses rpi) \<and> peer_id_from_hex (rpi_peer_id rpi) \<noteq> None
        then peer_id_from_hex (rpi_peer_id rpi) else fmlookup m a)"
proof -
  let ?r = "from_nat_relay_peer_info show_ip family_of rpi"
  let ?m = "if rec_peer_id ?r = [] then m
     else case peer_id_from_hex (rec_peer_id ?r) of
            None \<Rightarrow> m | Some pid \<Rightarrow> record_addresses env pid (rec_addresses ?r) m"
  have look: "fmlookup (record_addresses env pid (map (direct_address show_ip) (sort_key family_of (rpi_addresses rpi))) m) a
      = (if a \<in> set (rpi_addresses rpi) then Some pid else fmlookup m a)" for pid a
    using record_addresses_lookup [where as = "sort_key family_of (rpi_addresses rpi)" and show_ip = show_ip] assms by simp
  show ?thesis
    by (rule that [of ?m])
      (auto simp: record_identities_def from_nat_relay_peer_info_def no_identity look record_addresses_Nil
        split: option.split)
qed

lemma record_identities_lookup:
  assumes "parses_back env show_ip known"
  shows "fmlookup (record_identities env (map (from_nat_relay_peer_info show_ip family_of) known) m) a = Some p
      \<Longrightarrow> claims known a p \<or> fmlookup m a = Some p"
    and "claims known a p \<or> fmlookup m a = Some p
      \<Longrightarrow> fmlookup (record_identities env (map (from_nat_relay_peer_info show_ip family_of) known) m) a \<noteq> None"
  using assms
proof (induction known arbitrary: m p)
  case Nil
  { case 1 then show ?case by (simp add: record_identities_def) }
  { case 2 then show ?case by (simp add: record_identities_def) }
next
  case (Cons rpi known)
  { case 1
    obtain n where n: "record_identities env (map (from_nat_relay_peer_info show_ip family_of) (rpi # known)) m
        = record_identities env (map (from_nat_relay_peer_info show_ip family_of) known) n"
      "\<And>a. fmlookup n a = (if a \<in> set (rpi_addresses rpi) \<and> peer_id_from_hex (rpi_peer_id rpi) \<noteq> None
        then peer_id_from_hex (rpi_peer_id rpi) else fmlookup m a)"
      using 1(2) record_identities_Cons unfolding parses_back_Cons by metis
    show ?case
      using Cons.IH(1) [of n p] 1 unfolding n(1) parses_back_Cons n(2) claims_simps by (metis (no_types))
  }
  { case 2
    obtain n where n: "record_identities env (map (from_nat_relay_peer_info show_ip family_of) (rpi # known)) m
        = record_identities env (map (from_nat_relay_peer_info show_ip family_of) known) n"
      "\<And>a. fmlookup n a = (if a \<in> set (rpi_addresses rpi) \<and> peer_id_from_hex (rpi_peer_id rpi) \<noteq> None
        then peer_id_from_hex (rpi_peer_id rpi) else fmlookup m a)"
      using 2(2) record_identities_Cons unfolding parses_back_Cons by metis
    show ?case
      using Cons.IH(2) [where m = n] 2 unfolding n(1) parses_back_Cons n(2) claims_simps
      by (metis (no_types) option.distinct(1) option.exhaust)
  }
qed

lemma fold_discovered:
  assumes "fold_relay_known_peers env show_ip family_of d cfg self_hex known b = Some b'"
  shows "rb_discovered b' = record_identities env (map (from_nat_relay_peer_info show_ip family_of) known) (rb_discovered b)"
proof (cases "known = []")
  case True
  then show ?thesis
    using assms by (auto simp: fold_relay_known_peers_def Let_def record_identities_def)
next
  case False
  then show ?thesis
    using assms by (auto simp: fold_relay_known_peers_def Let_def split: bind_splits)
qed

text \<open>
  What a dial may be pinned to. After a fold every pinned identity was pinned before or is one
  the relay claims for that address, and each address the relay lists for a well-formed identity is
  pinned. Nothing is forgotten and no cap applies: each fold adds every fresh address it lists.
\<close>

theorem relay_pins_exact:
  assumes "fold_relay_known_peers env show_ip family_of d cfg self_hex known b = Some b'"
    and "parses_back env show_ip known"
  shows "(\<forall>a p. fmlookup (rb_discovered b') a = Some p
            \<longrightarrow> claims known a p \<or> fmlookup (rb_discovered b) a = Some p)
    \<and> fset (fmdom (rb_discovered b'))
        = fset (fmdom (rb_discovered b)) \<union> {a. \<exists>p. claims known a p}"
proof (intro conjI allI impI)
  note look = record_identities_lookup [OF assms(2), where family_of = family_of and m = "rb_discovered b"]
  show "claims known a p \<or> fmlookup (rb_discovered b) a = Some p" if "fmlookup (rb_discovered b') a = Some p" for a p
    using that look(1) unfolding fold_discovered [OF assms(1)] by blast
  show "fset (fmdom (rb_discovered b')) = fset (fmdom (rb_discovered b)) \<union> {a. \<exists>p. claims known a p}"
  proof (rule set_eqI)
    fix a
    have "(\<exists>p. fmlookup (rb_discovered b') a = Some p)
        \<longleftrightarrow> (\<exists>p. fmlookup (rb_discovered b) a = Some p) \<or> (\<exists>p. claims known a p)"
      unfolding fold_discovered [OF assms(1)] using look(1) [of a] look(2) [of a] by blast
    then show "a \<in> fset (fmdom (rb_discovered b'))
        \<longleftrightarrow> a \<in> fset (fmdom (rb_discovered b)) \<union> {a. \<exists>p. claims known a p}"
      by (simp add: fmlookup_dom_iff)
  qed
qed

section \<open>The lifetime budget\<close>

lemma merge_total:
  assumes "merge_records_into_address_manager_capped env d records h p tot am = Some (n, tot', am')"
  shows "tot' = snd (cap_received_peers (dialable_rows records) tot)"
  using assms
  by (auto simp: merge_records_into_address_manager_capped_def Let_def cap_received_peers_def accepted_of_def
      peer_caps split: bind_splits if_splits prod.splits)

lemma cap_total:
  "tot \<le> MAX_TOTAL_PEERS_RECEIVED \<Longrightarrow> snd (cap_received_peers peers tot)
     = min (tot + min (length peers) MAX_PEERS_RECEIVED_PER_REQUEST) MAX_TOTAL_PEERS_RECEIVED"
  by (auto simp: cap_received_peers_def accepted_of_def Let_def peer_caps)

definition dialable_count :: "RelayPeerInfo list \<Rightarrow> nat" where
  "dialable_count known = length (filter (\<lambda>rpi. rpi_addresses rpi \<noteq> []) known)"

lemma dialable_rows_length: "length (dialable_rows (map (from_nat_relay_peer_info show_ip family_of) known)) = dialable_count known"
proof (induction known)
  case (Cons rpi known)
  have "to_timestamped_peer_info (from_nat_relay_peer_info show_ip family_of rpi) = None \<longleftrightarrow> rpi_addresses rpi = []"
  proof (cases "rpi_addresses rpi = []")
    case False
    from sort_key_head [OF False, where f = family_of] obtain a as
      where "sort_key family_of (rpi_addresses rpi) = a # as" by metis
    from best_direct [of "from_nat_relay_peer_info show_ip family_of rpi" show_ip a as] this False show ?thesis
      by (simp add: from_nat_relay_peer_info_def to_timestamped_peer_info_def)
  qed (simp add: from_nat_relay_peer_info_def to_timestamped_peer_info_def best_address_def)
  then show ?case
    using Cons.IH by (auto simp: dialable_rows_def dialable_count_def List.map_filter_def)
qed (simp add: dialable_rows_def dialable_count_def List.map_filter_def)

lemma fold_total:
  assumes "fold_relay_known_peers env show_ip family_of d cfg self_hex known b = Some b'"
    and "rb_total b \<le> MAX_TOTAL_PEERS_RECEIVED"
  shows "rb_total b' = min (rb_total b + min (dialable_count known) MAX_PEERS_RECEIVED_PER_REQUEST)
      MAX_TOTAL_PEERS_RECEIVED"
proof (cases "known = []")
  case True
  then show ?thesis
    using assms by (auto simp: fold_relay_known_peers_def Let_def dialable_count_def)
next
  case False
  then have "rb_total b' = snd (cap_received_peers
      (dialable_rows (map (from_nat_relay_peer_info show_ip family_of) known)) (rb_total b))"
    using assms(1) by (auto simp: fold_relay_known_peers_def Let_def dest!: merge_total split: bind_splits)
  then show ?thesis
    by (simp add: cap_total [OF assms(2)] dialable_rows_length)
qed

lemma passes_total:
  assumes "relay_passes env show_ip family_of cfg self_hex ps b = Some b'"
    and "rb_total b \<le> MAX_TOTAL_PEERS_RECEIVED" "\<And>q. q \<in> set ps \<Longrightarrow> snd q = Some known"
  shows "rb_total b' = min (rb_total b + length ps * min (dialable_count known) MAX_PEERS_RECEIVED_PER_REQUEST)
      MAX_TOTAL_PEERS_RECEIVED"
  using assms
proof (induction ps arbitrary: b)
  case (Cons q ps)
  obtain d where q: "q = (d, Some known)"
    using Cons.prems(3) [of q] by (cases q) auto
  obtain b1 where b1: "fold_relay_known_peers env show_ip family_of d cfg self_hex known b = Some b1"
    "relay_passes env show_ip family_of cfg self_hex ps b1 = Some b'"
    using Cons.prems(1) by (auto simp: q pool_discover_from_relay_def split: bind_splits)
  have "rb_total b1 \<le> MAX_TOTAL_PEERS_RECEIVED"
    using fold_total [OF b1(1) Cons.prems(2)] by simp
  from Cons.IH [OF b1(2) this] Cons.prems(3) fold_total [OF b1(1) Cons.prems(2)]
  show ?case by (auto simp: algebra_simps min_def)
qed simp

lemma fold_used_up:
  assumes "fold_relay_known_peers env show_ip family_of d cfg self_hex known b = Some b'"
    and "MAX_TOTAL_PEERS_RECEIVED \<le> rb_total b"
  shows "rb_manager b' = rb_manager b" "rb_total b' = rb_total b"
  using assms
  by (auto simp: fold_relay_known_peers_def merge_records_into_address_manager_capped_def cap_used_up Let_def
      split: bind_splits if_splits)

text \<open>
  C37: a stable relay uses up the node's budget for received addresses. The maintenance loop folds
  the whole known set at every pass and counts its dialable peers anew, so with \<open>k\<close> of them the
  lifetime budget of 3000 is gone after \<open>3000 / k\<close> passes although no new peer was learned.
  From then on no fold of a relay's peers changes the address manager, an introducer's answer adds
  nobody, and a peer's answer is cut to nothing. (DNS seeds and the peers that dial in are not
  counted against the budget.)
\<close>

theorem relay_passes_use_up_budget:
  assumes "relay_passes env show_ip family_of cfg self_hex ps b = Some b'"
    and "rb_total b \<le> 3000" "\<And>q. q \<in> set ps \<Longrightarrow> snd q = Some known"
    and "3000 \<le> length ps * min (dialable_count known) 1000"
  shows "rb_total b' = 3000
    \<and> (\<forall>d known' b''. fold_relay_known_peers env show_ip family_of d cfg self_hex known' b' = Some b'' \<longrightarrow>
          rb_manager b'' = rb_manager b' \<and> rb_total b'' = 3000)
    \<and> try_introducer_query env d (Answered peers) (rb_total b') (rb_manager b') = Some (Some 0, 3000, rb_manager b')
    \<and> cap_received_peers peers (rb_total b') = ([], 3000)"
proof -
  have full: "rb_total b' = 3000"
    using passes_total [OF assms(1) _ assms(3)] assms(2,4) by (simp add: peer_caps)
  then have "MAX_TOTAL_PEERS_RECEIVED \<le> rb_total b'"
    by (simp add: peer_caps)
  then show ?thesis
    using full cap_used_up [of "rb_total b'" peers] fold_used_up [where b = b' and env = env and show_ip = show_ip
        and family_of = family_of and cfg = cfg and self_hex = self_hex]
    by auto
qed

text \<open>A reservation with one peer at a private address: no row is ever filed, and yet the budget
  goes.\<close>

definition private_peer :: RelayPeerInfo where
  "private_peer = RelayPeerInfo_new [7] [8] 1 9\<lparr>rpi_addresses := [SocketAddr (V4 [10, 0, 0, 1]) 5]\<rparr>"

definition text_env :: net_env where
  "text_env = \<lparr>parse_ip = (\<lambda>b. Some (V4 b)), sha256 = (\<lambda>b. take 32 b)\<rparr>"

definition base_relay_config :: ServiceConfig where
  "base_relay_config = \<lparr>cfg_peer_id = [0], cfg_max_connections = 8, cfg_target_outbound_count = 8,
     cfg_peer_pool = None, cfg_as_table = as_table_empty, cfg_listen_addr = SocketAddr (V4 [0, 0, 0, 0]) 9444\<rparr>"

definition one_row :: TimestampedPeerInfo where
  "one_row = \<lparr>ts_host = [1, 2, 3, 4], ts_port = 5, ts_timestamp = 9\<rparr>"

definition fresh_book :: relay_book where
  "fresh_book = \<lparr>rb_service = service_new, rb_discovered = fmempty, rb_manager = Inner_new [], rb_total = 0\<rparr>"

lemma private_peer_row:
  "dialable_rows [from_nat_relay_peer_info octets v6_first private_peer]
     = [\<lparr>ts_host = [10, 0, 0, 1], ts_port = 5, ts_timestamp = 9\<rparr>]"
  by (simp add: dialable_rows_def List.map_filter_def to_timestamped_peer_info_def best_address_def
      from_nat_relay_peer_info_def private_peer_def RelayPeerInfo_new_def direct_address_def is_dialable_def)

lemma private_pass:
  assumes "\<not> allow_private_subnets (rb_manager b)"
  shows "\<exists>b'. fold_relay_known_peers text_env octets v6_first d cfg None [private_peer] b = Some b'
    \<and> rb_manager b' = rb_manager b"
proof -
  have unroutable: "host_is_private text_env [10, 0, 0, 1]"
    by (simp add: host_is_private_def text_env_def)
  have "add_rows text_env d (take n [\<lparr>ts_host = [10, 0, 0, 1], ts_port = 5, ts_timestamp = 9\<rparr>]) src (rb_manager b)
      = Some (rb_manager b)" for n src
    using assms unroutable
    by (cases n; cases "d 0") (simp_all add: add_rows_def add_to_new_table_inner_def enumerate_eq_zip)
  then show ?thesis
    by (simp add: fold_relay_known_peers_def Let_def merge_records_into_address_manager_capped_def
        private_peer_row cap_received_peers_def)
qed

lemma private_passes:
  "\<not> allow_private_subnets (rb_manager b) \<Longrightarrow>
     relay_passes text_env octets v6_first cfg None (replicate n (d, Some [private_peer])) b \<noteq> None"
proof (induction n arbitrary: b)
  case (Suc n)
  obtain b1 where b1: "fold_relay_known_peers text_env octets v6_first d cfg None [private_peer] b = Some b1"
    "rb_manager b1 = rb_manager b"
    using private_pass [OF Suc.prems] by blast
  then show ?case
    using Suc.IH [of b1] Suc.prems by (simp add: pool_discover_from_relay_def)
qed simp

theorem relay_passes_use_up_budget_witness:
  "\<exists>b'. relay_passes text_env octets v6_first base_relay_config None
       (replicate 3000 ((\<lambda>_. (0, 0, \<lambda>_. 0)), Some [private_peer])) fresh_book = Some b'
     \<and> cap_received_peers [one_row] (rb_total b') = ([], 3000)"
proof -
  let ?ps = "replicate 3000 ((\<lambda>_. (0, 0, \<lambda>_. 0)) :: draws, Some [private_peer])"
  obtain b' where run: "relay_passes text_env octets v6_first base_relay_config None ?ps fresh_book = Some b'"
    using private_passes [where b = fresh_book and n = 3000 and d = "\<lambda>_. (0, 0, \<lambda>_. 0)"
        and cfg = base_relay_config]
    by (auto simp: fresh_book_def Inner_new_def simp del: relay_passes.simps)
  have "3000 \<le> length ?ps * min (dialable_count [private_peer]) 1000"
    by (simp add: dialable_count_def private_peer_def)
  then show ?thesis
    using relay_passes_use_up_budget [OF run, where known = "[private_peer]" and peers = "[one_row]"
        and d = "\<lambda>_. (0, 0, \<lambda>_. 0)"] run
    by (auto simp: fresh_book_def)
qed

section \<open>Counting what the relay reaches\<close>

text \<open>
  A peer held directly is meant to count once. The comparison is of spellings, though, so a relay
  that writes the identity differently makes it count again.
\<close>

lemma respelled_peer_counted_twice:
  assumes "fmlookup (svc_peers st) p \<noteq> None" "normalize_peer_id_hex s = normalize_peer_id_hex (to_hex p)"
    and "\<And>q. fmlookup (svc_peers st) q \<noteq> None \<Longrightarrow> s \<noteq> to_hex q"
  shows "relay_reachable_excluding_connected to_hex (set_relay_reachable [s] None st) = 1"
proof -
  have "s |\<notin>| to_hex |`| fmdom (svc_peers st)"
    using assms(3) by (metis (no_types, opaque_lifting) fimageE fmlookup_dom_iff option.distinct(1))
  then have "ffilter (\<lambda>s. s |\<notin>| to_hex |`| fmdom (svc_peers st)) {|s|} = {|s|}"
    by (intro fset_eqI) auto
  then show ?thesis
    by (simp add: relay_reachable_excluding_connected_def set_relay_reachable_def fcard.rep_eq)
qed

end
