(* ===== verification/Tx_Relay.thy ===== *)
theory Tx_Relay
  imports Prelude
begin

text \<open>
  Transaction and block relay state: the ERLAY flood set and sketch (\<open>gossip/erlay.rs\<close>), the
  Dandelion stem (\<open>privacy/dandelion.rs\<close>), compact blocks (\<open>gossip/compact_block.rs\<close>)
  and the Tor transport choice (\<open>privacy/tor.rs\<close>).

  A shuffle is the shuffled list, an argument that is a permutation of what is shuffled; a random
  choice is an index. The clock is an argument. SipHash is a parameter. Probabilities are exact
  rationals.
\<close>

section \<open>ERLAY\<close>

definition ERLAY_FLOOD_PEER_COUNT :: nat where "ERLAY_FLOOD_PEER_COUNT = 8"
definition ERLAY_RECONCILIATION_INTERVAL_MS :: nat where "ERLAY_RECONCILIATION_INTERVAL_MS = 2000"
definition ERLAY_SKETCH_CAPACITY :: nat where "ERLAY_SKETCH_CAPACITY = 20"
definition ERLAY_FLOOD_SET_ROTATION_SECS :: nat where "ERLAY_FLOOD_SET_ROTATION_SECS = 60"

record ErlayConfig =
  flood_peer_count :: nat
  reconciliation_interval_ms :: nat
  sketch_capacity :: nat

definition erlay_config_default :: ErlayConfig where
  "erlay_config_default =
     \<lparr>flood_peer_count = ERLAY_FLOOD_PEER_COUNT, reconciliation_interval_ms = ERLAY_RECONCILIATION_INTERVAL_MS,
      sketch_capacity = ERLAY_SKETCH_CAPACITY\<rparr>"

record ErlayState =
  flood_set :: "peer_id fset"
  last_rotation :: nat
  local_tx_ids :: "bytes32 fset"
  erlay_config :: ErlayConfig

definition ErlayState_new :: ErlayState where
  "ErlayState_new =
     \<lparr>flood_set = {||}, last_rotation = 0, local_tx_ids = {||}, erlay_config = erlay_config_default\<rparr>"

definition erlay_with_config :: "ErlayConfig \<Rightarrow> ErlayState" where
  "erlay_with_config config = ErlayState_new\<lparr>erlay_config := config\<rparr>"

definition select_flood_set :: "peer_id list \<Rightarrow> nat \<Rightarrow> ErlayState \<Rightarrow> ErlayState" where
  "select_flood_set shuffled now st =
     st\<lparr>flood_set := fset_of_list (take (flood_peer_count (erlay_config st)) shuffled), last_rotation := now\<rparr>"

definition erlay_needs_rotation :: "nat \<Rightarrow> ErlayState \<Rightarrow> bool" where
  "erlay_needs_rotation now st \<longleftrightarrow> ERLAY_FLOOD_SET_ROTATION_SECS \<le> now - last_rotation st"

definition is_flood_peer :: "peer_id \<Rightarrow> ErlayState \<Rightarrow> bool" where
  "is_flood_peer p st \<longleftrightarrow> p |\<in>| flood_set st"

definition add_local_tx :: "bytes32 \<Rightarrow> ErlayState \<Rightarrow> ErlayState" where
  "add_local_tx tx st = st\<lparr>local_tx_ids := finsert tx (local_tx_ids st)\<rparr>"

definition flood_set_size :: "ErlayState \<Rightarrow> nat" where
  "flood_set_size st = fcard (flood_set st)"

definition local_tx_count :: "ErlayState \<Rightarrow> nat" where
  "local_tx_count st = fcard (local_tx_ids st)"

definition clear_local_txs :: "ErlayState \<Rightarrow> ErlayState" where
  "clear_local_txs st = st\<lparr>local_tx_ids := {||}\<rparr>"

record ReconciliationSketch =
  elements :: "u64 list"
  sk_capacity :: nat

definition sketch_new :: "nat \<Rightarrow> ReconciliationSketch" where
  "sketch_new c = \<lparr>elements = [], sk_capacity = c\<rparr>"

definition sketch_with_default_capacity :: ReconciliationSketch where
  "sketch_with_default_capacity = sketch_new ERLAY_SKETCH_CAPACITY"

definition sketch_add :: "bytes32 \<Rightarrow> ReconciliationSketch \<Rightarrow> ReconciliationSketch" where
  "sketch_add tx s = s\<lparr>elements := elements s @ [of_nat (nat_of_be (rev (take 8 tx)))]\<rparr>"

definition sketch_len :: "ReconciliationSketch \<Rightarrow> nat" where
  "sketch_len s = length (elements s)"

definition sketch_is_empty :: "ReconciliationSketch \<Rightarrow> bool" where
  "sketch_is_empty s \<longleftrightarrow> elements s = []"

section \<open>Dandelion\<close>

record DandelionConfig =
  dandelion_enabled :: bool
  fluff_probability :: rat
  stem_timeout_secs :: nat
  epoch_secs :: nat

definition dandelion_config_default :: DandelionConfig where
  "dandelion_config_default =
     \<lparr>dandelion_enabled = True, fluff_probability = 1 / 10, stem_timeout_secs = 30, epoch_secs = 600\<rparr>"

record StemTransaction =
  stem_tx_id :: bytes32
  stem_payload :: bytes
  stem_started_at :: nat

definition StemTransaction_new :: "bytes32 \<Rightarrow> bytes \<Rightarrow> nat \<Rightarrow> StemTransaction" where
  "StemTransaction_new tx payload now = \<lparr>stem_tx_id = tx, stem_payload = payload, stem_started_at = now\<rparr>"

definition is_timed_out :: "nat \<Rightarrow> nat \<Rightarrow> StemTransaction \<Rightarrow> bool" where
  "is_timed_out now timeout s \<longleftrightarrow> timeout \<le> now - stem_started_at s"

record StemRelayManager =
  current_relay :: "peer_id option"
  epoch_start :: nat
  mgr_epoch_secs :: nat

definition StemRelayManager_new :: "nat \<Rightarrow> StemRelayManager" where
  "StemRelayManager_new secs = \<lparr>current_relay = None, epoch_start = 0, mgr_epoch_secs = secs\<rparr>"

definition stem_needs_rotation :: "nat \<Rightarrow> StemRelayManager \<Rightarrow> bool" where
  "stem_needs_rotation now m \<longleftrightarrow> current_relay m = None \<or> mgr_epoch_secs m \<le> now - epoch_start m"

text \<open>The random choice of a slice: none of an empty one, else the drawn element.\<close>

definition choose_peer :: "nat \<Rightarrow> peer_id list \<Rightarrow> peer_id option" where
  "choose_peer i peers = (if peers = [] then None else Some (peers ! (i mod length peers)))"

definition stem_rotate :: "nat \<Rightarrow> nat \<Rightarrow> peer_id list \<Rightarrow> StemRelayManager \<Rightarrow> StemRelayManager" where
  "stem_rotate i now outbound m = m\<lparr>current_relay := choose_peer i outbound, epoch_start := now\<rparr>"

definition stem_relay :: "StemRelayManager \<Rightarrow> peer_id option" where
  "stem_relay m = current_relay m"

definition on_relay_disconnected :: "nat \<Rightarrow> peer_id list \<Rightarrow> StemRelayManager \<Rightarrow> StemRelayManager" where
  "on_relay_disconnected i outbound m = m\<lparr>current_relay := choose_peer i outbound\<rparr>"

definition should_fluff :: "rat \<Rightarrow> rat \<Rightarrow> bool" where
  "should_fluff r p \<longleftrightarrow> r < p"

section \<open>Compact blocks\<close>

definition SHORT_TX_ID_BYTES :: nat where "SHORT_TX_ID_BYTES = 6"
definition COMPACT_BLOCK_MAX_MISSING_TXS :: nat where "COMPACT_BLOCK_MAX_MISSING_TXS = 5"

text \<open>Hashing a slice feeds its length, eight little-endian bytes on a 64-bit target, before its bytes.\<close>

definition le64 :: "nat \<Rightarrow> bytes" where
  "le64 n = rev (be_of_nat 8 n)"

definition short_tx_id :: "(u64 \<Rightarrow> u64 \<Rightarrow> bytes \<Rightarrow> u64) \<Rightarrow> bytes \<Rightarrow> bytes32 \<Rightarrow> bytes" where
  "short_tx_id siphash key tx =
     (let k0 = of_nat (nat_of_be (rev (take 8 key)));
          k1 = of_nat (nat_of_be (rev (take 8 (drop 8 key))))
      in take SHORT_TX_ID_BYTES (le64 (unat (siphash k0 k1 (le64 (length tx) @ tx)))))"

record PrefilledTransaction =
  pf_index :: u16
  pf_tx :: bytes

record CompactBlock =
  header_hash :: bytes32
  cb_height :: u32
  short_tx_ids :: "bytes list"
  prefilled_txs :: "PrefilledTransaction list"
  sip_hash_key :: bytes

definition derive_sip_hash_key :: "bytes32 \<Rightarrow> bytes" where
  "derive_sip_hash_key hash = take 16 hash"

datatype ReconstructionResult =
    Complete | RequestMissing "u16 list" | FallbackToFullBlock nat

definition classify_reconstruction :: "u16 list \<Rightarrow> ReconstructionResult" where
  "classify_reconstruction missing =
     (if missing = [] then Complete
      else if length missing \<le> COMPACT_BLOCK_MAX_MISSING_TXS then RequestMissing missing
      else FallbackToFullBlock (length missing))"

section \<open>Tor\<close>

record TorConfig =
  tor_enabled :: bool
  onion_address :: "bytes option"
  tor_prefer :: bool

definition tor_is_active :: "TorConfig \<Rightarrow> bool" where "tor_is_active c \<longleftrightarrow> tor_enabled c"
definition has_onion_address :: "TorConfig \<Rightarrow> bool" where "has_onion_address c \<longleftrightarrow> onion_address c \<noteq> None"

definition is_hybrid :: "TorConfig \<Rightarrow> bool" where
  "is_hybrid c \<longleftrightarrow> tor_enabled c \<and> has_onion_address c \<and> \<not> tor_prefer c"

datatype TorTransportChoice = Direct | Tor

definition select_with_tor :: "bool \<Rightarrow> bool \<Rightarrow> bool \<Rightarrow> TorTransportChoice" where
  "select_with_tor prefer_tor is_onion has_direct =
     (if is_onion then Tor else if prefer_tor then Tor else if has_direct then Direct else Tor)"

section \<open>The flood set\<close>

lemma fcard_fset_of_list: "fcard (fset_of_list xs) = card (set xs)"
  by (simp add: fcard.rep_eq fset_of_list.rep_eq)

text \<open>
  The flood set is a bounded part of the peers offered, until it is rotated. Whatever the
  shuffle of the distinct outbound peers, the flood set consists of them only, has the configured
  number of peers or all of them if they are fewer, and is due again exactly 60 seconds later.
\<close>

theorem flood_set_bounded:
  fixes st :: ErlayState and now t :: nat
  assumes "distinct outbound" "set shuffled = set outbound" "distinct shuffled"
  defines "st' \<equiv> select_flood_set shuffled now st"
  shows "fset (flood_set st') \<subseteq> set outbound
    \<and> flood_set_size st' = min (flood_peer_count (erlay_config st)) (length outbound)
    \<and> (erlay_needs_rotation t st' \<longleftrightarrow> now + 60 \<le> t)"
proof -
  have len: "length shuffled = length outbound"
    using assms(1-3) by (metis distinct_card)
  have "set (take n shuffled) \<subseteq> set outbound" for n
    using assms(2) set_take_subset by fastforce
  moreover have "card (set (take n shuffled)) = min n (length outbound)" for n
    using distinct_card [OF distinct_take [OF assms(3), of n]] len by simp
  ultimately show ?thesis
    by (auto simp: st'_def select_flood_set_def flood_set_size_def fcard_fset_of_list fset_of_list.rep_eq
        erlay_needs_rotation_def ERLAY_FLOOD_SET_ROTATION_SECS_def)
qed

theorem flood_set_bounded_witness:
  "flood_set_size (select_flood_set [[2], [1]] 5 ErlayState_new) = 2"
  using flood_set_bounded [of "[[1], [2]]" "[[2], [1]]" 5 ErlayState_new]
  by (simp add: insert_commute ErlayState_new_def erlay_config_default_def ERLAY_FLOOD_PEER_COUNT_def)

text \<open>The sketch keeps every identifier, twice if it is added twice, whatever its capacity.\<close>

lemma sketch_grows: "sketch_len (fold sketch_add txs (sketch_new c)) = length txs"
proof -
  have "sketch_len (fold sketch_add txs s) = sketch_len s + length txs" for s
    by (induction txs arbitrary: s) (simp_all add: sketch_add_def sketch_len_def)
  then show ?thesis
    by (simp add: sketch_new_def sketch_len_def)
qed

section \<open>The stem\<close>

text \<open>
  The stem relay is one of the peers, and outlives its epoch. After a rotation or a
  disconnect the relay is one of the outbound peers offered, or none when there are none; a relay
  of an expired epoch, which is due for rotation, is still handed out; a stem transaction times out
  exactly when its age reaches the timeout.
\<close>

theorem stem_relay_outlives_epoch:
  "(case stem_relay (stem_rotate i now outbound m) of None \<Rightarrow> outbound = [] | Some p \<Rightarrow> p \<in> set outbound)
   \<and> (case stem_relay (on_relay_disconnected i outbound m) of None \<Rightarrow> outbound = [] | Some p \<Rightarrow> p \<in> set outbound)
   \<and> (outbound = [] \<or> stem_needs_rotation (now + mgr_epoch_secs m) (stem_rotate i now outbound m)
        \<and> stem_relay (stem_rotate i now outbound m) \<noteq> None)
   \<and> (is_timed_out t secs (StemTransaction_new tx payload now) \<longleftrightarrow> secs = 0 \<or> now + secs \<le> t)"
  by (auto simp: stem_relay_def stem_rotate_def on_relay_disconnected_def choose_peer_def stem_needs_rotation_def
      is_timed_out_def StemTransaction_new_def)

lemma stem_keeps_epoch: "epoch_start (on_relay_disconnected i outbound m) = epoch_start m"
  by (simp add: on_relay_disconnected_def)

end
