(* ===== verification/Keepalive.thy ===== *)
theory Keepalive
  imports Service_State
begin

text \<open>
  The keepalive loop of a live connection (\<open>connection/keepalive.rs\<close>).

  Time is the monotonic clock in milliseconds. A round takes from outside what it meets: whether
  the service runs before and after the sleep, by how much the sleep overshoots, whether the
  inbound broadcast exists, whether the probe can be sent, and what the broadcast then delivers
  within the deadline. The wall clock of a failure is an argument. The teardown is
  \<open>disconnect_after_keepalive_failure\<close> of \<open>Service_State\<close>.
\<close>

section \<open>The loop\<close>

definition PING_INTERVAL_SECS :: nat where "PING_INTERVAL_SECS = 30"
definition PEER_TIMEOUT_SECS :: nat where "PEER_TIMEOUT_SECS = 90"

record keepalive_config =
  keepalive_ping_interval_secs :: "nat option"
  keepalive_peer_timeout_secs :: "nat option"

definition ping_secs :: "keepalive_config \<Rightarrow> nat" where
  "ping_secs cfg = (case keepalive_ping_interval_secs cfg of Some s \<Rightarrow> s | None \<Rightarrow> PING_INTERVAL_SECS)"

definition timeout_secs :: "keepalive_config \<Rightarrow> nat" where
  "timeout_secs cfg = (case keepalive_peer_timeout_secs cfg of Some s \<Rightarrow> s | None \<Rightarrow> PEER_TIMEOUT_SECS)"

text \<open>What the subscription yields: a frame of a peer at a time after the probe, a lag, or
  the end of the broadcast.\<close>

datatype inbound_item = Frame peer_id u8 nat | Lagged | Closed

text \<open>The wait: the time of the answer, the end of the broadcast, or neither before the
  deadline.\<close>

datatype reply = Answer nat | BroadcastClosed | NoAnswer

fun await_respond_peers :: "u8 \<Rightarrow> peer_id \<Rightarrow> nat \<Rightarrow> inbound_item list \<Rightarrow> reply" where
  "await_respond_peers respond p deadline [] = NoAnswer"
| "await_respond_peers respond p deadline (Frame q op t # items) =
     (if deadline < t then NoAnswer
      else if q = p \<and> op = respond then Answer t
      else await_respond_peers respond p deadline items)"
| "await_respond_peers respond p deadline (Lagged # items) = await_respond_peers respond p deadline items"
| "await_respond_peers respond p deadline (Closed # items) = BroadcastClosed"

record ping_round =
  runs_before :: bool
  runs_after :: bool
  overshoot :: nat
  broadcast_up :: bool
  probe_sent :: bool
  inbound :: "inbound_item list"
  wall_clock :: nat

record ka_state =
  clock_ms :: nat
  last_success :: nat
  ka_service :: ServiceState

definition record_live_rtt :: "peer_id \<Rightarrow> nat \<Rightarrow> ServiceState \<Rightarrow> ServiceState" where
  "record_live_rtt p rtt st =
     (case fmlookup (svc_peers st) p of
        Some (LiveRow l) \<Rightarrow>
          st\<lparr>svc_peers := fmupd p (LiveRow (l\<lparr>live_reputation := record_rtt_ms rtt (live_reputation l)\<rparr>))
               (svc_peers st)\<rparr>
      | _ \<Rightarrow> st)"

datatype verdict = Continue | Stopped | GaveUp

definition give_up :: "peer_id \<Rightarrow> nat \<Rightarrow> nat \<Rightarrow> ka_state \<Rightarrow> verdict \<times> ka_state" where
  "give_up p generation now st =
     (GaveUp, st\<lparr>ka_service := disconnect_after_keepalive_failure p generation now (ka_service st)\<rparr>)"

definition keepalive_round ::
    "u8 \<Rightarrow> keepalive_config \<Rightarrow> peer_id \<Rightarrow> nat \<Rightarrow> ping_round \<Rightarrow> ka_state \<Rightarrow> verdict \<times> ka_state" where
  "keepalive_round respond cfg p generation r st =
     (if \<not> runs_before r then (Stopped, st)
      else
        let woke = clock_ms st + ping_secs cfg * 1000 + overshoot r;
            st = st\<lparr>clock_ms := woke\<rparr>
        in if \<not> runs_after r then (Stopped, st)
           else if timeout_secs cfg * 1000 < woke - last_success st then give_up p generation (wall_clock r) st
           else if \<not> broadcast_up r then (Continue, st\<lparr>last_success := woke\<rparr>)
           else if \<not> probe_sent r then give_up p generation (wall_clock r) st
           else (case await_respond_peers respond p (timeout_secs cfg * 1000) (inbound r) of
               Answer t \<Rightarrow>
                 (Continue, \<lparr>clock_ms = woke + t, last_success = woke + t,
                             ka_service = record_live_rtt p t (ka_service st)\<rparr>)
             | BroadcastClosed \<Rightarrow> (Stopped, st)
             | NoAnswer \<Rightarrow> give_up p generation (wall_clock r) (st\<lparr>clock_ms := woke + timeout_secs cfg * 1000\<rparr>)))"

fun keepalive_loop ::
    "u8 \<Rightarrow> keepalive_config \<Rightarrow> peer_id \<Rightarrow> nat \<Rightarrow> ping_round list \<Rightarrow> ka_state \<Rightarrow> verdict \<times> ka_state" where
  "keepalive_loop respond cfg p generation [] st = (Continue, st)"
| "keepalive_loop respond cfg p generation (r # rs) st =
     (case keepalive_round respond cfg p generation r st of
        (Continue, st) \<Rightarrow> keepalive_loop respond cfg p generation rs st
      | (v, st) \<Rightarrow> (v, st))"

definition keepalive_start :: "nat \<Rightarrow> ServiceState \<Rightarrow> ka_state" where
  "keepalive_start now st = \<lparr>clock_ms = now, last_success = now, ka_service = st\<rparr>"

section \<open>Who is given up\<close>

text \<open>A round in which the peer could not be probed, or answered.\<close>

definition lively :: "u8 \<Rightarrow> keepalive_config \<Rightarrow> peer_id \<Rightarrow> ping_round \<Rightarrow> bool" where
  "lively respond cfg p r \<longleftrightarrow>
     (broadcast_up r \<longrightarrow> probe_sent r \<and> await_respond_peers respond p (timeout_secs cfg * 1000) (inbound r) \<noteq> NoAnswer)"

definition fresh_ka :: "ka_state \<Rightarrow> bool" where
  "fresh_ka st \<longleftrightarrow> last_success st = clock_ms st"

lemma fresh_start [simp]: "fresh_ka (keepalive_start now st)"
  by (simp add: fresh_ka_def keepalive_start_def)

lemma round_continues_fresh:
  "keepalive_round respond cfg p gen r st = (Continue, st') \<Longrightarrow> fresh_ka st'"
  by (auto simp: keepalive_round_def Let_def give_up_def fresh_ka_def split: if_splits reply.splits)

lemma fresh_round:
  assumes "fresh_ka st" "ping_secs cfg * 1000 + overshoot r \<le> timeout_secs cfg * 1000"
  shows "fst (keepalive_round respond cfg p gen r st) = GaveUp
    \<longleftrightarrow> runs_before r \<and> runs_after r \<and> \<not> lively respond cfg p r"
  using assms
  by (auto simp: keepalive_round_def Let_def give_up_def lively_def fresh_ka_def split: reply.splits)

text \<open>
  C9: the keepalive gives up exactly the silent. When every sleep ends within the timeout, the loop
  gives a peer up if and only if in some round before the service stops a probe cannot be sent or
  stays unanswered to the deadline; a round without the broadcast, or with a lag, counts for the
  peer. The staleness test of the code never decides: one unanswered probe is enough, not three
  missed intervals.
\<close>

theorem keepalive_gives_up_exactly:
  assumes "\<forall>r\<in>set rs. ping_secs cfg * 1000 + overshoot r \<le> timeout_secs cfg * 1000"
    and "\<forall>r\<in>set rs. runs_before r \<and> runs_after r"
    and "\<forall>r\<in>set rs. broadcast_up r \<longrightarrow>
           await_respond_peers respond p (timeout_secs cfg * 1000) (inbound r) \<noteq> BroadcastClosed"
  shows "fst (keepalive_loop respond cfg p gen rs (keepalive_start now st)) = GaveUp
    \<longleftrightarrow> (\<exists>r\<in>set rs. \<not> lively respond cfg p r)"
proof -
  have "fst (keepalive_loop respond cfg p gen rs s) = GaveUp \<longleftrightarrow> (\<exists>r\<in>set rs. \<not> lively respond cfg p r)"
    if "fresh_ka s" for s
    using that assms
  proof (induction rs arbitrary: s)
    case (Cons r rs)
    obtain v s' where turn: "keepalive_round respond cfg p gen r s = (v, s')"
      by fastforce
    have gone: "v = GaveUp \<longleftrightarrow> \<not> lively respond cfg p r"
      using fresh_round [OF Cons.prems(1), of cfg r respond p gen] Cons.prems(2,3) turn by simp
    have go: "v \<noteq> Stopped"
      using turn Cons.prems(3,4)
      by (auto simp: keepalive_round_def Let_def give_up_def split: if_splits reply.splits)
    show ?case
    proof (cases v)
      case Continue
      then have "fresh_ka s'"
        using turn round_continues_fresh by blast
      then have "fst (keepalive_loop respond cfg p gen rs s') = GaveUp \<longleftrightarrow> (\<exists>r\<in>set rs. \<not> lively respond cfg p r)"
        by (rule Cons.IH) (use Cons.prems(2-4) in simp_all)
      then show ?thesis
        using turn gone Continue by simp
    qed (use turn gone go in auto)
  qed simp
  then show ?thesis
    by simp
qed

text \<open>
  A ping interval above the peer timeout disconnects everybody. With such a configuration (it
  is not rejected) the first round tears the session down before any probe is sent, whatever
  the peer does.
\<close>

theorem keepalive_misconfigured:
  assumes "timeout_secs cfg < ping_secs cfg" "runs_before r" "runs_after r"
    and "fmlookup (svc_peers st) p = Some (LiveRow l)" "live_generation l = gen"
  shows "fst (keepalive_loop respond cfg p gen (r # rs) (keepalive_start now st)) = GaveUp
    \<and> fmlookup (svc_peers (ka_service (snd (keepalive_loop respond cfg p gen (r # rs) (keepalive_start now st))))) p
      = None"
  using assms
  by (simp add: keepalive_round_def keepalive_start_def give_up_def Let_def disconnect_after_keepalive_failure_def
      execute_dig_timed_ban_def split_beta)

definition answering :: ping_round where
  "answering = \<lparr>runs_before = True, runs_after = True, overshoot = 5, broadcast_up = True, probe_sent = True,
     inbound = [Lagged, Frame [7] 44 20], wall_clock = 1000\<rparr>"

theorem keepalive_gives_up_exactly_witness:
  "fst (keepalive_loop 44 \<lparr>keepalive_ping_interval_secs = None, keepalive_peer_timeout_secs = None\<rparr> [7] 0
     [answering, answering\<lparr>inbound := [Frame [8] 44 20]\<rparr>] (keepalive_start 0 one_live)) = GaveUp"
proof -
  let ?cfg = "\<lparr>keepalive_ping_interval_secs = None, keepalive_peer_timeout_secs = None\<rparr>"
  let ?rs = "[answering, answering\<lparr>inbound := [Frame [8] 44 20]\<rparr>]"
  have times: "ping_secs ?cfg = 30" "timeout_secs ?cfg = 90"
    by (simp_all add: ping_secs_def timeout_secs_def PING_INTERVAL_SECS_def PEER_TIMEOUT_SECS_def)
  have "\<exists>r\<in>set ?rs. \<not> lively 44 ?cfg [7] r"
    by (simp add: lively_def answering_def times)
  then show ?thesis
    by (subst keepalive_gives_up_exactly) (auto simp: answering_def times)
qed

theorem keepalive_misconfigured_witness:
  "fst (keepalive_loop 44 \<lparr>keepalive_ping_interval_secs = Some 120, keepalive_peer_timeout_secs = None\<rparr> [7] 0
     [answering] (keepalive_start 0 one_live)) = GaveUp"
  by (rule keepalive_misconfigured [where l = "case live_row 8 True 0 of LiveRow l \<Rightarrow> l" and st = one_live, THEN conjunct1])
    (simp_all add: timeout_secs_def ping_secs_def PEER_TIMEOUT_SECS_def answering_def one_live_def live_row_def)

end
