(* ===== verification/Address_Snapshot.thy ===== *)
theory Address_Snapshot
  imports Select_Peer
begin

text \<open>
  The address manager on disk (\<open>discovery/address_manager_store.rs\<close> and the snapshot
  functions of \<open>discovery/address_manager.rs\<close>): the frozen state, its validation, the two
  conversions, and the file steps of saving and loading.

  A snapshot names rows by their index in the list of node ids, in increasing order.
  \<open>to_address_manager_state\<close> is \<open>None\<close> where \<open>expect("snapshot node id")\<close> panics. A path
  is its list of components; \<open>bincode\<close> and the failures of the file system are arguments.
\<close>

section \<open>The frozen state\<close>

record AddressManagerState =
  snap_version :: nat
  snap_key :: bytes32
  node_ids :: "node_id list"
  entries :: "ExtendedPeerInfo list"
  tried_table :: "nat option list list"
  new_table :: "nat option list list"
  snap_random_pos :: "nat list"
  snap_last_good :: nat
  tried_collision_indices :: "nat list"
  snap_allow_private_subnets :: bool
  snap_id_count :: u32
  snap_tried_count :: nat
  snap_new_count :: nat

definition ADDRESS_MANAGER_STATE_VERSION :: nat where "ADDRESS_MANAGER_STATE_VERSION = 1"

datatype table_kind = TriedTable | NewTable

datatype StoreError =
    UnsupportedVersion nat
  | InvalidVersion nat
  | IdsWithoutEntries
  | EmptyEntriesNotEmpty
  | EmptyCountsNotZero
  | WrongBucketCount table_kind nat
  | WrongRowWidth table_kind nat
  | TableIndexOutOfRange table_kind
  | RandomPosOutOfRange
  | CollisionOutOfRange
  | EmptyPath
  | NoParentDirectory
  | IoFailure
  | SerializeFailure
  | DeserializeFailure

section \<open>Validation\<close>

definition out_of_range :: "nat \<Rightarrow> nat option \<Rightarrow> bool" where
  "out_of_range n c \<longleftrightarrow> (case c of Some ix \<Rightarrow> n \<le> ix | None \<Rightarrow> False)"

fun check_rows :: "table_kind \<Rightarrow> nat \<Rightarrow> nat option list list \<Rightarrow> StoreError option" where
  "check_rows kind n [] = None"
| "check_rows kind n (row # rows) =
     (if length row \<noteq> BUCKET_SIZE then Some (WrongRowWidth kind (length row))
      else if list_ex (out_of_range n) row then Some (TableIndexOutOfRange kind)
      else check_rows kind n rows)"

definition check_table :: "table_kind \<Rightarrow> nat \<Rightarrow> nat \<Rightarrow> nat option list list \<Rightarrow> StoreError option" where
  "check_table kind buckets n t =
     (if length t \<noteq> buckets then Some (WrongBucketCount kind (length t)) else check_rows kind n t)"

definition validate_snapshot :: "AddressManagerState \<Rightarrow> StoreError + unit" where
  "validate_snapshot s =
     (let n = length (entries s) in
      if snap_version s \<noteq> ADDRESS_MANAGER_STATE_VERSION then
        Inl (if ADDRESS_MANAGER_STATE_VERSION < snap_version s then UnsupportedVersion (snap_version s)
             else InvalidVersion (snap_version s))
      else if length (node_ids s) \<noteq> n then Inl IdsWithoutEntries
      else if entries s = [] \<and> (node_ids s \<noteq> [] \<or> snap_random_pos s \<noteq> []) then Inl EmptyEntriesNotEmpty
      else if entries s = [] \<and> (snap_id_count s \<noteq> 0 \<or> snap_tried_count s \<noteq> 0 \<or> snap_new_count s \<noteq> 0)
        then Inl EmptyCountsNotZero
      else case check_table TriedTable TRIED_BUCKET_COUNT n (tried_table s) of
        Some e \<Rightarrow> Inl e
      | None \<Rightarrow>
         (case check_table NewTable NEW_BUCKET_COUNT n (new_table s) of
            Some e \<Rightarrow> Inl e
          | None \<Rightarrow>
              (if list_ex (\<lambda>ix. n \<le> ix) (snap_random_pos s) then Inl RandomPosOutOfRange
               else if list_ex (\<lambda>ix. n \<le> ix) (tried_collision_indices s) then Inl CollisionOutOfRange
               else Inr ())))"

section \<open>Freezing\<close>

definition index_of :: "node_id list \<Rightarrow> node_id \<Rightarrow> nat option" where
  "index_of ids = map_of (zip ids [0..<length ids])"

definition snapshot_cell :: "node_id list \<Rightarrow> (slot \<Rightarrow> u32) \<Rightarrow> slot \<Rightarrow> nat option option" where
  "snapshot_cell ids m pos = (if m pos = EMPTY then Some None else map_option Some (index_of ids (m pos)))"

definition snapshot_table :: "node_id list \<Rightarrow> (slot \<Rightarrow> u32) \<Rightarrow> nat \<Rightarrow> nat option list list option" where
  "snapshot_table ids m buckets =
     those (map (\<lambda>b. those (map (\<lambda>p. snapshot_cell ids m (b, p)) [0..<BUCKET_SIZE])) [0..<buckets])"

definition to_address_manager_state :: "Inner \<Rightarrow> AddressManagerState option" where
  "to_address_manager_state st =
     (let ids = sorted_list_of_fset (fmdom (map_info st)) in
      do { tt \<leftarrow> snapshot_table ids (tried_matrix st) TRIED_BUCKET_COUNT;
           nt \<leftarrow> snapshot_table ids (new_matrix st) NEW_BUCKET_COUNT;
           rp \<leftarrow> those (map (index_of ids) (random_pos st));
           tc \<leftarrow> those (map (index_of ids) (tried_collisions st));
           Some \<lparr>snap_version = ADDRESS_MANAGER_STATE_VERSION, snap_key = am_key st, node_ids = ids,
                 entries = map (\<lambda>i. the (fmlookup (map_info st) i)) ids,
                 tried_table = tt, new_table = nt, snap_random_pos = rp, snap_last_good = last_good st,
                 tried_collision_indices = tc, snap_allow_private_subnets = allow_private_subnets st,
                 snap_id_count = id_count st, snap_tried_count = tried_count st,
                 snap_new_count = new_count st\<rparr> })"

section \<open>Thawing\<close>

definition occupied :: "(slot \<Rightarrow> u32) \<Rightarrow> nat \<Rightarrow> slot fset" where
  "occupied m buckets =
     fset_of_list (filter (\<lambda>pos. m pos \<noteq> EMPTY) (List.product [0..<buckets] [0..<BUCKET_SIZE]))"

definition rebuild_used_positions :: "Inner \<Rightarrow> Inner" where
  "rebuild_used_positions st =
     st\<lparr>used_new_matrix_positions := occupied (new_matrix st) NEW_BUCKET_COUNT,
        used_tried_matrix_positions := occupied (tried_matrix st) TRIED_BUCKET_COUNT\<rparr>"

definition table_matrix :: "node_id list \<Rightarrow> nat \<Rightarrow> nat option list list \<Rightarrow> slot \<Rightarrow> u32" where
  "table_matrix ids buckets t pos =
     (if fst pos < buckets \<and> snd pos < BUCKET_SIZE
      then (case t ! fst pos ! snd pos of None \<Rightarrow> EMPTY | Some ix \<Rightarrow> ids ! ix)
      else EMPTY)"

definition restore_rows :: "node_id list \<Rightarrow> ExtendedPeerInfo list \<Rightarrow> Inner \<Rightarrow> Inner" where
  "restore_rows ids rows st =
     st\<lparr>map_addr := fold (\<lambda>(n, r). fmupd (pi_host (peer_info r)) n) (zip ids rows) (map_addr st),
        map_info := fold (\<lambda>(n, r). fmupd n r) (zip ids rows) (map_info st)\<rparr>"

definition reindex :: "Inner \<Rightarrow> Inner" where
  "reindex st =
     fold (\<lambda>(k, n). update_row n (\<lambda>r. r\<lparr>ep_random_pos := Some k\<rparr>)) (enumerate 0 (random_pos st)) st"

definition from_address_manager_state :: "AddressManagerState \<Rightarrow> StoreError + Inner" where
  "from_address_manager_state s =
     (case validate_snapshot s of
        Inl e \<Rightarrow> Inl e
      | Inr _ \<Rightarrow>
          (let st = (Inner_new (snap_key s))\<lparr>allow_private_subnets := snap_allow_private_subnets s,
                      last_good := snap_last_good s, id_count := snap_id_count s,
                      tried_count := snap_tried_count s, new_count := snap_new_count s\<rparr>
           in if entries s = [] then Inr (rebuild_used_positions st)
              else let st = restore_rows (node_ids s) (entries s) st;
                       st = st\<lparr>tried_matrix := table_matrix (node_ids s) TRIED_BUCKET_COUNT (tried_table s),
                               new_matrix := table_matrix (node_ids s) NEW_BUCKET_COUNT (new_table s),
                               random_pos := map (\<lambda>ix. node_ids s ! ix) (snap_random_pos s),
                               tried_collisions := map (\<lambda>ix. node_ids s ! ix) (tried_collision_indices s)\<rparr>
                   in Inr (rebuild_used_positions (reindex st))))"

section \<open>Files\<close>

type_synonym path = "bytes list"
type_synonym files = "(path, bytes) fmap"

definition path_parent :: "path \<Rightarrow> path option" where
  "path_parent path = (if path = [] then None else Some (butlast path))"

text \<open>\<open>Path::with_extension("tmp")\<close> on the last component: the text from the last dot on is
  replaced, unless the dot comes first.\<close>

definition file_stem :: "bytes \<Rightarrow> bytes" where
  "file_stem name =
     (let stem = rev (tl (dropWhile (\<lambda>b. b \<noteq> 46) (rev name)))
      in if stem = [] then name else stem)"

definition with_extension_tmp :: "path \<Rightarrow> path" where
  "with_extension_tmp path = butlast path @ [file_stem (last path) @ ascii ''.tmp'']"

datatype fs_op =
    CreateDirAll path
  | WriteSnapshot path AddressManagerState
  | RemoveIfExists path
  | Rename path path

record store_env =
  serialize :: "AddressManagerState \<Rightarrow> bytes option"
  deserialize :: "bytes \<Rightarrow> AddressManagerState option"
  io_fails :: "fs_op \<Rightarrow> bool"
  read_fails :: "path \<Rightarrow> bool"

fun fs_step :: "store_env \<Rightarrow> fs_op \<Rightarrow> files \<Rightarrow> StoreError + files" where
  "fs_step env (CreateDirAll d) fs = (if io_fails env (CreateDirAll d) then Inl IoFailure else Inr fs)"
| "fs_step env (WriteSnapshot p s) fs =
     (case serialize env s of
        None \<Rightarrow> Inl SerializeFailure
      | Some bs \<Rightarrow>
          if io_fails env (WriteSnapshot p s) then Inl IoFailure else Inr (fmupd p bs fs))"
| "fs_step env (RemoveIfExists p) fs =
     (case fmlookup fs p of
        None \<Rightarrow> Inr fs
      | Some _ \<Rightarrow> if io_fails env (RemoveIfExists p) then Inl IoFailure else Inr (fmdrop p fs))"
| "fs_step env (Rename p q) fs =
     (case fmlookup fs p of
        None \<Rightarrow> Inl IoFailure
      | Some bs \<Rightarrow> if io_fails env (Rename p q) then Inl IoFailure else Inr (fmupd q bs (fmdrop p fs)))"

fun fs_run :: "store_env \<Rightarrow> fs_op list \<Rightarrow> files \<Rightarrow> StoreError option \<times> files" where
  "fs_run env [] fs = (None, fs)"
| "fs_run env (x # xs) fs =
     (case fs_step env x fs of Inl e \<Rightarrow> (Some e, fs) | Inr fs' \<Rightarrow> fs_run env xs fs')"

definition save_ops :: "store_env \<Rightarrow> AddressManagerState \<Rightarrow> path \<Rightarrow> StoreError + fs_op list" where
  "save_ops env s path =
     (case validate_snapshot s of
        Inl e \<Rightarrow> Inl e
      | Inr _ \<Rightarrow>
          (if path = [] then Inl EmptyPath
           else case path_parent path of
             None \<Rightarrow> Inl NoParentDirectory
           | Some d \<Rightarrow>
               (if d = [] then Inl NoParentDirectory
                else Inr [CreateDirAll d, WriteSnapshot (with_extension_tmp path) s,
                          RemoveIfExists path, Rename (with_extension_tmp path) path])))"

definition save_sync :: "store_env \<Rightarrow> AddressManagerState \<Rightarrow> path \<Rightarrow> files \<Rightarrow> StoreError option \<times> files" where
  "save_sync env s path fs =
     (case save_ops env s path of Inl e \<Rightarrow> (Some e, fs) | Inr xs \<Rightarrow> fs_run env xs fs)"

definition load_sync :: "store_env \<Rightarrow> path \<Rightarrow> files \<Rightarrow> StoreError + AddressManagerState option" where
  "load_sync env path fs =
     (case fmlookup fs path of
        None \<Rightarrow> Inr None
      | Some bs \<Rightarrow>
          (if read_fails env path then Inl IoFailure
           else if bs = [] then Inr None
           else case deserialize env bs of
             None \<Rightarrow> Inl DeserializeFailure
           | Some s \<Rightarrow> (case validate_snapshot s of Inl e \<Rightarrow> Inl e | Inr _ \<Rightarrow> Inr (Some s))))"

text \<open>\<open>AddressManager::create\<close>, with the random key of a fresh manager as an argument, and
  \<open>AddressManager::save\<close>.\<close>

definition am_create :: "store_env \<Rightarrow> bytes32 \<Rightarrow> path \<Rightarrow> files \<Rightarrow> StoreError + Inner" where
  "am_create env fresh path fs =
     (if path = [] then Inr (Inner_new fresh)
      else case fmlookup fs path of
        None \<Rightarrow> Inr (Inner_new fresh)
      | Some bs \<Rightarrow>
          (if read_fails env path then Inl IoFailure
           else if bs = [] then Inr (Inner_new fresh)
           else case load_sync env path fs of
             Inl e \<Rightarrow> Inl e
           | Inr None \<Rightarrow> Inr (Inner_new fresh)
           | Inr (Some s) \<Rightarrow> from_address_manager_state s))"

definition am_save :: "store_env \<Rightarrow> path \<Rightarrow> Inner \<Rightarrow> files \<Rightarrow> (StoreError option \<times> files) option" where
  "am_save env path st fs =
     (if path = [] then Some (None, fs)
      else map_option (\<lambda>s. save_sync env s path fs) (to_address_manager_state st))"

section \<open>Freezing and thawing\<close>

lemma those_eq_Some: "those xs = Some ys \<longleftrightarrow> xs = map Some ys"
  by (induction xs arbitrary: ys) (auto split: option.splits simp: Cons_eq_map_conv)

lemma those_eq_None: "those xs = None \<longleftrightarrow> None \<in> set xs"
  by (induction xs) (auto split: option.splits)

lemma index_of_iff:
  assumes "distinct ids"
  shows "index_of ids i = Some k \<longleftrightarrow> k < length ids \<and> ids ! k = i"
  using assms by (auto simp: index_of_def map_of_eq_Some_iff in_set_zip)

lemma index_of_None: "index_of ids i = None \<longleftrightarrow> i \<notin> set ids"
  by (simp add: index_of_def map_of_zip_is_None)

lemma thaw_ids:
  assumes "distinct ids" "map (index_of ids) xs = map Some ks"
  shows "map (\<lambda>k. ids ! k) ks = xs" and "\<forall>k\<in>set ks. k < length ids"
proof -
  have eq: "length ks = length xs" "\<And>j. j < length xs \<Longrightarrow> index_of ids (xs ! j) = Some (ks ! j)"
    using assms(2) by (auto simp: list_eq_iff_nth_eq)
  then show "map (\<lambda>k. ids ! k) ks = xs"
    by (auto intro!: nth_equalityI simp: index_of_iff [OF assms(1)])
  show "\<forall>k\<in>set ks. k < length ids"
    using eq by (auto simp: in_set_conv_nth index_of_iff [OF assms(1)])
qed

lemma snapshot_table_cell:
  assumes "snapshot_table ids m buckets = Some t" "b < buckets" "p < BUCKET_SIZE"
  shows "snapshot_cell ids m (b, p) = Some (t ! b ! p)"
proof -
  have rows: "map (\<lambda>b. those (map (\<lambda>p. snapshot_cell ids m (b, p)) [0..<BUCKET_SIZE])) [0..<buckets] = map Some t"
    using assms(1) by (simp add: snapshot_table_def those_eq_Some)
  then have l: "length t = buckets"
    by (metis length_map length_upt diff_zero)
  have "those (map (\<lambda>p. snapshot_cell ids m (b, p)) [0..<BUCKET_SIZE]) = Some (t ! b)"
    using arg_cong [OF rows, of "\<lambda>xs. xs ! b"] assms(2) l by simp
  then have row: "map (\<lambda>p. snapshot_cell ids m (b, p)) [0..<BUCKET_SIZE] = map Some (t ! b)"
    by (simp add: those_eq_Some)
  then have "length (t ! b) = BUCKET_SIZE"
    by (metis length_map length_upt diff_zero)
  then show ?thesis
    using arg_cong [OF row, of "\<lambda>xs. xs ! p"] assms(3) by simp
qed

lemma thaw_table:
  assumes "distinct ids" "snapshot_table ids m buckets = Some t"
    and "\<And>pos. m pos \<noteq> EMPTY \<Longrightarrow> fst pos < buckets \<and> snd pos < BUCKET_SIZE"
  shows "table_matrix ids buckets t = m"
proof
  fix pos :: slot
  show "table_matrix ids buckets t pos = m pos"
  proof (cases "fst pos < buckets \<and> snd pos < BUCKET_SIZE")
    case True
    then have "snapshot_cell ids m pos = Some (t ! fst pos ! snd pos)"
      using snapshot_table_cell [OF assms(2), of "fst pos" "snd pos"] by simp
    then show ?thesis
      using True index_of_iff [OF assms(1), of "m pos"]
      by (cases "t ! fst pos ! snd pos") (auto simp: table_matrix_def snapshot_cell_def split: if_splits)
  next
    case False
    then have "m pos = EMPTY"
      using assms(3) by blast
    then show ?thesis
      by (subst table_matrix_def) (simp only: False if_False)
  qed
qed

lemma occupied_fset:
  assumes "\<And>pos. m pos \<noteq> EMPTY \<Longrightarrow> fst pos < buckets \<and> snd pos < BUCKET_SIZE"
  shows "fset (occupied m buckets) = {pos. m pos \<noteq> EMPTY}"
  using assms by (auto simp: occupied_def fset_of_list.rep_eq)

lemma restored_info:
  "fmlookup (fold (\<lambda>(n, r). fmupd n r) (zip ids (map f ids)) m) i = (if i \<in> set ids then Some (f i) else fmlookup m i)"
  by (induction ids arbitrary: m) auto

lemma restored_addr_other:
  "h \<notin> (\<lambda>n. pi_host (peer_info (f n))) ` set ids \<Longrightarrow>
    fmlookup (fold (\<lambda>(n, r). fmupd (pi_host (peer_info r)) n) (zip ids (map f ids)) m) h = fmlookup m h"
  by (induction ids arbitrary: m) auto

lemma restored_addr:
  "inj_on (\<lambda>n. pi_host (peer_info (f n))) (set ids) \<Longrightarrow> n \<in> set ids \<Longrightarrow>
    fmlookup (fold (\<lambda>(n, r). fmupd (pi_host (peer_info r)) n) (zip ids (map f ids)) m)
      (pi_host (peer_info (f n))) = Some n"
proof (induction ids arbitrary: m)
  case (Cons a ids)
  show ?case
  proof (cases "n \<in> set ids")
    case False
    then have "n = a"
      using Cons.prems(2) by simp
    moreover have "pi_host (peer_info (f a)) \<notin> (\<lambda>n. pi_host (peer_info (f n))) ` set ids"
      using Cons.prems(1) False \<open>n = a\<close> by (force simp: inj_on_def)
    ultimately show ?thesis
      by (simp add: restored_addr_other)
  qed (use Cons in simp)
qed simp

section \<open>The host index\<close>

text \<open>\<open>map_addr\<close> holds exactly the host of every row.\<close>

definition addr_ok :: "Inner \<Rightarrow> bool" where
  "addr_ok st \<longleftrightarrow>
     (\<forall>h n. fmlookup (map_addr st) h = Some n \<longleftrightarrow>
        (\<exists>r. fmlookup (map_info st) n = Some r \<and> pi_host (peer_info r) = h))"

lemma rows_of_snapshot:
  assumes "addr_ok st"
  defines "ids \<equiv> sorted_list_of_fset (fmdom (map_info st))"
  defines "rows \<equiv> map (\<lambda>i. the (fmlookup (map_info st) i)) ids"
  shows "fold (\<lambda>(n, r). fmupd n r) (zip ids rows) fmempty = map_info st"
    and "fold (\<lambda>(n, r). fmupd (pi_host (peer_info r)) n) (zip ids rows) fmempty = map_addr st"
proof -
  have set: "set ids = fset (fmdom (map_info st))"
    by (simp add: ids_def)
  let ?f = "\<lambda>i. the (fmlookup (map_info st) i)"
  have row: "i \<in> set ids \<longleftrightarrow> fmlookup (map_info st) i = Some (?f i)" for i
    unfolding set by (cases "fmlookup (map_info st) i") (simp_all add: fmdom_notI fmdomI)
  show "fold (\<lambda>(n, r). fmupd n r) (zip ids rows) fmempty = map_info st"
  proof (rule fmap_ext)
    show "fmlookup (fold (\<lambda>(n, r). fmupd n r) (zip ids rows) fmempty) i = fmlookup (map_info st) i" for i
      using row [of i] unfolding rows_def restored_info by (cases "fmlookup (map_info st) i") auto
  qed
  have host: "fmlookup (map_addr st) (pi_host (peer_info (?f i))) = Some i" if "i \<in> set ids" for i
    using assms(1) row that by (auto simp: addr_ok_def)
  have inj: "inj_on (\<lambda>n. pi_host (peer_info (?f n))) (set ids)"
    by (rule inj_onI) (metis host option.inject)
  show "fold (\<lambda>(n, r). fmupd (pi_host (peer_info r)) n) (zip ids rows) fmempty = map_addr st"
  proof (rule fmap_ext)
    fix h
    show "fmlookup (fold (\<lambda>(n, r). fmupd (pi_host (peer_info r)) n) (zip ids rows) fmempty) h = fmlookup (map_addr st) h"
    proof (cases "h \<in> (\<lambda>n. pi_host (peer_info (?f n))) ` set ids")
      case True
      then obtain n where "n \<in> set ids" "h = pi_host (peer_info (?f n))"
        by blast
      then show ?thesis
        using restored_addr [OF inj, of n fmempty] host by (simp add: rows_def)
    next
      case False
      moreover have "fmlookup (map_addr st) h = None"
      proof (rule ccontr)
        assume "fmlookup (map_addr st) h \<noteq> None"
        then obtain n r where "fmlookup (map_info st) n = Some r" "pi_host (peer_info r) = h"
          using assms(1) unfolding addr_ok_def by fastforce
        then show False
          using False row [of n] by force
      qed
      ultimately show ?thesis
        by (simp add: rows_def restored_addr_other)
    qed
  qed
qed

section \<open>The restored manager\<close>

lemma book_range:
  assumes "book env X st"
  shows "new_matrix st pos \<noteq> EMPTY \<Longrightarrow> fst pos < NEW_BUCKET_COUNT \<and> snd pos < BUCKET_SIZE"
    and "tried_matrix st pos \<noteq> EMPTY \<Longrightarrow> fst pos < TRIED_BUCKET_COUNT \<and> snd pos < BUCKET_SIZE"
proof -
  have bo: "book_ok env (am_key st) (id_count st) (new_matrix st) (tried_matrix st) (view st)"
    using assms by (simp add: book_def)
  show "fst pos < NEW_BUCKET_COUNT \<and> snd pos < BUCKET_SIZE" if "new_matrix st pos \<noteq> EMPTY"
  proof -
    note ne = that
    obtain p n where v: "view st (new_matrix st pos) = Some (p, False, n)"
      using cell_row [OF bo ne] by blast
    have "pos \<in> home_slots env (am_key st) p"
      using book_okD [OF bo ne] v by (auto simp: cells_def)
    then show ?thesis
      by (auto simp: home_slots_def)
  qed
  show "fst pos < TRIED_BUCKET_COUNT \<and> snd pos < BUCKET_SIZE" if "tried_matrix st pos \<noteq> EMPTY"
    using book_untry(2) [OF bo refl that] by (auto simp: tried_slot_def Let_def)
qed

lemma book_used:
  assumes "book env X st"
  shows "occupied (new_matrix st) NEW_BUCKET_COUNT = used_new_matrix_positions st"
    and "occupied (tried_matrix st) TRIED_BUCKET_COUNT = used_tried_matrix_positions st"
  using assms occupied_fset [OF book_range(1) [OF assms]] occupied_fset [OF book_range(2) [OF assms]]
  by (simp_all add: book_def used_ok_def flip: fset_inject)

definition with_used :: "slot fset \<Rightarrow> slot fset \<Rightarrow> Inner \<Rightarrow> Inner" where
  "with_used a b st = st\<lparr>used_new_matrix_positions := a, used_tried_matrix_positions := b\<rparr>"

lemma update_row_used: "update_row n f (with_used a b st) = with_used a b (update_row n f st)"
  by (simp add: update_row_def with_used_def split: option.split)

lemma fold_update_used:
  "fold (\<lambda>(k, n). update_row n (f k)) xs (with_used a b st)
    = with_used a b (fold (\<lambda>(k, n). update_row n (f k)) xs st)"
  by (induction xs arbitrary: st) (auto simp: update_row_used)

lemma reindex_used: "reindex (with_used a b st) = with_used a b (reindex st)"
  using fold_update_used [of "\<lambda>k r. r\<lparr>ep_random_pos := Some k\<rparr>" "enumerate 0 (random_pos st)" a b st]
  by (simp add: reindex_def with_used_def)

lemma fold_update_frame:
  "new_matrix (fold (\<lambda>(k, n). update_row n (f k)) xs st) = new_matrix st"
  "tried_matrix (fold (\<lambda>(k, n). update_row n (f k)) xs st) = tried_matrix st"
  "used_new_matrix_positions (fold (\<lambda>(k, n). update_row n (f k)) xs st) = used_new_matrix_positions st"
  "used_tried_matrix_positions (fold (\<lambda>(k, n). update_row n (f k)) xs st) = used_tried_matrix_positions st"
  by (induction xs arbitrary: st) (simp_all add: update_row_def case_prod_beta split: option.split)

lemma fold_fixed: "\<forall>x\<in>set xs. f x s = s \<Longrightarrow> fold f xs s = s"
  by (induction xs) auto

lemma reindex_ok:
  assumes "random_ok st"
  shows "reindex st = st"
  unfolding reindex_def
proof (rule fold_fixed, clarify)
  fix k n
  assume "(k, n) \<in> set (enumerate 0 (random_pos st))"
  then have k: "k < length (random_pos st)" "random_pos st ! k = n"
    by (auto simp: in_set_enumerate_eq)
  then obtain r where r: "fmlookup (map_info st) n = Some r"
    using assms nth_mem [OF k(1)] by (auto simp: random_ok_def)
  from random_okD [OF assms r] obtain k' where "ep_random_pos r = Some k'" "k' < length (random_pos st)"
    "random_pos st ! k' = n" .
  moreover have "distinct (random_pos st)"
    using assms by (simp add: random_ok_def)
  ultimately have "ep_random_pos r = Some k"
    using k nth_eq_iff_index_eq by metis
  then have "fmupd n (r\<lparr>ep_random_pos := Some k\<rparr>) (map_info st) = map_info st"
    using r by (intro fmap_ext) (auto intro: ExtendedPeerInfo.equality)
  then show "update_row n (\<lambda>r. r\<lparr>ep_random_pos := Some k\<rparr>) st = st"
    using r by (simp add: update_row_def)
qed

lemma rebuilt:
  assumes "book env X st"
  shows "rebuild_used_positions (reindex (with_used a b st)) = reindex st"
proof -
  have "rebuild_used_positions (reindex (with_used a b st))
      = with_used (occupied (new_matrix st) NEW_BUCKET_COUNT) (occupied (tried_matrix st) TRIED_BUCKET_COUNT)
          (reindex st)"
    unfolding reindex_used by (simp add: rebuild_used_positions_def with_used_def reindex_def fold_update_frame)
  also have "\<dots> = reindex st"
    unfolding book_used [OF assms] by (simp add: with_used_def reindex_def fold_update_frame [symmetric])
  finally show ?thesis .
qed

lemma frozen:
  assumes "to_address_manager_state st = Some s"
  defines "ids \<equiv> sorted_list_of_fset (fmdom (map_info st))"
  obtains tt nt rp tc where
    "snapshot_table ids (tried_matrix st) TRIED_BUCKET_COUNT = Some tt"
    "snapshot_table ids (new_matrix st) NEW_BUCKET_COUNT = Some nt"
    "map (index_of ids) (random_pos st) = map Some rp"
    "map (index_of ids) (tried_collisions st) = map Some tc"
    "s = \<lparr>snap_version = ADDRESS_MANAGER_STATE_VERSION, snap_key = am_key st, node_ids = ids,
          entries = map (\<lambda>i. the (fmlookup (map_info st) i)) ids,
          tried_table = tt, new_table = nt, snap_random_pos = rp, snap_last_good = last_good st,
          tried_collision_indices = tc, snap_allow_private_subnets = allow_private_subnets st,
          snap_id_count = id_count st, snap_tried_count = tried_count st,
          snap_new_count = new_count st\<rparr>"
  using assms by (auto simp: to_address_manager_state_def Let_def bind_eq_Some_conv those_eq_Some)

lemma thawed:
  assumes b: "book env X st" and a: "addr_ok st" and s: "to_address_manager_state st = Some s"
    and v: "validate_snapshot s = Inr ()"
  shows "from_address_manager_state s = Inr (reindex st)"
proof -
  define ids where "ids = sorted_list_of_fset (fmdom (map_info st))"
  obtain tt nt rp tc where
    f: "snapshot_table ids (tried_matrix st) TRIED_BUCKET_COUNT = Some tt"
      "snapshot_table ids (new_matrix st) NEW_BUCKET_COUNT = Some nt"
      "map (index_of ids) (random_pos st) = map Some rp"
      "map (index_of ids) (tried_collisions st) = map Some tc"
    and eq: "s = \<lparr>snap_version = ADDRESS_MANAGER_STATE_VERSION, snap_key = am_key st, node_ids = ids,
          entries = map (\<lambda>i. the (fmlookup (map_info st) i)) ids,
          tried_table = tt, new_table = nt, snap_random_pos = rp, snap_last_good = last_good st,
          tried_collision_indices = tc, snap_allow_private_subnets = allow_private_subnets st,
          snap_id_count = id_count st, snap_tried_count = tried_count st,
          snap_new_count = new_count st\<rparr>"
    using frozen [OF s] unfolding ids_def by metis
  have d: "distinct ids"
    by (simp add: ids_def sorted_list_of_fset.rep_eq)
  note tables = thaw_table [OF d f(1) book_range(2) [OF b]] thaw_table [OF d f(2) book_range(1) [OF b]]
  note lists = thaw_ids(1) [OF d f(3)] thaw_ids(1) [OF d f(4)]
  note rows = rows_of_snapshot [OF a, folded ids_def]
  have whole: "with_used {||} {||} st = \<lparr>am_key = am_key st, id_count = id_count st,
      tried_matrix = tried_matrix st, new_matrix = new_matrix st, tried_count = tried_count st,
      new_count = new_count st, map_addr = map_addr st, map_info = map_info st,
      random_pos = random_pos st, last_good = last_good st, tried_collisions = tried_collisions st,
      used_new_matrix_positions = {||}, used_tried_matrix_positions = {||},
      allow_private_subnets = allow_private_subnets st\<rparr>"
    by (simp add: with_used_def)
  show ?thesis
  proof (cases "ids = []")
    case False
    show ?thesis
      using False v rebuilt [OF b, of "{||}" "{||}", unfolded whole] tables lists rows
      by (simp add: from_address_manager_state_def eq Let_def restore_rows_def Inner_new_def)
  next
    case True
    have "set ids = fset (fmdom (map_info st))"
      by (simp add: ids_def)
    then have none: "map_info st = fmempty"
      using True by (intro fmap_ext) (simp add: fmdom_notD)
    then have m: "new_matrix st = (\<lambda>_. EMPTY)" "tried_matrix st = (\<lambda>_. EMPTY)"
      using book_cells [OF b] by fastforce+
    have "map_addr st = fmempty"
      using rows True by simp
    moreover have "random_pos st = []" "tried_collisions st = []"
      using f(3,4) True by (cases rp; cases "random_pos st"; auto simp: index_of_def)
        (use f(3,4) True in \<open>cases tc; cases "tried_collisions st"; auto simp: index_of_def\<close>)
    ultimately show ?thesis
      using True v none m rebuilt [OF b, of "{||}" "{||}", unfolded whole]
      by (simp add: from_address_manager_state_def eq Let_def Inner_new_def reindex_def)
  qed
qed

section \<open>The host index is kept\<close>

text \<open>What an operation does to the two host views: nothing, or it forgets one row in both.\<close>

definition hosts :: "Inner \<Rightarrow> (bytes, node_id) fmap \<times> (node_id \<Rightarrow> bytes option)" where
  "hosts st = (map_addr st, \<lambda>n. map_option (\<lambda>r. pi_host (peer_info r)) (fmlookup (map_info st) n))"

definition drops :: "Inner \<Rightarrow> Inner \<Rightarrow> bool" where
  "drops st st' \<longleftrightarrow> hosts st' = hosts st
     \<or> (\<exists>d h. snd (hosts st) d = Some h
          \<and> hosts st' = (fmdrop h (fst (hosts st)), (snd (hosts st))(d := None)))"

lemma addr_ok_hosts:
  "addr_ok st \<longleftrightarrow> (\<forall>h n. fmlookup (fst (hosts st)) h = Some n \<longleftrightarrow> snd (hosts st) n = Some h)"
  by (auto simp: addr_ok_def hosts_def)

lemma drops_addr_ok:
  assumes "drops st st'" "addr_ok st"
  shows "addr_ok st'"
proof -
  note ok = assms(2) [unfolded addr_ok_hosts, rule_format]
  from assms(1) consider "hosts st' = hosts st" | d h where "snd (hosts st) d = Some h"
      "hosts st' = (fmdrop h (fst (hosts st)), (snd (hosts st))(d := None))"
    unfolding drops_def by blast
  then show ?thesis
  proof cases
    case 2
    have "fmlookup (fst (hosts st')) x = Some n \<longleftrightarrow> snd (hosts st') n = Some x" for x n
      using 2(1) ok [of x n] ok [of h d] ok [of h n] ok [of x d] unfolding 2(2) by auto
    then show ?thesis
      unfolding addr_ok_hosts by blast
  qed (use assms(2) in \<open>simp add: addr_ok_hosts\<close>)
qed

lemma drops_keep [simp]: "hosts st' = hosts st \<Longrightarrow> drops st st'"
  by (simp add: drops_def)

lemma drops_cong: "drops st st' \<Longrightarrow> hosts s = hosts st \<Longrightarrow> hosts s' = hosts st' \<Longrightarrow> drops s s'"
  by (simp add: drops_def)

lemma hosts_fields [simp]:
  "hosts (st\<lparr>new_count := a\<rparr>) = hosts st" "hosts (st\<lparr>tried_count := b\<rparr>) = hosts st"
  "hosts (st\<lparr>random_pos := c\<rparr>) = hosts st" "hosts (st\<lparr>last_good := e\<rparr>) = hosts st"
  "hosts (st\<lparr>allow_private_subnets := g\<rparr>) = hosts st" "hosts (st\<lparr>tried_collisions := f\<rparr>) = hosts st"
  "hosts (set_new_matrix pos x st) = hosts st" "hosts (set_tried_matrix pos x st) = hosts st"
  by (simp_all add: hosts_def set_new_matrix_def set_tried_matrix_def)

lemma hosts_update_row [simp]:
  "(\<And>r. pi_host (peer_info (f r)) = pi_host (peer_info r)) \<Longrightarrow> hosts (update_row n f st) = hosts st"
  by (auto simp: hosts_def update_row_def fun_eq_iff split: option.split)

lemma hosts_upd:
  "fmlookup (map_info st) n = Some r \<Longrightarrow> pi_host (peer_info r') = pi_host (peer_info r) \<Longrightarrow>
    hosts (st\<lparr>map_info := fmupd n r' (map_info st)\<rparr>) = hosts st"
  by (auto simp: hosts_def fun_eq_iff)

lemma hosts_swap: "swap_random a b st = Some st' \<Longrightarrow> hosts st' = hosts st"
  by (auto simp: swap_random_def Let_def split: if_splits)

lemma hosts_row: "fmlookup (map_info st) n = Some r \<Longrightarrow> snd (hosts st) n = Some (pi_host (peer_info r))"
  by (simp add: hosts_def)

lemma delete_drops:
  assumes "delete_new_entry n st = Some st'"
  shows "drops st st'"
proof (cases "hosts st' = hosts st")
  case False
  then obtain r rp st1 where r: "fmlookup (map_info st) n = Some r"
    and sw: "swap_random rp (length (random_pos st) - 1) st = Some st1"
    and st': "map_addr st' = fmdrop (pi_host (peer_info r)) (map_addr st1)" "map_info st' = fmdrop n (map_info st1)"
    using assms by (auto simp: delete_new_entry_def split: option.splits if_splits)
  note h = hosts_swap [OF sw]
  have "hosts st' = (fmdrop (pi_host (peer_info r)) (fst (hosts st1)), (snd (hosts st1))(n := None))"
    using st' by (auto simp: hosts_def fun_eq_iff)
  then show ?thesis
    using hosts_row [OF r] h by (auto simp: drops_def)
qed simp

lemma clear_new_drops:
  assumes "clear_new pos st = Some st'"
  shows "drops st st'"
proof (cases "new_matrix st pos = EMPTY")
  case False
  let ?st = "set_new_matrix pos EMPTY
    (update_row (new_matrix st pos) (\<lambda>i. i\<lparr>ref_count := dec32 (ref_count i)\<rparr>) st)"
  have "st' = ?st \<or> delete_new_entry (new_matrix st pos) ?st = Some st'"
    using assms False by (auto simp: clear_new_def Let_def split: option.splits if_splits)
  then show ?thesis
    using delete_drops [of "new_matrix st pos" ?st st'] by (auto intro: drops_cong)
qed (use assms in \<open>simp add: clear_new_def\<close>)

lemma clear_refs_hosts: "clear_refs env n bs st = Some st' \<Longrightarrow> hosts st' = hosts st"
proof (induction bs arbitrary: st)
  case (Cons b bs)
  then obtain st1 where st1: "clear_ref env n b st = Some st1" "clear_refs env n bs st1 = Some st'"
    by (auto simp: bind_eq_Some_conv)
  have "hosts st1 = hosts st"
    using st1(1) by (auto simp: clear_ref_def Let_def bind_eq_Some_conv split: if_splits)
  then show ?case
    using Cons.IH [OF st1(2)] by simp
qed simp

lemma evict_drops:
  assumes "evict_tried env cur st = Some st'"
  shows "drops st st'"
proof (cases "tried_matrix st cur = EMPTY")
  case False
  let ?e = "tried_matrix st cur"
  obtain r where r: "fmlookup (map_info st) ?e = Some r"
    using assms False by (auto simp: evict_tried_def Let_def bind_eq_Some_conv)
  let ?st = "st\<lparr>map_info := fmdrop ?e (map_info st)\<rparr>"
  let ?st2 = "set_tried_matrix cur EMPTY ?st\<lparr>tried_count := dec32 (tried_count (set_tried_matrix cur EMPTY ?st))\<rparr>"
  obtain st3 where c: "clear_new (new_slot env (am_key st) (peer_info r) (ep_src r)) ?st2 = Some st3"
    and addr: "map_addr st' = map_addr st3"
    and info: "\<exists>r'. map_info st' = fmupd ?e r' (map_info st3) \<and> peer_info r' = peer_info r"
    using assms False r by (fastforce simp: evict_tried_def Let_def bind_eq_Some_conv set_new_matrix_def)
  have base: "hosts ?st2 = (map_addr st, (snd (hosts st))(?e := None))"
    by (auto simp: hosts_def set_tried_matrix_def fun_eq_iff)
  have put_back: "hosts st' = (fst (hosts st3), (snd (hosts st3))(?e := Some (pi_host (peer_info r))))"
    using addr info by (auto simp: hosts_def fun_eq_iff)
  have same: "(snd (hosts st))(?e := Some (pi_host (peer_info r))) = snd (hosts st)"
    using hosts_row [OF r] by auto
  have fst: "fst (hosts st) = map_addr st"
    by (simp add: hosts_def)
  from clear_new_drops [OF c] consider "hosts st3 = hosts ?st2"
    | d h where "snd (hosts ?st2) d = Some h" and
        "hosts st3 = (fmdrop h (fst (hosts ?st2)), (snd (hosts ?st2))(d := None))"
    unfolding drops_def by blast
  then show ?thesis
  proof cases
    case 1
    then have "hosts st' = hosts st"
      using same fst unfolding put_back base by (simp add: prod_eq_iff)
    then show ?thesis
      by simp
  next
    case 2
    then have "d \<noteq> ?e" "snd (hosts st) d = Some h"
      unfolding base by (auto split: if_splits)
    moreover have "hosts st' = (fmdrop h (fst (hosts st)), (snd (hosts st))(d := None))"
      using \<open>d \<noteq> ?e\<close> hosts_row [OF r] unfolding put_back 2(2) base fst by (auto simp: fun_eq_iff)
    ultimately show ?thesis
      unfolding drops_def by blast
  qed
qed (use assms in \<open>simp add: evict_tried_def\<close>)

lemma make_tried_drops:
  assumes "make_tried env n st = Some st'"
  shows "drops st st'"
proof -
  obtain st1 where c: "clear_refs env n [0..<NEW_BUCKET_COUNT] st = Some st1"
    using assms by (auto simp: make_tried_def bind_eq_Some_conv)
  let ?st2 = "st1\<lparr>new_count := new_count st1 - 1\<rparr>"
  obtain info where info: "fmlookup (map_info st1) n = Some info"
    using assms c by (auto simp: make_tried_def Let_def bind_eq_Some_conv)
  obtain st3 where e: "evict_tried env (tried_slot env (am_key st1) (peer_info info)) ?st2 = Some st3"
    using assms c info by (auto simp: make_tried_def Let_def bind_eq_Some_conv)
  have "hosts st' = hosts st3"
    using assms c info e by (auto simp: make_tried_def Let_def)
  then show ?thesis
    using evict_drops [OF e] clear_refs_hosts [OF c] by (auto intro: drops_cong)
qed

lemma touched_hosts: "am_find st p = (Some n, Some r) \<Longrightarrow> hosts (touched n r ts st) = hosts st"
  unfolding touched_def by (simp add: hosts_def fun_eq_iff am_find_SomeD)

lemma mark_good_drops:
  assumes m: "mark_good_inner env br addr tbe ts st = Some st'"
  shows "drops st st'"
proof (cases "\<exists>n r. am_find st addr = (Some n, Some r)")
  case False
  then have "hosts st' = hosts st"
    using m by (auto simp: mark_good_eq split: option.splits prod.splits)
  then show ?thesis
    by simp
next
  case True
  then obtain n r where f: "am_find st addr = (Some n, Some r)"
    by blast
  note t = touched_hosts [OF f, of ts]
  have "hosts st' = hosts (touched n r ts st) \<or> hosts st' = hosts st
      \<or> make_tried env n (touched n r ts st) = Some st'"
    using m by (auto simp: mark_good_eq f split: if_splits)
  then show ?thesis
    using make_tried_drops [of env n "touched n r ts st" st'] t by (auto intro: drops_cong)
qed

lemma place_new_drops:
  assumes "place_new env now source n st = Some st'"
  shows "drops st st'"
proof -
  obtain info where info: "fmlookup (map_info st) n = Some info"
    using assms by (auto simp: place_new_def bind_eq_Some_conv)
  let ?pos = "new_slot env (am_key st) (peer_info info) source"
  show ?thesis
  proof (cases "st' = st \<or> delete_new_entry n st = Some st'")
    case False
    then obtain st1 where c: "clear_new ?pos st = Some st1"
      using assms info by (auto simp: place_new_def Let_def bind_eq_Some_conv split: if_splits)
    with False obtain row where row: "fmlookup (map_info st1) n = Some row"
      using assms info by (auto simp: place_new_def Let_def bind_eq_Some_conv split: if_splits)
    have "hosts st' = hosts (st1\<lparr>map_info := fmupd n (row\<lparr>ref_count := inc32 (ref_count row)\<rparr>) (map_info st1)\<rparr>)"
      using assms info c row False by (auto simp: place_new_def Let_def bind_eq_Some_conv split: if_splits)
    then have "hosts st' = hosts st1"
      by (simp add: hosts_upd [OF row])
    then show ?thesis
      using clear_new_drops [OF c] by (auto intro: drops_cong)
  qed (auto intro: delete_drops)
qed

lemma create_row_addr:
  assumes "create_row addr src st = (n, st')" "book env {} st" "Suc (unat (id_count st)) < u32_max"
    and "addr_ok st" "fmlookup (map_addr st) (ts_host addr) = None"
  shows "addr_ok st'"
proof -
  have m1: "id_count st \<noteq> - 1"
    using assms(3) by (auto simp: u32_max_def unsigned_minus_1_eq_mask mask_eq_exp_minus_1)
  then have addr: "map_addr st' = fmupd (ts_host addr) n (map_addr st)"
    and "\<exists>r. map_info st' = fmupd n r (map_info st) \<and> pi_host (peer_info r) = ts_host addr"
    using assms(1) by (auto simp: create_row_def Let_def peer_row_from_ts_def)
  then obtain r where r: "map_info st' = fmupd n r (map_info st)" "pi_host (peer_info r) = ts_host addr"
    by blast
  have none: "fmlookup (map_info st) n = None"
    using create_row_book(2) [OF assms(1-3)] by (simp add: view_None_iff)
  note ok = assms(4) [unfolded addr_ok_def, rule_format]
  have other: "pi_host (peer_info r') \<noteq> ts_host addr" if "fmlookup (map_info st) i = Some r'" for i r'
    using ok [of "ts_host addr" i] assms(5) that by auto
  show ?thesis
    unfolding addr_ok_def addr r(1) using ok none assms(5) r(2) other by (auto split: if_splits)
qed

lemma add_inner_addr:
  assumes a: "add_to_new_table_inner env now now2 draw addr source pen st = Some (x, st')"
    and b: "book env {} st" and ok: "addr_ok st" and i: "Suc (unat (id_count st)) < u32_max"
  shows "addr_ok st'"
proof -
  define p where "p = \<lparr>pi_host = ts_host addr, pi_port = ts_port addr\<rparr>"
  consider "host_is_private env (pi_host p) \<and> \<not> allow_private_subnets st"
    | n r where "\<not> (host_is_private env (pi_host p) \<and> \<not> allow_private_subnets st)" "am_find st p = (Some n, Some r)"
    | "\<not> (host_is_private env (pi_host p) \<and> \<not> allow_private_subnets st)" "\<nexists>n r. am_find st p = (Some n, Some r)"
    by blast
  then show ?thesis
  proof cases
    case 1
    then show ?thesis
      using a ok by (simp add: add_to_new_table_inner_def Let_def flip: p_def)
  next
    case 2
    define r' where "r' = refresh_row addr (if peer_info r = p then 0 else pen) now r"
    define s where "s = st\<lparr>map_info := fmupd n r' (map_info st)\<rparr>"
    have "hosts s = hosts st"
      unfolding s_def r'_def
      by (rule hosts_upd [OF am_find_SomeD [OF 2(2)]]) (simp add: refresh_row_def Let_def)
    moreover have "st' = s \<or> place_new env now2 source n s = Some st'"
      using a 2 unfolding s_def r'_def
      by (auto simp: add_to_new_table_inner_def Let_def simp flip: p_def split: if_splits)
    ultimately have "drops st st'"
      using place_new_drops [of env now2 source n s st'] by (auto intro: drops_cong)
    then show ?thesis
      using ok by (rule drops_addr_ok)
  next
    case 3
    have fresh: "fmlookup (map_addr st) (ts_host addr) = None"
      using 3(2) ok by (auto simp: am_find_def p_def addr_ok_def split: option.splits)
    obtain n st1 where c: "create_row addr source st = (n, st1)"
      by fastforce
    let ?s = "update_row n (\<lambda>i. i\<lparr>ep_timestamp := ts_timestamp addr - pen\<rparr>) st1"
    have "am_find st p = (None, None)"
      using fresh by (simp add: am_find_def p_def)
    then have "place_new env now2 source n (?s\<lparr>new_count := inc32 (new_count ?s)\<rparr>) = Some st'"
      using a 3(1) by (auto simp: add_to_new_table_inner_def Let_def c simp flip: p_def)
    from place_new_drops [OF this] have "drops st1 st'"
      by (rule drops_cong) simp_all
    then show ?thesis
      using create_row_addr [OF c b i ok fresh] by (rule drops_addr_ok)
  qed
qed

lemma dial_hosts:
  "hosts (attempt_inner addr cf ts st) = hosts st" "hosts (connect_inner addr ts st) = hosts st"
  unfolding attempt_inner_def connect_inner_def Let_def
  by (auto split: option.split prod.split dest!: am_find_SomeD simp: hosts_upd)

lemma resolve_drops:
  assumes "resolve_one env now br n st = Some (x, st')"
  shows "drops st st'"
  using assms mark_good_drops [of env br _ False now st st']
  by (auto simp: resolve_one_def Let_def split: option.splits if_splits)

lemma resolve_pending_addr:
  "resolve_pending env now ps st = Some st' \<Longrightarrow> addr_ok st \<Longrightarrow> addr_ok st'"
proof (induction env now ps st arbitrary: st' rule: resolve_pending.induct)
  case (2 env now n br ps st)
  then obtain x st1 where st1: "resolve_one env now br n st = Some (x, st1)"
    and rest: "resolve_pending env now ps
      (if x then st1\<lparr>tried_collisions := filter (\<lambda>x. x \<noteq> n) (tried_collisions st1)\<rparr> else st1) = Some st'"
    by (auto simp: bind_eq_Some_conv)
  have "addr_ok st1"
    using resolve_drops [OF st1] 2(3) by (rule drops_addr_ok)
  then have "addr_ok (if x then st1\<lparr>tried_collisions := filter (\<lambda>x. x \<noteq> n) (tried_collisions st1)\<rparr> else st1)"
    by (simp add: addr_ok_def)
  then show ?case
    using "2.IH" [OF st1 refl] rest by blast
qed simp

lemma add_list_addr:
  "add_to_new_table env ts src pen st = Some st' \<Longrightarrow> book env {} st \<Longrightarrow> addr_ok st \<Longrightarrow>
    unat (id_count st) + length ts < u32_max \<Longrightarrow> addr_ok st'"
proof (induction ts arbitrary: st)
  case (Cons t ts)
  obtain addr now now2 draw where t: "t = (addr, now, now2, draw)" by (cases t)
  obtain u st1 where s1: "add_to_new_table_inner env now now2 draw addr src pen st = Some (u, st1)"
    and s2: "add_to_new_table env ts src pen st1 = Some st'"
    using Cons.prems(1) by (auto simp: t bind_eq_Some_conv)
  have i: "Suc (unat (id_count st)) < u32_max"
    using Cons.prems(4) by simp
  have "book env {} st1 \<and> tried_collisions st1 = tried_collisions st \<and> unat (id_count st1) \<le> Suc (unat (id_count st))"
    using Cons.prems(2) i by (intro add_inner_book [OF s1]) auto
  moreover have "addr_ok st1"
    using add_inner_addr [OF s1 Cons.prems(2,3) i] .
  ultimately show ?case
    using Cons.IH [OF s2] Cons.prems(4) by auto
qed simp

lemma run_op_addr:
  assumes "run_op env x st = Some st'" "book env {} st" "addr_ok st" "unat (id_count st) + announced x < u32_max"
  shows "addr_ok st'"
proof (cases x)
  case (AddToNewTable ts src pen)
  then show ?thesis using assms add_list_addr by simp
next
  case (MarkGood br addr tbe ts)
  then show ?thesis using assms drops_addr_ok [OF mark_good_drops] by simp
next
  case (ResolveTriedCollisions now rands)
  then show ?thesis
    using assms resolve_pending_addr by (simp add: resolve_tried_collisions_inner_def Let_def)
qed (use assms in \<open>auto simp: addr_ok_hosts dial_hosts select_tried_collision_inner_def Let_def
       set_allow_private_subnets_def\<close>)

lemma run_ops_addr:
  "run_ops env xs st = Some st' \<Longrightarrow> book env {} st \<Longrightarrow> collisions_ok st \<Longrightarrow> addr_ok st \<Longrightarrow>
    unat (id_count st) + (\<Sum>x\<leftarrow>xs. announced x) < u32_max \<Longrightarrow> addr_ok st'"
proof (induction xs arbitrary: st)
  case (Cons x xs)
  then obtain st1 where s1: "run_op env x st = Some st1" and s2: "run_ops env xs st1 = Some st'"
    by (auto simp: bind_eq_Some_conv)
  have i: "unat (id_count st) + announced x < u32_max"
    using Cons.prems(5) by simp
  show ?case
    using Cons.IH [OF s2] run_op_book [OF s1 Cons.prems(2,3) i] run_op_addr [OF s1 Cons.prems(2,4) i]
      Cons.prems(5) by simp
qed simp

lemma addr_ok_new: "addr_ok (Inner_new key)"
  by (simp add: addr_ok_def Inner_new_def)

section \<open>When a snapshot exists\<close>

lemma snapshot_table_total:
  assumes "\<And>pos. snapshot_cell ids m pos \<noteq> None"
  shows "snapshot_table ids m k \<noteq> None"
  using assms by (simp add: snapshot_table_def those_eq_None image_iff eq_commute [of None])

lemma frozen_iff:
  assumes "book env X st"
  shows "to_address_manager_state st = None \<longleftrightarrow>
    (\<exists>i\<in>set (random_pos st) \<union> set (tried_collisions st). fmlookup (map_info st) i = None)"
proof -
  let ?ids = "sorted_list_of_fset (fmdom (map_info st))"
  have idx: "index_of ?ids i = None \<longleftrightarrow> fmlookup (map_info st) i = None" for i
    by (simp add: index_of_None) (meson fmdom_notD fmdom_notI)
  have cell: "snapshot_cell ?ids m pos \<noteq> None"
    if "m pos \<noteq> EMPTY \<Longrightarrow> fmlookup (map_info st) (m pos) \<noteq> None" for m pos
    using idx [of "m pos"] that by (auto simp: snapshot_cell_def)
  have c: "snapshot_cell ?ids (new_matrix st) pos \<noteq> None" "snapshot_cell ?ids (tried_matrix st) pos \<noteq> None" for pos
    using book_cells [OF assms, of pos] by (intro cell; fastforce)+
  note snapshot_table_total [OF c(1)] snapshot_table_total [OF c(2)]
  then obtain tt nt where "snapshot_table ?ids (tried_matrix st) TRIED_BUCKET_COUNT = Some tt"
    "snapshot_table ?ids (new_matrix st) NEW_BUCKET_COUNT = Some nt"
    by fast
  moreover have "those (map (index_of ?ids) xs) = None \<longleftrightarrow> (\<exists>i\<in>set xs. fmlookup (map_info st) i = None)" for xs
    by (simp add: those_eq_None image_iff eq_commute [of None] idx)
  ultimately show ?thesis
    by (auto simp: to_address_manager_state_def Let_def bind_eq_None_conv)
qed

lemma check_rows_ok:
  "\<forall>row\<in>set t. length row = BUCKET_SIZE \<and> (\<forall>c\<in>set row. \<not> out_of_range n c) \<Longrightarrow> check_rows kind n t = None"
  by (induction t) (auto simp: list_ex_iff)

lemma frozen_table_ok:
  assumes "snapshot_table ids m buckets = Some t" "distinct ids"
  shows "check_table kind buckets (length ids) t = None"
proof -
  have rows: "map (\<lambda>b. those (map (\<lambda>p. snapshot_cell ids m (b, p)) [0..<BUCKET_SIZE])) [0..<buckets] = map Some t"
    using assms(1) by (simp add: snapshot_table_def those_eq_Some)
  then have "length t = buckets"
    by (metis length_map length_upt diff_zero)
  moreover have "length row = BUCKET_SIZE \<and> (\<forall>c\<in>set row. \<not> out_of_range (length ids) c)" if "row \<in> set t" for row
  proof -
    have "Some row \<in> set (map (\<lambda>b. those (map (\<lambda>p. snapshot_cell ids m (b, p)) [0..<BUCKET_SIZE])) [0..<buckets])"
      unfolding rows using that by simp
    then obtain b where row: "map (\<lambda>p. snapshot_cell ids m (b, p)) [0..<BUCKET_SIZE] = map Some row"
      using those_eq_Some by (metis (no_types, lifting) imageE set_map)
    then have "length row = BUCKET_SIZE"
      by (metis length_map length_upt diff_zero)
    moreover have "\<not> out_of_range (length ids) c" if "c \<in> set row" for c
    proof -
      have "Some c \<in> set (map (\<lambda>p. snapshot_cell ids m (b, p)) [0..<BUCKET_SIZE])"
        unfolding row using that by simp
      then obtain p where "snapshot_cell ids m (b, p) = Some c"
        by auto
      then show ?thesis
        by (auto simp: snapshot_cell_def out_of_range_def index_of_iff [OF assms(2)] split: if_splits)
    qed
    ultimately show ?thesis
      by blast
  qed
  ultimately show ?thesis
    using check_rows_ok by (simp add: check_table_def)
qed

lemma frozen_valid:
  assumes "to_address_manager_state st = Some s" "map_info st \<noteq> fmempty"
  shows "validate_snapshot s = Inr ()"
proof -
  define ids where "ids = sorted_list_of_fset (fmdom (map_info st))"
  have d: "distinct ids" and set: "set ids = fset (fmdom (map_info st))"
    by (simp_all add: ids_def sorted_list_of_fset.rep_eq)
  obtain i r where "fmlookup (map_info st) i = Some r"
    using assms(2) by (metis fmap_ext fmempty_lookup not_None_eq)
  then have ne: "ids \<noteq> []"
    using set fmdomI by force
  obtain tt nt rp tc where
    f: "snapshot_table ids (tried_matrix st) TRIED_BUCKET_COUNT = Some tt"
      "snapshot_table ids (new_matrix st) NEW_BUCKET_COUNT = Some nt"
      "map (index_of ids) (random_pos st) = map Some rp"
      "map (index_of ids) (tried_collisions st) = map Some tc"
    and eq: "s = \<lparr>snap_version = ADDRESS_MANAGER_STATE_VERSION, snap_key = am_key st, node_ids = ids,
          entries = map (\<lambda>i. the (fmlookup (map_info st) i)) ids,
          tried_table = tt, new_table = nt, snap_random_pos = rp, snap_last_good = last_good st,
          tried_collision_indices = tc, snap_allow_private_subnets = allow_private_subnets st,
          snap_id_count = id_count st, snap_tried_count = tried_count st,
          snap_new_count = new_count st\<rparr>"
    using frozen [OF assms(1)] unfolding ids_def by metis
  show ?thesis
    using frozen_table_ok [OF f(1) d] frozen_table_ok [OF f(2) d] thaw_ids(2) [OF d f(3)]
      thaw_ids(2) [OF d f(4)] ne
    by (simp add: validate_snapshot_def eq Let_def list_ex_iff not_le)
qed

section \<open>Saving and loading\<close>

text \<open>A manager up to the positions its rows claim in the random order.\<close>

definition forget_index :: "Inner \<Rightarrow> Inner" where
  "forget_index st = st\<lparr>map_info := fmmap (\<lambda>r. r\<lparr>ep_random_pos := None\<rparr>) (map_info st)\<rparr>"

lemma forget_update: "forget_index (update_row n (\<lambda>r. r\<lparr>ep_random_pos := Some k\<rparr>) st) = forget_index st"
proof (cases "fmlookup (map_info st) n")
  case (Some r)
  then have "fmmap (\<lambda>r. r\<lparr>ep_random_pos := None\<rparr>) (fmupd n (r\<lparr>ep_random_pos := Some k\<rparr>) (map_info st))
      = fmmap (\<lambda>r. r\<lparr>ep_random_pos := None\<rparr>) (map_info st)"
    by (intro fmap_ext) auto
  then show ?thesis
    using Some by (simp add: forget_index_def update_row_def)
qed (simp add: forget_index_def update_row_def)

lemma forget_reindex: "forget_index (reindex st) = forget_index st"
proof -
  have "forget_index (fold (\<lambda>(k, n). update_row n (\<lambda>r. r\<lparr>ep_random_pos := Some k\<rparr>)) xs s) = forget_index s" for xs s
    by (induction xs arbitrary: s) (auto simp: forget_update)
  then show ?thesis
    by (simp add: reindex_def)
qed

lemma save_ops_eq:
  assumes "save_ops env s path = Inr xs"
  shows "validate_snapshot s = Inr ()"
    "\<exists>d. xs = [CreateDirAll d, WriteSnapshot (with_extension_tmp path) s, RemoveIfExists path,
          Rename (with_extension_tmp path) path]"
  using assms by (auto simp: save_ops_def split: sum.splits option.splits if_splits)

lemma saved_file:
  assumes "save_sync env s path fs = (None, fs')" "with_extension_tmp path \<noteq> path"
  shows "\<exists>bs. serialize env s = Some bs \<and> fmlookup fs' path = Some bs" "validate_snapshot s = Inr ()"
proof -
  obtain xs where xs: "save_ops env s path = Inr xs" "fs_run env xs fs = (None, fs')"
    using assms(1) by (auto simp: save_sync_def split: sum.splits)
  then show "\<exists>bs. serialize env s = Some bs \<and> fmlookup fs' path = Some bs"
    using save_ops_eq(2) [OF xs(1)] assms(2)
    by (auto split: if_splits option.splits)
  show "validate_snapshot s = Inr ()"
    by (rule save_ops_eq(1) [OF xs(1)])
qed

text \<open>
  C7: a saved address book comes back. After any run of a fresh manager, a save that reports success
  and a later start from the same file give a manager with the same key, tables, rows, host index,
  random order, pending collisions and counters; only the position each row claims in the random
  order is recomputed, and where those positions were right the manager is the same in every
  field. It rests on bincode reading back what it wrote, to at least one byte.
\<close>

theorem saved_book_reloads:
  assumes run: "run_ops env ops (Inner_new key) = Some st"
    and few: "(\<Sum>x\<leftarrow>ops. announced x) < u32_max"
    and save: "am_save senv path st fs = Some (None, fs')" "path \<noteq> []"
    and law: "\<And>s bs. serialize senv s = Some bs \<Longrightarrow> deserialize senv bs = Some s \<and> bs \<noteq> []"
    and path: "with_extension_tmp path \<noteq> path" "\<not> read_fails senv path"
  shows "\<exists>st'. am_create senv fresh path fs' = Inr st' \<and> forget_index st' = forget_index st
    \<and> (random_ok st \<longrightarrow> st' = st)"
proof -
  have b: "book env {} st" and a: "addr_ok st"
    using run_ops_book [OF run] run_ops_addr [OF run] book_new [of env key] addr_ok_new few by auto
  obtain s where s: "to_address_manager_state st = Some s" "save_sync senv s path fs = (None, fs')"
    using save by (auto simp: am_save_def)
  obtain bs where bs: "serialize senv s = Some bs" "fmlookup fs' path = Some bs"
    and v: "validate_snapshot s = Inr ()"
    using saved_file [OF s(2) path(1)] by blast
  have "am_create senv fresh path fs' = from_address_manager_state s"
    using law [OF bs(1)] bs(2) path(2) save(2) v by (simp add: am_create_def load_sync_def)
  also have "\<dots> = Inr (reindex st)"
    by (rule thawed [OF b a s(1) v])
  finally show ?thesis
    using forget_reindex reindex_ok by auto
qed

text \<open>A codec that knows one snapshot, and an address book of one peer.\<close>

definition one_codec :: "AddressManagerState \<Rightarrow> store_env" where
  "one_codec s0 =
     \<lparr>serialize = (\<lambda>s. if s = s0 then Some [1] else None),
      deserialize = (\<lambda>bs. if bs = [1] then Some s0 else None),
      io_fails = (\<lambda>_. False), read_fails = (\<lambda>_. False)\<rparr>"

definition peers_path :: path where
  "peers_path = [[100], [112, 46, 100]]"

lemma peers_path_tmp: "with_extension_tmp peers_path = [[100], [112, 46, 116, 109, 112]]"
  by (simp add: with_extension_tmp_def peers_path_def file_stem_def ascii_def of_char_def Let_def)

lemma peers_path_parent: "path_parent peers_path = Some [[100]]" "peers_path \<noteq> []"
  by (simp_all add: path_parent_def peers_path_def)

lemma one_codec_saves:
  assumes "to_address_manager_state st = Some s" "map_info st \<noteq> fmempty"
  shows "\<exists>fs'. am_save (one_codec s) peers_path st fmempty = Some (None, fs')"
  using frozen_valid [OF assms] assms(1)
  by (simp add: am_save_def save_sync_def save_ops_def peers_path_tmp path_parent_def one_codec_def)
    (simp add: peers_path_def)

lemma one_peer_entry:
  "\<exists>st. run_ops flat_env one_peer (Inner_new []) = Some st \<and> fmlookup (map_info st) 1 \<noteq> None
      \<and> tried_collisions st = []"
  by (simp add: one_peer_def Inner_new_def am_eval connect_inner_def)

lemma one_peer_few: "(\<Sum>x\<leftarrow>one_peer. announced x) < u32_max"
  by (simp add: one_peer_def u32_max_def)

lemma one_peer_frozen:
  obtains st s where "run_ops flat_env one_peer (Inner_new []) = Some st" "random_ok st"
    "map_info st \<noteq> fmempty" "to_address_manager_state st = Some s"
proof -
  obtain st where run: "run_ops flat_env one_peer (Inner_new []) = Some st"
    and row: "fmlookup (map_info st) 1 \<noteq> None" and none: "tried_collisions st = []"
    using one_peer_entry by blast
  have "random_ok (Inner_new [])"
    by (simp add: random_ok_def Inner_new_def)
  then have ok: "book flat_env {} st" "random_ok st"
    using run_ops_book [OF run] run_ops_total [of one_peer flat_env "Inner_new []"]
      book_new [of flat_env "[]"] run one_peer_few by (auto simp: one_peer_def)
  then obtain s where "to_address_manager_state st = Some s"
    using frozen_iff [OF ok(1)] none by (auto simp: random_ok_def)
  moreover have "map_info st \<noteq> fmempty"
    using row by auto
  ultimately show ?thesis
    using that run ok by blast
qed

theorem saved_book_reloads_witness:
  "\<exists>st s fs'. run_ops flat_env one_peer (Inner_new []) = Some st
    \<and> am_save (one_codec s) peers_path st fmempty = Some (None, fs')
    \<and> am_create (one_codec s) [] peers_path fs' = Inr st"
proof -
  obtain st s where run: "run_ops flat_env one_peer (Inner_new []) = Some st" and ok: "random_ok st"
    and ne: "map_info st \<noteq> fmempty" and s: "to_address_manager_state st = Some s"
    by (rule one_peer_frozen)
  obtain fs' where fs': "am_save (one_codec s) peers_path st fmempty = Some (None, fs')"
    using one_codec_saves [OF s ne] by blast
  have path: "with_extension_tmp peers_path \<noteq> peers_path" "peers_path \<noteq> []"
    by (simp only: peers_path_tmp) (simp_all add: peers_path_def)
  have "\<exists>st'. am_create (one_codec s) [] peers_path fs' = Inr st' \<and> forget_index st' = forget_index st
      \<and> (random_ok st \<longrightarrow> st' = st)"
    by (rule saved_book_reloads [OF run one_peer_few fs' path(2) _ path(1)])
      (auto simp: one_codec_def split: if_splits)
  then show ?thesis
    using run fs' ok by blast
qed

text \<open>
  An interrupted save. However many of its file steps a save has made, with or without failures,
  the peers file holds its old content, the whole new content, or does not exist: never half a
  snapshot. The third case is real: the old file is removed before the new one is renamed into
  place, so a crash between the two steps leaves no file, and the next start makes an empty
  manager with a new key.
\<close>

theorem interrupted_save:
  assumes xs: "save_ops env s path = Inr xs" and path: "with_extension_tmp path \<noteq> path"
  shows "fmlookup (snd (fs_run env (take k xs) fs)) path \<in> {fmlookup fs path, None, serialize env s}
    \<and> (serialize env s \<noteq> None \<and> (\<forall>x. \<not> io_fails env x) \<longrightarrow>
        am_create env fresh path (snd (fs_run env (take 3 xs) fs)) = Inr (Inner_new fresh))"
proof -
  obtain d where eq: "xs = [CreateDirAll d, WriteSnapshot (with_extension_tmp path) s, RemoveIfExists path,
          Rename (with_extension_tmp path) path]"
    using save_ops_eq(2) [OF xs] by blast
  consider "k = 0" | "k = 1" | "k = 2" | "k = 3" | "4 \<le> k"
    by linarith
  then have "fmlookup (snd (fs_run env (take k xs) fs)) path \<in> {fmlookup fs path, None, serialize env s}"
    by cases (use path in \<open>auto simp: eq numeral_eq_Suc split: option.split\<close>)
  moreover have "am_create env fresh path (snd (fs_run env (take 3 xs) fs)) = Inr (Inner_new fresh)"
    if "serialize env s \<noteq> None" "\<forall>x. \<not> io_fails env x"
    using that path by (auto simp: eq numeral_eq_Suc am_create_def split: option.split)
  ultimately show ?thesis
    by blast
qed

theorem interrupted_save_witness:
  "\<exists>st s xs. run_ops flat_env one_peer (Inner_new []) = Some st \<and> to_address_manager_state st = Some s
    \<and> save_ops (one_codec s) s peers_path = Inr xs
    \<and> am_create (one_codec s) [7] peers_path
        (snd (fs_run (one_codec s) (take 3 xs) (fmupd peers_path [2] fmempty))) = Inr (Inner_new [7])"
proof -
  obtain st s where run: "run_ops flat_env one_peer (Inner_new []) = Some st"
    and ne: "map_info st \<noteq> fmempty" and s: "to_address_manager_state st = Some s"
    by (rule one_peer_frozen)
  have v: "validate_snapshot s = Inr ()"
    by (rule frozen_valid [OF s ne])
  obtain xs where xs: "save_ops (one_codec s) s peers_path = Inr xs"
    using v peers_path_parent by (simp add: save_ops_def)
  have "with_extension_tmp peers_path \<noteq> peers_path"
    by (simp only: peers_path_tmp) (simp add: peers_path_def)
  from interrupted_save [OF xs this, of 3 "fmupd peers_path [2] fmempty" "[7]"] show ?thesis
    using run s xs by (auto simp: one_codec_def)
qed

section \<open>A snapshot that panics\<close>

lemma clear_new_last_row:
  assumes "clear_new pos st = Some st'" "new_matrix st pos = m" "m \<noteq> EMPTY"
    and "fmlookup (map_info st) m = Some r" "ref_count r = 1" "ep_random_pos r = Some k"
  shows "fmlookup (map_info st') m = None"
proof -
  have "dec32 1 = 0"
    by (simp add: dec32_def)
  then have "delete_new_entry m (drop_cell pos st) = Some st'"
    and "fmlookup (map_info (drop_cell pos st)) m = Some (r\<lparr>ref_count := 0\<rparr>)"
    using assms by (simp_all add: clear_new_eq drop_cell_def update_row_def set_new_matrix_def)
  then show ?thesis
    using assms(6) by (auto simp: delete_new_entry_def split: if_splits option.splits)
qed

lemma place_new_replaces:
  assumes "place_new env now2 src n st = Some st'" "n \<noteq> m" "m \<noteq> EMPTY"
    and "fmlookup (map_info st) n = Some info" "new_matrix st (new_slot env (am_key st) (peer_info info) src) = m"
    and "fmlookup (map_info st) m = Some r" "ref_count r = 1" "ep_random_pos r = Some k" "is_terrible now2 r"
  shows "fmlookup (map_info st') m = None"
proof -
  let ?pos = "new_slot env (am_key st) (peer_info info) src"
  obtain st1 where st1: "clear_new ?pos st = Some st1"
    using assms by (auto simp: place_new_def Let_def bind_eq_Some_conv)
  have "fmlookup (map_info st') m = fmlookup (map_info st1) m"
    using assms st1 by (auto simp: place_new_def Let_def bind_eq_Some_conv set_new_matrix_def)
  then show ?thesis
    using clear_new_last_row [OF st1 assms(5,3,6,7,8)] by simp
qed

subsection \<open>A queued id without a row\<close>

lemma delete_frame:
  assumes "delete_new_entry n st = Some st'"
  shows "frame st st'"
  using assms
  by (auto simp: delete_new_entry_def same_tables_def frame_def dest!: swap_random_same(1)
      split: if_splits option.splits bind_splits)

lemma clear_frame: "clear_new pos st = Some st' \<Longrightarrow> frame st st'"
proof -
  have "frame st (drop_cell pos st)"
    using update_row_frame(1) by (simp add: drop_cell_def frame_def set_new_matrix_def)
  then show "clear_new pos st = Some st' \<Longrightarrow> frame st st'"
    using delete_frame frame_trans by (auto simp: clear_new_eq split: if_splits option.splits)
qed

lemma place_frame: "place_new env now2 src n st = Some st' \<Longrightarrow> frame st st'"
  by (auto simp: place_new_def Let_def frame_def set_new_matrix_def
      dest!: clear_frame delete_frame split: bind_splits if_splits)

lemma drops_row: "drops st st' \<Longrightarrow> fmlookup (map_info st) m = None \<Longrightarrow> fmlookup (map_info st') m = None"
proof -
  assume d: "drops st st'" and none: "fmlookup (map_info st) m = None"
  then have "snd (hosts st) m = None"
    by (simp add: hosts_def)
  then have "snd (hosts st') m = None"
    using d by (auto simp: drops_def)
  then show ?thesis
    by (simp add: hosts_def)
qed

text \<open>Ids are handed out in ascending order, so no later row takes the id.\<close>

definition dangling :: "node_id \<Rightarrow> Inner \<Rightarrow> bool" where
  "dangling m st \<longleftrightarrow> m \<in> set (tried_collisions st) \<and> fmlookup (map_info st) m = None \<and> m \<le> id_count st"

lemma add_inner_dangling:
  assumes a: "add_to_new_table_inner env now now2 draw addr source pen st = Some (x, st')"
    and b: "book env {} st" and d: "dangling m st" and i: "Suc (unat (id_count st)) < u32_max"
  shows "dangling m st'"
proof -
  define p where "p = \<lparr>pi_host = ts_host addr, pi_port = ts_port addr\<rparr>"
  have queue: "tried_collisions st' = tried_collisions st"
    using add_inner_book [OF a b i] by simp
  consider "host_is_private env (pi_host p) \<and> \<not> allow_private_subnets st"
    | n r where "\<not> (host_is_private env (pi_host p) \<and> \<not> allow_private_subnets st)" "am_find st p = (Some n, Some r)"
    | "\<not> (host_is_private env (pi_host p) \<and> \<not> allow_private_subnets st)" "\<nexists>n r. am_find st p = (Some n, Some r)"
    by blast
  then show ?thesis
  proof cases
    case 1
    then show ?thesis
      using a d by (simp add: add_to_new_table_inner_def Let_def flip: p_def)
  next
    case 2
    define s where "s = st\<lparr>map_info := fmupd n (refresh_row addr (if peer_info r = p then 0 else pen) now r) (map_info st)\<rparr>"
    have "fmlookup (map_info s) m = None" "id_count s = id_count st"
      using am_find_SomeD [OF 2(2)] d by (auto simp: s_def dangling_def)
    moreover have "st' = s \<or> place_new env now2 source n s = Some st'"
      using a 2 unfolding s_def by (auto simp: add_to_new_table_inner_def Let_def simp flip: p_def split: if_splits)
    ultimately have "fmlookup (map_info st') m = None \<and> id_count st' = id_count st"
      using drops_row [OF place_new_drops, of env now2 source n s st' m] place_frame [of env now2 source n s st']
      by (auto simp: frame_def)
    then show ?thesis
      using d queue by (simp add: dangling_def)
  next
    case 3
    obtain n st1 where c: "create_row addr source st = (n, st1)"
      by fastforce
    have m1: "id_count st \<noteq> - 1"
      using i by (auto simp: u32_max_def unsigned_minus_1_eq_mask mask_eq_exp_minus_1)
    then have n: "n = id_count st + 1" "id_count st1 = n" "map_info st1 = fmupd n (the (fmlookup (map_info st1) n)) (map_info st)"
      using c by (auto simp: create_row_def Let_def)
    have "id_count st < n"
      using i by (simp add: n(1) word_less_nat_alt unat_word_ariths u32_max_def)
    then have m: "m \<noteq> n" "m \<le> n"
      using d by (auto simp: dangling_def)
    let ?s = "update_row n (\<lambda>i. i\<lparr>ep_timestamp := ts_timestamp addr - pen\<rparr>) st1"
    have place: "place_new env now2 source n (?s\<lparr>new_count := inc32 (new_count ?s)\<rparr>) = Some st'"
      using a 3 by (auto simp: add_to_new_table_inner_def Let_def c simp flip: p_def split: option.splits prod.splits)
    have "fmlookup (map_info st1) m = None"
      using d m(1) by (subst n(3)) (simp add: dangling_def)
    then have "fmlookup (map_info ?s) m = None"
      using m(1) by (simp add: update_row_def split: option.split)
    then have "fmlookup (map_info st') m = None"
      using drops_row [OF place_new_drops [OF place]] by simp
    moreover have "id_count st' = n"
      using place_frame [OF place] n(2) update_row_frame(1) [of st1 n] by (simp add: frame_def)
    ultimately show ?thesis
      using d queue m(2) by (simp add: dangling_def)
  qed
qed

lemma add_list_dangling:
  "add_to_new_table env ts src pen st = Some st' \<Longrightarrow> book env {} st \<Longrightarrow> dangling m st \<Longrightarrow>
    unat (id_count st) + length ts < u32_max \<Longrightarrow> dangling m st'"
proof (induction ts arbitrary: st)
  case (Cons t ts)
  obtain addr now now2 draw where t: "t = (addr, now, now2, draw)" by (cases t)
  obtain u st1 where s1: "add_to_new_table_inner env now now2 draw addr src pen st = Some (u, st1)"
    and s2: "add_to_new_table env ts src pen st1 = Some st'"
    using Cons.prems(1) by (auto simp: t bind_eq_Some_conv)
  have i: "Suc (unat (id_count st)) < u32_max"
    using Cons.prems(4) by simp
  show ?case
    using Cons.IH [OF s2] add_inner_book [OF s1 Cons.prems(2) i] add_inner_dangling [OF s1 Cons.prems(2,3) i]
      Cons.prems(4) by auto
qed simp

lemma mark_good_queue:
  assumes m: "mark_good_inner env br addr tbe ts st = Some st'" and b: "book env {} st"
  shows "set (tried_collisions st) \<subseteq> set (tried_collisions st')"
proof (cases "\<exists>n r. am_find st addr = (Some n, Some r)")
  case False
  then show ?thesis
    using m by (auto simp: mark_good_eq split: option.splits prod.splits)
next
  case True
  then obtain n r where f: "am_find st addr = (Some n, Some r)" by blast
  note t = touched_book [OF b am_find_SomeD [OF f], of ts]
  have "frame (touched n r ts st) st'" if "\<not> is_tried r" "make_tried env n (touched n r ts st) = Some st'"
    using make_tried_book(2) [OF that(2) t(1)] that(1) t(2) view_lookup [OF am_find_SomeD [OF f]]
    by (simp add: view_row_def)
  then show ?thesis
    using m by (auto simp: mark_good_eq f frame_def split: if_splits)
qed

fun cleans_queue :: "am_op \<Rightarrow> bool" where
  "cleans_queue (SelectTriedCollision draw) = True"
| "cleans_queue (ResolveTriedCollisions now rands) = True"
| "cleans_queue _ = False"

lemma run_op_dangling:
  assumes "run_op env x st = Some st'" "\<not> cleans_queue x" "book env {} st" "collisions_ok st"
    and "unat (id_count st) + announced x < u32_max" "dangling m st"
  shows "dangling m st'"
proof (cases x)
  case (AddToNewTable ts src pen)
  then show ?thesis using assms add_list_dangling by simp
next
  case (MarkGood br addr tbe ts)
  then have m: "mark_good_inner env br addr tbe ts st = Some st'"
    using assms(1) by simp
  show ?thesis
    using mark_good_queue [OF m assms(3)] mark_good_book [OF m assms(3,4)] drops_row [OF mark_good_drops [OF m]] assms(6)
    by (auto simp: dangling_def)
next
  case (Attempt addr cf ts)
  then have "frame st st'" "hosts st' = hosts st"
    using assms(1) dial_hosts(1) [of addr cf ts st] by auto
  then show ?thesis
    using assms(6) drops_row [of st st' m] by (auto simp: dangling_def frame_def drops_def)
next
  case (Connect addr ts)
  then have "frame st st'" "hosts st' = hosts st"
    using assms(1) dial_hosts(2) [of addr ts st] by auto
  then show ?thesis
    using assms(6) drops_row [of st st' m] by (auto simp: dangling_def frame_def drops_def)
qed (use assms in \<open>auto simp: dangling_def set_allow_private_subnets_def\<close>)

lemma run_ops_dangling:
  "run_ops env xs st = Some st' \<Longrightarrow> list_all (\<lambda>x. \<not> cleans_queue x) xs \<Longrightarrow> book env {} st \<Longrightarrow> collisions_ok st \<Longrightarrow>
    unat (id_count st) + (\<Sum>x\<leftarrow>xs. announced x) < u32_max \<Longrightarrow> dangling m st \<Longrightarrow>
    to_address_manager_state st' = None"
proof (induction xs arbitrary: st)
  case Nil
  then show ?case
    using frozen_iff [of env "{}" st] by (auto simp: dangling_def)
next
  case (Cons x xs)
  then obtain st1 where s1: "run_op env x st = Some st1" and s2: "run_ops env xs st1 = Some st'"
    by (auto simp: bind_eq_Some_conv)
  have i: "unat (id_count st) + announced x < u32_max"
    using Cons.prems(5) by simp
  show ?case
    using Cons.IH [OF s2] run_op_book [OF s1 Cons.prems(3,4) i] run_op_dangling [OF s1 _ Cons.prems(3,4) i]
      Cons.prems(2,5,6) by simp
qed

lemma selection_repairs:
  assumes "book env {} st" "random_ok st"
  shows "to_address_manager_state (snd (select_tried_collision_inner nenv draw st)) \<noteq> None"
proof -
  let ?st = "st\<lparr>tried_collisions := filter (\<lambda>n. fmlookup (map_info st) n \<noteq> None) (tried_collisions st)\<rparr>"
  have "snd (select_tried_collision_inner nenv draw st) = ?st"
    by (simp add: select_tried_collision_inner_def Let_def)
  moreover have "book env {} ?st"
    using assms(1) by simp
  ultimately show ?thesis
    using frozen_iff [of env "{}" ?st] assms(2) by (auto simp: random_ok_def)
qed

text \<open>
  C33: one announcement can make every later save panic. Let a row of the new table wait in the queue
  of pending collisions, with one cell left. When an address of an unknown host is announced for
  that cell while the row is stale, ingestion deletes the row and leaves its id in the queue. From
  then on, whatever is announced, dialled, connected or marked good, freezing the manager panics,
  with the manager's mutex held and whatever the file. Only selecting or resolving a pending collision
  drops the id, after which a save works again; no other part of the crate calls either of the two.
\<close>

theorem snapshot_panics_on_deleted_collision:
  assumes st: "book env {} st" "random_ok st" "collisions_ok st" "Suc (unat (id_count st)) < u32_max"
    and m: "m \<in> set (tried_collisions st)" "fmlookup (map_info st) m = Some r" "ref_count r = 1" "is_terrible now2 r"
    and cell: "new_matrix st (new_slot env (am_key st) \<lparr>pi_host = ts_host addr, pi_port = ts_port addr\<rparr> src) = m"
    and new: "fmlookup (map_addr st) (ts_host addr) = None" "\<not> host_is_private env (ts_host addr)"
    and path: "path \<noteq> []"
  shows "\<exists>st'. run_op env (AddToNewTable [(addr, now, now2, draw)] src pen) st = Some st'
    \<and> (\<forall>ops st''. list_all (\<lambda>x. \<not> cleans_queue x) ops
          \<and> Suc (unat (id_count st)) + (\<Sum>x\<leftarrow>ops. announced x) < u32_max
          \<and> run_ops env ops st' = Some st'' \<longrightarrow>
            to_address_manager_state st'' = None \<and> am_save senv path st'' fs = None)
    \<and> to_address_manager_state (snd (select_tried_collision_inner env sel st')) \<noteq> None"
proof -
  obtain u st' where add: "add_to_new_table_inner env now now2 draw addr src pen st = Some (u, st')"
    and random: "random_ok st'"
    using add_inner_total [OF st(1,2,4)] by blast
  note b = add_inner_book [OF add st(1,4)]
  obtain n st1 where cr: "create_row addr src st = (n, st1)"
    by fastforce
  note c = create_row_book [OF cr st(1,4)]
  have m1: "id_count st \<noteq> - 1"
    using st(4) by (auto simp: u32_max_def unsigned_minus_1_eq_mask mask_eq_exp_minus_1)
  have nm: "n \<noteq> m"
    using c(2) m(2) by (auto simp: view_None_iff)
  have bo: "book_ok env (am_key st) (id_count st) (new_matrix st) (tried_matrix st) (view st)"
    using st(1) by (simp add: book_def)
  have ne: "m \<noteq> EMPTY"
    using book_no_EMPTY [OF bo view_lookup [OF m(2)]] .
  have old: "m \<le> id_count st"
    using book_okD [OF bo ne] view_lookup [OF m(2)] by (auto simp: view_row_def)
  obtain k where k: "ep_random_pos r = Some k"
    using random_okD [OF st(2) m(2)] by blast
  let ?s = "update_row n (\<lambda>i. i\<lparr>ep_timestamp := ts_timestamp addr - pen\<rparr>) st1"
  let ?s' = "?s\<lparr>new_count := inc32 (new_count ?s)\<rparr>"
  have "am_find st \<lparr>pi_host = ts_host addr, pi_port = ts_port addr\<rparr> = (None, None)"
    using new(1) by (simp add: am_find_def)
  then have place: "place_new env now2 src n ?s' = Some st'"
    using add new(2) by (auto simp: add_to_new_table_inner_def Let_def cr)
  have s': "fmlookup (map_info ?s') m = Some r" "am_key ?s' = am_key st" "new_matrix ?s' = new_matrix st"
    using cr m1 nm m(2) by (auto simp: create_row_def Let_def update_row_def)
  have row: "\<exists>info. fmlookup (map_info ?s') n = Some info
      \<and> peer_info info = \<lparr>pi_host = ts_host addr, pi_port = ts_port addr\<rparr>"
    using cr m1 by (auto simp: create_row_def Let_def update_row_def peer_row_from_ts_def)
  have "fmlookup (map_info st') m = None"
    using row place_new_replaces [OF place nm ne _ _ s'(1) m(3) k m(4)] cell s'(2,3) by auto
  moreover have "id_count st \<le> id_count st'"
    using place_frame [OF place] c(5) update_row_frame(1) [of st1 n] by (simp add: frame_def word_le_nat_alt)
  ultimately have gone: "dangling m st'"
    using b m(1) old by (simp add: dangling_def)
  have "to_address_manager_state st'' = None"
    if "list_all (\<lambda>x. \<not> cleans_queue x) ops" "Suc (unat (id_count st)) + (\<Sum>x\<leftarrow>ops. announced x) < u32_max"
      "run_ops env ops st' = Some st''" for ops st''
    using run_ops_dangling [OF that(3,1) _ _ _ gone] b st(3) that(2) by (simp add: collisions_ok_def)
  moreover have "to_address_manager_state (snd (select_tried_collision_inner env sel st')) \<noteq> None"
    using selection_repairs [of env st'] b random by blast
  ultimately show ?thesis
    using add path by (auto simp: am_save_def)
qed

text \<open>The queue of \<open>full_slot\<close> after its untried address connected, and a much later announcement.\<close>

theorem snapshot_panics_on_deleted_collision_witness:
  "\<exists>st st'. mark_good_inner flat_env 7 \<lparr>pi_host = [1], pi_port = 5\<rparr> True 1000 full_slot = Some st
    \<and> run_op flat_env (AddToNewTable [(\<lparr>ts_host = [3], ts_port = 5, ts_timestamp = 9000000\<rparr>, 9000000, 9000000, \<lambda>_. 0)]
        \<lparr>pi_host = [9], pi_port = 1\<rparr> 0) st = Some st'
    \<and> (\<forall>s. am_save (one_codec s) peers_path st' fmempty = None)"
proof -
  let ?r = "(host_row [1] False 0)\<lparr>last_success := 1000, last_try := 1000, num_attempts := 0\<rparr>"
  let ?t = "touched 1 (host_row [1] False 0) 1000 full_slot"
  let ?st = "?t\<lparr>tried_collisions := [1]\<rparr>"
  have row: "fmlookup (map_info full_slot) 1 = Some (host_row [1] False 0)"
    by (rule am_find_SomeD [OF concrete_find(2)])
  note t = touched_book [OF full_slot_book row, of 1000]
  have r: "fmlookup (map_info ?t) 1 = Some ?r"
    by (simp add: touched_def)
  have "in_new_table flat_env ?t 1 (peer_info (host_row [1] False 0)) 7"
    using in_new_table_book [OF t(1) r, of 7] by (simp add: host_row_def)
  then have mg: "mark_good_inner flat_env 7 \<lparr>pi_host = [1], pi_port = 5\<rparr> True 1000 full_slot = Some ?st"
    using small_ids by (simp add: mark_good_eq concrete_find concrete_tables host_row_def TRIED_COLLISION_SIZE_def)
  have fs: "book flat_env {} ?st" "random_ok ?st" "collisions_ok ?st"
    using t(1) by (simp, auto simp: random_ok_def touched_def full_slot_def known_peer_def host_row_def nth_Cons'
        Inner_new_def collisions_ok_def TRIED_COLLISION_SIZE_def split: if_splits)
  have small: "Suc (unat (id_count ?st)) < u32_max"
    by (simp add: full_slot_def known_peer_def Inner_new_def u32_max_def)
  let ?op = "AddToNewTable [(\<lparr>ts_host = [3], ts_port = 5, ts_timestamp = 9000000\<rparr>, 9000000, 9000000, \<lambda>_. 0)]
        \<lparr>pi_host = [9], pi_port = 1\<rparr> 0"
  have "\<exists>st'. run_op flat_env ?op ?st = Some st'
    \<and> (\<forall>ops st''. list_all (\<lambda>x. \<not> cleans_queue x) ops
          \<and> Suc (unat (id_count ?st)) + (\<Sum>x\<leftarrow>ops. announced x) < u32_max
          \<and> run_ops flat_env ops st' = Some st'' \<longrightarrow>
            to_address_manager_state st'' = None \<and> am_save (one_codec undefined) peers_path st'' fmempty = None)
    \<and> to_address_manager_state (snd (select_tried_collision_inner flat_env (\<lambda>_. 0) st')) \<noteq> None"
    by (rule snapshot_panics_on_deleted_collision [OF fs small, of 1 ?r])
      (use r in \<open>simp_all add: touched_def full_slot_def known_peer_def Inner_new_def host_row_def
         concrete_find is_terrible_def HORIZON_DAYS_def sat_add64_def u64_max_def peers_path_def\<close>)
  then obtain st' where st': "run_op flat_env ?op ?st = Some st'"
    and later: "\<And>ops st''. list_all (\<lambda>x. \<not> cleans_queue x) ops
        \<and> Suc (unat (id_count ?st)) + (\<Sum>x\<leftarrow>ops. announced x) < u32_max
        \<and> run_ops flat_env ops st' = Some st'' \<Longrightarrow> to_address_manager_state st'' = None"
    by blast
  have "to_address_manager_state st' = None"
    by (rule later [of "[]"]) (use small in simp)
  with st'
  show ?thesis
    using mg by (auto simp: am_save_def peers_path_def)
qed

section \<open>The host index of a running manager\<close>

text \<open>
  C34: every address is filed once. After any run of a fresh manager, promotions and evictions
  included, the host index and the rows name each other: a host has at most one row, its index entry
  is that row's id, no entry points to a missing row or to a row of another host, and every id is
  between the first and the last one handed out.
\<close>

theorem host_index_exact:
  assumes run: "run_ops env ops (Inner_new key) = Some st"
    and few: "(\<Sum>x\<leftarrow>ops. announced x) < u32_max"
  shows "(\<forall>h n. fmlookup (map_addr st) h = Some n \<longleftrightarrow>
            (\<exists>r. fmlookup (map_info st) n = Some r \<and> pi_host (peer_info r) = h))
    \<and> (\<forall>n r. fmlookup (map_info st) n = Some r \<longrightarrow> n \<noteq> EMPTY \<and> n \<le> id_count st)"
proof -
  have b: "book env {} st" and a: "addr_ok st"
    using run_ops_book [OF run] run_ops_addr [OF run] book_new [of env key] addr_ok_new few by auto
  have bo: "book_ok env (am_key st) (id_count st) (new_matrix st) (tried_matrix st) (view st)"
    using b by (simp add: book_def)
  have "n \<noteq> EMPTY \<and> n \<le> id_count st" if "fmlookup (map_info st) n = Some r" for n r
    using book_okD [OF bo] book_no_EMPTY [OF bo] view_lookup [OF that]
    by (fastforce simp: view_row_def)
  then show ?thesis
    using a unfolding addr_ok_def by blast
qed

theorem host_index_exact_witness:
  "\<exists>st n r. run_ops flat_env one_peer (Inner_new []) = Some st \<and> fmlookup (map_info st) n = Some r
    \<and> fmlookup (map_addr st) (pi_host (peer_info r)) = Some n \<and> n \<le> id_count st"
proof -
  obtain st where run: "run_ops flat_env one_peer (Inner_new []) = Some st"
    and row: "fmlookup (map_info st) 1 \<noteq> None"
    using one_peer_entry by blast
  then show ?thesis
    using host_index_exact [OF run one_peer_few] by blast
qed

end
