(* ===== verification/Gossip_Config.thy ===== *)
theory Gossip_Config
  imports Tx_Relay Priority_Lanes Keepalive Address_Snapshot
begin

text \<open>
  The configuration of the service and its construction: the structures of
  \<open>types/config.rs\<close> with their defaults, the validation, the preparation of the certificate
  directories and \<open>GossipService::new\<close> (\<open>service/gossip_service.rs\<close>), and the state
  \<open>ServiceState::new\<close> builds (\<open>service/state.rs\<close>).

  The link options, the Chia network, the node certificate and the TLS material belong to other
  crates and are type parameters; their defaults are arguments. Directories are made by
  \<open>mkdirs\<close> and certificates loaded by \<open>load_ssl\<close>. A path is its list of components.
\<close>

section \<open>Configuration\<close>

definition DEFAULT_P2P_PORT :: u16 where "DEFAULT_P2P_PORT = 9444"
definition DEFAULT_DNS_SEED_TIMEOUT_SECS :: nat where "DEFAULT_DNS_SEED_TIMEOUT_SECS = 30"
definition DEFAULT_DNS_SEED_BATCH_SIZE :: nat where "DEFAULT_DNS_SEED_BATCH_SIZE = 2"
definition DEFAULT_TARGET_OUTBOUND_COUNT :: nat where "DEFAULT_TARGET_OUTBOUND_COUNT = 8"
definition DEFAULT_INTRODUCER_NETWORK_ID :: bytes where
  "DEFAULT_INTRODUCER_NETWORK_ID = map of_char ''DIG_MAINNET''"

record PeerIdRotationConfig =
  rotation_enabled :: bool
  rotation_interval_secs :: nat
  reconnect_on_rotation :: bool

definition rotation_config_default :: PeerIdRotationConfig where
  "rotation_config_default =
     \<lparr>rotation_enabled = True, rotation_interval_secs = 86400, reconnect_on_rotation = True\<rparr>"

definition is_rotation_disabled :: "PeerIdRotationConfig \<Rightarrow> bool" where
  "is_rotation_disabled c \<longleftrightarrow> \<not> rotation_enabled c \<or> rotation_interval_secs c = 0"

record IntroducerConfig =
  ic_endpoint :: bytes
  ic_connection_timeout_secs :: nat
  ic_request_timeout_secs :: nat
  ic_network_id :: bytes

definition introducer_config_default :: IntroducerConfig where
  "introducer_config_default =
     \<lparr>ic_endpoint = [], ic_connection_timeout_secs = 10, ic_request_timeout_secs = 10,
      ic_network_id = DEFAULT_INTRODUCER_NETWORK_ID\<rparr>"

record RelayConfig =
  relay_endpoint :: bytes
  relay_enabled :: bool
  relay_connection_timeout_secs :: nat
  reconnect_delay_secs :: nat
  max_reconnect_attempts :: nat
  relay_ping_interval_secs :: nat
  prefer_relay :: bool

definition relay_config_default :: RelayConfig where
  "relay_config_default =
     \<lparr>relay_endpoint = [], relay_enabled = True, relay_connection_timeout_secs = 10,
      reconnect_delay_secs = 5, max_reconnect_attempts = 10,
      relay_ping_interval_secs = PING_INTERVAL_SECS, prefer_relay = False\<rparr>"

record ('net, 'opts, 'cert) GossipConfig =
  listen_addr :: SocketAddr
  gc_peer_id :: peer_id
  gc_network_id :: bytes32
  network :: 'net
  dns_seed_timeout :: nat
  dns_seed_batch_size :: nat
  target_outbound_count :: nat
  max_connections :: nat
  max_inflight_handshakes :: nat
  bootstrap_peers :: "SocketAddr list"
  introducer :: "IntroducerConfig option"
  relay :: "RelayConfig option"
  cert_path :: path
  key_path :: path
  peer_connect_interval :: nat
  gossip_fanout :: nat
  max_seen_messages :: nat
  gc_peers_file_path :: path
  peer_options :: 'opts
  dandelion :: "DandelionConfig option"
  peer_id_rotation :: "PeerIdRotationConfig option"
  tor :: "TorConfig option"
  erlay :: "ErlayConfig option"
  backpressure :: "BackpressureConfig option"
  gc_keepalive :: keepalive_config
  reaper_interval_secs :: "nat option"
  peer_pool :: "PeerPoolConfig option"
  nat_identity :: "'cert option"
  software_version :: bytes

definition default_software_version :: "bytes \<Rightarrow> bytes" where
  "default_software_version pkg_version = map of_char ''dig-gossip/'' @ pkg_version"

definition gossip_config_default :: "'net \<Rightarrow> 'opts \<Rightarrow> bytes \<Rightarrow> ('net, 'opts, 'cert) GossipConfig" where
  "gossip_config_default mainnet opts pkg_version =
     \<lparr>listen_addr = SocketAddr (V6 (replicate 16 0)) DEFAULT_P2P_PORT, gc_peer_id = replicate 32 0,
      gc_network_id = replicate 32 0, network = mainnet, dns_seed_timeout = DEFAULT_DNS_SEED_TIMEOUT_SECS,
      dns_seed_batch_size = DEFAULT_DNS_SEED_BATCH_SIZE,
      target_outbound_count = DEFAULT_TARGET_OUTBOUND_COUNT, max_connections = 50,
      max_inflight_handshakes = 50 * 4, bootstrap_peers = [], introducer = None, relay = None,
      cert_path = [], key_path = [], peer_connect_interval = 10, gossip_fanout = 8,
      max_seen_messages = DEFAULT_MAX_SEEN_MESSAGES, gc_peers_file_path = [], peer_options = opts,
      dandelion = None, peer_id_rotation = None, tor = None, erlay = None, backpressure = None,
      gc_keepalive = \<lparr>keepalive_ping_interval_secs = None, keepalive_peer_timeout_secs = None\<rparr>,
      reaper_interval_secs = None, peer_pool = None, nat_identity = None,
      software_version = default_software_version pkg_version\<rparr>"

section \<open>Construction\<close>

datatype ConfigFault = ZeroNetworkId | OutboundAboveMax nat nat | EmptyPemPath

datatype 'e ServiceError =
    InvalidConfig ConfigFault
  | IoError bytes
  | ClientError 'e
  | BookError StoreError
  | AlreadyStarted
  | CannotRestart

definition validate_gossip_config :: "('net, 'opts, 'cert) GossipConfig \<Rightarrow> ConfigFault option" where
  "validate_gossip_config config =
     (if gc_network_id config = replicate 32 0 then Some ZeroNetworkId
      else if max_connections config < target_outbound_count config
           then Some (OutboundAboveMax (target_outbound_count config) (max_connections config))
      else if cert_path config = [] \<or> key_path config = [] then Some EmptyPemPath
      else None)"

definition ensure_parent_dirs :: "(path \<Rightarrow> bytes option) \<Rightarrow> path \<Rightarrow> path \<Rightarrow> bytes option" where
  "ensure_parent_dirs mkdirs c k =
     (case (case path_parent c of Some p \<Rightarrow> mkdirs p | None \<Rightarrow> None) of
        Some e \<Rightarrow> Some e
      | None \<Rightarrow> (case path_parent k of Some p \<Rightarrow> mkdirs p | None \<Rightarrow> None))"

datatype 'e sdk_error = SdkIo bytes | SdkOther 'e

fun map_sdk_tls_err :: "'e sdk_error \<Rightarrow> 'e ServiceError" where
  "map_sdk_tls_err (SdkIo io) = IoError io"
| "map_sdk_tls_err (SdkOther e) = ClientError e"

definition load_tls_material ::
    "(path \<Rightarrow> path \<Rightarrow> 'e sdk_error + 'tls) \<Rightarrow> ('net, 'opts, 'cert) GossipConfig \<Rightarrow> 'e ServiceError + 'tls" where
  "load_tls_material load_ssl config =
     (case load_ssl (cert_path config) (key_path config) of
        Inl e \<Rightarrow> Inl (map_sdk_tls_err e)
      | Inr tls \<Rightarrow> Inr tls)"

text \<open>The part of the configuration the operations on connections read. The table of autonomous
  systems is not configurable: \<open>ServiceState::new\<close> installs the empty one.\<close>

definition service_config :: "('net, 'opts, 'cert) GossipConfig \<Rightarrow> ServiceConfig" where
  "service_config config =
     \<lparr>cfg_peer_id = gc_peer_id config, cfg_max_connections = max_connections config,
      cfg_target_outbound_count = target_outbound_count config, cfg_peer_pool = peer_pool config,
      cfg_as_table = as_table_empty, cfg_listen_addr = listen_addr config\<rparr>"

record ('net, 'opts, 'cert, 'tls, 's, 'c) NewService =
  ns_config :: "('net, 'opts, 'cert) GossipConfig"
  ns_tls :: 'tls
  ns_state :: ServiceState
  ns_manager :: Inner
  ns_seen :: 's
  ns_cache :: "'c MessageCache"
  ns_inflight_permits :: nat
  ns_total_peers_received :: nat

definition ServiceState_new ::
    "store_env \<Rightarrow> ('s, bytes32, unit) lru_ops \<Rightarrow> ('c, bytes32, CacheEntry) lru_ops \<Rightarrow> bytes32
      \<Rightarrow> ('net, 'opts, 'cert) GossipConfig \<Rightarrow> 'tls \<Rightarrow> files
      \<Rightarrow> 'e ServiceError + ('net, 'opts, 'cert, 'tls, 's, 'c) NewService" where
  "ServiceState_new env seen_ops cache_ops fresh config tls fs =
     (case am_create env fresh (gc_peers_file_path config) fs of
        Inl e \<Rightarrow> Inl (BookError e)
      | Inr am \<Rightarrow>
          Inr \<lparr>ns_config = config, ns_tls = tls, ns_state = service_new, ns_manager = am,
               ns_seen = lru_new seen_ops (max (max_seen_messages config) 1),
               ns_cache = MessageCache_new cache_ops,
               ns_inflight_permits = max (max_inflight_handshakes config) 1,
               ns_total_peers_received = 0\<rparr>)"

definition GossipService_new ::
    "(path \<Rightarrow> bytes option) \<Rightarrow> (path \<Rightarrow> path \<Rightarrow> 'e sdk_error + 'tls)
      \<Rightarrow> store_env \<Rightarrow> ('s, bytes32, unit) lru_ops \<Rightarrow> ('c, bytes32, CacheEntry) lru_ops \<Rightarrow> bytes32
      \<Rightarrow> ('net, 'opts, 'cert) GossipConfig \<Rightarrow> files
      \<Rightarrow> 'e ServiceError + ('net, 'opts, 'cert, 'tls, 's, 'c) NewService" where
  "GossipService_new mkdirs load_ssl env seen_ops cache_ops fresh config fs =
     (case validate_gossip_config config of
        Some fault \<Rightarrow> Inl (InvalidConfig fault)
      | None \<Rightarrow>
          (case ensure_parent_dirs mkdirs (cert_path config) (key_path config) of
             Some e \<Rightarrow> Inl (IoError e)
           | None \<Rightarrow>
               (case load_tls_material load_ssl config of
                  Inl e \<Rightarrow> Inl e
                | Inr tls \<Rightarrow> ServiceState_new env seen_ops cache_ops fresh config tls fs)))"

section \<open>What construction guarantees\<close>

lemma default_config_refused: "validate_gossip_config (gossip_config_default mainnet opts v) = Some ZeroNetworkId"
  by (simp add: validate_gossip_config_def gossip_config_default_def)

lemma new_service_state:
  assumes "GossipService_new mkdirs load_ssl env seen_ops cache_ops fresh config fs = Inr s"
  shows "validate_gossip_config config = None" "ns_config s = config" "ns_state s = service_new"
    "ns_inflight_permits s = max (max_inflight_handshakes config) 1"
  using assms by (auto simp: GossipService_new_def ServiceState_new_def split: option.splits sum.splits)

text \<open>No path of the program fills the table of autonomous systems, so of the two diversity rules
  only the one for subnet groups is ever in force.\<close>

lemma as_rule_never_applies:
  "outbound_diversity_conflict peers (cfg_as_table (service_config config)) p ip relayed \<noteq> Some As"
  by (simp add: outbound_diversity_conflict_def service_config_def as_lookup_def as_table_empty_def Let_def)

text \<open>
  What a constructed service satisfies. Construction succeeds only for a configuration with a
  network identity, an outbound target within the connection limit and certificate paths; the
  service then holds no peer, no ban and no penalty, is not running, and lets at least one
  handshake proceed even when the configured number is zero. A configuration that fails is reported
  before any directory is made or certificate loaded.
\<close>

theorem construction_checked:
  "(\<forall>s. GossipService_new mkdirs load_ssl env seen_ops cache_ops fresh config fs = Inr s \<longrightarrow>
      gc_network_id config \<noteq> replicate 32 0
      \<and> target_outbound_count config \<le> max_connections config
      \<and> cert_path config \<noteq> [] \<and> key_path config \<noteq> []
      \<and> svc_peers (ns_state s) = fmempty \<and> svc_banned (ns_state s) = fmempty
      \<and> svc_penalties (ns_state s) = fmempty \<and> \<not> svc_running (ns_state s)
      \<and> 0 < ns_inflight_permits s)
   \<and> (\<forall>fault mk' ld'. validate_gossip_config config = Some fault \<longrightarrow>
        GossipService_new mkdirs load_ssl env seen_ops cache_ops fresh config fs = Inl (InvalidConfig fault)
        \<and> GossipService_new mk' ld' env seen_ops cache_ops fresh config fs = Inl (InvalidConfig fault))"
proof (intro conjI allI impI)
  fix s
  assume "GossipService_new mkdirs load_ssl env seen_ops cache_ops fresh config fs = Inr s"
  note new = new_service_state [OF this]
  show "gc_network_id config \<noteq> replicate 32 0" "target_outbound_count config \<le> max_connections config"
    "cert_path config \<noteq> []" "key_path config \<noteq> []"
    using new(1) by (auto simp: validate_gossip_config_def split: if_splits)
  show "svc_peers (ns_state s) = fmempty" "svc_banned (ns_state s) = fmempty"
    "svc_penalties (ns_state s) = fmempty" "\<not> svc_running (ns_state s)" "0 < ns_inflight_permits s"
    using new(3,4) by (simp_all add: service_new_def)
qed (simp_all add: GossipService_new_def)

definition plain_store :: store_env where
  "plain_store = \<lparr>serialize = (\<lambda>_. None), deserialize = (\<lambda>_. None), io_fails = (\<lambda>_. False),
     read_fails = (\<lambda>_. False)\<rparr>"

definition node_config :: "(unit, unit, unit) GossipConfig" where
  "node_config = gossip_config_default () () [48]\<lparr>gc_network_id := replicate 32 1, cert_path := [[1], [2]],
     key_path := [[1], [3]], max_inflight_handshakes := 0\<rparr>"

theorem construction_checked_witness:
  "\<exists>s. GossipService_new (\<lambda>_. None) (\<lambda>_ _. Inr () :: unit sdk_error + unit) plain_store list_lru list_lru [] node_config fmempty
        = Inr s \<and> 0 < ns_inflight_permits s"
proof -
  obtain s where new: "GossipService_new (\<lambda>_. None) (\<lambda>_ _. Inr () :: unit sdk_error + unit) plain_store list_lru list_lru []
      node_config fmempty = Inr s"
    by (simp add: GossipService_new_def validate_gossip_config_def ensure_parent_dirs_def load_tls_material_def
        ServiceState_new_def am_create_def node_config_def gossip_config_default_def
        DEFAULT_TARGET_OUTBOUND_COUNT_def path_parent_def)
  then show ?thesis
    using construction_checked [THEN conjunct1, rule_format, OF new] by blast
qed

section \<open>The node's transport identity\<close>

text \<open>\<open>nat_node_cert\<close>: the certificate of an earlier call, else the injected one, else a fresh one
  (\<open>Inl\<close> when minting fails). The state is the cached certificate.\<close>

definition nat_node_cert ::
    "'cert option \<Rightarrow> bytes + 'cert \<Rightarrow> 'cert option \<Rightarrow> (bytes + 'cert) \<times> 'cert option" where
  "nat_node_cert injected minted cached =
     (case cached of
        Some c \<Rightarrow> (Inr c, cached)
      | None \<Rightarrow>
          (case injected of
             Some c \<Rightarrow> (Inr c, Some c)
           | None \<Rightarrow> (case minted of Inl e \<Rightarrow> (Inl e, None) | Inr c \<Rightarrow> (Inr c, Some c))))"

lemma nat_identity_stable:
  assumes "nat_node_cert injected minted cached = (Inr c, cached')"
  shows "nat_node_cert injected minted' cached' = (Inr c, cached')"
    and "cached = None \<Longrightarrow> injected = Some i \<Longrightarrow> c = i"
  using assms by (auto simp: nat_node_cert_def split: option.splits sum.splits)

end
