(* ===== verification/Relay_Client.thy ===== *)
theory Relay_Client
  imports Relay_Discovery Gossip_Config
begin

text \<open>
  The client side of a relay session (\<open>relay/relay_client.rs\<close>) and its reconnect, hole-punch and
  transport decisions (\<open>relay/relay_service.rs\<close>). The text of a relay error passes through the
  sanitiser of \<open>dig_nat\<close> in the code and is kept as received here; the clock is an argument.
\<close>

section \<open>The client\<close>

record RelayClient =
  registered :: bool
  rc_peer_id :: bytes
  rc_network_id :: bytes
  rc_protocol_version :: u32
  seq_numbers :: "(bytes, u64) fmap"
  known_peers :: "RelayPeerInfo list"
  outbound_buffer :: "RelayMessage list"

definition RelayClient_new :: "bytes \<Rightarrow> bytes \<Rightarrow> u32 \<Rightarrow> RelayClient" where
  "RelayClient_new peer_id network_id version =
     \<lparr>registered = False, rc_peer_id = peer_id, rc_network_id = network_id, rc_protocol_version = version,
      seq_numbers = fmempty, known_peers = [], outbound_buffer = []\<rparr>"

definition build_register :: "RelayClient \<Rightarrow> RelayMessage" where
  "build_register c = Register (rc_peer_id c) (rc_network_id c) (rc_protocol_version c) []"

definition handle_register_ack :: "bool \<Rightarrow> bytes \<Rightarrow> RelayClient \<Rightarrow> bytes option \<times> RelayClient" where
  "handle_register_ack success message c =
     (if success then (None, c\<lparr>registered := True\<rparr>)
      else (Some (map of_char ''registration rejected: '' @ message), c))"

definition seq_for_target :: "bytes \<Rightarrow> RelayClient \<Rightarrow> u64" where
  "seq_for_target target c = (case fmlookup (seq_numbers c) target of Some n \<Rightarrow> n | None \<Rightarrow> 0)"

definition build_send_to_peer :: "bytes \<Rightarrow> bytes \<Rightarrow> RelayClient \<Rightarrow> RelayMessage \<times> RelayClient" where
  "build_send_to_peer target payload c =
     (let sq = seq_for_target target c + 1
      in (RelayGossipMessage (rc_peer_id c) target payload sq,
          c\<lparr>seq_numbers := fmupd target sq (seq_numbers c)\<rparr>))"

definition build_broadcast :: "bytes \<Rightarrow> bytes list \<Rightarrow> RelayClient \<Rightarrow> RelayMessage" where
  "build_broadcast payload exclude c = RelayBroadcast (rc_peer_id c) payload exclude"

definition build_get_peers :: "RelayClient \<Rightarrow> RelayMessage" where
  "build_get_peers c = GetPeers (Some (rc_network_id c))"

definition build_ping :: "nat \<Rightarrow> RelayMessage" where
  "build_ping now = Ping now"

definition handle_peers :: "RelayPeerInfo list \<Rightarrow> RelayClient \<Rightarrow> RelayClient" where
  "handle_peers peers c = c\<lparr>known_peers := peers\<rparr>"

definition handle_peer_connected :: "RelayPeerInfo \<Rightarrow> RelayClient \<Rightarrow> RelayClient" where
  "handle_peer_connected peer c =
     (if \<not> list_ex (\<lambda>p. rpi_peer_id p = rpi_peer_id peer) (known_peers c)
      then c\<lparr>known_peers := known_peers c @ [peer]\<rparr> else c)"

definition handle_peer_disconnected :: "bytes \<Rightarrow> RelayClient \<Rightarrow> RelayClient" where
  "handle_peer_disconnected pid c =
     c\<lparr>known_peers := filter (\<lambda>p. rpi_peer_id p \<noteq> pid) (known_peers c)\<rparr>"

definition relay_peer_count :: "RelayClient \<Rightarrow> nat" where
  "relay_peer_count c = length (known_peers c)"

definition queue_outbound :: "RelayMessage \<Rightarrow> RelayClient \<Rightarrow> RelayClient" where
  "queue_outbound msg c = c\<lparr>outbound_buffer := outbound_buffer c @ [msg]\<rparr>"

definition take_outbound :: "RelayClient \<Rightarrow> RelayMessage list \<times> RelayClient" where
  "take_outbound c = (outbound_buffer c, c\<lparr>outbound_buffer := []\<rparr>)"

definition relay_reset :: "RelayClient \<Rightarrow> RelayClient" where
  "relay_reset c = c\<lparr>registered := False, known_peers := []\<rparr>"

section \<open>Sessions as runs\<close>

datatype relay_call =
    Ack bool bytes
  | SendTo bytes bytes
  | GotPeers "RelayPeerInfo list"
  | Joined RelayPeerInfo
  | Left bytes
  | Enqueue RelayMessage
  | TakeAll
  | Reset

text \<open>One call: the messages it hands to the caller and the new state.\<close>

fun relay_step :: "relay_call \<Rightarrow> RelayClient \<Rightarrow> RelayMessage list \<times> RelayClient" where
  "relay_step (Ack success message) c = ([], snd (handle_register_ack success message c))"
| "relay_step (SendTo target payload) c = apfst (\<lambda>m. [m]) (build_send_to_peer target payload c)"
| "relay_step (GotPeers peers) c = ([], handle_peers peers c)"
| "relay_step (Joined peer) c = ([], handle_peer_connected peer c)"
| "relay_step (Left pid) c = ([], handle_peer_disconnected pid c)"
| "relay_step (Enqueue msg) c = ([], queue_outbound msg c)"
| "relay_step TakeAll c = ([], snd (take_outbound c))"
| "relay_step Reset c = ([], relay_reset c)"

fun relay_run :: "relay_call list \<Rightarrow> RelayClient \<Rightarrow> RelayMessage list \<times> RelayClient" where
  "relay_run [] c = ([], c)"
| "relay_run (call # calls) c =
     (let (out, c) = relay_step call c; (out', c) = relay_run calls c in (out @ out', c))"

definition seqs_to :: "bytes \<Rightarrow> RelayMessage list \<Rightarrow> u64 list" where
  "seqs_to target ms =
     List.map_filter (\<lambda>m. case m of RelayGossipMessage _ to _ sq \<Rightarrow> if to = target then Some sq else None
                                 | _ \<Rightarrow> None) ms"

lemma seqs_to_append: "seqs_to t (ms @ ms') = seqs_to t ms @ seqs_to t ms'"
  by (simp add: seqs_to_def List.map_filter_def)

definition sends_to :: "bytes \<Rightarrow> relay_call list \<Rightarrow> nat" where
  "sends_to target calls = length (filter (\<lambda>c. case c of SendTo t _ \<Rightarrow> t = target | _ \<Rightarrow> False) calls)"

lemma relay_step_seq:
  assumes "relay_step call c = (out, c')"
  shows "seqs_to t out = (case call of SendTo u _ \<Rightarrow> (if u = t then [seq_for_target t c + 1] else []) | _ \<Rightarrow> [])"
    and "seq_for_target t c' = seq_for_target t c + of_nat (sends_to t [call])"
  using assms
  by (cases call; auto simp: seqs_to_def List.map_filter_def build_send_to_peer_def seq_for_target_def
      handle_register_ack_def handle_peers_def handle_peer_connected_def handle_peer_disconnected_def
      queue_outbound_def take_outbound_def relay_reset_def sends_to_def Let_def split: if_splits)+

lemma relay_run_seq:
  "relay_run calls c = (out, c') \<Longrightarrow>
     seqs_to t out = map (\<lambda>i. seq_for_target t c + of_nat i + 1) [0..<sends_to t calls]"
proof (induction calls arbitrary: c out)
  case (Cons call calls)
  obtain o1 c1 where step: "relay_step call c = (o1, c1)" by fastforce
  obtain o2 where rest: "relay_run calls c1 = (o2, c')" "out = o1 @ o2"
    using Cons.prems by (auto simp: step split: prod.splits)
  have shift: "map (\<lambda>i. s + of_nat i + 1) [0..<Suc n] = (s + 1) # map (\<lambda>i. (s + 1) + of_nat i + 1) [0..<n]" for s :: u64 and n
    by (simp add: upt_rec [of 0 "Suc n"] map_Suc_upt [symmetric] algebra_simps del: upt_Suc)
  show ?case
  proof (cases "sends_to t [call] = 0")
    case True
    then have "sends_to t (call # calls) = sends_to t calls"
      by (simp add: sends_to_def split: if_splits)
    then show ?thesis
      using Cons.IH [OF rest(1)] relay_step_seq [OF step, of t] rest(2) True
      by (auto simp: seqs_to_append sends_to_def split: relay_call.splits if_splits)
  next
    case False
    then obtain p where call: "call = SendTo t p"
      by (cases call) (auto simp: sends_to_def split: if_splits)
    then have "sends_to t (call # calls) = Suc (sends_to t calls)"
      by (simp add: sends_to_def)
    then show ?thesis
      using Cons.IH [OF rest(1)] relay_step_seq [OF step, of t] rest(2) call
      by (simp only: shift) (simp add: seqs_to_append sends_to_def)
  qed
qed (simp add: seqs_to_def sends_to_def List.map_filter_def)

text \<open>
  C19: the sequence numbers toward one peer never repeat. Over any run of calls, with
  rejections, peer lists and resets between them, the messages built for a target carry the numbers
  1, 2, 3, ... in order, as long as fewer than \<open>2 ^ 64\<close> are sent.
\<close>

theorem relay_seqs_increase:
  assumes "relay_run calls (RelayClient_new pid net v) = (out, c')" "sends_to target calls < 2 ^ 64"
  shows "map unat (seqs_to target out) = [1..<sends_to target calls + 1]"
proof -
  have "seqs_to target out = map (\<lambda>i. of_nat i + 1) [0..<sends_to target calls]"
    using relay_run_seq [OF assms(1), of target] by (simp add: seq_for_target_def RelayClient_new_def)
  then have "map unat (seqs_to target out) = map (\<lambda>i. unat (of_nat (Suc i) :: u64)) [0..<sends_to target calls]"
    by (simp add: add.commute comp_def)
  also have "\<dots> = map Suc [0..<sends_to target calls]"
    using assms(2) by (intro map_cong refl) (simp add: unat_of_nat del: of_nat_Suc)
  finally show ?thesis
    by (simp add: map_Suc_upt)
qed

theorem relay_seqs_increase_witness:
  "map unat (seqs_to [9] (fst (relay_run [SendTo [9] [1], Reset, SendTo [8] [2], Ack True [], SendTo [9] [3]]
     (RelayClient_new [1] [2] 1)))) = [1..<3]"
proof -
  obtain out c' where run: "relay_run [SendTo [9] [1], Reset, SendTo [8] [2], Ack True [], SendTo [9] [3]]
      (RelayClient_new [1] [2] 1) = (out, c')"
    by fastforce
  have "sends_to [9] [SendTo [9] [1], Reset, SendTo [8] [2], Ack True [], SendTo [9] [3]] = 2"
    by (simp add: sends_to_def)
  then have "map unat (seqs_to [9] out) = [1..<2 + 1]"
    using relay_seqs_increase [OF run, of "[9]"] by simp
  then show ?thesis
    unfolding run fst_conv by (simp add: numeral_eq_Suc)
qed

section \<open>Known peers\<close>

definition distinct_ids :: "RelayClient \<Rightarrow> bool" where
  "distinct_ids c \<longleftrightarrow> distinct (map rpi_peer_id (known_peers c))"

text \<open>Notifications keep the identities distinct; a peer list is taken over as it comes.\<close>

lemma notifications_keep_ids_distinct:
  assumes "distinct_ids c"
  shows "distinct_ids (handle_peer_connected peer c)" "distinct_ids (handle_peer_disconnected pid c)"
    and "distinct_ids (relay_reset c)"
    and "distinct_ids (handle_peers peers c) \<longleftrightarrow> distinct (map rpi_peer_id peers)"
  using assms
  by (auto simp: distinct_ids_def handle_peer_connected_def handle_peer_disconnected_def relay_reset_def
      handle_peers_def list_ex_iff distinct_map_filter)

section \<open>Reconnecting\<close>

record ReconnectState =
  consecutive_failures :: nat
  current_delay :: nat
  exhausted :: bool

definition ReconnectState_new :: "RelayConfig \<Rightarrow> ReconnectState" where
  "ReconnectState_new config =
     \<lparr>consecutive_failures = 0, current_delay = reconnect_delay_secs config, exhausted = False\<rparr>"

definition reconnect_failure :: "nat \<Rightarrow> ReconnectState \<Rightarrow> nat option \<times> ReconnectState" where
  "reconnect_failure max_attempts s =
     (let s = s\<lparr>consecutive_failures := (consecutive_failures s + 1) mod 2 ^ 32\<rparr>
      in if max_attempts \<le> consecutive_failures s then (None, s\<lparr>exhausted := True\<rparr>)
         else (Some (current_delay s), s))"

definition reconnect_success :: "RelayConfig \<Rightarrow> ReconnectState \<Rightarrow> ReconnectState" where
  "reconnect_success config s =
     s\<lparr>consecutive_failures := 0, current_delay := reconnect_delay_secs config, exhausted := False\<rparr>"

definition is_exhausted :: "ReconnectState \<Rightarrow> bool" where
  "is_exhausted s \<longleftrightarrow> exhausted s"

fun reconnect_failures :: "nat \<Rightarrow> nat \<Rightarrow> ReconnectState \<Rightarrow> nat option list \<times> ReconnectState" where
  "reconnect_failures max_attempts 0 s = ([], s)"
| "reconnect_failures max_attempts (Suc n) s =
     (let (d, s) = reconnect_failure max_attempts s; (ds, s) = reconnect_failures max_attempts n s
      in (d # ds, s))"

lemma reconnect_failures_exact:
  assumes "consecutive_failures s + n < 2 ^ 32" "reconnect_failures max_attempts n s = (ds, s')"
  shows "ds = map (\<lambda>i. if consecutive_failures s + i + 1 < max_attempts then Some (current_delay s) else None) [0..<n]
    \<and> consecutive_failures s' = consecutive_failures s + n \<and> current_delay s' = current_delay s"
  using assms
proof (induction n arbitrary: s ds)
  case (Suc n)
  obtain d s1 where f: "reconnect_failure max_attempts s = (d, s1)" by fastforce
  obtain ds1 where r: "reconnect_failures max_attempts n s1 = (ds1, s')" "ds = d # ds1"
    using Suc.prems(2) by (auto simp: f split: prod.splits)
  have s1: "consecutive_failures s1 = consecutive_failures s + 1" "current_delay s1 = current_delay s"
    "d = (if consecutive_failures s + 1 < max_attempts then Some (current_delay s) else None)"
    using f Suc.prems(1) by (auto simp: reconnect_failure_def Let_def split: if_splits)
  show ?case
    using Suc.IH [OF _ r(1)] Suc.prems(1) s1 r(2)
    by (auto simp: upt_rec [of 0 "Suc n"] map_Suc_upt [symmetric] simp del: upt_Suc)
qed simp

text \<open>
  Reconnecting stops after the configured number of failures. From a fresh session the first
  \<open>max - 1\<close> failures ask for the configured delay, always the same, and the failure with the
  number \<open>max\<close> and every later one asks to stop.
\<close>

theorem reconnect_stops:
  assumes "n < 2 ^ 32" "reconnect_failures (max_reconnect_attempts config) n (ReconnectState_new config) = (ds, s)"
  shows "ds = replicate (min n (max_reconnect_attempts config - 1)) (Some (reconnect_delay_secs config))
     @ replicate (n - (max_reconnect_attempts config - 1)) None"
proof -
  let ?m = "max_reconnect_attempts config" and ?d = "reconnect_delay_secs config"
  have "ds = map (\<lambda>i. if i + 1 < ?m then Some ?d else None) [0..<n]"
    using reconnect_failures_exact [OF _ assms(2)] assms(1) by (simp add: ReconnectState_new_def)
  also have "\<dots> = replicate (min n (?m - 1)) (Some ?d) @ replicate (n - (?m - 1)) None"
    by (rule nth_equalityI) (auto simp: nth_append)
  finally show ?thesis .
qed

theorem reconnect_stops_witness:
  "fst (reconnect_failures 10 11 (ReconnectState_new relay_config_default)) = replicate 9 (Some 5) @ [None, None]"
proof -
  obtain ds s where run: "reconnect_failures 10 11 (ReconnectState_new relay_config_default) = (ds, s)"
    by fastforce
  have two: "replicate 2 None = [None, None :: nat option]"
    by (simp add: numeral_2_eq_2)
  show ?thesis
    using reconnect_stops [of 11 relay_config_default ds s] run two
    by (simp add: relay_config_default_def)
qed

section \<open>Hole punching and the choice of a transport\<close>

datatype HolePunchState = Idle | WaitingForCoordination | Connecting | Succeeded | Failed (retry_after_secs: nat)

definition HOLE_PUNCH_RETRY_SECS :: nat where "HOLE_PUNCH_RETRY_SECS = 300"

definition request_sent :: "HolePunchState \<Rightarrow> HolePunchState" where
  "request_sent s = WaitingForCoordination"
definition coordination_received :: "HolePunchState \<Rightarrow> HolePunchState" where
  "coordination_received s = Connecting"
definition connect_succeeded :: "HolePunchState \<Rightarrow> HolePunchState" where
  "connect_succeeded s = Succeeded"
definition connect_failed :: "HolePunchState \<Rightarrow> HolePunchState" where
  "connect_failed s = Failed HOLE_PUNCH_RETRY_SECS"

definition is_active :: "HolePunchState \<Rightarrow> bool" where
  "is_active s \<longleftrightarrow> s \<in> {WaitingForCoordination, Connecting}"

datatype TransportChoice = DirectTransport | RelayTransport

definition select_transport :: "bool \<Rightarrow> bool \<Rightarrow> bool \<Rightarrow> TransportChoice" where
  "select_transport prefer has_direct_connection relay_connected =
     (if prefer then RelayTransport
      else if has_direct_connection then DirectTransport
      else if relay_connected then RelayTransport
      else RelayTransport)"

text \<open>Whether the relay is connected decides nothing: without a direct link the relay is chosen.\<close>

lemma select_transport_direct:
  "select_transport prefer direct connected = DirectTransport \<longleftrightarrow> \<not> prefer \<and> direct"
  by (simp add: select_transport_def)

end
