(* ===== verification/Service_Lifecycle.thy ===== *)
theory Service_Lifecycle
  imports Gossip_Config Admission
begin

text \<open>
  Starting and stopping the service (\<open>service/gossip_service.rs\<close>): \<open>start\<close> and \<open>stop\<close>
  as the sequences of their steps, run alone (\<open>start\<close>, \<open>stop\<close>) and interleaved with each
  other, with inbound handshakes, with dials and with the tasks of the sessions
  (\<open>system_reach\<close>).

  What the operating system answers to the bind is an argument. \<open>alive\<close> holds the tasks whose
  handles the service keeps: the accept loop, the pool loop and the reaper. The tasks it keeps no
  handle of are counted apart: the inbound handshakes (spawned by the accept loop,
  \<open>connection/listener.rs\<close>), the \<open>connect_to\<close> calls their callers await, the forwarders of the
  sessions. A keepalive is known by the generation of its session, and its handle lies in the
  live slot. Spawning a task and storing its handle is one step, aborting and joining it is one
  step, and so is what a handshake or a dial does from its map insert on. Of a channel the state
  keeps whether its sender is present. The messages of errors are not kept.
\<close>

section \<open>State\<close>

datatype Lifecycle = LC_CONSTRUCTED | LC_RUNNING | LC_STOPPED

datatype task_kind = ListenerTask | PoolTask | ReaperTask

type_synonym task = "task_kind \<times> nat"

record gossip_service =
  lifecycle :: Lifecycle
  shared :: ServiceState
  inbound_open :: bool
  stop_signal :: bool
  listener_task :: "task option"
  pool_task :: "task option"
  reaper_task :: "task option"
  pool_events_open :: bool
  alive :: "task fset"
  next_task :: nat
  handshakes :: nat
  dials :: nat
  keepalives :: "nat fset"
  forwarders :: "nat fset"

definition constructed :: gossip_service where
  "constructed = \<lparr>lifecycle = LC_CONSTRUCTED, shared = service_new, inbound_open = False,
     stop_signal = False, listener_task = None, pool_task = None, reaper_task = None,
     pool_events_open = False, alive = {||}, next_task = 0,
     handshakes = 0, dials = 0, keepalives = {||}, forwarders = {||}\<rparr>"

definition set_lifecycle :: "Lifecycle \<Rightarrow> gossip_service \<Rightarrow> gossip_service" where
  "set_lifecycle l n =
     n\<lparr>lifecycle := l, shared := (shared n)\<lparr>svc_running := (l = LC_RUNNING)\<rparr>\<rparr>"

definition require_running :: "gossip_service \<Rightarrow> bool" where
  "require_running n \<longleftrightarrow> svc_running (shared n)"

definition health_check :: "gossip_service \<Rightarrow> bool" where
  "health_check n \<longleftrightarrow> require_running n"

text \<open>Subscribing to inbound messages: not running, or the sender is gone, is an error.\<close>

definition inbound_receiver :: "gossip_service \<Rightarrow> bool" where
  "inbound_receiver n \<longleftrightarrow> require_running n \<and> inbound_open n"

definition subscribe_pool_events :: "gossip_service \<Rightarrow> bool" where
  "subscribe_pool_events n \<longleftrightarrow> require_running n \<and> pool_events_open n"

section \<open>Steps\<close>

datatype act =
    Restore
  | SetAddr SocketAddr
  | OpenInbound
  | SetStop
  | SpawnListener
  | OpenEvents
  | SpawnPool
  | SpawnReaper
  | Swap
  | NotifyStop
  | AbortListener
  | AbortPool
  | CloseEvents
  | AbortReaper
  | ClearAddr
  | CloseInbound
  | DrainPeers "peer_id list"
  | ClearBans

definition spawn ::
    "task_kind \<Rightarrow> (task option \<Rightarrow> gossip_service \<Rightarrow> gossip_service) \<Rightarrow> gossip_service \<Rightarrow> gossip_service" where
  "spawn k store n =
     store (Some (k, next_task n))
       (n\<lparr>alive := finsert (k, next_task n) (alive n), next_task := next_task n + 1\<rparr>)"

definition abort :: "task option \<Rightarrow> gossip_service \<Rightarrow> gossip_service" where
  "abort t n = (case t of None \<Rightarrow> n | Some i \<Rightarrow> n\<lparr>alive := alive n |-| {|i|}\<rparr>)"

definition close_slots :: "peer_id list \<Rightarrow> peer_map \<Rightarrow> ServiceState \<Rightarrow> ServiceState" where
  "close_slots order m = fold (\<lambda>p. close_live (fmlookup m p)) order"

text \<open>The sessions whose keepalive handle lies in a slot of the map.\<close>

fun slot_session :: "MapSlot option \<Rightarrow> nat fset" where
  "slot_session (Some (LiveRow l)) = {|live_generation l|}"
| "slot_session _ = {||}"

definition live_sessions :: "peer_id list \<Rightarrow> peer_map \<Rightarrow> nat fset" where
  "live_sessions order m = fold (\<lambda>p g. g |\<union>| slot_session (fmlookup m p)) order {||}"

fun exec :: "act \<Rightarrow> gossip_service \<Rightarrow> gossip_service" where
  "exec Restore n = set_lifecycle LC_CONSTRUCTED n"
| "exec (SetAddr a) n = n\<lparr>shared := (shared n)\<lparr>svc_listen_bound_addr := Some a\<rparr>\<rparr>"
| "exec OpenInbound n = n\<lparr>inbound_open := True\<rparr>"
| "exec SetStop n = n\<lparr>stop_signal := True\<rparr>"
| "exec SpawnListener n = spawn ListenerTask (\<lambda>t n. n\<lparr>listener_task := t\<rparr>) n"
| "exec OpenEvents n = n\<lparr>pool_events_open := True\<rparr>"
| "exec SpawnPool n = spawn PoolTask (\<lambda>t n. n\<lparr>pool_task := t\<rparr>) n"
| "exec SpawnReaper n = spawn ReaperTask (\<lambda>t n. n\<lparr>reaper_task := t\<rparr>) n"
| "exec Swap n = set_lifecycle LC_STOPPED n"
| "exec NotifyStop n = n\<lparr>stop_signal := False\<rparr>"
| "exec AbortListener n = abort (listener_task n) (n\<lparr>listener_task := None\<rparr>)"
| "exec AbortPool n = abort (pool_task n) (n\<lparr>pool_task := None\<rparr>)"
| "exec CloseEvents n = n\<lparr>pool_events_open := False\<rparr>"
| "exec AbortReaper n = abort (reaper_task n) (n\<lparr>reaper_task := None\<rparr>)"
| "exec ClearAddr n = n\<lparr>shared := (shared n)\<lparr>svc_listen_bound_addr := None\<rparr>\<rparr>"
| "exec CloseInbound n = n\<lparr>inbound_open := False\<rparr>"
| "exec (DrainPeers order) n =
     n\<lparr>shared := close_slots order (svc_peers (shared n)) ((shared n)\<lparr>svc_peers := fmempty\<rparr>),
       keepalives := keepalives n |-| live_sessions order (svc_peers (shared n))\<rparr>"
| "exec ClearBans n = n\<lparr>shared := (shared n)\<lparr>svc_banned := fmempty, svc_penalties := fmempty, svc_chia_calls := []\<rparr>\<rparr>"

text \<open>What the bind comes to: an address, or the error of the socket or of \<open>local_addr\<close>.\<close>

datatype bind_result = Bound SocketAddr | BindFails

definition start_steps :: "bool \<Rightarrow> bind_result \<Rightarrow> act list" where
  "start_steps pool_configured b =
     (case b of
        BindFails \<Rightarrow> [Restore]
      | Bound a \<Rightarrow> [SetAddr a, OpenInbound, SetStop, SpawnListener, OpenEvents]
                     @ (if pool_configured then [SpawnPool] else []) @ [SpawnReaper])"

definition stop_steps :: "peer_id list \<Rightarrow> act list" where
  "stop_steps order = [Swap, NotifyStop, AbortListener, AbortPool, CloseEvents, AbortReaper, ClearAddr,
     CloseInbound, DrainPeers order, ClearBans]"

datatype start_error = BindError | AlreadyRunning | RestartForbidden

definition start :: "bool \<Rightarrow> bind_result \<Rightarrow> gossip_service \<Rightarrow> start_error option \<times> gossip_service" where
  "start pool_configured b n =
     (case lifecycle n of
        LC_CONSTRUCTED \<Rightarrow>
          ((case b of Bound _ \<Rightarrow> None | BindFails \<Rightarrow> Some BindError),
           fold exec (start_steps pool_configured b) (set_lifecycle LC_RUNNING n))
      | LC_RUNNING \<Rightarrow> (Some AlreadyRunning, n)
      | LC_STOPPED \<Rightarrow> (Some RestartForbidden, n))"

definition stop :: "peer_id list \<Rightarrow> gossip_service \<Rightarrow> gossip_service" where
  "stop order n = fold exec (stop_steps order) n"

section \<open>One call after another\<close>

text \<open>Between the calls the connections do what they do to the shared state, which never
  touches the lifecycle flag or the bound address, and handshakes, dials and session tasks begin
  and end.\<close>

datatype call = Start bind_result | Stop "peer_id list" | Work ServiceState

definition allowed_work :: "ServiceState \<Rightarrow> ServiceState \<Rightarrow> bool" where
  "allowed_work st st' \<longleftrightarrow> svc_running st' = svc_running st
     \<and> svc_listen_bound_addr st' = svc_listen_bound_addr st"

inductive session :: "bool \<Rightarrow> call list \<Rightarrow> start_error option list \<Rightarrow> gossip_service \<Rightarrow> bool"
  for pool :: bool where
  fresh: "session pool [] [] constructed"
| start: "session pool cs rs n \<Longrightarrow> start pool b n = (r, n') \<Longrightarrow> session pool (cs @ [Start b]) (rs @ [r]) n'"
| stop: "session pool cs rs n \<Longrightarrow> session pool (cs @ [Stop order]) rs (stop order n)"
| work: "session pool cs rs n \<Longrightarrow> allowed_work (shared n) st \<Longrightarrow>
    session pool (cs @ [Work st]) rs
      (n\<lparr>shared := st, handshakes := h, dials := d, keepalives := ks, forwarders := fs\<rparr>)"

lemma close_slots_frame [simp]:
  "svc_running (close_slots order m st) = svc_running st"
  "svc_peers (close_slots order m st) = svc_peers st"
  "svc_listen_bound_addr (close_slots order m st) = svc_listen_bound_addr st"
  "svc_banned (close_slots order m st) = svc_banned st"
  "svc_penalties (close_slots order m st) = svc_penalties st"
proof -
  have one: "svc_running (close_live s st) = svc_running st \<and> svc_peers (close_live s st) = svc_peers st
      \<and> svc_listen_bound_addr (close_live s st) = svc_listen_bound_addr st
      \<and> svc_banned (close_live s st) = svc_banned st \<and> svc_penalties (close_live s st) = svc_penalties st" for s st
    by (cases "(s, st)" rule: close_live.cases) simp_all
  have "svc_running (close_slots order m st) = svc_running st \<and> svc_peers (close_slots order m st) = svc_peers st
      \<and> svc_listen_bound_addr (close_slots order m st) = svc_listen_bound_addr st
      \<and> svc_banned (close_slots order m st) = svc_banned st
      \<and> svc_penalties (close_slots order m st) = svc_penalties st"
    by (induction order arbitrary: st) (simp_all add: close_slots_def one)
  then show "svc_running (close_slots order m st) = svc_running st"
    "svc_peers (close_slots order m st) = svc_peers st"
    "svc_listen_bound_addr (close_slots order m st) = svc_listen_bound_addr st"
    "svc_banned (close_slots order m st) = svc_banned st"
    "svc_penalties (close_slots order m st) = svc_penalties st"
    by simp_all
qed

text \<open>Of the accept loop, the pool loop and the reaper those run whose handles are kept, and
  outside a run there is none.\<close>

definition tasks_of :: "gossip_service \<Rightarrow> task set" where
  "tasks_of n = set_option (listener_task n) \<union> set_option (pool_task n) \<union> set_option (reaper_task n)"

definition at_rest :: "gossip_service \<Rightarrow> bool" where
  "at_rest n \<longleftrightarrow> alive n = {||} \<and> listener_task n = None \<and> pool_task n = None \<and> reaper_task n = None
     \<and> \<not> inbound_open n \<and> \<not> pool_events_open n \<and> \<not> stop_signal n \<and> svc_listen_bound_addr (shared n) = None"

definition lifecycle_ok :: "gossip_service \<Rightarrow> bool" where
  "lifecycle_ok n \<longleftrightarrow> fset (alive n) = tasks_of n
     \<and> svc_running (shared n) = (lifecycle n = LC_RUNNING)
     \<and> (lifecycle n \<noteq> LC_RUNNING \<longrightarrow> at_rest n)"

lemma stop_effect:
  assumes "fset (alive n) = tasks_of n"
  shows "at_rest (stop order n)" "lifecycle (stop order n) = LC_STOPPED" "\<not> svc_running (shared (stop order n))"
    and "svc_peers (shared (stop order n)) = fmempty" "svc_banned (shared (stop order n)) = fmempty"
    and "svc_penalties (shared (stop order n)) = fmempty"
  using assms
  by (auto simp: stop_def stop_steps_def set_lifecycle_def at_rest_def tasks_of_def abort_def split: option.split)

lemma start_effect:
  assumes "lifecycle_ok n" "start pool b n = (r, n')"
  shows "lifecycle_ok n'"
    and "lifecycle n = LC_STOPPED \<Longrightarrow> r = Some RestartForbidden \<and> n' = n"
  using assms
  by (auto simp: start_def start_steps_def lifecycle_ok_def at_rest_def tasks_of_def spawn_def set_lifecycle_def
      split: Lifecycle.splits bind_result.splits if_splits)

lemma session_ok: "session pool cs rs n \<Longrightarrow> lifecycle_ok n"
proof (induction rule: session.induct)
  case fresh
  then show ?case
    by (simp add: lifecycle_ok_def constructed_def at_rest_def tasks_of_def service_new_def)
next
  case (start cs rs n b r n')
  then show ?case using start_effect(1) by blast
next
  case (stop cs rs n order)
  then have "fset (alive n) = tasks_of n"
    by (simp add: lifecycle_ok_def)
  from stop_effect [OF this, of order] show ?case
    by (simp add: lifecycle_ok_def at_rest_def tasks_of_def)
next
  case (work cs rs n st h d ks fs)
  then show ?case
    by (auto simp: lifecycle_ok_def allowed_work_def at_rest_def tasks_of_def)
qed

definition starts_in :: "call list \<Rightarrow> nat" where
  "starts_in cs = length (filter (\<lambda>c. case c of Start _ \<Rightarrow> True | _ \<Rightarrow> False) cs)"

lemma starts_in_append [simp]: "starts_in (cs @ cs') = starts_in cs + starts_in cs'"
  by (simp add: starts_in_def)

lemma session_results: "session pool cs rs n \<Longrightarrow> length rs = starts_in cs"
  by (induction rule: session.induct) (simp_all add: starts_in_def)

lemma session_final:
  "session pool calls rs n \<Longrightarrow> calls = cs @ Stop order # cs' \<Longrightarrow>
     lifecycle n = LC_STOPPED \<and> set (drop (starts_in cs) rs) \<subseteq> {Some RestartForbidden}
     \<and> (cs' = [] \<longrightarrow> svc_peers (shared n) = fmempty \<and> svc_banned (shared n) = fmempty
          \<and> svc_penalties (shared n) = fmempty)"
proof (induction arbitrary: cs' rule: session.induct)
  case (start calls rs n b r n')
  then obtain cs'' where c: "calls = cs @ Stop order # cs''" "cs' = cs'' @ [Start b]"
    by (cases cs' rule: rev_cases) auto
  have "starts_in cs \<le> length rs"
    using session_results [OF start.hyps(1)] by (simp add: c(1))
  then show ?case
    using start.IH [OF c(1)] start_effect(2) [OF session_ok [OF start.hyps(1)] start.hyps(2)] c(2) by auto
next
  case (stop calls rs n ord)
  have ok: "fset (alive n) = tasks_of n"
    using session_ok [OF stop.hyps(1)] by (simp add: lifecycle_ok_def)
  show ?case
  proof (cases cs' rule: rev_cases)
    case Nil
    then have "calls = cs" using stop.prems by simp
    then show ?thesis
      using stop_effect [OF ok, of ord] session_results [OF stop.hyps(1)] by simp
  next
    case (snoc ys y)
    then have "calls = cs @ Stop order # ys" using stop.prems by simp
    then show ?thesis
      using stop.IH stop_effect(2) [OF ok, of ord] snoc by auto
  qed
next
  case (work calls rs n st h d ks fs)
  then obtain cs'' where "calls = cs @ Stop order # cs''" "cs' = cs'' @ [Work st]"
    by (cases cs' rule: rev_cases) auto
  then show ?case using work.IH by auto
qed simp

text \<open>What a stop leaves alone: the tasks and calls in flight it holds no handle of. Of the
  keepalives it aborts those of the peers it drains.\<close>

lemma stop_spares:
  "handshakes (stop order n) = handshakes n" "dials (stop order n) = dials n"
  "forwarders (stop order n) = forwarders n"
  "keepalives (stop order n) = keepalives n |-| live_sessions order (svc_peers (shared n))"
  by (auto simp: stop_def stop_steps_def set_lifecycle_def abort_def split: option.split)

lemma session_before_stop:
  "session pool calls rs n \<Longrightarrow> calls = cs @ [Stop order] \<Longrightarrow> \<exists>m. session pool cs rs m \<and> n = stop order m"
  by (cases rule: session.cases) auto

text \<open>
  C17: a stop is final, when the calls come one after another. Whatever was called before and after
  it, the service is stopped, its accept loop, pool loop and reaper do not run, its channels are
  closed, it has no bound address, and every later start is refused as a restart. Right after the
  stop it holds no peer, no ban and no penalty, and the keepalives of the peers it held are
  aborted, but the handshakes, dials and forwarders in flight are those that were.
\<close>

theorem stop_is_final:
  assumes "session pool (cs @ Stop order # cs') rs n"
  shows "lifecycle n = LC_STOPPED \<and> at_rest n \<and> \<not> require_running n
    \<and> set (drop (starts_in cs) rs) \<subseteq> {Some RestartForbidden}
    \<and> (cs' = [] \<longrightarrow> svc_peers (shared n) = fmempty \<and> svc_banned (shared n) = fmempty
         \<and> svc_penalties (shared n) = fmempty
         \<and> (\<exists>m. session pool cs rs m \<and> n = stop order m
              \<and> keepalives n = keepalives m |-| live_sessions order (svc_peers (shared m))
              \<and> handshakes n = handshakes m \<and> dials n = dials m \<and> forwarders n = forwarders m))"
proof -
  have "\<exists>m. session pool cs rs m \<and> n = stop order m" if "cs' = []"
    using session_before_stop [OF assms] that by simp
  then show ?thesis
    using session_final [OF assms refl] session_ok [OF assms]
    by (metis lifecycle_ok_def require_running_def stop_spares Lifecycle.distinct(6))
qed

theorem stop_is_final_witness:
  "at_rest (snd (start False (Bound (SocketAddr (V4 [1, 2, 3, 4]) 5))
     (stop [] (snd (start False (Bound (SocketAddr (V4 [1, 2, 3, 4]) 5)) constructed)))))"
proof -
  let ?b = "Bound (SocketAddr (V4 [1, 2, 3, 4]) 5)"
  obtain r n where one: "start False ?b constructed = (r, n)" by fastforce
  obtain r' n' where two: "start False ?b (stop [] n) = (r', n')" by fastforce
  have "session False (([] @ [Start ?b]) @ [Stop []]) ([] @ [r]) (stop [] n)"
    by (rule session.stop, rule session.start, rule session.fresh, rule one)
  from session.start [OF this two] have "session False ([Start ?b] @ Stop [] # [Start ?b]) ([r] @ [r']) n'"
    by simp
  from stop_is_final [OF this] show ?thesis
    by (simp add: one two)
qed

section \<open>Sessions\<close>

text \<open>
  A session that enters the map: its keepalive and, when there is an inbound channel, its
  forwarder are spawned, and the keepalive of the session it supersedes is aborted.
\<close>

definition start_session :: "nat \<Rightarrow> MapSlot option \<Rightarrow> gossip_service \<Rightarrow> gossip_service" where
  "start_session g superseded n =
     n\<lparr>keepalives := finsert g (keepalives n |-| slot_session superseded),
       forwarders := (if inbound_open n then finsert g (forwarders n) else forwarders n)\<rparr>"

text \<open>The end of an inbound handshake, and of a dial.\<close>

definition handshake_joins :: "peer_id \<Rightarrow> SocketAddr \<Rightarrow> gossip_service \<Rightarrow> gossip_service" where
  "handshake_joins p addr n =
     start_session (svc_peer_generation (shared n)) (fmlookup (svc_peers (shared n)) p)
       (n\<lparr>shared := listener_insert p addr (shared n), handshakes := handshakes n - 1\<rparr>)"

definition dial_joins ::
    "ServiceConfig \<Rightarrow> peer_id \<Rightarrow> SocketAddr \<Rightarrow> nat \<Rightarrow> gossip_service \<Rightarrow> gossip_service" where
  "dial_joins cfg p addr now n =
     (let (r, st) = connect_admit cfg p addr now (shared n);
          m = n\<lparr>shared := st, dials := dials n - 1\<rparr>
      in case r of
           Inl _ \<Rightarrow> m
         | Inr _ \<Rightarrow> start_session (svc_peer_generation (shared n)) (fmlookup (svc_peers (shared n)) p) m)"

lemma session_frame [simp]:
  "lifecycle (start_session g s n) = lifecycle n" "shared (start_session g s n) = shared n"
  "lifecycle (handshake_joins p addr n) = lifecycle n"
  "shared (handshake_joins p addr n) = listener_insert p addr (shared n)"
  "lifecycle (dial_joins cfg p addr now n) = lifecycle n"
  "shared (dial_joins cfg p addr now n) = snd (connect_admit cfg p addr now (shared n))"
  by (simp_all add: start_session_def handshake_joins_def dial_joins_def Let_def split: prod.split sum.split)

section \<open>Calls at the same time\<close>

text \<open>
  The state: the service, the calls of \<open>start\<close> and \<open>stop\<close> that run, each with its remaining steps,
  and what has happened so far. A start that loses the compare-and-exchange changes nothing and
  needs no step. A task whose loop finds the service not running ends by itself, the accept loop
  when the next connection arrives; the accept loop also ends when it is notified and when it gets
  no TLS acceptor. At most \<open>H\<close> handshakes are in flight, any number of dials.
\<close>

datatype happened = StartWon | BindFailed | StopReturned

type_synonym system = "gossip_service \<times> act list list \<times> happened list"

definition logs_of :: "act list \<Rightarrow> happened list" where
  "logs_of steps = (if steps = [ClearBans] then [StopReturned] else [])"

inductive system_reach :: "bool \<Rightarrow> ServiceConfig \<Rightarrow> nat \<Rightarrow> system \<Rightarrow> bool"
  for pool :: bool and cfg :: ServiceConfig and H :: nat where
  initial: "system_reach pool cfg H (constructed, [], [])"
| start_begins: "\<lbrakk>system_reach pool cfg H (n, ts, log); lifecycle n = LC_CONSTRUCTED\<rbrakk> \<Longrightarrow>
    system_reach pool cfg H (set_lifecycle LC_RUNNING n, start_steps pool b # ts,
      log @ [case b of Bound _ \<Rightarrow> StartWon | BindFails \<Rightarrow> BindFailed])"
| stop_begins: "system_reach pool cfg H (n, ts, log) \<Longrightarrow>
    system_reach pool cfg H (n, stop_steps order # ts, log)"
| step: "system_reach pool cfg H (n, xs @ (a # as) # ys, log) \<Longrightarrow>
    system_reach pool cfg H (exec a n, xs @ as # ys, log @ logs_of (a # as))"
| accepts: "\<lbrakk>system_reach pool cfg H (n, ts, log); (ListenerTask, i) |\<in>| alive n;
      accept_gate cfg H (handshakes n) (shared n)\<rbrakk> \<Longrightarrow>
    system_reach pool cfg H (n\<lparr>handshakes := handshakes n + 1\<rparr>, ts, log)"
| handshake_ends: "\<lbrakk>system_reach pool cfg H (n, ts, log); 0 < handshakes n\<rbrakk> \<Longrightarrow>
    system_reach pool cfg H (handshake_joins p addr n, ts, log)"
| handshake_drops: "\<lbrakk>system_reach pool cfg H (n, ts, log); 0 < handshakes n\<rbrakk> \<Longrightarrow>
    system_reach pool cfg H (n\<lparr>handshakes := handshakes n - 1\<rparr>, ts, log)"
| dial_begins: "\<lbrakk>system_reach pool cfg H (n, ts, log); connect_precheck cfg addr (shared n) = None\<rbrakk> \<Longrightarrow>
    system_reach pool cfg H (n\<lparr>dials := dials n + 1\<rparr>, ts, log)"
| dial_ends: "\<lbrakk>system_reach pool cfg H (n, ts, log); 0 < dials n\<rbrakk> \<Longrightarrow>
    system_reach pool cfg H (dial_joins cfg p addr now n, ts, log)"
| dial_drops: "\<lbrakk>system_reach pool cfg H (n, ts, log); 0 < dials n\<rbrakk> \<Longrightarrow>
    system_reach pool cfg H (n\<lparr>dials := dials n - 1\<rparr>, ts, log)"
| session_task_ends: "system_reach pool cfg H (n, ts, log) \<Longrightarrow>
    system_reach pool cfg H
      (n\<lparr>keepalives := keepalives n |-| {|g|}, forwarders := forwarders n |-| {|g'|}\<rparr>, ts, log)"
| works: "\<lbrakk>system_reach pool cfg H (n, ts, log); allowed_work (shared n) st\<rbrakk> \<Longrightarrow>
    system_reach pool cfg H (n\<lparr>shared := st\<rparr>, ts, log)"
| task_exits: "\<lbrakk>system_reach pool cfg H (n, ts, log); lifecycle n \<noteq> LC_RUNNING \<or> fst t = ListenerTask\<rbrakk> \<Longrightarrow>
    system_reach pool cfg H (n\<lparr>alive := alive n |-| {|t|}\<rparr>, ts, log)"

definition restores :: "act list list \<Rightarrow> nat" where
  "restores ts = length (filter (\<lambda>t. Restore \<in> set t) ts)"

lemma restores_simps [simp]:
  "restores [] = 0" "restores (t # ts) = (if Restore \<in> set t then 1 else 0) + restores ts"
  "restores (xs @ ys) = restores xs + restores ys"
  by (simp_all add: restores_def)

lemma exec_lifecycle:
  "lifecycle (exec a n) = (case a of Restore \<Rightarrow> LC_CONSTRUCTED | Swap \<Rightarrow> LC_STOPPED | _ \<Rightarrow> lifecycle n)"
  by (cases a) (simp_all add: set_lifecycle_def spawn_def abort_def split: option.split)

lemma start_steps_restore: "Restore \<in> set (start_steps pool b) \<longleftrightarrow> b = BindFails"
  by (cases b) (simp_all add: start_steps_def)

lemma stop_steps_restore: "Restore \<notin> set (stop_steps order)"
  by (simp add: stop_steps_def)

text \<open>A start restores at most once: nothing follows its restoring step.\<close>

definition restore_last :: "act list list \<Rightarrow> bool" where
  "restore_last ts \<longleftrightarrow> (\<forall>t \<in> set ts. Restore \<in> set t \<longrightarrow> t = [Restore])"

definition won :: "happened list \<Rightarrow> nat" where
  "won log = length (filter (\<lambda>e. e = StartWon) log)"

lemma won_append [simp]: "won (xs @ ys) = won xs + won ys" "won (logs_of t) = 0" "won [] = 0"
  "won [StartWon] = 1" "won [BindFailed] = 0"
  by (simp_all add: won_def logs_of_def)

lemma system_invariant:
  "system_reach pool cfg H s \<Longrightarrow>
     (case s of (n, ts, log) \<Rightarrow> restores ts + won log \<le> 1 \<and> restore_last ts
        \<and> (lifecycle n = LC_CONSTRUCTED \<longrightarrow> restores ts + won log = 0))"
proof (induction rule: system_reach.induct)
  case (start_begins n ts log b)
  then show ?case
    by (cases b) (auto simp: start_steps_restore restore_last_def set_lifecycle_def, auto simp: start_steps_def)
next
  case (stop_begins n ts log order)
  then show ?case by (simp add: stop_steps_restore restore_last_def)
next
  case (step n xs a as ys log)
  then have last: "Restore \<in> set (a # as) \<Longrightarrow> a # as = [Restore]"
    by (simp add: restore_last_def)
  show ?case
  proof (cases "a = Restore")
    case True
    then show ?thesis
      using step.IH last by (auto simp: restore_last_def exec_lifecycle)
  next
    case False
    then have "Restore \<notin> set as" using last by auto
    then show ?thesis
      using step.IH False by (auto simp: restore_last_def exec_lifecycle split: act.splits)
  qed
qed (simp_all add: restore_last_def constructed_def)

text \<open>
  C14: only one start ever succeeds. However any number of starts and stops interleave, and
  whatever binds fail in between, at most one start passes the guard with a bind that works.
\<close>

theorem one_start_succeeds:
  assumes "system_reach pool cfg H (n, ts, log)"
  shows "won log \<le> 1 \<and> (won log = 1 \<longrightarrow> lifecycle n \<noteq> LC_CONSTRUCTED)"
  using system_invariant [OF assms] by auto

text \<open>Running one call of a system to its end.\<close>

lemma run_thread:
  "system_reach pool cfg H (n, xs @ as # ys, log) \<Longrightarrow>
     system_reach pool cfg H (fold exec as n, xs @ [] # ys,
       log @ (if as \<noteq> [] \<and> last as = ClearBans then [StopReturned] else []))"
proof (induction as arbitrary: n log)
  case (Cons a as)
  from Cons.IH [OF system_reach.step [OF Cons.prems]] show ?case
    by (auto simp: logs_of_def split: if_splits)
qed simp

theorem one_start_succeeds_witness:
  "\<exists>n ts. system_reach False (service_config node_config) 1 (n, ts, [StartWon]) \<and> lifecycle n \<noteq> LC_CONSTRUCTED"
proof -
  have "system_reach False (service_config node_config) 1
      (set_lifecycle LC_RUNNING constructed, [start_steps False (Bound (SocketAddr (V4 [1, 2, 3, 4]) 5))], [StartWon])"
    using system_reach.start_begins [OF system_reach.initial, where b = "Bound (SocketAddr (V4 [1, 2, 3, 4]) 5)"]
    by (simp add: constructed_def)
  from one_start_succeeds [OF this] this show ?thesis
    by (metis won_append(4))
qed

lemma whole_stop:
  assumes "system_reach pool cfg H (n, ts, log)"
  shows "system_reach pool cfg H (stop order n, [] # ts, log @ [StopReturned])"
  using run_thread [of pool cfg H n "[]" "stop_steps order" ts log] system_reach.stop_begins [OF assms]
  by (simp add: stop_def stop_steps_def del: exec.simps)

lemma whole_start:
  assumes "system_reach pool cfg H (n, ts, log)" "lifecycle n = LC_CONSTRUCTED"
  shows "system_reach pool cfg H (snd (start pool (Bound a) n), [] # ts, log @ [StartWon])"
  using run_thread [of pool cfg H _ "[]" "start_steps pool (Bound a)" ts] assms
    system_reach.start_begins [OF assms, of "Bound a"]
  by (force simp: start_def start_steps_def simp del: exec.simps)

lemma stop_leaves: "lifecycle (stop order n) = LC_STOPPED" "svc_peers (shared (stop order n)) = fmempty"
  "svc_listen_bound_addr (shared (stop order n)) = None"
  by (auto simp: stop_def stop_steps_def set_lifecycle_def abort_def split: option.split)

text \<open>The steps a start still has to make, on a service that is stopped.\<close>

lemma late_start_steps:
  fixes pool a n k
  defines "late \<equiv> fold exec (drop k (start_steps pool (Bound a))) n"
  shows "lifecycle late = lifecycle n"
    and "k < length (start_steps pool (Bound a)) \<Longrightarrow> \<exists>i. (ReaperTask, i) |\<in>| alive late \<and> reaper_task late = Some (ReaperTask, i)"
    and "k \<le> 3 \<Longrightarrow> \<exists>i. (ListenerTask, i) |\<in>| alive late \<and> listener_task late = Some (ListenerTask, i)"
    and "k = 0 \<Longrightarrow> svc_listen_bound_addr (shared late) = Some a"
proof -
  have "k \<in> {0, 1, 2, 3, 4, 5, 6} \<or> 7 \<le> k" by auto
  then show "lifecycle late = lifecycle n"
    and "k < length (start_steps pool (Bound a)) \<Longrightarrow> \<exists>i. (ReaperTask, i) |\<in>| alive late \<and> reaper_task late = Some (ReaperTask, i)"
    and "k \<le> 3 \<Longrightarrow> \<exists>i. (ListenerTask, i) |\<in>| alive late \<and> listener_task late = Some (ListenerTask, i)"
    and "k = 0 \<Longrightarrow> svc_listen_bound_addr (shared late) = Some a"
    by (auto simp: late_def start_steps_def spawn_def)
qed

lemma stop_aborts:
  assumes "listener_task n = Some t \<or> reaper_task n = Some t"
  shows "t |\<notin>| alive (stop order n)"
  using assms by (auto simp: stop_def stop_steps_def set_lifecycle_def abort_def split: option.split)

lemma join_after_stop:
  "fmlookup (svc_peers (listener_insert p addr st)) p \<noteq> None"
  "svc_peers st = fmempty \<Longrightarrow> fmlookup (svc_peers (snd (connect_admit cfg p addr now st))) p \<noteq> None"
proof -
  show "fmlookup (svc_peers (listener_insert p addr st)) p \<noteq> None"
    by (simp add: listener_insert_def next_peer_generation_def Let_def)
  assume none: "svc_peers st = fmempty"
  then have "outbound_diversity_conflict (svc_peers st) (cfg_as_table cfg) p (sa_ip addr) False = None"
    by (simp add: outbound_diversity_conflict_def any_slot_iff split: option.split)
  then show "fmlookup (svc_peers (snd (connect_admit cfg p addr now st))) p \<noteq> None"
    using none
    by (simp add: connect_admit_def next_peer_generation_def insert_and_retire_def announce_admission_def Let_def)
qed

lemma finished_after_stop:
  assumes "system_reach pool cfg H (n, xs @ as # ys, log)"
    and rest: "as = drop k (start_steps pool (Bound a))" "as \<noteq> []"
  shows "let late = fold exec as (stop order n)
     in system_reach pool cfg H (late, [] # xs @ [] # ys, log @ [StopReturned])
        \<and> lifecycle late = LC_STOPPED
        \<and> (\<exists>i. (ReaperTask, i) |\<in>| alive late \<and> (ReaperTask, i) |\<notin>| alive (stop order' late))
        \<and> (k \<le> 3 \<longrightarrow> (\<exists>i. (ListenerTask, i) |\<in>| alive late \<and> (ListenerTask, i) |\<notin>| alive (stop order' late)))
        \<and> (k = 0 \<longrightarrow> svc_listen_bound_addr (shared late) = Some a)
        \<and> svc_listen_bound_addr (shared (stop order' late)) = None"
proof -
  let ?late = "fold exec as (stop order n)"
  have more: "last (start_steps pool (Bound a)) \<noteq> ClearBans" "k < length (start_steps pool (Bound a))"
    using rest by (auto simp: start_steps_def)
  then have "system_reach pool cfg H (?late, [] # xs @ [] # ys, log @ [StopReturned])"
    using run_thread [of pool cfg H "stop order n" "[] # xs" as ys] whole_stop [OF assms(1), of order] rest by simp
  then show ?thesis
    using late_start_steps [where n = "stop order n" and k = k and pool = pool and a = a] stop_aborts more(2) rest
    unfolding Let_def by (metis stop_leaves(1,3))
qed


abbreviation local_addr :: SocketAddr where
  "local_addr \<equiv> SocketAddr (V4 [1, 2, 3, 4]) 5"

abbreviation reached :: "system \<Rightarrow> bool" where
  "reached \<equiv> system_reach False (service_config node_config) 1"

lemma begun: "reached (set_lifecycle LC_RUNNING constructed, [start_steps False b],
    [case b of Bound _ \<Rightarrow> StartWon | BindFails \<Rightarrow> BindFailed])"
  using system_reach.start_begins [OF system_reach.initial, of False "service_config node_config" 1 b]
  by (simp add: constructed_def)

lemma serving:
  "\<exists>n. reached (n, [[]], [StartWon]) \<and> 0 < handshakes n \<and> 0 < dials n"
proof -
  let ?up = "snd (start False (Bound local_addr) constructed)"
  let ?met = "?up\<lparr>handshakes := handshakes ?up + 1\<rparr>"
  have "reached (?up, [[]], [StartWon])"
    using whole_start [OF system_reach.initial] by (simp add: constructed_def)
  moreover have "(ListenerTask, 0) |\<in>| alive ?up"
    "accept_gate (service_config node_config) 1 (handshakes ?up) (shared ?up)"
    by (simp_all add: start_def start_steps_def set_lifecycle_def spawn_def constructed_def accept_gate_def
        service_new_def service_config_def node_config_def gossip_config_default_def map_len_def fcard.rep_eq)
  ultimately have "reached (?met, [[]], [StartWon])"
    by (rule system_reach.accepts)
  moreover have "connect_precheck (service_config node_config) (SocketAddr (V4 [7, 7, 7, 7]) 9) (shared ?met) = None"
    by (simp add: start_def start_steps_def set_lifecycle_def spawn_def constructed_def connect_precheck_def
        dial_targets_local_listen_def
        service_new_def service_config_def node_config_def gossip_config_default_def map_len_def fcard.rep_eq)
  ultimately have "reached (?met\<lparr>dials := dials ?met + 1\<rparr>, [[]], [StartWon])"
    by (rule system_reach.dial_begins)
  then show ?thesis
    by (rule exI [where x = "?met\<lparr>dials := dials ?met + 1\<rparr>", OF conjI]) simp
qed


end
