(* ===== verification/Pool_Maintenance.thy ===== *)
theory Pool_Maintenance
  imports Relay_Discovery Select_Peer Admission_Caps
begin

text \<open>
  The pool's own connections (\<open>service/gossip_handle.rs\<close>): candidates drawn from the address
  manager (\<open>gather_pool_candidates_with_local\<close>), the production dialer (\<open>HandleDialer\<close>)
  and \<open>run_pool_maintenance_once\<close>, which plans and dials them.

  Reaching a peer is the work of the \<open>dig_nat\<close> crate and an argument (\<open>pe_connect\<close>), as
  are the clock and the orders in which the maps are visited; each is read at a step of the pass,
  which the pass counts. No other task runs during a pass here; what other tasks may do to the peer
  map is \<open>node_run\<close> of \<open>Admission_Caps\<close>.
\<close>

section \<open>Candidates\<close>

definition connected_remotes :: "ServiceState \<Rightarrow> SocketAddr fset" where
  "connected_remotes st = (\<lambda>p. slot_remote (the (fmlookup (svc_peers st) p))) |`| fmdom (svc_peers st)"

text \<open>What is drawn at one attempt: \<open>None\<close> is an empty book. The address manager reads the
  clock at each draw.\<close>

fun gather_loop ::
    "net_env \<Rightarrow> 'r rng_ops \<Rightarrow> (slot fset \<Rightarrow> slot list) \<Rightarrow> (nat \<Rightarrow> nat) \<Rightarrow> ServiceConfig \<Rightarrow> ServiceState \<Rightarrow> Inner
      \<Rightarrow> nat \<Rightarrow> nat \<Rightarrow> nat \<Rightarrow> SocketAddr fset \<Rightarrow> SocketAddr list \<Rightarrow> 'r \<Rightarrow> (SocketAddr list \<times> 'r) option" where
  "gather_loop env rng order clock cfg st am want i 0 seen out s = Some (out, s)"
| "gather_loop env rng order clock cfg st am want i (Suc n) seen out s =
     (if want \<le> length out then Some (out, s)
      else do {
        (sel, s) \<leftarrow> select_peer_inner rng order (i mod 2 = 1) (clock i) am s;
        (case sel of
           None \<Rightarrow> Some (out, s)
         | Some ext \<Rightarrow>
             (case parse_ip env (pi_host (peer_info ext)) of
                None \<Rightarrow> gather_loop env rng order clock cfg st am want (i + 1) n seen out s
              | Some ip \<Rightarrow>
                  (let addr = SocketAddr ip (pi_port (peer_info ext))
                   in if addr |\<in>| seen \<or> addr |\<in>| connected_remotes st \<or> dial_targets_local_listen cfg addr st
                      then gather_loop env rng order clock cfg st am want (i + 1) n seen out s
                      else gather_loop env rng order clock cfg st am want (i + 1) n
                             (finsert addr seen) (out @ [addr]) s)))})"

definition max_gather_attempts :: "nat \<Rightarrow> nat" where
  "max_gather_attempts want = max (sat_mul64 want 8) 16"

definition pin_candidate :: "(SocketAddr, peer_id) fmap \<Rightarrow> SocketAddr \<Rightarrow> PoolCandidate" where
  "pin_candidate discovered addr =
     (case fmlookup discovered addr of Some pid \<Rightarrow> candidate_with_id pid addr | None \<Rightarrow> candidate_from_addr addr)"

definition gather_pool_candidates_with_local ::
    "net_env \<Rightarrow> 'r rng_ops \<Rightarrow> (slot fset \<Rightarrow> slot list) \<Rightarrow> (nat \<Rightarrow> nat) \<Rightarrow> ServiceConfig \<Rightarrow> 'f list \<Rightarrow> (SocketAddr \<Rightarrow> 'f)
      \<Rightarrow> nat \<Rightarrow> ServiceState \<Rightarrow> relay_book \<Rightarrow> 'r \<Rightarrow> (PoolCandidate list \<times> 'r) option" where
  "gather_pool_candidates_with_local env rng order clock cfg families family_of want st rb s =
     do { (out, s) \<leftarrow> gather_loop env rng order clock cfg st (rb_manager rb) want 0 (max_gather_attempts want) {||} [] s;
          Some (map (pin_candidate (rb_discovered rb)) (order_by_local_stack families family_of out), s) }"

section \<open>The dialer\<close>

record pass_env =
  pe_connect :: "nat \<Rightarrow> peer_id \<Rightarrow> SocketAddr option \<Rightarrow> string + NatConn"
  pe_clock :: "nat \<Rightarrow> nat"
  pe_bans :: "nat \<Rightarrow> peer_id list"
  pe_order :: "nat \<Rightarrow> peer_id list"

text \<open>The world of a pass: how many dials it has made, and the service without its pool.\<close>

type_synonym pass_world = "nat \<times> ServiceState"

definition handle_dial :: "pass_env \<Rightarrow> ServiceConfig \<Rightarrow> pass_world dialer" where
  "handle_dial pe cfg cand = (\<lambda>((k, st), pool).
     (case cand_peer_id cand of
        None \<Rightarrow> (Inl ''candidate has no discovered peer_id to pin the mTLS SPKI; skipping'', (k + 1, st), pool)
      | Some target \<Rightarrow>
          (if \<not> svc_running st then (Inl ''service not started'', (k + 1, st), pool)
           else case pe_connect pe k target (cand_addr cand) of
                  Inl e \<Rightarrow> (Inl e, (k + 1, st), pool)
                | Inr conn \<Rightarrow>
                    (case admit_nat_connection cfg (pe_bans pe k) (pe_order pe k) (pe_clock pe k) conn Maintained
                            (st\<lparr>svc_pool := pool\<rparr>) of
                       (Inl e, st) \<Rightarrow> (Inl ''refused'', (k + 1, st), svc_pool st)
                     | (Inr a, st) \<Rightarrow> (Inr (adm_peer_id a), (k + 1, st), svc_pool st)))))"

section \<open>One maintenance pass\<close>

definition run_pool_maintenance_once ::
    "net_env \<Rightarrow> 'r rng_ops \<Rightarrow> (slot fset \<Rightarrow> slot list) \<Rightarrow> (nat \<Rightarrow> nat) \<Rightarrow> ServiceConfig \<Rightarrow> 'f list \<Rightarrow> (SocketAddr \<Rightarrow> 'f)
      \<Rightarrow> (peer_id \<Rightarrow> bytes) \<Rightarrow> pass_env \<Rightarrow> relay_book \<Rightarrow> 'r \<Rightarrow> (nat \<times> relay_book \<times> 'r) option" where
  "run_pool_maintenance_once env rng order clock cfg families family_of to_hex pe rb s =
     (case cfg_peer_pool cfg of
        None \<Rightarrow> Some (0, rb, s)
      | Some pool_cfg \<Rightarrow>
          (let pool_cfg = normalized pool_cfg;
               st = prune_expired_dig_bans (pe_bans pe 0) (pe_clock pe 0) (rb_service rb);
               direct_connected = map_len (svc_peers st);
               relay_reachable = relay_reachable_excluding_connected to_hex st;
               connected = direct_connected + relay_reachable;
               connected_keys = connected_pool_keys (pe_order pe 0) st;
               now = pe_clock pe 1;
               budget = free_slot_budget_with_direct_floor direct_connected relay_reachable
                          (in_flight_count (svc_pool st)) pool_cfg
           in do {
             (candidates, s) \<leftarrow> gather_pool_candidates_with_local env rng order clock cfg families family_of
                                  (max (sat_mul64 budget 2) budget) st rb s;
             let (n, (k, st'), pool) = run_maintenance_pass (handle_dial pe cfg) (pe_clock pe \<circ> fst) pool_cfg
                   connected direct_connected connected_keys candidates now ((2, st), svc_pool st);
             Some (n, rb\<lparr>rb_service := st'\<lparr>svc_pool := pool\<rparr>\<rparr>, s) }))"


section \<open>Which addresses become candidates\<close>

text \<open>An address of the book that is neither held nor this node's own.\<close>

definition known_address :: "net_env \<Rightarrow> Inner \<Rightarrow> SocketAddr \<Rightarrow> bool" where
  "known_address env am a \<longleftrightarrow> (\<exists>i row. fmlookup (map_info am) i = Some row
     \<and> parse_ip env (pi_host (peer_info row)) = Some (sa_ip a) \<and> pi_port (peer_info row) = sa_port a)"

definition worth_dialling :: "net_env \<Rightarrow> ServiceConfig \<Rightarrow> ServiceState \<Rightarrow> Inner \<Rightarrow> SocketAddr \<Rightarrow> bool" where
  "worth_dialling env cfg st am a \<longleftrightarrow> known_address env am a \<and> a |\<notin>| connected_remotes st
     \<and> \<not> dial_targets_local_listen cfg a st"

lemma drawn_row:
  assumes "select_peer_inner rng order new_only now st s = Some (Some info, s')"
  shows "\<exists>i. fmlookup (map_info st) i = Some info"
  using assms select_loop_sound
  by (fastforce simp: select_peer_inner_def split: if_splits prod.splits)

lemma gather_loop_sound:
  assumes "gather_loop env rng order clock cfg st am want i n seen out s = Some (out', s')"
    and "fset seen = set out" "distinct out" "length out \<le> want" "\<forall>a \<in> set out. worth_dialling env cfg st am a"
  shows "distinct out' \<and> length out' \<le> want \<and> (\<forall>a \<in> set out'. worth_dialling env cfg st am a)"
  using assms
proof (induction env rng order clock cfg st am want i n seen out s rule: gather_loop.induct)
  case (2 env rng order clock cfg st am want i n seen out s)
  show ?case
  proof (cases "want \<le> length out")
    case False
    then obtain sel s1 where draw: "select_peer_inner rng order (i mod 2 = 1) (clock i) am s = Some (sel, s1)"
      using "2.prems"(1) by (auto simp: bind_eq_Some_conv)
    show ?thesis
    proof (cases sel)
      case (Some ext)
      have row: "\<exists>k. fmlookup (map_info am) k = Some ext"
        by (rule drawn_row [OF draw [unfolded Some]])
      show ?thesis
      proof (cases "parse_ip env (pi_host (peer_info ext))")
        case None
        then show ?thesis
          using "2.IH"(1) [OF False draw refl Some None] "2.prems" False draw Some by simp
      next
        case (Some ip)
        let ?a = "SocketAddr ip (pi_port (peer_info ext))"
        let ?skip = "?a |\<in>| seen \<or> ?a |\<in>| connected_remotes st \<or> dial_targets_local_listen cfg ?a st"
        show ?thesis
        proof (cases ?skip)
          case True
          then show ?thesis
            using "2.IH"(2) [OF False draw refl \<open>sel = Some ext\<close> Some refl True] "2.prems" False draw
              \<open>sel = Some ext\<close> Some by simp
        next
          case skip: False
          then have "worth_dialling env cfg st am ?a" "?a \<notin> set out"
            using row Some "2.prems"(2) by (auto simp: worth_dialling_def known_address_def)
          then show ?thesis
            using "2.IH"(3) [OF False draw refl \<open>sel = Some ext\<close> Some refl skip] "2.prems" False draw
              \<open>sel = Some ext\<close> Some skip by (simp add: Let_def)
        qed
      qed
    qed (use "2.prems" False draw in simp)
  qed (use "2.prems" in simp)
qed simp

lemma order_by_local_stack_distinct:
  assumes "distinct families" "distinct out"
  shows "distinct (order_by_local_stack families family_of out)"
  using assms
  by (induction families) (auto simp: order_by_local_stack_def)

lemma order_by_local_stack_grouped:
  "map family_of (order_by_local_stack families family_of out)
     = concat (map (\<lambda>f. replicate (length (filter (\<lambda>a. family_of a = f) out)) f) families)"
proof -
  have "map family_of (filter (\<lambda>a. family_of a = f) out) = replicate (length (filter (\<lambda>a. family_of a = f) out)) f" for f
    by (induction out) auto
  then show ?thesis by (induction families) (auto simp: order_by_local_stack_def)
qed

lemma gathered_sound:
  assumes "gather_pool_candidates_with_local env rng order clock cfg families family_of want st rb s = Some (cs, s')"
    and "distinct families"
  shows "length cs \<le> want \<and> distinct (map cand_addr cs)
    \<and> (\<forall>c \<in> set cs. \<exists>a. cand_addr c = Some a \<and> worth_dialling env cfg st (rb_manager rb) a
         \<and> family_of a \<in> set families \<and> cand_peer_id c = fmlookup (rb_discovered rb) a)
    \<and> (\<exists>ns. map (family_of \<circ> the \<circ> cand_addr) cs = concat (map (\<lambda>f. replicate (ns f) f) families))"
proof -
  obtain out where loop: "gather_loop env rng order clock cfg st (rb_manager rb) want 0 (max_gather_attempts want) {||} [] s
      = Some (out, s')"
    and cs: "cs = map (pin_candidate (rb_discovered rb)) (order_by_local_stack families family_of out)"
    using assms(1) by (auto simp: gather_pool_candidates_with_local_def bind_eq_Some_conv)
  let ?os = "order_by_local_stack families family_of out"
  have out: "distinct out" "length out \<le> want" "\<forall>a \<in> set out. worth_dialling env cfg st (rb_manager rb) a"
    using gather_loop_sound [OF loop] by simp_all
  have addr: "cand_addr (pin_candidate m a) = Some a" "cand_peer_id (pin_candidate m a) = fmlookup m a" for m a
    by (auto simp: pin_candidate_def candidate_with_id_def candidate_from_addr_def split: option.split)
  have os: "distinct ?os" "set ?os \<subseteq> set out"
    using order_by_local_stack_distinct [OF assms(2) out(1)] by (auto simp: order_by_local_stack_members)
  then have "length ?os \<le> want"
    using out(1,2) card_mono [OF finite_set os(2)] by (simp add: distinct_card)
  moreover have "map cand_addr cs = map Some ?os"
    by (simp add: cs addr)
  moreover from this have "distinct (map cand_addr cs)"
    using os(1) by (simp add: distinct_map)
  moreover have "map (family_of \<circ> the \<circ> cand_addr) cs = map family_of ?os"
    by (simp add: cs addr)
  ultimately show ?thesis
    using out(3) addr order_by_local_stack_members [of families family_of out]
      order_by_local_stack_grouped [of family_of families out]
    by (auto simp: cs)
qed


text \<open>
  C39: which candidates a pass is given. There are at most as many as were asked for, no address
  twice, each of them an address of the book that no connected peer uses and that is not this
  node's own, of a family the host speaks, grouped by family in the host's order; a candidate is
  pinned to the identity the relay announced for exactly that address, and to none otherwise.
\<close>

theorem gathered_candidates_sound:
  assumes "gather_pool_candidates_with_local env rng order clock cfg families family_of want st rb s = Some (cs, s')"
    and "distinct families"
  shows "length cs \<le> want \<and> distinct (map cand_addr cs)
    \<and> (\<forall>c \<in> set cs. \<exists>a. cand_addr c = Some a \<and> worth_dialling env cfg st (rb_manager rb) a
         \<and> family_of a \<in> set families \<and> cand_peer_id c = fmlookup (rb_discovered rb) a)
    \<and> (\<exists>ns. map (family_of \<circ> the \<circ> cand_addr) cs = concat (map (\<lambda>f. replicate (ns f) f) families))"
  using assms by (rule gathered_sound)

section \<open>What a pass connects\<close>

lemma prune_listen [simp]:
  "svc_listen_bound_addr (prune_expired_dig_bans order now st) = svc_listen_bound_addr st"
proof -
  have "svc_listen_bound_addr (fold (\<lambda>(p, ip). prune_one p ip) es s) = svc_listen_bound_addr s" for es s
    by (induction es arbitrary: s) (auto simp: prune_one_def Let_def)
  then show ?thesis by (simp add: prune_expired_dig_bans_def Let_def)
qed

lemma banned_at_frame:
  assumes "is_peer_id_banned_at bans p now st = (b, st')"
  shows "svc_peers st' = svc_peers st" "svc_pool st' = svc_pool st" "svc_running st' = svc_running st"
  using arg_cong [OF assms, of snd] by (auto simp: is_peer_id_banned_at_def Let_def)

lemma maintained_admission:
  assumes "admit_nat_connection cfg bans order now conn Maintained st = (r, st')"
  shows "svc_peers st' = svc_peers st \<and> svc_pool st' = svc_pool st \<and> svc_running st' = svc_running st \<and> (\<exists>e. r = Inl e)
    \<or> fmdom (svc_peers st') = finsert (nc_peer_id conn) (fmdom (svc_peers st))
      \<and> svc_pool st' = publish (PeerAdded (nc_peer_id conn) (nc_remote conn)) now (svc_pool st)
      \<and> svc_running st' = svc_running st \<and> r = Inr \<lparr>adm_peer_id = nc_peer_id conn, adm_displaced = None\<rparr>"
proof -
  obtain b st1 where ban: "is_peer_id_banned_at bans (nc_peer_id conn) now st = (b, st1)" by fastforce
  show ?thesis
    using assms banned_at_frame [OF ban]
    by (cases b)
      (auto simp: admit_nat_connection_def ban admit_locked_def insert_and_retire_def announce_admission_def Let_def
        split: if_splits option.splits)
qed

lemma handle_dial_cases:
  assumes "handle_dial pe cfg c ((k, st), pool) = (res, (k', st'), pool')"
  shows "svc_peers st' = svc_peers st \<and> pool' = pool \<and> (\<exists>e. res = Inl e)
    \<or> (\<exists>p conn. cand_peer_id c = Some p \<and> pe_connect pe k p (cand_addr c) = Inr conn \<and> res = Inr (nc_peer_id conn)
        \<and> fmdom (svc_peers st') = finsert (nc_peer_id conn) (fmdom (svc_peers st))
        \<and> pool' = publish (PeerAdded (nc_peer_id conn) (nc_remote conn)) (pe_clock pe k) pool)"
proof (cases "cand_peer_id c")
  case (Some p)
  show ?thesis
  proof (cases "pe_connect pe k p (cand_addr c)")
    case (Inr conn)
    obtain r st1 where admit: "admit_nat_connection cfg (pe_bans pe k) (pe_order pe k) (pe_clock pe k) conn Maintained
        (st\<lparr>svc_pool := pool\<rparr>) = (r, st1)" by fastforce
    have dialled: "\<not> svc_running st \<and> res = Inl ''service not started'' \<and> st' = st \<and> pool' = pool
        \<or> (case r of Inl _ \<Rightarrow> res = Inl ''refused'' | Inr a \<Rightarrow> res = Inr (adm_peer_id a)) \<and> st' = st1 \<and> pool' = svc_pool st1"
      using assms by (auto simp: handle_dial_def Some Inr admit split: if_splits sum.splits)
    from maintained_admission [OF admit] show ?thesis
    proof (elim disjE conjE exE)
      fix e
      assume "svc_peers st1 = svc_peers (st\<lparr>svc_pool := pool\<rparr>)" "svc_pool st1 = svc_pool (st\<lparr>svc_pool := pool\<rparr>)" "r = Inl e"
      then show ?thesis using dialled by auto
    next
      assume "fmdom (svc_peers st1) = finsert (nc_peer_id conn) (fmdom (svc_peers (st\<lparr>svc_pool := pool\<rparr>)))"
        "svc_pool st1 = publish (PeerAdded (nc_peer_id conn) (nc_remote conn)) (pe_clock pe k) (svc_pool (st\<lparr>svc_pool := pool\<rparr>))"
        "r = Inr \<lparr>adm_peer_id = nc_peer_id conn, adm_displaced = None\<rparr>"
      then show ?thesis using dialled Some Inr by auto
    qed
  qed (use assms in \<open>auto simp: handle_dial_def Some split: if_splits\<close>)
qed (use assms in \<open>auto simp: handle_dial_def\<close>)

lemma handle_dial_frames: "frames (handle_dial pe cfg)"
  unfolding frames_def
proof (intro allI)
  fix c and w :: pass_world and pool
  obtain k st res k' st' pool' where w: "w = (k, st)"
    and dial: "handle_dial pe cfg c ((k, st), pool) = (res, (k', st'), pool')"
    by (metis prod.exhaust)
  show "pool_in_flight (snd (snd (handle_dial pe cfg c (w, pool)))) = pool_in_flight pool
      \<and> pool_backoff (snd (snd (handle_dial pe cfg c (w, pool)))) = pool_backoff pool"
    using handle_dial_cases [OF dial] by (auto simp: w dial)
qed

text \<open>\<open>dig_nat\<close> verifies the identity it is given: a connection is with the peer asked for.\<close>

definition pins_identity :: "pass_env \<Rightarrow> bool" where
  "pins_identity pe \<longleftrightarrow> (\<forall>k p a conn. pe_connect pe k p a = Inr conn \<longrightarrow> nc_peer_id conn = p)"

text \<open>Over the dials of a plan: whoever is new was a pinned candidate, and nobody leaves.\<close>

lemma run_dials_peers:
  assumes "run_dials (handle_dial pe cfg) clock pool_cfg now cands added ((k, st), pool) = (n, (k', st'), pool')"
    and "pins_identity pe"
  shows "fset (fmdom (svc_peers st)) \<subseteq> fset (fmdom (svc_peers st'))
    \<and> fset (fmdom (svc_peers st')) \<subseteq> fset (fmdom (svc_peers st)) \<union> {p. \<exists>c \<in> set cands. cand_peer_id c = Some p}
    \<and> n \<le> added + length (filter (\<lambda>c. cand_peer_id c \<noteq> None) cands) \<and> added \<le> n
    \<and> map_len (svc_peers st') \<le> map_len (svc_peers st) + (n - added)
    \<and> (n = added \<longrightarrow> svc_peers st' = svc_peers st)"
  using assms(1)
proof (induction cands arbitrary: added k st pool)
  case (Cons c cs)
  obtain ok pool1 where res: "reserve (dedup_key c) pool = (ok, pool1)" by fastforce
  show ?case
  proof (cases ok)
    case False
    then show ?thesis
      using Cons.IH [of added k st pool1] Cons.prems res by fastforce
  next
    case True
    obtain r k1 st1 pool2 where dial: "handle_dial pe cfg c ((k, st), pool1) = (r, (k1, st1), pool2)"
      by (metis prod.exhaust)
    obtain added1 pool3 where settle: "settle_dial clock pool_cfg now c r (k1, st1) (added, release (dedup_key c) pool2)
        = (added1, pool3)" by fastforce
    have rest: "run_dials (handle_dial pe cfg) clock pool_cfg now cs added1 ((k1, st1), pool3) = (n, (k', st'), pool')"
      using Cons.prems res True dial settle by simp
    have count: "added1 = added + (case r of Inr _ \<Rightarrow> 1 | Inl _ \<Rightarrow> 0)"
      using settle by (auto simp: settle_dial_def Let_def split: sum.splits)
    note later = Cons.IH [OF rest]
    from handle_dial_cases [OF dial] show ?thesis
    proof (elim disjE conjE exE)
      fix e assume "svc_peers st1 = svc_peers st" "r = Inl e"
      then show ?thesis using later count by auto
    next
      fix p conn
      assume c: "cand_peer_id c = Some p" and "pe_connect pe k p (cand_addr c) = Inr conn" "r = Inr (nc_peer_id conn)"
        and dom: "fmdom (svc_peers st1) = finsert (nc_peer_id conn) (fmdom (svc_peers st))"
      then have "nc_peer_id conn = p" "added1 = added + 1"
        using assms(2) count by (simp_all add: pins_identity_def)
      moreover have "map_len (svc_peers st1) \<le> map_len (svc_peers st) + 1"
        by (simp add: map_len_def dom fcard_finsert_if)
      ultimately show ?thesis using later dom c by auto
    qed
  qed
qed simp


lemma maintenance_pass_peers:
  assumes "run_maintenance_pass (handle_dial pe cfg) clock pool_cfg connected direct keys cands now ((k, st), pool)
      = (n, (k', st'), pool')"
    and "pins_identity pe"
  shows "fset (fmdom (svc_peers st)) \<subseteq> fset (fmdom (svc_peers st'))"
    and "p |\<in>| fmdom (svc_peers st') \<Longrightarrow> p |\<notin>| fmdom (svc_peers st) \<Longrightarrow> \<exists>c \<in> set cands. cand_peer_id c = Some p"
    and "\<forall>c \<in> set cands. cand_peer_id c = None \<Longrightarrow> n = 0 \<and> svc_peers st' = svc_peers st"
    and "direct + in_flight_count pool \<le> u64_max \<Longrightarrow> direct \<le> connected \<Longrightarrow>
      n \<le> max_peers (normalized pool_cfg) - (direct + in_flight_count pool)"
    and "map_len (svc_peers st') \<le> map_len (svc_peers st) + n"
proof -
  define snap where "snap = \<lparr>snap_connected = connected, snap_direct_connected = direct,
      snap_in_flight = in_flight_count pool, snap_connected_keys = keys, snap_candidates = cands,
      snap_backoff = pool_backoff pool, snap_now = now\<rparr>"
  let ?dials = "to_dial (plan_pass snap pool_cfg)"
  have run: "run_dials (handle_dial pe cfg) clock pool_cfg now ?dials 0 ((k, st), pool) = (n, (k', st'), pool')"
    using assms(1) by (simp add: run_maintenance_pass_def snap_def)
  note peers = run_dials_peers [OF run assms(2)]
  have sub: "set ?dials \<subseteq> set cands"
    using plan_pass_dials(1) by (fastforce simp: snap_def)
  show "fset (fmdom (svc_peers st)) \<subseteq> fset (fmdom (svc_peers st'))" "map_len (svc_peers st') \<le> map_len (svc_peers st) + n"
    using peers by simp_all
  show "\<exists>c \<in> set cands. cand_peer_id c = Some p" if "p |\<in>| fmdom (svc_peers st')" "p |\<notin>| fmdom (svc_peers st)"
    using peers sub that by blast
  show "n = 0 \<and> svc_peers st' = svc_peers st" if "\<forall>c \<in> set cands. cand_peer_id c = None"
  proof -
    have "filter (\<lambda>c. cand_peer_id c \<noteq> None) ?dials = []"
      using that sub by (auto simp: filter_empty_conv)
    then show ?thesis using peers by simp
  qed
  show "n \<le> max_peers (normalized pool_cfg) - (direct + in_flight_count pool)"
    if "direct + in_flight_count pool \<le> u64_max" "direct \<le> connected"
  proof -
    have "n \<le> length ?dials"
      using peers le_trans [OF _ length_filter_le] by auto
    also have "\<dots> \<le> planned_slots snap pool_cfg"
      using plan_pass_len [of snap pool_cfg] by (simp add: plan_pass_eq)
    also have "\<dots> \<le> max_peers (normalized pool_cfg) - (direct + in_flight_count pool)"
      using that by (rule pool_budget(1)) (simp_all add: snap_def)
    finally show ?thesis .
  qed
qed

lemma maintenance_once_pass:
  assumes "run_pool_maintenance_once env rng order clock cfg families family_of to_hex pe rb s = Some (n, rb', s')"
    and "cfg_peer_pool cfg = Some pool_cfg"
  obtains st want cands s1 connected keys now k' st' pool'
  where "svc_peers st = svc_peers (rb_service rb)" "svc_pool st = svc_pool (rb_service rb)"
    "svc_listen_bound_addr st = svc_listen_bound_addr (rb_service rb)"
    "gather_pool_candidates_with_local env rng order clock cfg families family_of want st rb s = Some (cands, s1)"
    "map_len (svc_peers st) \<le> connected"
    "run_maintenance_pass (handle_dial pe cfg) (pe_clock pe \<circ> fst) (normalized pool_cfg) connected
       (map_len (svc_peers st)) keys cands now ((2, st), svc_pool st) = (n, (k', st'), pool')"
    "rb_service rb' = st'\<lparr>svc_pool := pool'\<rparr>"
proof -
  define st where "st = prune_expired_dig_bans (pe_bans pe 0) (pe_clock pe 0) (rb_service rb)"
  define relay where "relay = relay_reachable_excluding_connected to_hex st"
  define budget where "budget = free_slot_budget_with_direct_floor (map_len (svc_peers st)) relay
      (in_flight_count (svc_pool st)) (normalized pool_cfg)"
  let ?want = "max (sat_mul64 budget 2) budget"
  let ?keys = "connected_pool_keys (pe_order pe 0) st"
  obtain cands s1 where gather: "gather_pool_candidates_with_local env rng order clock cfg families family_of ?want st rb s
      = Some (cands, s1)"
    using assms by (auto simp: run_pool_maintenance_once_def Let_def bind_eq_Some_conv st_def budget_def relay_def)
  obtain n1 k' st' pool' where pass: "run_maintenance_pass (handle_dial pe cfg) (pe_clock pe \<circ> fst) (normalized pool_cfg)
      (map_len (svc_peers st) + relay) (map_len (svc_peers st)) ?keys cands (pe_clock pe 1) ((2, st), svc_pool st)
      = (n1, (k', st'), pool')"
    by (metis prod.exhaust)
  have "n1 = n" "rb' = rb\<lparr>rb_service := st'\<lparr>svc_pool := pool'\<rparr>\<rparr>"
    using assms gather pass
    unfolding run_pool_maintenance_once_def budget_def relay_def st_def by (simp_all add: Let_def)
  with gather pass show thesis
    by (intro that [of st ?want cands s1 "map_len (svc_peers st) + relay" ?keys "pe_clock pe 1" k' st' pool'])
      (simp_all add: st_def)
qed

text \<open>
  C16: whom the pool connects by itself. A pass drops nobody; a peer it adds was announced by the
  relay under an address of the book that no peer held and that is not this node's own; it never
  fills the map beyond the configured maximum; and a node that no relay has told an identity adds
  no peer at all, whatever addresses it has learned from introducer, DNS and peers.
\<close>

theorem maintenance_connects_announced:
  assumes "run_pool_maintenance_once env rng order clock cfg families family_of to_hex pe rb s = Some (n, rb', s')"
    and "cfg_peer_pool cfg = Some pool_cfg" "distinct families" "pins_identity pe"
    and "map_len (svc_peers (rb_service rb)) + in_flight_count (svc_pool (rb_service rb)) \<le> u64_max"
  shows "fset (fmdom (svc_peers (rb_service rb))) \<subseteq> fset (fmdom (svc_peers (rb_service rb')))
    \<and> (\<forall>p. p |\<in>| fmdom (svc_peers (rb_service rb')) \<and> p |\<notin>| fmdom (svc_peers (rb_service rb)) \<longrightarrow>
         (\<exists>a. fmlookup (rb_discovered rb) a = Some p
            \<and> worth_dialling env cfg (rb_service rb) (rb_manager rb) a))
    \<and> map_len (svc_peers (rb_service rb'))
        \<le> max (map_len (svc_peers (rb_service rb))) (max_peers (normalized pool_cfg))
    \<and> (rb_discovered rb = fmempty \<longrightarrow> n = 0 \<and> svc_peers (rb_service rb') = svc_peers (rb_service rb))"
proof -
  obtain st want cands s1 connected keys now k' st' pool'
    where st: "svc_peers st = svc_peers (rb_service rb)" "svc_pool st = svc_pool (rb_service rb)"
      "svc_listen_bound_addr st = svc_listen_bound_addr (rb_service rb)"
    and gather: "gather_pool_candidates_with_local env rng order clock cfg families family_of want st rb s = Some (cands, s1)"
    and direct: "map_len (svc_peers st) \<le> connected"
    and pass: "run_maintenance_pass (handle_dial pe cfg) (pe_clock pe \<circ> fst) (normalized pool_cfg) connected
       (map_len (svc_peers st)) keys cands now ((2, st), svc_pool st) = (n, (k', st'), pool')"
    and rb': "rb_service rb' = st'\<lparr>svc_pool := pool'\<rparr>"
    using maintenance_once_pass [OF assms(1,2)] by metis
  note peers = maintenance_pass_peers [OF pass assms(4)]
  have worth: "worth_dialling env cfg st am a = worth_dialling env cfg (rb_service rb) am a" for am a
    by (simp add: worth_dialling_def connected_remotes_def dial_targets_local_listen_def st)
  note cands = gathered_sound [OF gather assms(3)]
  have "\<exists>a. fmlookup (rb_discovered rb) a = Some p \<and> worth_dialling env cfg (rb_service rb) (rb_manager rb) a"
    if "p |\<in>| fmdom (svc_peers st')" "p |\<notin>| fmdom (svc_peers st)" for p
    using peers(2) [OF that] cands by (metis worth)
  moreover have "n = 0 \<and> svc_peers st' = svc_peers st" if "rb_discovered rb = fmempty"
    using cands that by (intro peers(3)) fastforce
  moreover have "map_len (svc_peers st') \<le> max (map_len (svc_peers st)) (max_peers (normalized pool_cfg))"
    using peers(4,5) direct assms(5) st by auto
  ultimately show ?thesis
    using peers(1) st(1) rb' by auto
qed


text \<open>A book of one address, a generator that always picks it, and a relay that announced it.\<close>

definition lone_row :: ExtendedPeerInfo where
  "lone_row = \<lparr>peer_info = \<lparr>pi_host = [1, 2, 3, 4], pi_port = 5\<rparr>, ep_timestamp = 0,
     ep_src = \<lparr>pi_host = [9], pi_port = 1\<rparr>, ep_random_pos = Some 0, is_tried = False, ref_count = 1,
     last_success = 0, last_try = 0, num_attempts = 0, last_count_attempt = 0\<rparr>"

definition lone_address :: SocketAddr where
  "lone_address = SocketAddr (V4 [1, 2, 3, 4]) 5"

definition lone_book :: relay_book where
  "lone_book = fresh_book\<lparr>rb_discovered := fmupd lone_address [7] fmempty,
     rb_manager := Inner_new []\<lparr>new_count := 1, random_pos := [0], new_matrix := (\<lambda>pos. if pos = (0, 0) then 0 else EMPTY),
       used_new_matrix_positions := {|(0, 0)|}, map_info := fmupd 0 lone_row fmempty\<rparr>\<rparr>"

definition lucky :: "unit rng_ops" where
  "lucky = \<lparr>below = (\<lambda>n s. (0, s)), any_usize = (\<lambda>s. (0, s)), any_u32 = (\<lambda>s. (0, s))\<rparr>"

lemma lucky_draw:
  "select_peer_inner lucky sorted_list_of_fset new_only 5000 (rb_manager lone_book) () = Some (Some lone_row, ())"
proof -
  have *: "select_loop (Suc k) lucky (new_view sorted_list_of_fset (rb_manager lone_book))
      (map_info (rb_manager lone_book)) 5000 1 () = Some (Some lone_row, ())" for k
    by (simp add: lone_book_def new_view_def fcard.rep_eq sorted_list_of_fset.rep_eq NEW_SQRT_SLOTS_def pick_cell_def lucky_def
        selection_threshold_def get_selection_chance_def f64_to_u32_def lone_row_def EMPTY_def)
  from * [of 49999] show ?thesis
    by (simp add: select_peer_inner_def tried_coin_def lone_book_def Inner_new_def MAX_SELECT_ITERS_def)
qed

lemma lone_address_drawn:
  "SocketAddr (V4 (pi_host (peer_info lone_row))) (pi_port (peer_info lone_row)) = lone_address"
  by (simp add: lone_row_def lone_address_def)

lemma lucky_gather:
  assumes "connected_remotes st = {||}" "\<not> dial_targets_local_listen cfg lone_address st" "0 < want"
  shows "gather_pool_candidates_with_local text_env lucky sorted_list_of_fset (\<lambda>_. 5000) cfg [True] (\<lambda>_. True) want st lone_book ()
    = Some ([candidate_with_id [7] lone_address], ())"
proof -
  have again: "gather_loop text_env lucky sorted_list_of_fset (\<lambda>_. 5000) cfg st (rb_manager lone_book) want i n {|lone_address|}
      [lone_address] () = Some ([lone_address], ())" for i n
    by (induction n arbitrary: i) (simp_all add: lucky_draw text_env_def lone_address_drawn Let_def)
  obtain n where "max_gather_attempts want = Suc n"
    by (cases "max_gather_attempts want") (simp_all add: max_gather_attempts_def)
  then have "gather_loop text_env lucky sorted_list_of_fset (\<lambda>_. 5000) cfg st (rb_manager lone_book) want 0
      (max_gather_attempts want) {||} [] () = Some ([lone_address], ())"
    using assms again by (simp add: lucky_draw text_env_def lone_address_drawn Let_def)
  then show ?thesis
    by (simp add: gather_pool_candidates_with_local_def order_by_local_stack_def pin_candidate_def lone_book_def)
qed

lemma lone_node:
  "connected_remotes service_new = {||}" "\<not> dial_targets_local_listen base_relay_config lone_address service_new"
  by (simp_all add: connected_remotes_def dial_targets_local_listen_def service_new_def base_relay_config_def lone_address_def)

theorem gathered_candidates_sound_witness:
  "worth_dialling text_env base_relay_config service_new (rb_manager lone_book) lone_address"
  using gathered_candidates_sound [OF lucky_gather [OF lone_node, of 1]]
  by (simp add: candidate_with_id_def)

definition lone_pass :: pass_env where
  "lone_pass = \<lparr>pe_connect = (\<lambda>_ p a. case a of Some addr \<Rightarrow> Inr \<lparr>nc_peer_id = p, nc_remote = addr, nc_relayed = False,
       nc_transport = Owned 0\<rparr> | None \<Rightarrow> Inl ''no address''),
     pe_clock = (\<lambda>k. k), pe_bans = (\<lambda>_. []), pe_order = (\<lambda>_. [])\<rparr>"

definition pooled :: ServiceConfig where
  "pooled = base_relay_config\<lparr>cfg_peer_pool := Some pool_config_default\<rparr>"

theorem maintenance_connects_announced_witness:
  "\<exists>n rb s. run_pool_maintenance_once text_env lucky sorted_list_of_fset (\<lambda>_. 5000) pooled [True] (\<lambda>_. True) id lone_pass
       lone_book () = Some (n, rb, s)
     \<and> fset (fmdom (svc_peers (rb_service rb))) \<subseteq> {[7]} \<and> map_len (svc_peers (rb_service rb)) \<le> 16"
proof -
  let ?st = "prune_expired_dig_bans [] 0 service_new"
  have st: "?st = service_new"
    by (simp add: prune_expired_dig_bans_def expired_bans_def List.map_filter_def service_new_def Let_def)
  have new: "svc_peers service_new = fmempty" "svc_pool service_new = PoolState_new"
    by (simp_all add: service_new_def)
  have empty: "relay_reachable_excluding_connected id service_new = 0" "in_flight_count PoolState_new = 0"
    by (auto simp: relay_reachable_excluding_connected_def service_new_def in_flight_count_def PoolState_new_def fcard.rep_eq)
  have idle: "\<not> dial_targets_local_listen pooled lone_address service_new"
    using lone_node(2) by (simp add: dial_targets_local_listen_def pooled_def)
  have slots: "free_slot_budget_with_direct_floor 0 0 0 pool_config_default = 8"
    by (simp add: free_slot_budget_with_direct_floor_def free_slot_budget_def min_direct_peers_def sat_add64_def
        u64_max_def normalized_default Let_def)
  have parts: "cfg_peer_pool pooled = Some pool_config_default" "pe_bans lone_pass 0 = []" "pe_clock lone_pass 0 = 0"
    "rb_service lone_book = service_new" "sat_mul64 8 2 = 16" "rb_discovered lone_book = fmupd lone_address [7] fmempty"
    by (simp_all add: pooled_def lone_pass_def lone_book_def fresh_book_def sat_mul64_def u64_max_def)
  have "\<exists>n rb s. run_pool_maintenance_once text_env lucky sorted_list_of_fset (\<lambda>_. 5000) pooled [True] (\<lambda>_. True) id lone_pass
       lone_book () = Some (n, rb, s)"
    by (simp add: run_pool_maintenance_once_def parts st new empty normalized_default map_len_def fcard_fempty slots
        lucky_gather [OF lone_node(1) idle] Let_def split: prod.split)
  then obtain n rb s where run: "run_pool_maintenance_once text_env lucky sorted_list_of_fset (\<lambda>_. 5000) pooled [True]
      (\<lambda>_. True) id lone_pass lone_book () = Some (n, rb, s)" by blast
  have "pins_identity lone_pass"
    by (auto simp: pins_identity_def lone_pass_def split: option.splits)
  then have "(\<forall>p. p |\<in>| fmdom (svc_peers (rb_service rb)) \<longrightarrow> p = [7]) \<and> map_len (svc_peers (rb_service rb)) \<le> 16"
    using maintenance_connects_announced [OF run parts(1)]
    by (auto simp: parts(4,6) new empty map_len_def fcard_fempty normalized_default split: if_splits)
  then show ?thesis using run by blast
qed

section \<open>Announced twice\<close>

text \<open>Both the admission and the pass publish the new peer, so a subscriber is told of it twice.\<close>

lemma auto_dial_announced_twice:
  assumes "run_dials (handle_dial pe cfg) clock pool_cfg now [c] added ((k, st), pool) = (added + 1, (k', st'), pool')"
    and "pool_events pool = Some evs" "cand_addr c = Some addr"
  shows "\<exists>p remote. pool_events pool' = Some (evs @ [PeerAdded p remote, PeerAdded p addr])"
proof -
  obtain ok pool1 where res: "reserve (dedup_key c) pool = (ok, pool1)" by fastforce
  obtain r k1 st1 pool2 where dial: "handle_dial pe cfg c ((k, st), pool1) = (r, (k1, st1), pool2)"
    by (metis prod.exhaust)
  have ok: "ok" "pool_events pool1 = Some evs"
    using assms(1,2) res by (auto simp: reserve_def split: if_splits bool.splits)
  from handle_dial_cases [OF dial] show ?thesis
    using assms(1,3) res dial ok
    by (elim disjE)
      (auto simp: settle_dial_def publish_def record_admission_def record_success_def release_def Let_def
        split: sum.splits option.splits)
qed

end
