(* ===== verification/Introducer.thy ===== *)
theory Introducer
  imports Handshake
begin

text \<open>
  The introducer side: the vetted-peer list (\<open>discovery/introducer_peers.rs\<close>) and the
  exchange of its client (\<open>discovery/introducer_client.rs\<close>).

  A \<open>HashSet\<close> whose elements compare by host and port is a finite map from that pair. The
  signed counter is an \<open>int\<close> with the bounds of \<open>i32\<close> written out. The clock is an
  argument of the operations that read it.
\<close>

section \<open>Vetted peers\<close>

type_synonym vetted_key = "bytes \<times> u16"

record VettedPeer =
  vp_host :: bytes
  vp_port :: u16
  vetted :: int
  vetted_timestamp :: nat
  last_attempt :: nat
  time_added :: nat

type_synonym IntroducerPeers = "(vetted_key, VettedPeer) fmap"

definition i32_max :: int where "i32_max = 2 ^ 31 - 1"
definition i32_min :: int where "i32_min = - (2 ^ 31)"

definition introducer_peers_new :: IntroducerPeers where
  "introducer_peers_new = fmempty"

definition vetted_add :: "bytes \<Rightarrow> u16 \<Rightarrow> nat \<Rightarrow> IntroducerPeers \<Rightarrow> bool \<times> IntroducerPeers" where
  "vetted_add host port now peers =
     (if port = 0 then (False, peers)
      else if fmlookup peers (host, port) \<noteq> None then (False, peers)
      else (True, fmupd (host, port)
             \<lparr>vp_host = host, vp_port = port, vetted = 0, vetted_timestamp = 0, last_attempt = 0, time_added = now\<rparr>
             peers))"

definition vetted_remove :: "bytes \<Rightarrow> u16 \<Rightarrow> IntroducerPeers \<Rightarrow> bool \<times> IntroducerPeers" where
  "vetted_remove host port peers = (fmlookup peers (host, port) \<noteq> None, fmdrop (host, port) peers)"

definition vetted_take :: "bytes \<Rightarrow> u16 \<Rightarrow> IntroducerPeers \<Rightarrow> VettedPeer option \<times> IntroducerPeers" where
  "vetted_take host port peers = (fmlookup peers (host, port), fmdrop (host, port) peers)"

definition vetted_insert :: "VettedPeer \<Rightarrow> IntroducerPeers \<Rightarrow> IntroducerPeers" where
  "vetted_insert v peers = fmupd (vp_host v, vp_port v) v peers"

definition vetted_success :: "bytes \<Rightarrow> u16 \<Rightarrow> nat \<Rightarrow> IntroducerPeers \<Rightarrow> IntroducerPeers" where
  "vetted_success host port now peers =
     (case vetted_take host port peers of
        (None, peers) \<Rightarrow> peers
      | (Some v, peers) \<Rightarrow>
          vetted_insert (v\<lparr>vetted := if vetted v < 0 then 1 else min (vetted v + 1) i32_max,
                           vetted_timestamp := now, last_attempt := now\<rparr>) peers)"

definition vetted_failure :: "bytes \<Rightarrow> u16 \<Rightarrow> nat \<Rightarrow> IntroducerPeers \<Rightarrow> IntroducerPeers" where
  "vetted_failure host port now peers =
     (case vetted_take host port peers of
        (None, peers) \<Rightarrow> peers
      | (Some v, peers) \<Rightarrow>
          vetted_insert (v\<lparr>vetted := if 0 < vetted v then - 1 else max (vetted v - 1) i32_min,
                           last_attempt := now\<rparr>) peers)"

definition get_vetted_peers :: "IntroducerPeers \<Rightarrow> vetted_key fset" where
  "get_vetted_peers peers =
     ffilter (\<lambda>k. case fmlookup peers k of Some v \<Rightarrow> 0 < vetted v | None \<Rightarrow> False) (fmdom peers)"

definition vetted_len :: "IntroducerPeers \<Rightarrow> nat" where
  "vetted_len peers = fcard (fmdom peers)"

definition vetted_is_empty :: "IntroducerPeers \<Rightarrow> bool" where
  "vetted_is_empty peers \<longleftrightarrow> peers = fmempty"

section \<open>The counter is the current streak\<close>

datatype vet_op =
    VetAdd bytes u16 nat | VetRemove bytes u16 | VetSuccess bytes u16 nat | VetFailure bytes u16 nat

fun vet_step :: "vet_op \<Rightarrow> IntroducerPeers \<Rightarrow> IntroducerPeers" where
  "vet_step (VetAdd h p now) peers = snd (vetted_add h p now peers)"
| "vet_step (VetRemove h p) peers = snd (vetted_remove h p peers)"
| "vet_step (VetSuccess h p now) peers = vetted_success h p now peers"
| "vet_step (VetFailure h p now) peers = vetted_failure h p now peers"

text \<open>The reference keeps, for one address, the outcomes of its probes since it was added, the latest
  first.\<close>

fun vet_history :: "vetted_key \<Rightarrow> vet_op \<Rightarrow> bool list option \<Rightarrow> bool list option" where
  "vet_history k (VetAdd h p now) past = (if (h, p) = k \<and> p \<noteq> 0 \<and> past = None then Some [] else past)"
| "vet_history k (VetRemove h p) past = (if (h, p) = k then None else past)"
| "vet_history k (VetSuccess h p now) past = (if (h, p) = k then map_option (Cons True) past else past)"
| "vet_history k (VetFailure h p now) past = (if (h, p) = k then map_option (Cons False) past else past)"

text \<open>The length of the run of equal outcomes at the head, negative for failures.\<close>

definition signed_streak :: "bool list \<Rightarrow> int" where
  "signed_streak past =
     (case past of [] \<Rightarrow> 0
      | True # _ \<Rightarrow> int (length (takeWhile (\<lambda>b. b) past))
      | False # _ \<Rightarrow> - int (length (takeWhile Not past)))"

definition saturated :: "int \<Rightarrow> int" where
  "saturated n = max i32_min (min n i32_max)"

lemma streak_True: "signed_streak (True # past) = (if signed_streak past < 0 then 1 else signed_streak past + 1)"
  by (cases past) (auto simp: signed_streak_def split: list.split bool.split)

lemma streak_False: "signed_streak (False # past) = (if 0 < signed_streak past then - 1 else signed_streak past - 1)"
  by (cases past) (auto simp: signed_streak_def split: list.split bool.split)

definition vet_agree :: "vetted_key \<Rightarrow> IntroducerPeers \<Rightarrow> bool list option \<Rightarrow> bool" where
  "vet_agree k peers past \<longleftrightarrow>
     (case (fmlookup peers k, past) of
        (None, None) \<Rightarrow> True
      | (Some v, Some outcomes) \<Rightarrow> (vp_host v, vp_port v) = k \<and> vetted v = saturated (signed_streak outcomes)
      | _ \<Rightarrow> False)"

definition keyed :: "IntroducerPeers \<Rightarrow> bool" where
  "keyed peers \<longleftrightarrow> (\<forall>k v. fmlookup peers k = Some v \<longrightarrow> (vp_host v, vp_port v) = k)"

lemma vet_step_keyed: "keyed peers \<Longrightarrow> keyed (vet_step op peers)"
  by (cases op)
    (auto simp: keyed_def vetted_add_def vetted_remove_def vetted_success_def vetted_failure_def vetted_take_def
      vetted_insert_def split: option.splits)

lemma vetted_elsewhere:
  assumes "keyed peers" "(h, p) \<noteq> k"
  shows "fmlookup (vetted_success h p now peers) k = fmlookup peers k"
    "fmlookup (vetted_failure h p now peers) k = fmlookup peers k"
  using assms by (auto simp: keyed_def vetted_success_def vetted_failure_def vetted_take_def vetted_insert_def
      split: option.split)

lemma vet_step_agree:
  assumes "vet_agree k peers past" "keyed peers"
  shows "vet_agree k (vet_step op peers) (vet_history k op past)"
proof (cases op)
  case (VetAdd h p now)
  then show ?thesis
    using assms(1) by (auto simp: vet_agree_def vetted_add_def signed_streak_def saturated_def i32_max_def i32_min_def
        split: option.splits)
next
  case (VetRemove h p)
  then show ?thesis
    using assms(1) by (auto simp: vet_agree_def vetted_remove_def split: option.splits)
next
  case (VetSuccess h p now)
  show ?thesis
  proof (cases "(h, p) = k")
    case True
    then show ?thesis
      using assms VetSuccess unfolding vet_agree_def
      by (cases "fmlookup peers k"; cases past)
        (auto simp: vetted_success_def vetted_take_def vetted_insert_def streak_True saturated_def i32_max_def i32_min_def)
  next
    case False
    then show ?thesis
      using assms(1) VetSuccess vetted_elsewhere [OF assms(2) False] by (simp add: vet_agree_def)
  qed
next
  case (VetFailure h p now)
  show ?thesis
  proof (cases "(h, p) = k")
    case True
    then show ?thesis
      using assms VetFailure unfolding vet_agree_def
      by (cases "fmlookup peers k"; cases past)
        (auto simp: vetted_failure_def vetted_take_def vetted_insert_def streak_False saturated_def i32_max_def i32_min_def)
  next
    case False
    then show ?thesis
      using assms(1) VetFailure vetted_elsewhere [OF assms(2) False] by (simp add: vet_agree_def)
  qed
qed

lemma vet_run_agree: "vet_agree k (fold vet_step ops introducer_peers_new) (fold (vet_history k) ops None)
    \<and> keyed (fold vet_step ops introducer_peers_new)"
proof (induction ops rule: rev_induct)
  case (snoc op ops)
  then show ?case
    using vet_step_agree vet_step_keyed by simp
qed (simp add: vet_agree_def keyed_def introducer_peers_new_def)

text \<open>
  The introducer's counter is the peer's current streak. After any run of additions, removals
  and probes an address is listed exactly when it was added and not removed since, its counter is
  the length of its current run of equal outcomes, negative for failures and held within 32 bits;
  and it is handed out exactly when its latest probe succeeded.
\<close>

theorem vetted_is_streak:
  "map_option vetted (fmlookup (fold vet_step ops introducer_peers_new) k)
     = map_option (\<lambda>outcomes. saturated (signed_streak outcomes)) (fold (vet_history k) ops None)
   \<and> (k |\<in>| get_vetted_peers (fold vet_step ops introducer_peers_new)
       \<longleftrightarrow> (\<exists>past. fold (vet_history k) ops None = Some (True # past)))"
proof -
  have pos: "0 < saturated (signed_streak past) \<longleftrightarrow> (\<exists>rest. past = True # rest)" for past
    by (cases past) (auto simp: signed_streak_def saturated_def i32_max_def i32_min_def split: bool.split)
  have agree: "vet_agree k (fold vet_step ops introducer_peers_new) (fold (vet_history k) ops None)"
    by (rule vet_run_agree [THEN conjunct1])
  then have "map_option vetted (fmlookup (fold vet_step ops introducer_peers_new) k)
     = map_option (\<lambda>outcomes. saturated (signed_streak outcomes)) (fold (vet_history k) ops None)"
    by (auto simp: vet_agree_def split: option.splits)
  moreover have "k |\<in>| get_vetted_peers (fold vet_step ops introducer_peers_new)
       \<longleftrightarrow> (\<exists>past. fold (vet_history k) ops None = Some (True # past))"
    using agree unfolding get_vetted_peers_def
    by (auto simp: vet_agree_def fmlookup_dom_iff pos split: option.splits)
  ultimately show ?thesis
    by blast
qed

section \<open>The client's exchange\<close>

text \<open>As the dialling side of a session, except that of the policy checks only the network id is made;
  \<open>response\<close> is the answer to the request sent then.\<close>

definition introducer_exchange ::
    "frame_env \<Rightarrow> ustring \<Rightarrow> bool \<Rightarrow> DigMessage option \<Rightarrow> 'r option \<Rightarrow> DialError + 'r" where
  "introducer_exchange env net sent first response =
     (if \<not> sent then Inl DialLink
      else case first of
        None \<Rightarrow> Inl (DialClient MissingHandshake)
      | Some msg \<Rightarrow>
          if msg_type msg \<noteq> fe_handshake env then Inl (non_handshake_first_frame env (msg_type msg))
          else (case fe_decode_handshake env (data msg) of
              None \<Rightarrow> Inl DialLink
            | Some theirs \<Rightarrow>
                if hs_node_type theirs \<noteq> CFullNode
                then Inl (DialClient (WrongNodeType CFullNode (hs_node_type theirs)))
                else if network_id theirs \<noteq> net then Inl (DialClient (WrongNetwork net (network_id theirs)))
                else (case response of None \<Rightarrow> Inl DialLink | Some r \<Rightarrow> Inr r)))"

datatype 'r introducer_result = Received 'r | IntroducerTimeout | Failed DialVerdict

definition query_peers ::
    "frame_env \<Rightarrow> ustring \<Rightarrow> bool \<Rightarrow> bool \<Rightarrow> DigMessage option \<Rightarrow> 'r option \<Rightarrow> 'r introducer_result" where
  "query_peers env net late sent first response =
     (if late then IntroducerTimeout
      else case introducer_exchange env net sent first response of
        Inl e \<Rightarrow> Failed (gossip_error_of e) | Inr r \<Rightarrow> Received r)"

text \<open>Registration: the same exchange, and then a request whose reply has to decode as an
  acknowledgement.\<close>

definition register_with_introducer ::
    "frame_env \<Rightarrow> ustring \<Rightarrow> (DigMessage \<Rightarrow> 'r option) \<Rightarrow> bool \<Rightarrow> bool \<Rightarrow> DigMessage option \<Rightarrow> DigMessage option
      \<Rightarrow> 'r introducer_result" where
  "register_with_introducer env net decode_ack late sent first reply =
     (if late then IntroducerTimeout
      else case introducer_exchange env net sent first (Option.bind reply decode_ack) of
        Inl e \<Rightarrow> Failed (gossip_error_of e) | Inr r \<Rightarrow> Received r)"

text \<open>An introducer that a session would refuse for its version is asked for peers all the same.\<close>

lemma introducer_version_unchecked:
  assumes "fe_decode_handshake env body = Some theirs" "hs_node_type theirs = CFullNode" "network_id theirs = net"
    and "\<not> is_compatible_protocol_version (protocol_version theirs)"
  shows "query_peers env net False True (Some \<lparr>msg_type = fe_handshake env, msg_id = None, data = body\<rparr>) (Some r)
      = Received r"
    and "\<exists>e. outbound_exchange env net True (Some \<lparr>msg_type = fe_handshake env, msg_id = None, data = body\<rparr>) = Inl e"
  using assms
  by (auto simp: query_peers_def introducer_exchange_def outbound_exchange_def validate_remote_handshake_def)

end
