(* ===== verification/Service_Queries.thy ===== *)
theory Service_Queries
  imports Peer_View Select_Peer Node_Discovery Gossip_Config Introducer
begin

text \<open>
  What a caller can read of a running node (\<open>service/gossip_handle.rs\<close>): the views of the
  connected pool, the pool's health, the statistics with the counters they add up
  (\<open>types/stats.rs\<close>, \<open>types/peer.rs\<close>, \<open>service/state.rs\<close>), and the two requests to the
  configured introducer.

  The views are taken of \<open>Service_State\<close>'s peer map in the order \<open>ids\<close>, the
  traffic of \<open>Fan_Out\<close>'s; \<open>fan_view\<close> says that they are of one state. The counters of received
  traffic and the relay's status are arguments. A sum of two counters wraps, as in a release build.
\<close>

section \<open>Views of the pool\<close>

record ConnectedPoolPeer =
  cp_peer_id :: peer_id
  cp_via :: Via
  cp_is_outbound :: bool
  cp_dial_addr :: "SocketAddr option"
  cp_session_addr :: SocketAddr

definition slot_via :: "MapSlot \<Rightarrow> Via" where
  "slot_via slot = (case slot of NatRow n \<Rightarrow> nat_via n | _ \<Rightarrow> ViaDirect)"

definition held_slots :: "peer_id list \<Rightarrow> ServiceState \<Rightarrow> (peer_id \<times> MapSlot) list" where
  "held_slots ids st = List.map_filter (\<lambda>p. map_option (Pair p) (fmlookup (svc_peers st) p)) ids"

definition connected_pool_peers_detailed :: "peer_id list \<Rightarrow> ServiceState \<Rightarrow> ConnectedPoolPeer list" where
  "connected_pool_peers_detailed ids st =
     map (\<lambda>(pid, slot). \<lparr>cp_peer_id = pid, cp_via = slot_via slot, cp_is_outbound = slot_is_outbound slot,
            cp_dial_addr = dial_addr slot, cp_session_addr = slot_remote slot\<rparr>) (held_slots ids st)"

definition dialable_pool_peers :: "peer_id list \<Rightarrow> ServiceState \<Rightarrow> (peer_id \<times> SocketAddr) list" where
  "dialable_pool_peers ids st =
     List.map_filter (\<lambda>p. map_option (Pair (cp_peer_id p)) (cp_dial_addr p)) (connected_pool_peers_detailed ids st)"

definition connected_pool_peers :: "peer_id list \<Rightarrow> ServiceState \<Rightarrow> (peer_id \<times> SocketAddr \<times> bool) list" where
  "connected_pool_peers ids st =
     map (\<lambda>(pid, slot). (pid, slot_remote slot, slot_is_outbound slot)) (held_slots ids st)"

definition connected_pool_peers_with_via :: "peer_id list \<Rightarrow> ServiceState \<Rightarrow> (peer_id \<times> Via) list" where
  "connected_pool_peers_with_via ids st = map (\<lambda>(pid, slot). (pid, slot_via slot)) (held_slots ids st)"

definition is_pool_peer :: "peer_id \<Rightarrow> ServiceState \<Rightarrow> bool" where
  "is_pool_peer p st \<longleftrightarrow> p |\<in>| fmdom (svc_peers st)"

definition peer_count :: "ServiceState \<Rightarrow> nat" where
  "peer_count st = map_len (svc_peers st)"

definition pool_stats :: "ServiceConfig \<Rightarrow> nat \<Rightarrow> ServiceState \<Rightarrow> PoolStats" where
  "pool_stats cfg now st =
     (let c = normalized (case cfg_peer_pool cfg of Some c \<Rightarrow> c | None \<Rightarrow> pool_config_default);
          backoff = pool_backoff (svc_pool st);
          backed_off = fcard (ffilter (\<lambda>k. case fmlookup backoff k of
                         Some b \<Rightarrow> is_dead b (max_dial_failures c) \<or> \<not> is_ready b now | None \<Rightarrow> False) (fmdom backoff))
      in \<lparr>stats_connected = map_len (svc_peers st), stats_in_flight = in_flight_count (svc_pool st),
          stats_target = target_peers c, stats_min = min_peers c, stats_max = max_peers c,
          stats_backed_off = backed_off\<rparr>)"

section \<open>Statistics\<close>

type_synonym io_totals = "nat \<times> nat \<times> nat \<times> nat"

text \<open>Messages sent and received, bytes written and read, each saturating.\<close>

definition add_io :: "PeerConnectionWireMetrics \<Rightarrow> io_totals \<Rightarrow> io_totals" where
  "add_io m = (\<lambda>(ms, mr, bw, br).
     (sat_add64 ms (wm_messages_sent m), sat_add64 mr (wm_messages_received m),
      sat_add64 bw (bytes_written m), sat_add64 br (bytes_read m)))"

definition aggregate_peer_connection_io :: "PeerConnectionWireMetrics list \<Rightarrow> io_totals" where
  "aggregate_peer_connection_io peers = fold add_io peers (0, 0, 0, 0)"

definition sum_live_peer_wire_metrics :: "('s, 'c) gossip_state \<Rightarrow> io_totals" where
  "sum_live_peer_wire_metrics g =
     (if PeersLock \<in> poisoned g then (0, 0, 0, 0)
      else fold (\<lambda>(_, slot). case slot of SlotLive m \<Rightarrow> add_io m | _ \<Rightarrow> (\<lambda>t. t)) (gs_peers g) (0, 0, 0, 0))"

record GossipStats =
  total_connections :: nat
  connected_peers :: nat
  inbound_connections :: nat
  outbound_connections :: nat
  st_messages_sent :: nat
  st_messages_received :: nat
  st_bytes_sent :: nat
  st_bytes_received :: nat
  known_addresses :: nat
  seen_messages :: nat
  st_relay_connected :: bool
  st_relay_peer_count :: nat
  relay_transport_peer_count :: nat

definition stats ::
    "('s, bytes32, unit) lru_ops \<Rightarrow> nat \<Rightarrow> nat \<Rightarrow> bool \<Rightarrow> Inner \<Rightarrow> ('s, 'c) gossip_state \<Rightarrow> ServiceState \<Rightarrow> GossipStats" where
  "stats seen_ops messages_received bytes_received relay_connected am g st =
     (let (live_ms, live_mr, live_bw, live_br) = sum_live_peer_wire_metrics g;
          io = \<lparr>total_connections = svc_total_connections st, connected_peers = 0, inbound_connections = 0,
                outbound_connections = 0, st_messages_sent = (live_ms + gs_messages_sent g) mod 2 ^ 64,
                st_messages_received = (live_mr + messages_received) mod 2 ^ 64,
                st_bytes_sent = (live_bw + gs_bytes_sent g) mod 2 ^ 64,
                st_bytes_received = (live_br + bytes_received) mod 2 ^ 64,
                known_addresses = 0, seen_messages = 0, st_relay_connected = False, st_relay_peer_count = 0,
                relay_transport_peer_count = 0\<rparr>
      in if PeersLock \<in> poisoned g then io
         else io\<lparr>connected_peers := map_len (svc_peers st),
                 inbound_connections := count_slots (\<lambda>_ s. \<not> slot_is_outbound s) (svc_peers st),
                 outbound_connections := count_slots (\<lambda>_ s. slot_is_outbound s) (svc_peers st),
                 known_addresses := manager_size am,
                 seen_messages := (if SeenLock \<in> poisoned g then 0 else lru_len seen_ops (gs_seen g)),
                 st_relay_connected := relay_connected,
                 st_relay_peer_count := relay_reachable_count st,
                 relay_transport_peer_count := count_slots (\<lambda>_ s. slot_via s = ViaRelay) (svc_peers st)\<rparr>)"

record RelayStats =
  rs_connected :: bool
  rs_messages_sent :: nat
  rs_messages_received :: nat
  rs_bytes_sent :: nat
  rs_bytes_received :: nat
  rs_reconnect_attempts :: nat
  rs_last_connected_at :: "nat option"
  rs_relay_peer_count :: nat
  rs_latency_ms :: "nat option"

definition relay_stats :: "('net, 'opts, 'cert) GossipConfig \<Rightarrow> RelayStats option" where
  "relay_stats config =
     (if relay config = None then None
      else Some \<lparr>rs_connected = False, rs_messages_sent = 0, rs_messages_received = 0, rs_bytes_sent = 0,
                 rs_bytes_received = 0, rs_reconnect_attempts = 0, rs_last_connected_at = None,
                 rs_relay_peer_count = 0, rs_latency_ms = None\<rparr>)"

section \<open>Asking the introducer\<close>

text \<open>Both requests make the same checks first; \<open>load\<close> reads the certificate. The call also passes
  the network id, the link options and the software version of the configuration, unchanged.\<close>

datatype ('e, 'r) introducer_outcome =
    ServiceDown
  | IntroducerNotConfigured
  | EndpointEmpty
  | CertError 'e
  | Asked 'r

record introducer_call =
  call_endpoint :: bytes
  call_timeout_secs :: nat
  call_registration :: "(IpAddr \<times> u16) option"

definition introducer_request ::
    "(bytes \<Rightarrow> bytes) \<Rightarrow> (path \<Rightarrow> path \<Rightarrow> 'e + 'cert) \<Rightarrow> ('net, 'opts, 'c) GossipConfig \<Rightarrow> (IpAddr \<times> u16) option \<Rightarrow> bool
      \<Rightarrow> ('e, introducer_call \<times> 'cert) introducer_outcome" where
  "introducer_request strip load config registration is_running =
     (if \<not> is_running then ServiceDown
      else case introducer config of
             None \<Rightarrow> IntroducerNotConfigured
           | Some intro \<Rightarrow>
               (if strip (ic_endpoint intro) = [] then EndpointEmpty
                else case load (cert_path config) (key_path config) of
                       Inl e \<Rightarrow> CertError e
                     | Inr cert \<Rightarrow>
                         Asked (\<lparr>call_endpoint = strip (ic_endpoint intro),
                                 call_timeout_secs = max (ic_request_timeout_secs intro) 1,
                                 call_registration = registration\<rparr>, cert)))"

definition discover_from_introducer ::
    "(bytes \<Rightarrow> bytes) \<Rightarrow> (path \<Rightarrow> path \<Rightarrow> 'e + 'cert) \<Rightarrow> ('net, 'opts, 'c) GossipConfig \<Rightarrow> bool
      \<Rightarrow> ('e, introducer_call \<times> 'cert) introducer_outcome" where
  "discover_from_introducer strip load config is_running = introducer_request strip load config None is_running"

definition register_at_introducer ::
    "(bytes \<Rightarrow> bytes) \<Rightarrow> (path \<Rightarrow> path \<Rightarrow> 'e + 'cert) \<Rightarrow> ('net, 'opts, 'c) GossipConfig \<Rightarrow> bool
      \<Rightarrow> ('e, introducer_call \<times> 'cert) introducer_outcome" where
  "register_at_introducer strip load config is_running =
     introducer_request strip load config
       (Some (sa_ip (listen_addr config), sa_port (listen_addr config))) is_running"

section \<open>What the statistics mean\<close>

lemma fold_live:
  "fold (\<lambda>(_, slot). case slot of SlotLive m \<Rightarrow> add_io m | _ \<Rightarrow> (\<lambda>t. t)) ps t
     = fold add_io (List.map_filter (\<lambda>(_, slot). case slot of SlotLive m \<Rightarrow> Some m | _ \<Rightarrow> None) ps) t"
  by (induction ps arbitrary: t) (auto simp: List.map_filter_def split: PeerSlot.splits)

lemma count_slots_split:
  "count_slots P m + count_slots (\<lambda>p s. \<not> P p s) m = map_len m"
proof -
  have "fmdom m = ffilter (slot_holds P m) (fmdom m) |\<union>| ffilter (slot_holds (\<lambda>p s. \<not> P p s) m) (fmdom m)"
    by (auto simp: slot_holds_def fmlookup_dom_iff)
  moreover have "ffilter (slot_holds P m) (fmdom m) |\<inter>| ffilter (slot_holds (\<lambda>p s. \<not> P p s) m) (fmdom m) = {||}"
    by (auto simp: slot_holds_def split: option.splits)
  ultimately show ?thesis
    unfolding count_slots_def map_len_def by (metis fcard_funion_disjoint)
qed


lemma sat_add64_min: "sat_add64 (min a u64_max) b = min (a + b) u64_max"
  by (auto simp: sat_add64_def)

lemma sent_total:
  "fst (fold add_io ms (min a u64_max, t)) = min (a + sum_list (map wm_messages_sent ms)) u64_max"
proof (induction ms arbitrary: a t)
  case (Cons m ms)
  obtain t' where "add_io m (min a u64_max, t) = (min (a + wm_messages_sent m) u64_max, t')"
    by (cases t) (auto simp: add_io_def sat_add64_min)
  then show ?case using Cons.IH [of "a + wm_messages_sent m" t'] by (simp add: add.assoc)
qed simp

text \<open>The traffic of the live slots, in the order of the map.\<close>

definition live_traffic :: "(peer_id \<times> PeerSlot) list \<Rightarrow> PeerConnectionWireMetrics list" where
  "live_traffic ps = List.map_filter (\<lambda>(_, slot). case slot of SlotLive m \<Rightarrow> Some m | _ \<Rightarrow> None) ps"

lemma sum_live_aggregate:
  "PeersLock \<notin> poisoned g \<Longrightarrow>
     sum_live_peer_wire_metrics g = aggregate_peer_connection_io (live_traffic (gs_peers g))"
  by (simp add: sum_live_peer_wire_metrics_def aggregate_peer_connection_io_def live_traffic_def fold_live)

lemma stats_fields:
  assumes "PeersLock \<notin> poisoned g"
  shows "connected_peers (stats so mr br rc am g st) = map_len (svc_peers st)"
    "inbound_connections (stats so mr br rc am g st) = count_slots (\<lambda>_ s. \<not> slot_is_outbound s) (svc_peers st)"
    "outbound_connections (stats so mr br rc am g st) = count_slots (\<lambda>_ s. slot_is_outbound s) (svc_peers st)"
    "relay_transport_peer_count (stats so mr br rc am g st) = count_slots (\<lambda>_ s. slot_via s = ViaRelay) (svc_peers st)"
    "st_messages_sent (stats so mr br rc am g st) = (fst (sum_live_peer_wire_metrics g) + gs_messages_sent g) mod 2 ^ 64"
proof -
  obtain a b c d where t: "sum_live_peer_wire_metrics g = (a, b, c, d)"
    by (rule prod_cases4)
  show "connected_peers (stats so mr br rc am g st) = map_len (svc_peers st)"
    "inbound_connections (stats so mr br rc am g st) = count_slots (\<lambda>_ s. \<not> slot_is_outbound s) (svc_peers st)"
    "outbound_connections (stats so mr br rc am g st) = count_slots (\<lambda>_ s. slot_is_outbound s) (svc_peers st)"
    "relay_transport_peer_count (stats so mr br rc am g st) = count_slots (\<lambda>_ s. slot_via s = ViaRelay) (svc_peers st)"
    "st_messages_sent (stats so mr br rc am g st) = (fst (sum_live_peer_wire_metrics g) + gs_messages_sent g) mod 2 ^ 64"
    using assms by (simp_all add: stats_def t)
qed

text \<open>
  The gauges of a snapshot agree. Inbound and outbound connections add up to the connected
  peers, these are the entries of the peer map, the peers behind a relay are among them, and the
  traffic of the live connections is the aggregate of their counters.
\<close>

theorem stats_consistent:
  assumes "fan_view g st" "PeersLock \<notin> poisoned g" "s = stats seen_ops mr br rc am g st"
  shows "inbound_connections s + outbound_connections s = connected_peers s
    \<and> connected_peers s = length (gs_peers g)
    \<and> relay_transport_peer_count s \<le> connected_peers s
    \<and> sum_live_peer_wire_metrics g = aggregate_peer_connection_io (live_traffic (gs_peers g))"
proof -
  have "length (gs_peers g) = card (set (map fst (gs_peers g)))"
    using assms(1) distinct_card [of "map fst (gs_peers g)"] by (simp add: fan_view_def)
  then have "length (gs_peers g) = map_len (svc_peers st)"
    using assms(1) by (simp add: fan_view_def map_len_def fcard.rep_eq)
  moreover have "count_slots P (svc_peers st) \<le> map_len (svc_peers st)" for P
    using count_slots_split [of P "svc_peers st"] by simp
  ultimately show ?thesis
    using count_slots_split [of "\<lambda>_. slot_is_outbound" "svc_peers st"] sum_live_aggregate [OF assms(2)]
    by (simp add: assms(3) stats_fields [OF assms(2)] add.commute)
qed

theorem stats_consistent_witness:
  "let g = demo_state\<lparr>gs_peers := [], gs_plumtree := PlumtreeState_new, running := False\<rparr>
   in connected_peers (stats list_lru 0 0 False (Inner_new []) g service_new) = 0"
proof -
  let ?g = "demo_state\<lparr>gs_peers := [], gs_plumtree := PlumtreeState_new, running := False\<rparr>"
  have view: "fan_view ?g service_new" and free: "PeersLock \<notin> poisoned ?g" and none: "gs_peers ?g = []"
    by (simp_all add: fan_view_def demo_state_def service_new_def)
  from stats_consistent [OF view free refl, of list_lru 0 0 False "Inner_new []"] show ?thesis
    unfolding Let_def none by (elim conjE) (simp only: list.size)
qed

text \<open>
  The cumulative totals are not cumulative. The statistics add the counters of the live
  connections to those of the service, and the former go with the connection: when a live peer
  leaves, the total of the messages sent falls by exactly what was sent to it.
\<close>

theorem sent_total_falls:
  assumes "gs_peers g = before @ (p, SlotLive m) # after" "PeersLock \<notin> poisoned g"
    and "sum_list (map wm_messages_sent (live_traffic (gs_peers g))) + gs_messages_sent g < 2 ^ 64"
  shows "st_messages_sent (stats so mr br rc am (g\<lparr>gs_peers := before @ after\<rparr>) st') + wm_messages_sent m
       = st_messages_sent (stats so mr br rc am g st)"
proof -
  let ?sum = "\<lambda>ps. sum_list (map wm_messages_sent (live_traffic ps))"
  have sent: "fst (sum_live_peer_wire_metrics h) = min (?sum (gs_peers h)) u64_max" if "PeersLock \<notin> poisoned h" for h :: "('a, 'b) gossip_state"
    using sent_total [of "live_traffic (gs_peers h)" 0 "(0, 0, 0)"]
    by (simp add: sum_live_aggregate [OF that] aggregate_peer_connection_io_def)
  have "?sum (gs_peers g) = ?sum (before @ after) + wm_messages_sent m"
    by (simp add: assms(1) live_traffic_def List.map_filter_def)
  moreover have "st_messages_sent (stats so mr br rc am g st) = ?sum (gs_peers g) + gs_messages_sent g"
    using assms(2,3) sent [of g] by (simp add: stats_fields u64_max_def)
  ultimately show ?thesis
    using assms(2,3) sent [of "g\<lparr>gs_peers := before @ after\<rparr>"] by (simp add: stats_fields u64_max_def)
qed

theorem sent_total_falls_witness:
  "let g = demo_state\<lparr>gs_peers := [([7], SlotLive ((wire_metrics_new 0)\<lparr>wm_messages_sent := 3\<rparr>))]\<rparr>
   in st_messages_sent (stats list_lru 0 0 False (Inner_new []) (g\<lparr>gs_peers := []\<rparr>) service_new) + 3
        = st_messages_sent (stats list_lru 0 0 False (Inner_new []) g service_new)"
  using sent_total_falls [of "demo_state\<lparr>gs_peers := [([7], SlotLive ((wire_metrics_new 0)\<lparr>wm_messages_sent := 3\<rparr>))]\<rparr>"
      "[]" "[7]" "(wire_metrics_new 0)\<lparr>wm_messages_sent := 3\<rparr>" "[]" list_lru 0 0 False "Inner_new []" service_new service_new]
  by (simp add: demo_state_def live_traffic_def List.map_filter_def Let_def)

section \<open>What the views offer\<close>

text \<open>An address offered for dialling is the peer's own: never a relay's endpoint, never the
  source port of an accepted connection.\<close>

lemma dialable_exact:
  "(p, a) \<in> set (dialable_pool_peers ids st) \<longleftrightarrow>
     p \<in> set ids \<and> (\<exists>slot. fmlookup (svc_peers st) p = Some slot \<and> dial_addr slot = Some a)"
  by (force simp: dialable_pool_peers_def connected_pool_peers_detailed_def held_slots_def List.map_filter_def image_iff)

lemma dialable_not_relayed:
  "(p, a) \<in> set (dialable_pool_peers ids st) \<Longrightarrow> fmlookup (svc_peers st) p = Some slot \<Longrightarrow>
     \<not> is_relayed slot \<and> a = slot_remote slot"
  by (auto simp: dialable_exact dial_addr_def split: if_splits)

text \<open>What is registered with the introducer is the configured listen address, which by default is
  the unspecified one, and not the address that was bound.\<close>

lemma unspecified_address_registered:
  assumes "register_at_introducer strip load (gossip_config_default mainnet opts v\<lparr>introducer := Some i\<rparr>) True
      = Asked (call, cert)"
  shows "\<exists>ip. call_registration call = Some (ip, DEFAULT_P2P_PORT) \<and> ip_is_unspecified ip"
  using assms
  by (auto simp: register_at_introducer_def introducer_request_def gossip_config_default_def ip_is_unspecified_def
      split: if_splits sum.splits)

end
