(* ===== verification/Spec2Isabelle.thy ===== *)
theory Spec2Isabelle
  imports Directed_Send Reputation Admission_Rules Inbound_Gate Inbound_Session Relay_Client
    Service_Lifecycle Pool_Maintenance Service_Queries
begin

text \<open>
  Verification of the DIG gossip node (the crate under \<open>src/src/\<close>), as HOL definitions
  translated from the Rust source and theorems about them.

  \<^bold>\<open>The program.\<close> A node keeps a map of connected peers. It finds addresses through DNS
  seeds, an introducer and its peers, files them in the address manager, lets the peer pool choose
  whom to dial, admits dialled, accepted and mux connections under caps, limits what each peer may
  send, keeps every peer's reputation, and spreads messages over a Plumtree overlay with a set of
  seen hashes. Six DIG message families travel over it. A service is constructed,
  started and stopped once.

  \<^bold>\<open>The theories\<close>, in the order of their imports:
  \<^item> \<open>Prelude\<close>: words, big-endian fields, cursor reads with their \<open>cursor_simps\<close>, saturating
    arithmetic, least and greatest element by key, and the codec locales (\<open>wire_reader\<close>,
    \<open>weak_codec\<close>, \<open>strict_codec\<close>: a decoder that accepts exactly the encodings), which
    the wire formats below interpret.
  \<^item> \<open>Dig_Message\<close>, \<open>Store_Melted\<close>, \<open>Holdings_Announce\<close>, \<open>Profile_Sync\<close>,
    \<open>Distributor_Announce\<close>: the opcodes 220 to 226 (\<open>service/dig_message.rs\<close>,
    \<open>store_melted.rs\<close>, \<open>holdings_announce.rs\<close>, \<open>profile_sync.rs\<close>,
    \<open>distributor_announce.rs\<close>): framing, codecs, signatures, the stream reassembler and the
    hint cache.
  \<^item> \<open>Priority_Lanes\<close> (\<open>gossip/priority.rs\<close>, \<open>backpressure.rs\<close>), \<open>Broadcaster\<close>
    (\<open>gossip/broadcaster.rs\<close>, \<open>types/dig_messages.rs\<close>), \<open>Plumtree\<close>
    (\<open>gossip/plumtree.rs\<close>, \<open>seen_set.rs\<close>, \<open>message_cache.rs\<close>), \<open>Fan_Out\<close> (the
    broadcast of \<open>service/gossip_handle.rs\<close>).
  \<^item> \<open>Reputation\<close> (\<open>types/reputation.rs\<close>).
  \<^item> \<open>Peer_Info\<close>, \<open>Address_Manager\<close>, \<open>Address_Book\<close>, \<open>Address_Promotion\<close>,
    \<open>Select_Peer\<close>, \<open>Address_Snapshot\<close> (\<open>types/peer.rs\<close>,
    \<open>discovery/address_manager.rs\<close>, \<open>address_manager_store.rs\<close>): the tried and new
    tables, their invariant over every run of operations, promotion and eviction, the selection of
    an address, and the snapshot on disk.
  \<^item> \<open>Ip_Group\<close> (\<open>util/ip_address.rs\<close>, \<open>as_lookup.rs\<close>, \<open>latency.rs\<close>) and
    \<open>Peer_Pool\<close> (\<open>service/peer_pool.rs\<close>): groups, autonomous systems, the planner of
    dials, displacement, activity guards, backoff, the maintenance pass.
  \<^item> \<open>Service_State\<close> (\<open>service/state.rs\<close> and parts of \<open>gossip_handle.rs\<close>): slots,
    bans, penalties, the reaper, disconnects. \<open>Admission\<close>, \<open>Admission_Caps\<close>,
    \<open>Admission_Rules\<close>: every path that puts a peer into the map, and their interleavings
    (\<open>node_run\<close>).
  \<^item> \<open>Inbound_Gate\<close> (\<open>connection/dig_rate_limiter.rs\<close>, \<open>inbound_limits.rs\<close>, the
    forwarding loops), \<open>Handshake\<close> (\<open>connection/handshake.rs\<close>, \<open>outbound.rs\<close>,
    \<open>dial_error.rs\<close>), \<open>Inbound_Session\<close> (\<open>connection/listener.rs\<close>),
    \<open>Keepalive\<close> (\<open>connection/keepalive.rs\<close>).
  \<^item> \<open>Node_Discovery\<close> (\<open>discovery/node_discovery.rs\<close>), \<open>Introducer\<close>
    (\<open>discovery/introducer_peers.rs\<close>, \<open>introducer_client.rs\<close>), \<open>Tx_Relay\<close>
    (\<open>gossip/erlay.rs\<close>, \<open>compact_block.rs\<close>, \<open>privacy/dandelion.rs\<close>, \<open>tor.rs\<close>).
  \<^item> \<open>Peer_View\<close>: the two views of the peer map, the one admission reads and the one senders
    read. \<open>Directed_Send\<close> (\<open>service/gossip_handle.rs\<close>): directed envelopes and streams,
    requests, and the one shape each consensus opcode has on the wire.
  \<^item> \<open>Relay_Discovery\<close> (\<open>relay/relay_types.rs\<close>, \<open>nat/peer_record.rs\<close>,
    \<open>nat/discovery.rs\<close>, the fold of \<open>gossip_handle.rs\<close>): peers learned from a relay and the
    identities dials are pinned to. \<open>Relay_Client\<close> (\<open>relay/relay_client.rs\<close>,
    \<open>relay_service.rs\<close>): the client, reconnecting, hole punching.
  \<^item> \<open>Pool_Maintenance\<close> (\<open>gossip_handle.rs\<close>): the candidates of the pool, its dialer and
    \<open>run_pool_maintenance_once\<close>, which composes the address manager, the relay's identities, the
    planner and the admission.
  \<^item> \<open>Gossip_Config\<close> (\<open>types/config.rs\<close>, construction in \<open>service/gossip_service.rs\<close> and
    \<open>state.rs\<close>), \<open>Service_Lifecycle\<close> (\<open>start\<close> and \<open>stop\<close>), \<open>Service_Queries\<close>
    (views, statistics, the requests to the introducer).
  \<^item> This theory: what spans admission and broadcast.

  \<^bold>\<open>How the source is translated.\<close> A struct is a record and an enum a datatype with the
  source's fields and variants; a method is a definition that takes and returns the record; a
  \<open>HashMap\<close> is a finite map and a \<open>HashSet\<close> a finite set; a fallible method returns a sum or
  an option, and a panic (an \<open>expect\<close>, an index out of range) is \<open>None\<close>. Words are used where
  the width matters on the wire; counters that saturate or wrap say so with \<open>sat_add64\<close>,
  \<open>dec32\<close> and the like. A lock held over a block makes the block one step; interleavings of
  such steps are lists of operations (\<open>am_op\<close>, \<open>run_ops\<close>) or a step relation
  (\<open>node_run\<close>; \<open>act_reach\<close>, the pool's admissions and departures with the activity guards;
  \<open>system_reach\<close>, in which the steps of any number of starts, stops, handshakes, dials and session
  tasks interleave). \<open>f64\<close> values are exact rationals.

  \<^bold>\<open>Parameters.\<close> What is not in the repository, and what comes from outside, is an argument:
  hashes, BLS and ECDSA (\<open>Store_Melted\<close>, \<open>Holdings_Announce\<close>), IP parsing and SHA-256
  (\<open>net_env\<close>), the LRU cache (its operations and their laws, met by a list), Chia's
  rate limiter (\<open>chia_allow\<close>), the dialer, the random generator (\<open>rng_ops\<close>), Chia's frame
  codec (\<open>frame_env\<close>, \<open>session_env\<close>), bincode and file-system failures (\<open>store_env\<close>),
  the connections of \<open>dig_nat\<close> (\<open>pass_env\<close>, which pins identities), clock readings and random
  draws. A theorem that needs a law of such a parameter assumes it by
  name, and its witness instantiates the parameter.

  \<^bold>\<open>What the groups of theorems show.\<close> Codecs: a decoder accepts exactly the canonical
  encodings, and a signature binds every field. Reassembly and lanes: exact delivery under any
  arrival order, bounded buffers, no starvation. Address manager: the table invariant, the host
  index and the bounds hold after any run; ingestion never panics; a saved book comes back; where the
  code can panic or lose the file is stated exactly. Pool and admission: caps,
  diversity and churn limits hold in every reachable state of any interleaving, the planner equals a
  greedy specification, a peer with a request in flight is displaced only where a guard of one of
  its earlier sessions took the request's count away. Gate and reputation: floods
  are bounded, a ban ends exactly when it should. Handshake, session and keepalive: who is accepted,
  that two nodes always agree, that a failed session leaves nothing behind, who is given up. Streams:
  what is sent to a peer in pieces arrives whole. Relay and pool: whom the pool connects by itself, and
  how a relay can use up the budget for addresses. Lifecycle: one start succeeds, a stop is final when
  no call overlaps it, which tasks it leaves, and what it misses when calls overlap.
  Theorems whose text describes a surprise (a peer that is never reached, a row under port 0, a panic)
  state what the code does at that point; the findings of the manifest list them.

  \<^bold>\<open>Bounds and fuel.\<close> \<open>node_run\<close> has at most \<open>K\<close> dials and \<open>H\<close> inbound handshakes in
  flight, both arbitrary. \<open>select_loop\<close> has the code's own limit of 50000 rounds, of which 45
  are enough once the positions are cached; the walk to an occupied cell is a
  \<open>partial_function\<close> whose value is \<open>None\<close> when it does not end; \<open>Select_Peer\<close> proves
  that the selection of an untried address ends while the new table has fewer than 256 cells. Runs of the address manager assume fewer than
  \<open>2 ^ 32 - 1\<close> announcements, the width of its id counter. \<open>gather_loop\<close> has the code's own
  number of attempts, and \<open>system_reach\<close> any number of calls. Everything else is structural
  recursion over finite inputs.

  \<^bold>\<open>Not modelled\<close>: TLS, certificates, the WebSocket upgrade, sockets and DNS (I/O of third-party
  crates); \<open>nat/transport.rs\<close>, which only calls \<open>dig_nat\<close>, a crate that is not in the repository,
  and the relay's WebSocket and JSON; the wire records of \<open>dig-peer-protocol\<close> and
  \<open>chia-protocol\<close>; logging, the text of errors and test hooks. A maintenance pass runs without
  other tasks in between: what these may do to the peer map is \<open>node_run\<close>.
\<close>

section \<open>Admission meets the broadcast\<close>

text \<open>A live peer outside the eager set gets nothing from a fan-out; an eager one whose links
  work gets the message.\<close>

lemma deliver_skips_lazy:
  assumes "fan_view g st" "fmlookup (svc_peers st) p = Some (LiveRow l)" "\<not> is_eager (svc_plumtree st) p"
    and "deliver env msg exclude g = (res, rs, g')"
  shows "p \<notin> set rs"
proof -
  have kind: "\<exists>m. slot = SlotLive m" if "(p, slot) \<in> set (gs_peers g)" for slot
    using fan_view_kind [OF assms(1) that assms(2)] by (simp split: PeerSlot.splits)
  have pt: "gs_plumtree g = svc_plumtree st"
    using assms(1) by (simp add: fan_view_def)
  have none: "p \<notin> set (stub_peers (fan_targets exclude g))" "p \<notin> set (nat_jobs (fan_targets exclude g))"
    "p \<notin> set (eager_jobs (gs_plumtree g) (fan_targets exclude g))"
    using kind [of SlotStub] kind [of "SlotNat True"] assms(3)
    by (auto simp: stub_peers_def nat_jobs_def eager_jobs_def fan_targets_def pt split: PeerSlot.splits)
  then show ?thesis
    using deliver_spec [OF assms(4)] by (auto split: if_splits dest: set_takeWhileD)
qed

lemma fan_out_skips_lazy:
  assumes view: "fan_view g st" and live: "fmlookup (svc_peers st) p = Some (LiveRow l)"
    and lazy: "\<not> is_eager (svc_plumtree st) p"
    and run: "fan_out env seen_ops cache_ops msg exclude origin g = (res, rs, g')"
  shows "p \<notin> set rs"
proof -
  have "rs = [] \<or> (\<exists>s c. deliver env msg exclude (g\<lparr>gs_seen := s, gs_cache := c\<rparr>) = (res, rs, g'))"
    using run by (auto simp: fan_out_def Let_def split: if_splits)
  moreover have "fan_view (g\<lparr>gs_seen := s, gs_cache := c\<rparr>) st" for s c
    using view by (simp add: fan_view_def)
  ultimately show ?thesis
    using deliver_skips_lazy [OF _ live lazy] by (metis empty_iff empty_set)
qed

text \<open>A peer dialled out is eager, and every delivery over working links reaches it.\<close>

lemma connected_peer_reached:
  assumes "fst (connect_admit cfg p addr now st) = Inr p" "fan_view g (snd (connect_admit cfg p addr now st))"
    and "exclude \<noteq> Some p" "\<And>q. env_send env q msg"
  shows "\<exists>rs g'. deliver env msg exclude g = (Inr (length rs), rs, g') \<and> p \<in> set rs"
proof -
  let ?st = "snd (connect_admit cfg p addr now st)"
  have row: "\<exists>l. fmlookup (svc_peers ?st) p = Some (LiveRow l)" and eager: "is_eager (svc_plumtree ?st) p"
    using assms(1)
    by (auto simp: connect_admit_def next_peer_generation_def insert_and_retire_def announce_admission_def
        is_eager_def add_peer_def Let_def split: option.splits)
  then obtain slot where "(p, slot) \<in> set (gs_peers g)" "\<exists>l. same_kind (LiveRow l) slot"
    using fan_view_entry [OF assms(2)] by metis
  then obtain m where "(p, SlotLive m) \<in> set (gs_peers g)"
    by (cases slot) auto
  moreover have "gs_plumtree g = svc_plumtree ?st" "distinct (map fst (gs_peers g))"
    using assms(2) by (simp_all add: fan_view_def)
  ultimately have "p \<in> fst ` {t \<in> set (gs_peers g). exclude \<noteq> Some (fst t) \<and> reaches env msg (gs_plumtree g) t}"
    using assms(3) eager by (force simp: reaches_def image_iff)
  moreover obtain res rs g' where run: "deliver env msg exclude g = (res, rs, g')"
    by (metis prod_cases3)
  ultimately show ?thesis
    using deliver_spec [OF run] fan_reached [of exclude g "gs_plumtree g" env msg] assms(4)
    by (simp add: list_all_iff)
qed

text \<open>
  C28: a peer the listener inserts receives no broadcast. It is not put into the eager
  set (an outbound connection is), so unless it already was there no fan-out hands it a
  message.
\<close>

theorem inbound_peer_unreached:
  assumes "fan_view g (listener_insert p addr st)" "\<not> is_eager (svc_plumtree st) p"
    and "fan_out env seen_ops cache_ops msg exclude origin g = (res, rs, g')"
  shows "p \<notin> set rs"
proof -
  have "\<exists>l. fmlookup (svc_peers (listener_insert p addr st)) p = Some (LiveRow l)"
    by (simp add: listener_insert_def next_peer_generation_def Let_def)
  then show ?thesis
    using fan_out_skips_lazy [OF assms(1) _ _ assms(3)] assms(2) listener_skips_books(1) [of p addr st]
    by auto
qed

theorem inbound_peer_unreached_witness:
  "let g = demo_state\<lparr>gs_peers := [([7], SlotLive (wire_metrics_new 0))], gs_plumtree := PlumtreeState_new\<rparr>
   in [7] \<notin> set (fst (snd (fan_out demo_env list_lru list_lru (frame_envelope [9] None) None Local g)))"
proof -
  let ?g = "demo_state\<lparr>gs_peers := [([7], SlotLive (wire_metrics_new 0))], gs_plumtree := PlumtreeState_new\<rparr>"
  let ?st = "service_new\<lparr>svc_running := True\<rparr>"
  have "fan_view ?g (listener_insert [7] (SocketAddr (V4 [1, 2, 3, 4]) 9) ?st)"
    by (simp add: fan_view_def demo_state_def listener_insert_def next_peer_generation_def service_new_def)
  moreover have "\<not> is_eager (svc_plumtree ?st) [7]"
    by (simp add: service_new_def is_eager_def PlumtreeState_new_def with_lazy_timeout_def)
  moreover obtain res rs g' where
    "fan_out demo_env list_lru list_lru (frame_envelope [9] None) None Local ?g = (res, rs, g')"
    by (rule prod_cases3)
  ultimately show ?thesis
    using inbound_peer_unreached [of ?g "[7]" _ ?st] by simp
qed

end
